(* ===== verification/Prelude.thy ===== *)
theory Prelude
  imports Complex_Main "HOL-Library.Word" "HOL-Library.Signed_Division" "HOL-Library.AList"
    "HOL-Library.Multiset" "HOL-Library.Monad_Syntax"
begin

text \<open>
  Shared vocabulary of the development: the Go machine types, error values, byte strings,
  the few functions of Go's \<open>strings\<close> and \<open>bytes\<close> packages the program calls, and Go maps.

  \<^item> A Go \<open>byte\<close>, \<open>uint16\<close>, \<open>uint32\<close> is a word of that width. A Go \<open>int\<close> is a 64-bit value
    that here only ever holds buffer lengths and counters, so it is an unbounded \<open>int\<close>.
  \<^item> A Go string is a sequence of bytes: a \<^typ>\<open>string\<close> (a list of 8-bit characters).
  \<^item> A Go map is an association list with distinct keys. \<open>range\<close> visits the entries in an
    unspecified order; the model visits them in list order, and the properties of the
    development are stated so that they do not depend on that order.
  \<^item> An \<open>error\<close> is a value of \<open>go_error\<close>; functions with several results return tuples.
\<close>

unbundle bit_operations_syntax

section \<open>Collections of facts\<close>

named_theorems gomap_simps \<open>lookup and update of Go maps\<close>
named_theorems codec_simps \<open>decoding what was just encoded\<close>
named_theorems level_simps \<open>splitting topics into levels\<close>

section \<open>Machine types and errors\<close>

type_synonym byte = "8 word"
type_synonym uint16 = "16 word"
type_synonym uint32 = "32 word"
type_synonym bytes = "8 word list"

datatype go_error = EOF | UnexpectedEOF | Errorf string

section \<open>Strings and bytes\<close>

definition byte_of_char :: "char \<Rightarrow> byte" where
  "byte_of_char c = word_of_nat (of_char c)"

definition char_of_byte :: "byte \<Rightarrow> char" where
  "char_of_byte b = char_of (unat b)"

text \<open>The conversions \<open>[]byte(s)\<close> and \<open>string(b)\<close>.\<close>

definition bytes_of_string :: "string \<Rightarrow> bytes" where
  "bytes_of_string s = map byte_of_char s"

definition string_of_bytes :: "bytes \<Rightarrow> string" where
  "string_of_bytes bs = map char_of_byte bs"

text \<open>\<open>strings.Split(s, sep)\<close> for a separator of one byte.\<close>

fun go_split :: "char \<Rightarrow> string \<Rightarrow> string list" where
  "go_split c [] = [[]]"
| "go_split c (x # xs) =
     (if x = c then [] # go_split c xs
      else (case go_split c xs of [] \<Rightarrow> [[x]] | l # ls \<Rightarrow> (x # l) # ls))"

text \<open>\<open>strings.HasPrefix\<close> and \<open>strings.Join\<close>.\<close>

definition go_hasPrefix :: "string \<Rightarrow> string \<Rightarrow> bool" where
  "go_hasPrefix s p \<longleftrightarrow> take (length p) s = p"

fun go_join :: "char \<Rightarrow> string list \<Rightarrow> string" where
  "go_join c [] = []"
| "go_join c [l] = l"
| "go_join c (l # m # ls) = l @ c # go_join c (m # ls)"

text \<open>\<open>strings.Replace(s, old, new, -1)\<close> for a non-empty \<open>old\<close>: left to right, no overlaps.\<close>

function go_replaceAll :: "string \<Rightarrow> string \<Rightarrow> string \<Rightarrow> string" where
  "go_replaceAll old new s =
     (if s = [] \<or> old = [] then s
      else if go_hasPrefix s old then new @ go_replaceAll old new (drop (length old) s)
      else hd s # go_replaceAll old new (tl s))"
  by pat_completeness auto
termination
  by (relation "measure (\<lambda>(old, new, s). length s)") auto

declare go_replaceAll.simps [simp del]

text \<open>The decimal form of a number, as \<open>%d\<close> prints it.\<close>

definition digit_char :: "nat \<Rightarrow> char" where
  "digit_char d = char_of (48 + d)"

fun go_itoa :: "nat \<Rightarrow> string" where
  "go_itoa n = (if n < 10 then [digit_char n] else go_itoa (n div 10) @ [digit_char (n mod 10)])"

declare go_itoa.simps [simp del]

text \<open>Reading decimal digits back.\<close>

definition digit_val :: "char \<Rightarrow> nat" where
  "digit_val c = of_char c - 48"

definition go_atoi :: "string \<Rightarrow> nat" where
  "go_atoi s = foldl (\<lambda>a c. a * 10 + digit_val c) 0 s"

section \<open>Go maps\<close>

type_synonym ('k, 'v) gomap = "('k \<times> 'v) list"

abbreviation gm_get :: "('k, 'v) gomap \<Rightarrow> 'k \<Rightarrow> 'v option" where
  "gm_get m k \<equiv> map_of m k"

abbreviation gm_put :: "'k \<Rightarrow> 'v \<Rightarrow> ('k, 'v) gomap \<Rightarrow> ('k, 'v) gomap" where
  "gm_put k v m \<equiv> AList.update k v m"

abbreviation gm_del :: "'k \<Rightarrow> ('k, 'v) gomap \<Rightarrow> ('k, 'v) gomap" where
  "gm_del k m \<equiv> AList.delete k m"

abbreviation gm_wf :: "('k, 'v) gomap \<Rightarrow> bool" where
  "gm_wf m \<equiv> distinct (map fst m)"

section \<open>Generic lemmas\<close>

text \<open>Lookups stay lookups; they are not turned into membership in the association list.\<close>

declare map_of_eq_Some_iff [simp del]
declare Some_eq_map_of_iff [simp del]

lemma gm_get_put [gomap_simps, simp]:
  "gm_get (gm_put k v m) k' = (if k' = k then Some v else gm_get m k')"
  by (simp add: update_conv')

lemma gm_get_del [gomap_simps, simp]:
  "gm_get (gm_del k m) k' = (if k' = k then None else gm_get m k')"
  by (simp add: delete_conv')

lemma gm_wf_put [gomap_simps, simp, intro]: "gm_wf m \<Longrightarrow> gm_wf (gm_put k v m)"
  by (rule distinct_update)

lemma gm_wf_del [gomap_simps, simp, intro]: "gm_wf m \<Longrightarrow> gm_wf (gm_del k m)"
  by (rule distinct_delete)

lemma gm_get_mem: "gm_wf m \<Longrightarrow> (k, v) \<in> set m \<longleftrightarrow> gm_get m k = Some v"
  by (metis map_of_SomeD map_of_is_SomeI)

lemma gm_get_None: "gm_get m k = None \<longleftrightarrow> k \<notin> fst ` set m"
  by (rule map_of_eq_None_iff)

lemma gm_del_absent: "gm_get m k = None \<Longrightarrow> gm_del k m = m"
  by (simp add: gm_get_None delete_idem)

lemma gm_length_put:
  "gm_wf m \<Longrightarrow> length (gm_put k v m) = (if gm_get m k = None then Suc (length m) else length m)"
  by (induction m) auto

lemma char_of_byte_of_char [codec_simps, simp]: "char_of_byte (byte_of_char c) = c"
proof -
  have "unat (word_of_nat (of_char c) :: byte) = of_char c mod 256"
    by (simp add: unat_of_nat)
  then show ?thesis by (simp add: char_of_byte_def byte_of_char_def)
qed

lemma byte_of_char_of_byte [codec_simps, simp]: "byte_of_char (char_of_byte b) = b"
proof -
  have "unat b < 256" using unsigned_less [of b, where 'a = nat] by simp
  then have "of_char (char_of (unat b) :: char) = unat b" by simp
  then show ?thesis by (simp add: char_of_byte_def byte_of_char_def)
qed

lemma string_of_bytes_of_string [codec_simps, simp]: "string_of_bytes (bytes_of_string s) = s"
  by (induction s) (auto simp: string_of_bytes_def bytes_of_string_def)

lemma bytes_of_string_of_bytes [codec_simps, simp]: "bytes_of_string (string_of_bytes b) = b"
  by (induction b) (auto simp: string_of_bytes_def bytes_of_string_def)

lemma length_bytes_of_string [simp]: "length (bytes_of_string s) = length s"
  by (simp add: bytes_of_string_def)

lemma length_string_of_bytes [simp]: "length (string_of_bytes s) = length s"
  by (simp add: string_of_bytes_def)

lemma go_split_ne [simp]: "go_split c s \<noteq> []"
  by (cases s) (auto split: list.splits)

lemma go_split_no_sep: "c \<notin> set s \<Longrightarrow> go_split c s = [s]"
  by (induction s) auto

lemma go_split_append: "c \<notin> set s \<Longrightarrow> go_split c (s @ c # t) = s # go_split c t"
  by (induction s) auto

lemma go_split_parts_no_sep: "l \<in> set (go_split c s) \<Longrightarrow> c \<notin> set l"
  by (induction s arbitrary: l) (auto split: list.splits if_splits)

lemma go_join_Cons: "ls \<noteq> [] \<Longrightarrow> go_join c (l # ls) = l @ c # go_join c ls"
  by (cases ls) auto

lemma go_join_split [simp]: "go_join c (go_split c s) = s"
proof (induction s)
  case (Cons x s)
  obtain l ls where ls: "go_split c s = l # ls"
    using go_split_ne by (meson list.exhaust)
  show ?case
  proof (cases "x = c")
    case True
    with Cons ls show ?thesis by (simp add: go_join_Cons)
  next
    case False
    with Cons ls show ?thesis by (cases ls) auto
  qed
qed simp

lemma go_split_join:
  "ls \<noteq> [] \<Longrightarrow> (\<And>l. l \<in> set ls \<Longrightarrow> c \<notin> set l) \<Longrightarrow> go_split c (go_join c ls) = ls"
proof (induction c ls rule: go_join.induct)
  case (3 c l m ls)
  then show ?case by (simp add: go_split_append)
qed (auto simp: go_split_no_sep)

lemma digit_val_char [simp]: "d < 10 \<Longrightarrow> digit_val (digit_char d) = d"
  by (simp add: digit_val_def digit_char_def)

lemma go_atoi_itoa [simp]: "go_atoi (go_itoa n) = n"
proof (induction n rule: go_itoa.induct)
  case (1 n)
  then show ?case
    by (cases "n < 10") (simp_all add: go_itoa.simps [of n] go_atoi_def)
qed

lemma go_itoa_inject [simp]: "go_itoa m = go_itoa n \<longleftrightarrow> m = n"
  by (metis go_atoi_itoa)

lemma digits_inject:
  "x * k + y = x' * k + y' \<Longrightarrow> y < k \<Longrightarrow> y' < k \<Longrightarrow> x = x' \<and> y = (y' :: nat)"
  by (metis add.commute add_left_cancel div_less div_mult_self3 gr_implies_not0 add_0)

lemma gm_length_card: "gm_wf m \<Longrightarrow> length m = card (dom (gm_get m))"
  by (metis card_image dom_map_of_conv_image_fst distinct_card length_map list.set_map)

section \<open>Loops that may fail\<close>

text \<open>A loop over a slice whose body may panic: the first panic ends it.\<close>

fun fold_opt :: "('a \<Rightarrow> 's \<Rightarrow> 's option) \<Rightarrow> 'a list \<Rightarrow> 's \<Rightarrow> 's option" where
  "fold_opt f [] s = Some s"
| "fold_opt f (x # xs) s = Option.bind (f x s) (fold_opt f xs)"

text \<open>Indexing a slice, with the panic for an index out of range.\<close>

definition nth_opt :: "'a list \<Rightarrow> nat \<Rightarrow> 'a option" where
  "nth_opt xs i = (if i < length xs then Some (xs ! i) else None)"

lemma fold_opt_append [simp]:
  "fold_opt f (xs @ ys) s = Option.bind (fold_opt f xs s) (fold_opt f ys)"
  by (induction xs arbitrary: s) (auto split: Option.bind_splits)

lemma fold_opt_inv:
  assumes "\<And>x s. x \<in> set xs \<Longrightarrow> I s \<Longrightarrow> \<exists>s'. f x s = Some s' \<and> I s'" "I s"
  shows "\<exists>s'. fold_opt f xs s = Some s' \<and> I s'"
  using assms
proof (induction xs arbitrary: s)
  case (Cons x xs)
  then obtain s1 where "f x s = Some s1" "I s1" by force
  with Cons show ?case by simp
qed simp

lemma fold_opt_rel:
  assumes "\<And>x s s'. x \<in> set xs \<Longrightarrow> f x s = Some s' \<Longrightarrow> R s s'" "\<And>s. R s s"
    "\<And>a b c. R a b \<Longrightarrow> R b c \<Longrightarrow> R a c" "fold_opt f xs s = Some s'"
  shows "R s s'"
  using assms(1,4)
proof (induction xs arbitrary: s)
  case Nil
  then show ?case using assms(2) by simp
next
  case (Cons x xs)
  then obtain s1 where "f x s = Some s1" "fold_opt f xs s1 = Some s'" by (auto simp: bind_eq_Some_conv)
  with Cons assms(3) show ?case by (meson list.set_intros)
qed

end
