(* ===== verification/Wire.thy ===== *)
theory Wire
  imports Prelude
begin

text \<open>
  The primitive encoders and decoders of \<open>src/mqtt/packets/packets.go\<close>: fixed-width integers,
  length-prefixed byte strings, the variable-length "remaining length" and the fixed header.

  A decoder returns the triple (value, error, unread input), as the Go code returns a value and
  an error and advances its reader. Two readers occur: a \<open>bytes.Buffer\<close>, whose \<open>Read\<close> may fill
  only part of the destination without reporting an error (the rest keeps the zero bytes of
  \<open>make\<close>), and a network stream or file read with \<open>io.ReadFull\<close>, modelled by the bytes it will
  deliver before its end.
\<close>

section \<open>Readers\<close>

text \<open>\<open>p := make([]byte, n); _, err := buf.Read(p)\<close> on a \<open>bytes.Buffer\<close>.\<close>

definition buffer_Read :: "nat \<Rightarrow> bytes \<Rightarrow> bytes \<times> go_error option \<times> bytes" where
  "buffer_Read n buf =
     (if buf = [] then (replicate n 0, if n = 0 then None else Some EOF, [])
      else (take n buf @ replicate (n - length buf) 0, None, drop n buf))"

text \<open>\<open>p := make([]byte, n); _, err := io.ReadFull(r, p)\<close>.\<close>

definition io_ReadFull :: "nat \<Rightarrow> bytes \<Rightarrow> bytes \<times> go_error option \<times> bytes" where
  "io_ReadFull n r =
     (if n \<le> length r then (take n r, None, drop n r)
      else (r @ replicate (n - length r) 0, Some (if r = [] then EOF else UnexpectedEOF), []))"

section \<open>Integers and byte strings\<close>

definition boolToByte :: "bool \<Rightarrow> byte" where
  "boolToByte b = (case b of True \<Rightarrow> 1 | False \<Rightarrow> 0)"

definition decodeByte :: "bytes \<Rightarrow> byte \<times> go_error option \<times> bytes" where
  "decodeByte b =
     (case buffer_Read 1 b of (num, err, b') \<Rightarrow>
        if err \<noteq> None then (0, err, b') else (num ! 0, None, b'))"

text \<open>\<open>binary.BigEndian.Uint16\<close> and \<open>PutUint16\<close>.\<close>

definition be_Uint16 :: "bytes \<Rightarrow> uint16" where
  "be_Uint16 num = ucast (num ! 1) OR push_bit 8 (ucast (num ! 0))"

definition decodeUint16 :: "bytes \<Rightarrow> uint16 \<times> go_error option \<times> bytes" where
  "decodeUint16 b =
     (case buffer_Read 2 b of (num, err, b') \<Rightarrow>
        if err \<noteq> None then (0, err, b') else (be_Uint16 num, None, b'))"

definition encodeUint16 :: "uint16 \<Rightarrow> bytes" where
  "encodeUint16 num = [ucast (drop_bit 8 num), ucast num]"

definition encodeBytes :: "bytes \<Rightarrow> bytes" where
  "encodeBytes field = encodeUint16 (word_of_nat (length field)) @ field"

definition encodeString :: "string \<Rightarrow> bytes" where
  "encodeString field = encodeBytes (bytes_of_string field)"

definition decodeBytes :: "bytes \<Rightarrow> bytes option \<times> go_error option \<times> bytes" where
  "decodeBytes b =
     (case decodeUint16 b of (fieldLength, err, b1) \<Rightarrow>
        if err \<noteq> None then (None, err, b1)
        else (case buffer_Read (unat fieldLength) b1 of (field, err2, b2) \<Rightarrow>
          if err2 \<noteq> None then (None, err2, b2) else (Some field, None, b2)))"

definition decodeString :: "bytes \<Rightarrow> string \<times> go_error option \<times> bytes" where
  "decodeString b =
     (case decodeBytes b of (buf, err, b') \<Rightarrow>
        (string_of_bytes (case buf of None \<Rightarrow> [] | Some f \<Rightarrow> f), err, b'))"

section \<open>The remaining length\<close>

text \<open>
  Go's \<open>%\<close> and \<open>/\<close> truncate towards zero (\<open>smod\<close>, \<open>sdiv\<close>); the conversion to \<open>byte\<close> keeps the
  low eight bits.
\<close>

function encodeLength :: "int \<Rightarrow> bytes" where
  "encodeLength n =
     (let digit = word_of_int (n smod 128) :: byte;
          n' = n sdiv 128;
          digit' = (if n' > 0 then digit OR 0x80 else digit)
      in if n' = 0 then [digit'] else digit' # encodeLength n')"
  by pat_completeness auto
termination
proof (relation "measure (\<lambda>n. nat \<bar>n\<bar>)")
  fix n n' :: int
  assume n': "n' = n sdiv 128" and "n' \<noteq> 0"
  then have nz: "\<bar>n\<bar> div 128 \<noteq> 0"
    by (auto simp: signed_divide_int_def sgn_mult abs_mult)
  have "\<bar>n'\<bar> = \<bar>sgn n * (\<bar>n\<bar> div 128)\<bar>"
    by (simp add: n' signed_divide_int_def)
  also have "\<dots> \<le> \<bar>n\<bar> div 128"
    by (simp add: abs_mult sgn_if)
  also have "\<dots> < \<bar>n\<bar>" using nz by simp
  finally show "(n', n) \<in> measure (\<lambda>n. nat \<bar>n\<bar>)" by simp
qed simp

declare encodeLength.simps [simp del]

text \<open>
  The loop of \<open>decodeLength\<close>: it runs while \<open>multiplier < 27\<close>, so it reads at most four bytes,
  and it leaves the loop with the value read so far when the fourth byte still asks for more.
\<close>

function decodeLength_loop ::
  "uint32 \<Rightarrow> uint32 \<Rightarrow> bytes \<Rightarrow> int \<times> go_error option \<times> bytes" where
  "decodeLength_loop rLength multiplier r =
     (if multiplier < 27 then
        (case io_ReadFull 1 r of (b, err, r') \<Rightarrow>
           if err \<noteq> None then (0, err, r')
           else let digit = b ! 0;
                    rLength' = rLength OR
                      push_bit (unat multiplier) (ucast (digit AND 127))
                in if digit AND 128 = 0 then (uint rLength', None, r')
                   else decodeLength_loop rLength' (multiplier + 7) r')
      else (uint rLength, None, r))"
  by pat_completeness auto
termination
proof (relation "measure (\<lambda>(l, m, r). 27 - unat m)")
  fix rLength multiplier :: uint32 and r r' b :: bytes
    and x1 x2 err digit rl
  assume "multiplier < 27"
  then have m: "unat multiplier < 27" by (simp add: word_less_nat_alt)
  then have "unat (multiplier + 7) = unat multiplier + 7"
    by (simp add: unat_word_ariths)
  with m show "((rl, multiplier + 7, r'), rLength, multiplier, r) \<in> measure (\<lambda>(l, m, r). 27 - unat m)"
    by simp
qed simp

declare decodeLength_loop.simps [simp del]

definition decodeLength :: "bytes \<Rightarrow> int \<times> go_error option \<times> bytes" where
  "decodeLength r = decodeLength_loop 0 0 r"

section \<open>The fixed header\<close>

record FixedHeader =
  MessageType :: byte
  Dup :: bool
  Qos :: byte
  Retain :: bool
  RemainingLength :: int

definition FixedHeader_pack :: "'a FixedHeader_scheme \<Rightarrow> bytes" where
  "FixedHeader_pack fh =
     (push_bit 4 (MessageType fh) OR push_bit 3 (boolToByte (Dup fh)) OR
      push_bit 1 (Qos fh) OR boolToByte (Retain fh))
     # encodeLength (RemainingLength fh)"

definition FixedHeader_unpack ::
  "FixedHeader \<Rightarrow> byte \<Rightarrow> bytes \<Rightarrow> FixedHeader \<times> go_error option \<times> bytes" where
  "FixedHeader_unpack fh typeAndFlags r =
     (let fh1 = fh\<lparr>MessageType := drop_bit 4 typeAndFlags,
                   Dup := drop_bit 3 typeAndFlags AND 1 > 0,
                   Qos := drop_bit 1 typeAndFlags AND 3,
                   Retain := typeAndFlags AND 1 > 0\<rparr>
      in case decodeLength r of (n, err, r') \<Rightarrow> (fh1\<lparr>RemainingLength := n\<rparr>, err, r'))"

section \<open>Decoding inverts encoding\<close>


lemma buffer_Read_exact [codec_simps]:
  "length xs = n \<Longrightarrow> buffer_Read n (xs @ r) = (xs, None, r)"
  by (auto simp: buffer_Read_def)

lemma decodeByte_Cons [codec_simps, simp]: "decodeByte (x # r) = (x, None, r)"
  by (simp add: decodeByte_def buffer_Read_def)

lemma decodeByte_Nil [codec_simps, simp]: "decodeByte [] = (0, Some EOF, [])"
  by (simp add: decodeByte_def buffer_Read_def)

lemma be_Uint16_encodeUint16 [codec_simps, simp]: "be_Uint16 (encodeUint16 v) = v"
  unfolding be_Uint16_def encodeUint16_def
  by (rule bit_word_eqI) (auto simp: bit_simps)

lemma length_encodeUint16 [simp]: "length (encodeUint16 v) = 2"
  by (simp add: encodeUint16_def)

lemma decodeUint16_encodeUint16 [codec_simps, simp]:
  "decodeUint16 (encodeUint16 v @ r) = (v, None, r)"
  by (simp add: decodeUint16_def buffer_Read_exact)

lemma length_encodeBytes [simp]: "length (encodeBytes f) = length f + 2"
  by (simp add: encodeBytes_def)

lemma length_encodeString [simp]: "length (encodeString f) = length f + 2"
  by (simp add: encodeString_def)

lemma unat_word_of_nat_16: "unat (word_of_nat n :: uint16) = n mod 65536"
  by (simp add: unat_of_nat)

lemma decodeBytes_encodeBytes [codec_simps, simp]:
  "length f < 65536 \<Longrightarrow> decodeBytes (encodeBytes f @ r) = (Some f, None, r)"
  by (simp add: decodeBytes_def encodeBytes_def unat_word_of_nat_16 buffer_Read_exact)

lemma decodeString_encodeString [codec_simps, simp]:
  "length f < 65536 \<Longrightarrow> decodeString (encodeString f @ r) = (f, None, r)"
  by (simp add: decodeString_def encodeString_def)

lemma encodeLength_nonneg:
  assumes "0 \<le> n"
  shows "encodeLength n =
    (if n < 128 then [word_of_int n] else (word_of_int (n mod 128) OR 0x80) # encodeLength (n div 128))"
proof -
  have "n sdiv 128 = n div 128" "n smod 128 = n mod 128"
    using assms by (auto simp: signed_divide_int_def signed_modulo_int_def sgn_if minus_div_mult_eq_mod)
  with assms show ?thesis
    by (auto simp: encodeLength.simps [of n] Let_def pos_imp_zdiv_pos_iff div_eq_0_iff)
qed

lemma bit_127: "bit (127 :: int) k \<longleftrightarrow> k < 7"
  using bit_mask_iff [of 7 k, where 'a = int] by (simp add: mask_eq_exp_minus_1)

lemma bit_128: "bit (128 :: int) k \<longleftrightarrow> k = 7"
  using bit_exp_iff [of 7 k, where 'a = int] by auto

lemma bit_digit: "0 \<le> d \<Longrightarrow> d < 128 \<Longrightarrow> bit (word_of_int d :: byte) k \<longleftrightarrow> k < 7 \<and> bit d k"
proof -
  assume "0 \<le> d" "d < 128"
  then have d: "take_bit 7 d = d" by (simp add: take_bit_int_eq_self)
  have "bit (take_bit 7 d) k \<longleftrightarrow> k < 7 \<and> bit d k" by (simp add: bit_take_bit_iff)
  with d show ?thesis by (auto simp: bit_simps)
qed

lemmas digit_bits = bit_127 bit_128 bit_digit bit_or_iff bit_and_iff

lemma length_digit_low:
  assumes "0 \<le> d" "d < 128"
  shows "(word_of_int d OR 0x80 :: byte) AND 127 = word_of_int d"
    and "(word_of_int d :: byte) AND 127 = word_of_int d"
    and "(word_of_int d :: byte) AND 128 = 0"
  using assms by (auto intro!: bit_word_eqI simp: digit_bits)

lemma length_digit_high: "(d OR 0x80 :: byte) AND 128 \<noteq> 0"
proof
  assume "(d OR 0x80 :: byte) AND 128 = 0"
  then have "bit ((d OR 0x80 :: byte) AND 128) 7 = bit (0 :: byte) 7" by simp
  then show False by (simp add: digit_bits)
qed

text \<open>Adding one more group of seven bits above the bits already read.\<close>

lemma or_push_group:
  fixes l :: uint32
  assumes d: "0 \<le> d" "d < 128" and l: "uint l < 2 ^ m" and m: "m + 7 \<le> 32"
  shows "uint (l OR push_bit m (ucast (word_of_int d :: byte))) = uint l + d * 2 ^ m"
proof -
  have ud: "uint (ucast (word_of_int d :: byte) :: uint32) = d"
    using d by (simp add: unsigned_ucast_eq take_bit_int_eq_self unsigned_of_int)
  have b: "d * 2 ^ m < 2 ^ 32"
  proof -
    have "d * 2 ^ m < 2 ^ 7 * 2 ^ m" using d by simp
    also have "\<dots> = 2 ^ (m + 7)" by (simp add: power_add)
    also have "\<dots> \<le> 2 ^ 32" using m by (intro power_increasing) auto
    finally show ?thesis .
  qed
  have p: "uint (push_bit m (ucast (word_of_int d :: byte) :: uint32)) = d * 2 ^ m"
  proof -
    have "uint (push_bit m (ucast (word_of_int d :: byte) :: uint32)) = take_bit 32 (push_bit m d)"
      by (simp only: unsigned_push_bit_eq ud) simp
    also have "push_bit m d = d * 2 ^ m" by (simp add: push_bit_eq_mult)
    also have "take_bit 32 (d * 2 ^ m) = d * 2 ^ m" using b d by (simp add: take_bit_int_eq_self)
    finally show ?thesis .
  qed
  have "take_bit m (uint l) AND push_bit m d = 0"
    by (auto intro!: bit_eqI simp: bit_and_iff bit_take_bit_iff bit_push_bit_iff)
  then have "uint l AND d * 2 ^ m = 0"
    using l by (simp add: take_bit_int_eq_self push_bit_eq_mult)
  then show ?thesis
    by (simp add: unsigned_or_eq p disjunctive_add_eq_or)
qed

text \<open>The invariant of the decoding loop, at the start of each round.\<close>

lemma decodeLength_loop_encodeLength:
  assumes "0 \<le> n" "n < 2 ^ (28 - k)" "k \<in> {0, 7, 14, 21}" "uint l < 2 ^ k"
  shows "decodeLength_loop l (word_of_nat k) (encodeLength n @ r) = (uint l + n * 2 ^ k, None, r)"
  using assms
proof (induction n arbitrary: l k rule: encodeLength.induct)
  case (1 n)
  have k: "unat (word_of_nat k :: uint32) = k" "(word_of_nat k :: uint32) < 27"
    using "1.prems"(3) by auto
  have k7: "k + 7 \<le> 32" using "1.prems"(3) by auto
  show ?case
  proof (cases "n < 128")
    case True
    with "1.prems" k k7 show ?thesis
      by (simp add: encodeLength_nonneg decodeLength_loop.simps io_ReadFull_def length_digit_low or_push_group)
  next
    case False
    let ?d = "n mod 128"
    let ?l = "l OR push_bit k (ucast (word_of_int ?d :: byte))"
    have k': "k + 7 \<in> {0, 7, 14, 21}" "n div 128 < 2 ^ (28 - (k + 7))"
      using "1.prems" False by auto
    have l': "uint ?l = uint l + ?d * 2 ^ k"
      using "1.prems" by (intro or_push_group) auto
    also have "\<dots> < 2 ^ (k + 7)"
    proof -
      have "?d \<le> 127" by (simp add: Suc_leI)
      then have "?d * 2 ^ k \<le> 127 * 2 ^ k" by (rule mult_right_mono) simp
      moreover have "(2 :: int) ^ (k + 7) = 2 ^ k + 127 * 2 ^ k" by (simp add: power_add)
      ultimately show ?thesis using "1.prems"(4) by linarith
    qed
    finally have b: "uint ?l < 2 ^ (k + 7)" .
    have IH: "decodeLength_loop ?l (word_of_nat (k + 7)) (encodeLength (n div 128) @ r) =
        (uint ?l + n div 128 * 2 ^ (k + 7), None, r)"
    proof (rule "1.IH")
      show "n div 128 = n sdiv 128"
        using "1.prems"(1) by (simp add: signed_divide_int_def sgn_if)
      show "n div 128 \<noteq> 0" "0 \<le> n div 128" using False "1.prems"(1) by auto
    qed (use k' b in auto)
    have w: "(word_of_nat k :: uint32) + 7 = word_of_nat (k + 7)" by simp
    have e: "uint ?l + n div 128 * 2 ^ (k + 7) = uint l + n * 2 ^ k"
    proof -
      have "uint l + d * 2 ^ k + q * (2 ^ k * 128) = uint l + (q * 128 + d) * 2 ^ k" for q d :: int
        by (simp add: algebra_simps)
      from this [of "n mod 128" "n div 128"] show ?thesis by (simp only: l' power_add) simp
    qed
    have IH': "decodeLength_loop ?l (word_of_nat k + 7) (encodeLength (n div 128) @ r) =
        (uint l + n * 2 ^ k, None, r)"
      using IH unfolding w e .
    have enc: "encodeLength n = (word_of_int ?d OR 0x80) # encodeLength (n div 128)"
      using "1.prems"(1) False by (simp add: encodeLength_nonneg [of n])
    show ?thesis
      unfolding enc decodeLength_loop.simps [of l]
      using k IH' by (simp add: io_ReadFull_def length_digit_low length_digit_high)
  qed
qed

lemma decodeLength_encodeLength [codec_simps, simp]:
  "0 \<le> n \<Longrightarrow> n < 268435456 \<Longrightarrow> decodeLength (encodeLength n @ r) = (n, None, r)"
  using decodeLength_loop_encodeLength [of n 0 0 r] by (simp add: decodeLength_def)

lemma encodeLength_length:
  assumes "0 \<le> n" "n < 2 ^ (7 * Suc k)"
  shows "1 \<le> length (encodeLength n)" "length (encodeLength n) \<le> Suc k"
proof -
  show "1 \<le> length (encodeLength n)" by (simp add: encodeLength.simps Let_def Suc_leI)
  show "length (encodeLength n) \<le> Suc k" using assms
  proof (induction k arbitrary: n)
    case (Suc k)
    then have "n < 128 * 2 ^ (7 * Suc k)" by (simp add: power_add)
    then have "n div 128 < 2 ^ (7 * Suc k)" by (simp add: mult.commute int_div_less_self div_less_iff_less_mult)
    with Suc show ?case
      by (simp add: encodeLength_nonneg [of n])
  qed (simp add: encodeLength_nonneg)
qed

text \<open>What the decoder may read: one byte per round, at most four, with a value of 28 bits.\<close>

lemma or_group_bound:
  fixes l :: uint32 and d :: byte
  assumes "uint l < 2 ^ k" "k + 7 \<le> 32"
  shows "uint (l OR push_bit k (ucast (d AND 127))) < 2 ^ (k + 7)"
proof -
  have "d AND 127 = word_of_int (take_bit 7 (uint d))"
    by (rule bit_word_eqI) (auto simp: bit_simps bit_127)
  then have "uint (l OR push_bit k (ucast (d AND 127))) = uint l + take_bit 7 (uint d) * 2 ^ k"
    using or_push_group [of "take_bit 7 (uint d)" l k] assms take_bit_int_less_exp [of 7 "uint d"] by simp
  also have "\<dots> < 2 ^ (k + 7)"
  proof -
    have "take_bit 7 (uint d) \<le> 127" using take_bit_int_less_exp [of 7 "uint d"] by simp
    then have "take_bit 7 (uint d) * 2 ^ k \<le> 127 * 2 ^ k" by (rule mult_right_mono) simp
    moreover have "(2 :: int) ^ (k + 7) = 2 ^ k + 127 * 2 ^ k" by (simp add: power_add)
    ultimately show ?thesis using assms by linarith
  qed
  finally show ?thesis .
qed

lemma decodeLength_loop_bound:
  assumes "decodeLength_loop l (word_of_nat (28 - 7 * j)) r = (n, None, r')"
    "uint l < 2 ^ (28 - 7 * j)" "j \<le> 4"
  shows "0 \<le> n \<and> n < 2 ^ 28 \<and> (\<exists>i \<le> j. r' = drop i r \<and> i \<le> length r)"
  using assms
proof (induction j arbitrary: l r)
  case 0
  then show ?case by (auto simp: decodeLength_loop.simps [of l])
next
  case (Suc j)
  let ?k = "28 - 7 * Suc j"
  have j: "j \<in> {0, 1, 2, 3}" and k7: "?k + 7 = 28 - 7 * j" using Suc.prems(3) by auto
  then have k: "unat (word_of_nat ?k :: uint32) = ?k" and lt: "(word_of_nat ?k :: uint32) < 27"
    and step: "(word_of_nat ?k :: uint32) + 7 = word_of_nat (28 - 7 * j)" by auto
  show ?case
  proof (cases r)
    case Nil
    with Suc.prems(1) lt show ?thesis by (simp add: decodeLength_loop.simps [of l] io_ReadFull_def)
  next
    case (Cons d r1)
    let ?l = "l OR push_bit ?k (ucast (d AND 127))"
    have "uint ?l < 2 ^ (?k + 7)" using Suc.prems by (intro or_group_bound) auto
    then have b: "uint ?l < 2 ^ (28 - 7 * j)" by (simp only: k7)
    have loop: "decodeLength_loop l (word_of_nat ?k) r =
        (if d AND 128 = 0 then (uint ?l, None, r1)
         else decodeLength_loop ?l (word_of_nat (28 - 7 * j)) r1)"
      by (simp only: decodeLength_loop.simps [of l] lt if_True k step Cons) (simp add: io_ReadFull_def)
    show ?thesis
    proof (cases "d AND 128 = 0")
      case True
      have "(2 :: int) ^ (28 - 7 * j) \<le> 2 ^ 28" by (intro power_increasing) auto
      with True b loop Suc.prems(1) show ?thesis
        by (auto intro!: exI [of _ 1] simp: Cons)
    next
      case False
      with loop Suc.prems(1) have "decodeLength_loop ?l (word_of_nat (28 - 7 * j)) r1 = (n, None, r')"
        by simp
      from Suc.IH [OF this b] Suc.prems(3) obtain i where
        "0 \<le> n" "n < 2 ^ 28" "i \<le> j" "r' = drop i r1" "i \<le> length r1" by auto
      then show ?thesis by (auto intro!: exI [of _ "Suc i"] simp: Cons)
    qed
  qed
qed

lemma decodeLength_bound:
  "decodeLength r = (n, None, r') \<Longrightarrow>
   0 \<le> n \<and> n < 268435456 \<and> (\<exists>i \<le> 4. r' = drop i r \<and> i \<le> length r)"
  using decodeLength_loop_bound [of 0 4 r n r'] by (simp add: decodeLength_def)

lemma bit_small_word:
  fixes x :: "'a :: len word"
  assumes "uint x < 2 ^ k" "bit x n"
  shows "n < k"
proof -
  have "take_bit k (uint x) = uint x" using assms(1) by (simp add: take_bit_int_eq_self)
  moreover have "bit (uint x) n" using assms(2) by (simp add: bit_unsigned_iff)
  ultimately show ?thesis by (metis bit_take_bit_iff)
qed

lemma bit_boolToByte: "bit (boolToByte b) n \<longleftrightarrow> b \<and> n = 0"
  by (cases b) (auto simp: boolToByte_def bit_simps)

lemma byte_bit_pos: "(w AND 1 > (0 :: byte)) \<longleftrightarrow> bit w 0"
  by (auto simp: word_gt_0 and_one_eq odd_iff_mod_2_eq_one[symmetric] bit_0)

definition flags_byte :: "byte \<Rightarrow> bool \<Rightarrow> byte \<Rightarrow> bool \<Rightarrow> byte" where
  "flags_byte mt d q r = push_bit 4 mt OR push_bit 3 (boolToByte d) OR push_bit 1 q OR boolToByte r"

lemma bit_flags_byte:
  "bit (flags_byte mt d q r) n \<longleftrightarrow>
    n < 8 \<and> (4 \<le> n \<and> bit mt (n - 4) \<or> d \<and> n = 3 \<or> 1 \<le> n \<and> bit q (n - 1) \<or> r \<and> n = 0)"
  unfolding flags_byte_def bit_or_iff bit_push_bit_iff bit_boolToByte possible_bit_word
  by (auto dest: bit_imp_le_length)

lemma flags_byte_fields:
  assumes "mt < 16" "q < 4"
  shows "drop_bit 4 (flags_byte mt d q r) = mt"
    and "drop_bit 3 (flags_byte mt d q r) AND 1 > 0 \<longleftrightarrow> d"
    and "drop_bit 1 (flags_byte mt d q r) AND 3 = q"
    and "flags_byte mt d q r AND 1 > 0 \<longleftrightarrow> r"
proof -
  have mt: "bit mt n \<Longrightarrow> n < 4" for n
    using assms(1) by (intro bit_small_word [of mt]) (auto simp: word_less_def)
  have q: "bit q n \<Longrightarrow> n < 2" for n
    using assms(2) by (intro bit_small_word [of q]) (auto simp: word_less_def)
  have three: "bit (3 :: int) n \<longleftrightarrow> n < 2" for n
    using bit_mask_iff [of 2 n, where 'a = int] by (simp add: mask_eq_exp_minus_1)
  show "drop_bit 4 (flags_byte mt d q r) = mt"
    by (rule bit_word_eqI) (auto simp: bit_drop_bit_eq bit_flags_byte dest: mt q)
  show "drop_bit 3 (flags_byte mt d q r) AND 1 > 0 \<longleftrightarrow> d"
    by (auto simp: byte_bit_pos bit_drop_bit_eq bit_flags_byte dest: q)
  show "drop_bit 1 (flags_byte mt d q r) AND 3 = q"
    by (rule bit_word_eqI) (auto simp: bit_drop_bit_eq bit_flags_byte bit_and_iff three dest: q)
  show "flags_byte mt d q r AND 1 > 0 \<longleftrightarrow> r"
    by (auto simp: byte_bit_pos bit_flags_byte)
qed

lemma FixedHeader_pack_flags:
  "FixedHeader_pack fh =
     flags_byte (MessageType fh) (Dup fh) (Qos fh) (Retain fh) # encodeLength (RemainingLength fh)"
  by (simp add: FixedHeader_pack_def flags_byte_def or.assoc)

definition header_wf :: "'a FixedHeader_scheme \<Rightarrow> bool" where
  "header_wf fh \<longleftrightarrow> MessageType fh < 16 \<and> Qos fh < 4 \<and>
     0 \<le> RemainingLength fh \<and> RemainingLength fh < 268435456"

lemma FixedHeader_unpack_flags:
  assumes "mt < 16" "q < 4" "0 \<le> n" "n < 268435456"
  shows "FixedHeader_unpack fh (flags_byte mt d q rt) (encodeLength n @ r) =
    (\<lparr>MessageType = mt, Dup = d, Qos = q, Retain = rt, RemainingLength = n\<rparr>, None, r)"
  unfolding FixedHeader_unpack_def Let_def
  using assms by (simp only: flags_byte_fields decodeLength_encodeLength) simp

lemma FixedHeader_unpack_header:
  assumes "FixedHeader_unpack fh b r = (fh', None, r')"
  shows "header_wf fh'" and "\<exists>i \<le> 4. r' = drop i r"
proof -
  obtain n where n: "decodeLength r = (n, None, r')" and fh': "fh' = fh\<lparr>MessageType := drop_bit 4 b,
      Dup := drop_bit 3 b AND 1 > 0, Qos := drop_bit 1 b AND 3, Retain := b AND 1 > 0,
      RemainingLength := n\<rparr>"
    using assms unfolding FixedHeader_unpack_def Let_def by (auto split: prod.splits)
  have "drop_bit 4 b < 16"
  proof -
    have "unat (drop_bit 4 b) = unat b div 16"
      by (simp add: drop_bit_eq_div unat_div)
    then show ?thesis using unsigned_less [of b, where 'a = nat] by (simp add: word_less_nat_alt)
  qed
  moreover have "drop_bit 1 b AND 3 < 4"
    using word_and_le1 [of "drop_bit 1 b" 3] by (rule order.strict_trans1) simp
  ultimately show "header_wf fh'" and "\<exists>i \<le> 4. r' = drop i r"
    using decodeLength_bound [OF n] fh' by (auto simp: header_wf_def)
qed

section \<open>Properties\<close>

text \<open>
  The variable-length "remaining length": decoding what \<open>encodeLength\<close> wrote for a length
  below \<open>2 ^ 28\<close>, followed by any bytes, gives back the length, no error, and leaves exactly those
  bytes; the encoding takes one to four bytes.
\<close>

theorem remaining_length_roundtrip:
  assumes "0 \<le> n" "n < 268435456"
  shows "decodeLength (encodeLength n @ r) = (n, None, r) \<and> length (encodeLength n) \<in> {1..4}"
  using assms encodeLength_length [of n 3] by simp

theorem remaining_length_roundtrip_witness:
  "decodeLength (encodeLength 321 @ [7]) = (321, None, [7]) \<and> length (encodeLength 321) \<in> {1..4}"
  by (rule remaining_length_roundtrip) simp_all

text \<open>
  Decoding a remaining length never runs away: whatever the bytes on the stream, a decoder that
  reports no error has consumed at most four of them and returns a value below \<open>2 ^ 28\<close>, even when
  the fourth byte still has its continuation bit set.
\<close>

theorem decodeLength_bounded:
  assumes "decodeLength r = (n, None, r')"
  shows "0 \<le> n \<and> n < 268435456 \<and> (\<exists>i \<le> 4. i \<le> length r \<and> r' = drop i r)"
  using decodeLength_bound [OF assms] by blast

theorem decodeLength_bounded_witness:
  "\<exists>n r'. decodeLength [0xFF, 0xFF, 0xFF, 0xFF, 1] = (n, None, r') \<and> n < 268435456"
proof -
  have d: "decodeLength [0xFF, 0xFF, 0xFF, 0xFF, 1] = (268435455, None, [1])"
    by (simp add: decodeLength_def decodeLength_loop.simps io_ReadFull_def)
  show ?thesis using d decodeLength_bounded [OF d] by blast
qed

text \<open>
  Length-prefixed byte strings: a field shorter than 65536 bytes survives an encode/decode round
  trip with the following bytes untouched. The length is written as a \<open>uint16\<close>, so for longer fields
  the written length wraps around and the decoder returns only the first \<open>length f mod 65536\<close> bytes.
\<close>

theorem byte_string_roundtrip:
  "decodeBytes (encodeBytes f @ r) =
     (let n = length f mod 65536 in (Some (take n f), None, drop n f @ r))"
  by (auto simp: decodeBytes_def encodeBytes_def unat_word_of_nat_16 Let_def buffer_Read_def)

end
