(* ===== verification/Packets.thy ===== *)
theory Packets
  imports Wire
begin

text \<open>
  The MQTT control packets of \<open>src/mqtt/packets/\<close>: one record per packet struct, \<open>Write\<close> and
  \<open>Unpack\<close> of each, \<open>Validate\<close> and \<open>Details\<close>, the constructors and \<open>ReadPacket\<close>.

  Go embeds the fixed header in every packet and promotes its fields; the records extend
  \<open>FixedHeader\<close>, so \<open>Qos p\<close> reads the promoted field. The five packets that carry nothing but a
  message id (PUBACK, PUBREC, PUBREL, PUBCOMP, UNSUBACK) share one record, and the three empty
  ones are the header itself; the datatype \<open>ControlPacket\<close> keeps all fourteen apart.

  \<open>Write\<close> returns the packet with the remaining length it stored in the header and the bytes handed
  to the writer, and None where Go panics. \<open>Unpack\<close> returns the packet as far as it was filled,
  the error and the unread bytes.
\<close>

section \<open>Packet structs\<close>

record ConnectPacket = FixedHeader +
  ProtocolName :: string
  ProtocolVersion :: byte
  CleanSession :: bool
  WillFlag :: bool
  WillQos :: byte
  WillRetain :: bool
  UsernameFlag :: bool
  PasswordFlag :: bool
  ReservedBit :: byte
  Keepalive :: uint16
  ClientIdentifier :: string
  WillTopic :: string
  WillMessage :: bytes
  Username :: string
  Password :: bytes
  Other :: "bytes option"

record ConnackPacket = FixedHeader +
  SessionPresent :: bool
  ReturnCode :: byte

record MidPacket = FixedHeader +
  MessageID :: uint16

type_synonym PubackPacket = MidPacket
type_synonym PubrecPacket = MidPacket
type_synonym PubrelPacket = MidPacket
type_synonym PubcompPacket = MidPacket
type_synonym UnsubackPacket = MidPacket

record PublishPacket = MidPacket +
  TopicName :: string
  Payload :: bytes

record UnsubscribePacket = MidPacket +
  Topics :: "string list"

record SubscribePacket = UnsubscribePacket +
  Qoss :: bytes

record SubackPacket = MidPacket +
  ReturnCodes :: bytes

type_synonym DisconnectPacket = FixedHeader
type_synonym PingreqPacket = FixedHeader
type_synonym PingrespPacket = FixedHeader

datatype ControlPacket =
    CP_Connect ConnectPacket
  | CP_Connack ConnackPacket
  | CP_Publish PublishPacket
  | CP_Puback PubackPacket
  | CP_Pubrec PubrecPacket
  | CP_Pubrel PubrelPacket
  | CP_Pubcomp PubcompPacket
  | CP_Subscribe SubscribePacket
  | CP_Suback SubackPacket
  | CP_Unsubscribe UnsubscribePacket
  | CP_Unsuback UnsubackPacket
  | CP_Pingreq PingreqPacket
  | CP_Pingresp PingrespPacket
  | CP_Disconnect DisconnectPacket

record Details =
  Details_Qos :: byte
  Details_MessageID :: uint16

section \<open>Constants\<close>

text \<open>The packet type codes.\<close>

abbreviation Connect :: byte where "Connect \<equiv> 1"
abbreviation Connack :: byte where "Connack \<equiv> 2"
abbreviation Publish :: byte where "Publish \<equiv> 3"
abbreviation Puback :: byte where "Puback \<equiv> 4"
abbreviation Pubrec :: byte where "Pubrec \<equiv> 5"
abbreviation Pubrel :: byte where "Pubrel \<equiv> 6"
abbreviation Pubcomp :: byte where "Pubcomp \<equiv> 7"
abbreviation Subscribe :: byte where "Subscribe \<equiv> 8"
abbreviation Suback :: byte where "Suback \<equiv> 9"
abbreviation Unsubscribe :: byte where "Unsubscribe \<equiv> 10"
abbreviation Unsuback :: byte where "Unsuback \<equiv> 11"
abbreviation Pingreq :: byte where "Pingreq \<equiv> 12"
abbreviation Pingresp :: byte where "Pingresp \<equiv> 13"
abbreviation Disconnect :: byte where "Disconnect \<equiv> 14"

definition PacketNames :: "(byte, string) gomap" where
  "PacketNames =
     [(1, ''CONNECT''), (2, ''CONNACK''), (3, ''PUBLISH''), (4, ''PUBACK''), (5, ''PUBREC''),
      (6, ''PUBREL''), (7, ''PUBCOMP''), (8, ''SUBSCRIBE''), (9, ''SUBACK''),
      (10, ''UNSUBSCRIBE''), (11, ''UNSUBACK''), (12, ''PINGREQ''), (13, ''PINGRESP''),
      (14, ''DISCONNECT'')]"

text \<open>The return codes of CONNACK.\<close>

abbreviation Accepted :: byte where "Accepted \<equiv> 0x00"
abbreviation ErrRefusedBadProtocolVersion :: byte where "ErrRefusedBadProtocolVersion \<equiv> 0x01"
abbreviation ErrRefusedIDRejected :: byte where "ErrRefusedIDRejected \<equiv> 0x02"
abbreviation ErrRefusedServerUnavailable :: byte where "ErrRefusedServerUnavailable \<equiv> 0x03"
abbreviation ErrRefusedBadUsernameOrPassword :: byte where "ErrRefusedBadUsernameOrPassword \<equiv> 0x04"
abbreviation ErrRefusedNotAuthorised :: byte where "ErrRefusedNotAuthorised \<equiv> 0x05"
abbreviation ErrNetworkError :: byte where "ErrNetworkError \<equiv> 0xFE"
abbreviation ErrProtocolViolation :: byte where "ErrProtocolViolation \<equiv> 0xFF"

definition ConnackReturnCodes :: "(byte, string) gomap" where
  "ConnackReturnCodes =
     [(0, ''Connection Accepted''),
      (1, ''Connection Refused: Bad Protocol Version''),
      (2, ''Connection Refused: Client Identifier Rejected''),
      (3, ''Connection Refused: Server Unavailable''),
      (4, ''Connection Refused: Username or Password in unknown format''),
      (5, ''Connection Refused: Not Authorised''),
      (254, ''Connection Error''),
      (255, ''Connection Refused: Protocol Violation'')]"

definition ConnErrors :: "(byte, go_error option) gomap" where
  "ConnErrors =
     [(Accepted, None),
      (ErrRefusedBadProtocolVersion, Some (Errorf ''unacceptable protocol version'')),
      (ErrRefusedIDRejected, Some (Errorf ''identifier rejected'')),
      (ErrRefusedServerUnavailable, Some (Errorf ''server Unavailable'')),
      (ErrRefusedBadUsernameOrPassword, Some (Errorf ''bad user name or password'')),
      (ErrRefusedNotAuthorised, Some (Errorf ''not Authorized'')),
      (ErrNetworkError, Some (Errorf ''network Error'')),
      (ErrProtocolViolation, Some (Errorf ''protocol Violation''))]"

section \<open>Write\<close>

definition ConnackPacket_Write :: "ConnackPacket \<Rightarrow> ConnackPacket \<times> bytes" where
  "ConnackPacket_Write ca =
     (let body = [boolToByte (SessionPresent ca), ReturnCode ca];
          ca' = ca\<lparr>RemainingLength := 2\<rparr>
      in (ca', FixedHeader_pack ca' @ body))"

definition ConnectPacket_Write :: "ConnectPacket \<Rightarrow> ConnectPacket \<times> bytes" where
  "ConnectPacket_Write c =
     (let body =
            encodeString (ProtocolName c) @ [ProtocolVersion c] @
            [push_bit 1 (boolToByte (CleanSession c)) OR push_bit 2 (boolToByte (WillFlag c)) OR
             push_bit 3 (WillQos c) OR push_bit 5 (boolToByte (WillRetain c)) OR
             push_bit 6 (boolToByte (PasswordFlag c)) OR push_bit 7 (boolToByte (UsernameFlag c))] @
            encodeUint16 (Keepalive c) @
            encodeString (ClientIdentifier c) @
            (if WillFlag c then encodeString (WillTopic c) @ encodeBytes (WillMessage c) else []) @
            (if UsernameFlag c then encodeString (Username c) else []) @
            (if PasswordFlag c then encodeBytes (Password c) else []) @
            encodeBytes (case Other c of None \<Rightarrow> [] | Some b \<Rightarrow> b);
          c' = c\<lparr>RemainingLength := int (length body)\<rparr>
      in (c', FixedHeader_pack c' @ body))"

definition PublishPacket_Write :: "PublishPacket \<Rightarrow> PublishPacket \<times> bytes" where
  "PublishPacket_Write p =
     (let body = encodeString (TopicName p) @
                 (if Qos p > 0 then encodeUint16 (MessageID p) else []);
          p' = p\<lparr>RemainingLength := int (length body) + int (length (Payload p))\<rparr>
      in (p', FixedHeader_pack p' @ body @ Payload p))"

definition PubackPacket_Write :: "PubackPacket \<Rightarrow> PubackPacket \<times> bytes" where
  "PubackPacket_Write pa =
     (let pa' = pa\<lparr>RemainingLength := 2\<rparr>
      in (pa', FixedHeader_pack pa' @ encodeUint16 (MessageID pa)))"

definition PubrecPacket_Write :: "PubrecPacket \<Rightarrow> PubrecPacket \<times> bytes" where
  "PubrecPacket_Write pr =
     (let pr' = pr\<lparr>RemainingLength := 2\<rparr>
      in (pr', FixedHeader_pack pr' @ encodeUint16 (MessageID pr)))"

definition PubrelPacket_Write :: "PubrelPacket \<Rightarrow> PubrelPacket \<times> bytes" where
  "PubrelPacket_Write pr =
     (let pr' = pr\<lparr>RemainingLength := 2\<rparr>
      in (pr', FixedHeader_pack pr' @ encodeUint16 (MessageID pr)))"

definition PubcompPacket_Write :: "PubcompPacket \<Rightarrow> PubcompPacket \<times> bytes" where
  "PubcompPacket_Write pc =
     (let pc' = pc\<lparr>RemainingLength := 2\<rparr>
      in (pc', FixedHeader_pack pc' @ encodeUint16 (MessageID pc)))"

definition UnsubackPacket_Write :: "UnsubackPacket \<Rightarrow> UnsubackPacket \<times> bytes" where
  "UnsubackPacket_Write ua =
     (let ua' = ua\<lparr>RemainingLength := 2\<rparr>
      in (ua', FixedHeader_pack ua' @ encodeUint16 (MessageID ua)))"

text \<open>
  \<open>for i, topic := range s.Topics { ... s.Qoss[i] }\<close>: reading \<open>Qoss\<close> past its end panics.
\<close>

fun subscribe_body :: "string list \<Rightarrow> bytes \<Rightarrow> bytes option" where
  "subscribe_body [] qoss = Some []"
| "subscribe_body (t # ts) [] = None"
| "subscribe_body (t # ts) (q # qs) =
     map_option (\<lambda>b. encodeString t @ q # b) (subscribe_body ts qs)"

definition SubscribePacket_Write :: "SubscribePacket \<Rightarrow> (SubscribePacket \<times> bytes) option" where
  "SubscribePacket_Write s =
     (case subscribe_body (Topics s) (Qoss s) of
        None \<Rightarrow> None
      | Some b \<Rightarrow>
          (let body = encodeUint16 (MessageID s) @ b;
               s' = s\<lparr>RemainingLength := int (length body)\<rparr>
           in Some (s', FixedHeader_pack s' @ body)))"

definition SubackPacket_Write :: "SubackPacket \<Rightarrow> SubackPacket \<times> bytes" where
  "SubackPacket_Write sa =
     (let body = encodeUint16 (MessageID sa) @ ReturnCodes sa;
          sa' = sa\<lparr>RemainingLength := int (length body)\<rparr>
      in (sa', FixedHeader_pack sa' @ body))"

definition UnsubscribePacket_Write :: "UnsubscribePacket \<Rightarrow> UnsubscribePacket \<times> bytes" where
  "UnsubscribePacket_Write u =
     (let body = encodeUint16 (MessageID u) @ concat (map encodeString (Topics u));
          u' = u\<lparr>RemainingLength := int (length body)\<rparr>
      in (u', FixedHeader_pack u' @ body))"

definition PingreqPacket_Write :: "PingreqPacket \<Rightarrow> PingreqPacket \<times> bytes" where
  "PingreqPacket_Write pr = (pr, FixedHeader_pack pr)"

definition PingrespPacket_Write :: "PingrespPacket \<Rightarrow> PingrespPacket \<times> bytes" where
  "PingrespPacket_Write pr = (pr, FixedHeader_pack pr)"

definition DisconnectPacket_Write :: "DisconnectPacket \<Rightarrow> DisconnectPacket \<times> bytes" where
  "DisconnectPacket_Write d = (d, FixedHeader_pack d)"

text \<open>Dynamic dispatch of \<open>ControlPacket.Write\<close>.\<close>

fun ControlPacket_Write :: "ControlPacket \<Rightarrow> (ControlPacket \<times> bytes) option" where
  "ControlPacket_Write (CP_Connect p) = Some (map_prod CP_Connect id (ConnectPacket_Write p))"
| "ControlPacket_Write (CP_Connack p) = Some (map_prod CP_Connack id (ConnackPacket_Write p))"
| "ControlPacket_Write (CP_Publish p) = Some (map_prod CP_Publish id (PublishPacket_Write p))"
| "ControlPacket_Write (CP_Puback p) = Some (map_prod CP_Puback id (PubackPacket_Write p))"
| "ControlPacket_Write (CP_Pubrec p) = Some (map_prod CP_Pubrec id (PubrecPacket_Write p))"
| "ControlPacket_Write (CP_Pubrel p) = Some (map_prod CP_Pubrel id (PubrelPacket_Write p))"
| "ControlPacket_Write (CP_Pubcomp p) = Some (map_prod CP_Pubcomp id (PubcompPacket_Write p))"
| "ControlPacket_Write (CP_Subscribe p) =
     map_option (map_prod CP_Subscribe id) (SubscribePacket_Write p)"
| "ControlPacket_Write (CP_Suback p) = Some (map_prod CP_Suback id (SubackPacket_Write p))"
| "ControlPacket_Write (CP_Unsubscribe p) =
     Some (map_prod CP_Unsubscribe id (UnsubscribePacket_Write p))"
| "ControlPacket_Write (CP_Unsuback p) = Some (map_prod CP_Unsuback id (UnsubackPacket_Write p))"
| "ControlPacket_Write (CP_Pingreq p) = Some (map_prod CP_Pingreq id (PingreqPacket_Write p))"
| "ControlPacket_Write (CP_Pingresp p) = Some (map_prod CP_Pingresp id (PingrespPacket_Write p))"
| "ControlPacket_Write (CP_Disconnect p) =
     Some (map_prod CP_Disconnect id (DisconnectPacket_Write p))"

section \<open>Unpack\<close>

definition ConnackPacket_Unpack ::
  "ConnackPacket \<Rightarrow> bytes \<Rightarrow> ConnackPacket \<times> go_error option \<times> bytes" where
  "ConnackPacket_Unpack ca b =
     (case decodeByte b of (flags, err, b1) \<Rightarrow>
      if err \<noteq> None then (ca, err, b1)
      else (let ca1 = ca\<lparr>SessionPresent := 1 AND flags > 0\<rparr> in
        case decodeByte b1 of (rc, err2, b2) \<Rightarrow> (ca1\<lparr>ReturnCode := rc\<rparr>, err2, b2)))"

text \<open>
  The optional tail of CONNECT: user name, password, and the extra field \<open>Other\<close>, whose decoding
  error is swallowed.
\<close>

definition ConnectPacket_Unpack_credentials ::
  "ConnectPacket \<Rightarrow> bytes \<Rightarrow> ConnectPacket \<times> go_error option \<times> bytes" where
  "ConnectPacket_Unpack_credentials c b =
     (case (if UsernameFlag c
            then (case decodeString b of (s, err, b1) \<Rightarrow> (c\<lparr>Username := s\<rparr>, err, b1))
            else (c, None, b)) of (c1, err1, b1) \<Rightarrow>
      if err1 \<noteq> None then (c1, err1, b1)
      else case (if PasswordFlag c1
                 then (case decodeBytes b1 of (p, err, b2) \<Rightarrow>
                        (c1\<lparr>Password := (case p of None \<Rightarrow> [] | Some f \<Rightarrow> f)\<rparr>, err, b2))
                 else (c1, None, b1)) of (c2, err2, b2) \<Rightarrow>
      if err2 \<noteq> None then (c2, err2, b2)
      else case decodeBytes b2 of (f, err3, b3) \<Rightarrow>
        (c2\<lparr>Other := (if err3 \<noteq> None then None else f)\<rparr>, None, b3))"

definition ConnectPacket_Unpack_payload ::
  "ConnectPacket \<Rightarrow> bytes \<Rightarrow> ConnectPacket \<times> go_error option \<times> bytes" where
  "ConnectPacket_Unpack_payload c b =
     (case decodeString b of (cid, err, b1) \<Rightarrow>
      let c1 = c\<lparr>ClientIdentifier := cid\<rparr> in
      if err \<noteq> None then (c1, err, b1)
      else if WillFlag c1 then
        (case decodeString b1 of (wt, err2, b2) \<Rightarrow>
         let c2 = c1\<lparr>WillTopic := wt\<rparr> in
         if err2 \<noteq> None then (c2, err2, b2)
         else case decodeBytes b2 of (wm, err3, b3) \<Rightarrow>
           let c3 = c2\<lparr>WillMessage := (case wm of None \<Rightarrow> [] | Some f \<Rightarrow> f)\<rparr> in
           if err3 \<noteq> None then (c3, err3, b3)
           else ConnectPacket_Unpack_credentials c3 b3)
      else ConnectPacket_Unpack_credentials c1 b1)"

definition ConnectPacket_Unpack ::
  "ConnectPacket \<Rightarrow> bytes \<Rightarrow> ConnectPacket \<times> go_error option \<times> bytes" where
  "ConnectPacket_Unpack c b =
     (case decodeString b of (pn, err, b1) \<Rightarrow>
      let c1 = c\<lparr>ProtocolName := pn\<rparr> in
      if err \<noteq> None then (c1, err, b1)
      else case decodeByte b1 of (pv, err2, b2) \<Rightarrow>
      let c2 = c1\<lparr>ProtocolVersion := pv\<rparr> in
      if err2 \<noteq> None then (c2, err2, b2)
      else case decodeByte b2 of (options, err3, b3) \<Rightarrow>
      if err3 \<noteq> None then (c2, err3, b3)
      else let c3 = c2\<lparr>ReservedBit := 1 AND options,
                       CleanSession := 1 AND drop_bit 1 options > 0,
                       WillFlag := 1 AND drop_bit 2 options > 0,
                       WillQos := 3 AND drop_bit 3 options,
                       WillRetain := 1 AND drop_bit 5 options > 0,
                       PasswordFlag := 1 AND drop_bit 6 options > 0,
                       UsernameFlag := 1 AND drop_bit 7 options > 0\<rparr> in
      case decodeUint16 b3 of (ka, err4, b4) \<Rightarrow>
      let c4 = c3\<lparr>Keepalive := ka\<rparr> in
      if err4 \<noteq> None then (c4, err4, b4)
      else ConnectPacket_Unpack_payload c4 b4)"

definition PublishPacket_Unpack ::
  "PublishPacket \<Rightarrow> bytes \<Rightarrow> PublishPacket \<times> go_error option \<times> bytes" where
  "PublishPacket_Unpack p b =
     (let payloadLength = RemainingLength p in
      case decodeString b of (tn, err, b1) \<Rightarrow>
      let p1 = p\<lparr>TopicName := tn\<rparr> in
      if err \<noteq> None then (p1, err, b1)
      else case (if Qos p1 > 0
                 then (case decodeUint16 b1 of (mid, err2, b2) \<Rightarrow>
                        (p1\<lparr>MessageID := mid\<rparr>, err2, b2, payloadLength - (int (length tn) + 4)))
                 else (p1, None, b1, payloadLength - (int (length tn) + 2)))
           of (p2, err2, b2, pl) \<Rightarrow>
      if err2 \<noteq> None then (p2, err2, b2)
      else if pl < 0 then (p2, Some (Errorf ''error unpacking publish, payload length < 0''), b2)
      else case buffer_Read (nat pl) b2 of (payload, err3, b3) \<Rightarrow>
        (p2\<lparr>Payload := payload\<rparr>, err3, b3))"

definition PubackPacket_Unpack ::
  "PubackPacket \<Rightarrow> bytes \<Rightarrow> PubackPacket \<times> go_error option \<times> bytes" where
  "PubackPacket_Unpack pa b =
     (case decodeUint16 b of (mid, err, b1) \<Rightarrow> (pa\<lparr>MessageID := mid\<rparr>, err, b1))"

definition PubrecPacket_Unpack ::
  "PubrecPacket \<Rightarrow> bytes \<Rightarrow> PubrecPacket \<times> go_error option \<times> bytes" where
  "PubrecPacket_Unpack pr b =
     (case decodeUint16 b of (mid, err, b1) \<Rightarrow> (pr\<lparr>MessageID := mid\<rparr>, err, b1))"

definition PubrelPacket_Unpack ::
  "PubrelPacket \<Rightarrow> bytes \<Rightarrow> PubrelPacket \<times> go_error option \<times> bytes" where
  "PubrelPacket_Unpack pr b =
     (case decodeUint16 b of (mid, err, b1) \<Rightarrow> (pr\<lparr>MessageID := mid\<rparr>, err, b1))"

definition PubcompPacket_Unpack ::
  "PubcompPacket \<Rightarrow> bytes \<Rightarrow> PubcompPacket \<times> go_error option \<times> bytes" where
  "PubcompPacket_Unpack pc b =
     (case decodeUint16 b of (mid, err, b1) \<Rightarrow> (pc\<lparr>MessageID := mid\<rparr>, err, b1))"

definition UnsubackPacket_Unpack ::
  "UnsubackPacket \<Rightarrow> bytes \<Rightarrow> UnsubackPacket \<times> go_error option \<times> bytes" where
  "UnsubackPacket_Unpack ua b =
     (case decodeUint16 b of (mid, err, b1) \<Rightarrow> (ua\<lparr>MessageID := mid\<rparr>, err, b1))"

text \<open>
  The loop of SUBSCRIBE: it counts down the remaining length it was told, by the size of each
  topic filter and its QoS byte.
\<close>

function subscribe_loop ::
  "int \<Rightarrow> SubscribePacket \<Rightarrow> bytes \<Rightarrow> SubscribePacket \<times> go_error option \<times> bytes" where
  "subscribe_loop payloadLength s b =
     (if payloadLength > 0 then
        (case decodeString b of (topic, err, b1) \<Rightarrow>
         if err \<noteq> None then (s, err, b1)
         else let s1 = s\<lparr>Topics := Topics s @ [topic]\<rparr> in
         case decodeByte b1 of (q, err2, b2) \<Rightarrow>
         if err2 \<noteq> None then (s1, err2, b2)
         else subscribe_loop (payloadLength - (2 + int (length topic) + 1))
                (s1\<lparr>Qoss := Qoss s1 @ [q]\<rparr>) b2)
      else (s, None, b))"
  by pat_completeness auto
termination
  by (relation "measure (\<lambda>(n, s, b). nat n)") auto

declare subscribe_loop.simps [simp del]

definition SubscribePacket_Unpack ::
  "SubscribePacket \<Rightarrow> bytes \<Rightarrow> SubscribePacket \<times> go_error option \<times> bytes" where
  "SubscribePacket_Unpack s b =
     (case decodeUint16 b of (mid, err, b1) \<Rightarrow>
      let s1 = s\<lparr>MessageID := mid\<rparr> in
      if err \<noteq> None then (s1, err, b1)
      else subscribe_loop (RemainingLength s1 - 2) s1 b1)"

text \<open>\<open>qosBuffer.ReadFrom(b)\<close> takes everything that is left and reports no error at the end.\<close>

definition SubackPacket_Unpack ::
  "SubackPacket \<Rightarrow> bytes \<Rightarrow> SubackPacket \<times> go_error option \<times> bytes" where
  "SubackPacket_Unpack sa b =
     (case decodeUint16 b of (mid, err, b1) \<Rightarrow>
      let sa1 = sa\<lparr>MessageID := mid\<rparr> in
      if err \<noteq> None then (sa1, err, b1)
      else (sa1\<lparr>ReturnCodes := b1\<rparr>, None, []))"

lemma decodeString_shorter:
  assumes "decodeString b = (t, None, b')"
  shows "length b' < length b"
  using assms
  by (auto simp: decodeString_def decodeBytes_def decodeUint16_def buffer_Read_def
      split: prod.splits if_splits)

text \<open>
  The loop of UNSUBSCRIBE reads topics until a decoding error or an empty topic; the error is a
  variable of the \<open>for\<close> statement and is dropped.
\<close>

function unsubscribe_loop :: "UnsubscribePacket \<Rightarrow> bytes \<Rightarrow> UnsubscribePacket \<times> bytes" where
  "unsubscribe_loop u b =
     (case decodeString b of (topic, err, b1) \<Rightarrow>
      if err = None \<and> topic \<noteq> []
      then unsubscribe_loop (u\<lparr>Topics := Topics u @ [topic]\<rparr>) b1
      else (u, b1))"
  by pat_completeness auto
termination
  by (relation "measure (\<lambda>(u, b). length b)") (auto dest: decodeString_shorter [OF sym])

declare unsubscribe_loop.simps [simp del]

definition UnsubscribePacket_Unpack ::
  "UnsubscribePacket \<Rightarrow> bytes \<Rightarrow> UnsubscribePacket \<times> go_error option \<times> bytes" where
  "UnsubscribePacket_Unpack u b =
     (case decodeUint16 b of (mid, err, b1) \<Rightarrow>
      let u1 = u\<lparr>MessageID := mid\<rparr> in
      if err \<noteq> None then (u1, err, b1)
      else case unsubscribe_loop u1 b1 of (u2, b2) \<Rightarrow> (u2, None, b2))"

definition PingreqPacket_Unpack ::
  "PingreqPacket \<Rightarrow> bytes \<Rightarrow> PingreqPacket \<times> go_error option \<times> bytes" where
  "PingreqPacket_Unpack pr b = (pr, None, b)"

definition PingrespPacket_Unpack ::
  "PingrespPacket \<Rightarrow> bytes \<Rightarrow> PingrespPacket \<times> go_error option \<times> bytes" where
  "PingrespPacket_Unpack pr b = (pr, None, b)"

definition DisconnectPacket_Unpack ::
  "DisconnectPacket \<Rightarrow> bytes \<Rightarrow> DisconnectPacket \<times> go_error option \<times> bytes" where
  "DisconnectPacket_Unpack d b = (d, None, b)"

text \<open>Dynamic dispatch of \<open>ControlPacket.Unpack\<close>.\<close>

fun ControlPacket_Unpack ::
  "ControlPacket \<Rightarrow> bytes \<Rightarrow> ControlPacket \<times> go_error option \<times> bytes" where
  "ControlPacket_Unpack (CP_Connect p) b = map_prod CP_Connect id (ConnectPacket_Unpack p b)"
| "ControlPacket_Unpack (CP_Connack p) b = map_prod CP_Connack id (ConnackPacket_Unpack p b)"
| "ControlPacket_Unpack (CP_Publish p) b = map_prod CP_Publish id (PublishPacket_Unpack p b)"
| "ControlPacket_Unpack (CP_Puback p) b = map_prod CP_Puback id (PubackPacket_Unpack p b)"
| "ControlPacket_Unpack (CP_Pubrec p) b = map_prod CP_Pubrec id (PubrecPacket_Unpack p b)"
| "ControlPacket_Unpack (CP_Pubrel p) b = map_prod CP_Pubrel id (PubrelPacket_Unpack p b)"
| "ControlPacket_Unpack (CP_Pubcomp p) b = map_prod CP_Pubcomp id (PubcompPacket_Unpack p b)"
| "ControlPacket_Unpack (CP_Subscribe p) b = map_prod CP_Subscribe id (SubscribePacket_Unpack p b)"
| "ControlPacket_Unpack (CP_Suback p) b = map_prod CP_Suback id (SubackPacket_Unpack p b)"
| "ControlPacket_Unpack (CP_Unsubscribe p) b =
     map_prod CP_Unsubscribe id (UnsubscribePacket_Unpack p b)"
| "ControlPacket_Unpack (CP_Unsuback p) b = map_prod CP_Unsuback id (UnsubackPacket_Unpack p b)"
| "ControlPacket_Unpack (CP_Pingreq p) b = map_prod CP_Pingreq id (PingreqPacket_Unpack p b)"
| "ControlPacket_Unpack (CP_Pingresp p) b = map_prod CP_Pingresp id (PingrespPacket_Unpack p b)"
| "ControlPacket_Unpack (CP_Disconnect p) b =
     map_prod CP_Disconnect id (DisconnectPacket_Unpack p b)"

section \<open>Constructors\<close>

text \<open>Struct literals \<open>&XPacket{FixedHeader: fh}\<close>: the other fields hold their zero values.\<close>

definition new_ConnectPacket :: "FixedHeader \<Rightarrow> ConnectPacket" where
  "new_ConnectPacket fh =
     \<lparr>MessageType = MessageType fh, Dup = Dup fh, Qos = Qos fh, Retain = Retain fh,
      RemainingLength = RemainingLength fh,
      ProtocolName = [], ProtocolVersion = 0, CleanSession = False, WillFlag = False, WillQos = 0,
      WillRetain = False, UsernameFlag = False, PasswordFlag = False, ReservedBit = 0,
      Keepalive = 0, ClientIdentifier = [], WillTopic = [], WillMessage = [], Username = [],
      Password = [], Other = None\<rparr>"

definition new_ConnackPacket :: "FixedHeader \<Rightarrow> ConnackPacket" where
  "new_ConnackPacket fh =
     \<lparr>MessageType = MessageType fh, Dup = Dup fh, Qos = Qos fh, Retain = Retain fh,
      RemainingLength = RemainingLength fh, SessionPresent = False, ReturnCode = 0\<rparr>"

definition new_MidPacket :: "FixedHeader \<Rightarrow> MidPacket" where
  "new_MidPacket fh =
     \<lparr>MessageType = MessageType fh, Dup = Dup fh, Qos = Qos fh, Retain = Retain fh,
      RemainingLength = RemainingLength fh, MessageID = 0\<rparr>"

definition new_PublishPacket :: "FixedHeader \<Rightarrow> PublishPacket" where
  "new_PublishPacket fh =
     \<lparr>MessageType = MessageType fh, Dup = Dup fh, Qos = Qos fh, Retain = Retain fh,
      RemainingLength = RemainingLength fh, MessageID = 0, TopicName = [], Payload = []\<rparr>"

definition new_SubscribePacket :: "FixedHeader \<Rightarrow> SubscribePacket" where
  "new_SubscribePacket fh =
     \<lparr>MessageType = MessageType fh, Dup = Dup fh, Qos = Qos fh, Retain = Retain fh,
      RemainingLength = RemainingLength fh, MessageID = 0, Topics = [], Qoss = []\<rparr>"

definition new_SubackPacket :: "FixedHeader \<Rightarrow> SubackPacket" where
  "new_SubackPacket fh =
     \<lparr>MessageType = MessageType fh, Dup = Dup fh, Qos = Qos fh, Retain = Retain fh,
      RemainingLength = RemainingLength fh, MessageID = 0, ReturnCodes = []\<rparr>"

definition new_UnsubscribePacket :: "FixedHeader \<Rightarrow> UnsubscribePacket" where
  "new_UnsubscribePacket fh =
     \<lparr>MessageType = MessageType fh, Dup = Dup fh, Qos = Qos fh, Retain = Retain fh,
      RemainingLength = RemainingLength fh, MessageID = 0, Topics = []\<rparr>"

lemmas new_packet_defs =
  new_ConnectPacket_def new_ConnackPacket_def new_MidPacket_def new_PublishPacket_def
  new_SubscribePacket_def new_SubackPacket_def new_UnsubscribePacket_def

text \<open>\<open>FixedHeader{MessageType: t, Qos: q}\<close>.\<close>

definition zeroHeader :: "byte \<Rightarrow> byte \<Rightarrow> FixedHeader" where
  "zeroHeader t q = \<lparr>MessageType = t, Dup = False, Qos = q, Retain = False, RemainingLength = 0\<rparr>"

definition NewControlPacket :: "byte \<Rightarrow> ControlPacket option" where
  "NewControlPacket packetType =
     (if packetType = Connect then Some (CP_Connect (new_ConnectPacket (zeroHeader Connect 0)))
      else if packetType = Connack then Some (CP_Connack (new_ConnackPacket (zeroHeader Connack 0)))
      else if packetType = Disconnect then Some (CP_Disconnect (zeroHeader Disconnect 0))
      else if packetType = Publish then Some (CP_Publish (new_PublishPacket (zeroHeader Publish 0)))
      else if packetType = Puback then Some (CP_Puback (new_MidPacket (zeroHeader Puback 0)))
      else if packetType = Pubrec then Some (CP_Pubrec (new_MidPacket (zeroHeader Pubrec 0)))
      else if packetType = Pubrel then Some (CP_Pubrel (new_MidPacket (zeroHeader Pubrel 1)))
      else if packetType = Pubcomp then Some (CP_Pubcomp (new_MidPacket (zeroHeader Pubcomp 0)))
      else if packetType = Subscribe
        then Some (CP_Subscribe (new_SubscribePacket (zeroHeader Subscribe 1)))
      else if packetType = Suback then Some (CP_Suback (new_SubackPacket (zeroHeader Suback 0)))
      else if packetType = Unsubscribe
        then Some (CP_Unsubscribe (new_UnsubscribePacket (zeroHeader Unsubscribe 1)))
      else if packetType = Unsuback then Some (CP_Unsuback (new_MidPacket (zeroHeader Unsuback 0)))
      else if packetType = Pingreq then Some (CP_Pingreq (zeroHeader Pingreq 0))
      else if packetType = Pingresp then Some (CP_Pingresp (zeroHeader Pingresp 0))
      else None)"

definition NewControlPacketWithHeader :: "FixedHeader \<Rightarrow> go_error + ControlPacket" where
  "NewControlPacketWithHeader fh =
     (let t = MessageType fh in
      if t = Connect then Inr (CP_Connect (new_ConnectPacket fh))
      else if t = Connack then Inr (CP_Connack (new_ConnackPacket fh))
      else if t = Disconnect then Inr (CP_Disconnect fh)
      else if t = Publish then Inr (CP_Publish (new_PublishPacket fh))
      else if t = Puback then Inr (CP_Puback (new_MidPacket fh))
      else if t = Pubrec then Inr (CP_Pubrec (new_MidPacket fh))
      else if t = Pubrel then Inr (CP_Pubrel (new_MidPacket fh))
      else if t = Pubcomp then Inr (CP_Pubcomp (new_MidPacket fh))
      else if t = Subscribe then Inr (CP_Subscribe (new_SubscribePacket fh))
      else if t = Suback then Inr (CP_Suback (new_SubackPacket fh))
      else if t = Unsubscribe then Inr (CP_Unsubscribe (new_UnsubscribePacket fh))
      else if t = Unsuback then Inr (CP_Unsuback (new_MidPacket fh))
      else if t = Pingreq then Inr (CP_Pingreq fh)
      else if t = Pingresp then Inr (CP_Pingresp fh)
      else Inl (Errorf ''unsupported packet type''))"

definition PublishPacket_Copy :: "PublishPacket \<Rightarrow> PublishPacket" where
  "PublishPacket_Copy p =
     (new_PublishPacket (zeroHeader Publish 0))\<lparr>TopicName := TopicName p, Payload := Payload p\<rparr>"

section \<open>Details and validation\<close>

fun ControlPacket_Details :: "ControlPacket \<Rightarrow> Details" where
  "ControlPacket_Details (CP_Connect p) = \<lparr>Details_Qos = 0, Details_MessageID = 0\<rparr>"
| "ControlPacket_Details (CP_Connack p) = \<lparr>Details_Qos = 0, Details_MessageID = 0\<rparr>"
| "ControlPacket_Details (CP_Publish p) = \<lparr>Details_Qos = Qos p, Details_MessageID = MessageID p\<rparr>"
| "ControlPacket_Details (CP_Puback p) = \<lparr>Details_Qos = Qos p, Details_MessageID = MessageID p\<rparr>"
| "ControlPacket_Details (CP_Pubrec p) = \<lparr>Details_Qos = Qos p, Details_MessageID = MessageID p\<rparr>"
| "ControlPacket_Details (CP_Pubrel p) = \<lparr>Details_Qos = Qos p, Details_MessageID = MessageID p\<rparr>"
| "ControlPacket_Details (CP_Pubcomp p) = \<lparr>Details_Qos = Qos p, Details_MessageID = MessageID p\<rparr>"
| "ControlPacket_Details (CP_Subscribe p) = \<lparr>Details_Qos = 1, Details_MessageID = MessageID p\<rparr>"
| "ControlPacket_Details (CP_Suback p) = \<lparr>Details_Qos = 0, Details_MessageID = MessageID p\<rparr>"
| "ControlPacket_Details (CP_Unsubscribe p) = \<lparr>Details_Qos = 1, Details_MessageID = MessageID p\<rparr>"
| "ControlPacket_Details (CP_Unsuback p) = \<lparr>Details_Qos = 0, Details_MessageID = MessageID p\<rparr>"
| "ControlPacket_Details (CP_Pingreq p) = \<lparr>Details_Qos = 0, Details_MessageID = 0\<rparr>"
| "ControlPacket_Details (CP_Pingresp p) = \<lparr>Details_Qos = 0, Details_MessageID = 0\<rparr>"
| "ControlPacket_Details (CP_Disconnect p) = \<lparr>Details_Qos = 0, Details_MessageID = 0\<rparr>"

definition ConnectPacket_Validate :: "ConnectPacket \<Rightarrow> byte" where
  "ConnectPacket_Validate c =
     (if PasswordFlag c \<and> \<not> UsernameFlag c then ErrRefusedBadUsernameOrPassword
      else if ReservedBit c \<noteq> 0 then ErrProtocolViolation
      else if (ProtocolName c = ''MQIsdp'' \<and> ProtocolVersion c \<noteq> 3) \<or>
              (ProtocolName c = ''MQTT'' \<and> ProtocolVersion c \<noteq> 4)
        then ErrRefusedBadProtocolVersion
      else if ProtocolName c \<noteq> ''MQIsdp'' \<and> ProtocolName c \<noteq> ''MQTT'' then ErrProtocolViolation
      else if length (ClientIdentifier c) > 65535 \<or> length (Username c) > 65535 \<or>
              length (Password c) > 65535
        then ErrProtocolViolation
      else if length (ClientIdentifier c) = 0 \<and> \<not> CleanSession c then ErrRefusedIDRejected
      else Accepted)"

section \<open>Reading a packet from a connection\<close>

text \<open>
  The result is the packet, the error and the unread part of the stream. When \<open>Unpack\<close> fails the
  code returns both the half-filled packet and the error.
\<close>

definition zeroFixedHeader :: FixedHeader where
  "zeroFixedHeader = zeroHeader 0 0"

definition ReadPacket :: "bytes \<Rightarrow> ControlPacket option \<times> go_error option \<times> bytes" where
  "ReadPacket r =
     (case io_ReadFull 1 r of (b, err, r1) \<Rightarrow>
      if err \<noteq> None then (None, err, r1)
      else case FixedHeader_unpack zeroFixedHeader (b ! 0) r1 of (fh, err2, r2) \<Rightarrow>
      if err2 \<noteq> None then (None, err2, r2)
      else case NewControlPacketWithHeader fh of
        Inl e \<Rightarrow> (None, Some e, r2)
      | Inr cp \<Rightarrow>
          (case io_ReadFull (nat (RemainingLength fh)) r2 of (packetBytes, err3, r3) \<Rightarrow>
           if err3 \<noteq> None then (None, err3, r3)
           else if int (length packetBytes) \<noteq> RemainingLength fh
             then (None, Some (Errorf ''failed to read expected data''), r3)
           else case ControlPacket_Unpack cp packetBytes of (cp', err4, _) \<Rightarrow>
             (Some cp', err4, r3)))"

end
