(* ===== verification/PacketCodec.thy ===== *)
theory PacketCodec
  imports Packets
begin

text \<open>
  What the packet codec of \<open>src/mqtt/packets/\<close> guarantees: a packet that fits the wire format is
  written and read back unchanged whatever follows it on the stream, \<open>ReadPacket\<close> consumes exactly
  one packet, unsupported types and truncated packets are reported, and \<open>Validate\<close> accepts exactly
  the CONNECT packets of the two supported protocol versions.
\<close>

lemmas codec_end [codec_simps, simp] =
  decodeBytes_encodeBytes [where r = "[]", simplified]
  decodeString_encodeString [where r = "[]", simplified]
  decodeUint16_encodeUint16 [where r = "[]", simplified]

definition header_of :: "'a FixedHeader_scheme \<Rightarrow> FixedHeader" where
  "header_of p = \<lparr>MessageType = MessageType p, Dup = Dup p, Qos = Qos p, Retain = Retain p,
     RemainingLength = RemainingLength p\<rparr>"

lemma header_of_sel [simp]:
  "MessageType (header_of p) = MessageType p" "Dup (header_of p) = Dup p"
  "Qos (header_of p) = Qos p" "Retain (header_of p) = Retain p"
  "RemainingLength (header_of p) = RemainingLength p"
  by (simp_all add: header_of_def)

lemma io_ReadFull_append [codec_simps]: "length xs = n \<Longrightarrow> io_ReadFull n (xs @ r) = (xs, None, r)"
  by (simp add: io_ReadFull_def)

text \<open>One packet on the stream, whatever its type.\<close>

lemma ReadPacket_frame:
  assumes "header_wf p" "RemainingLength p = int (length body)"
    and "NewControlPacketWithHeader (header_of p) = Inr cp"
    and "ControlPacket_Unpack cp body = (cp', err, b')"
  shows "ReadPacket (FixedHeader_pack p @ body @ r) = (Some cp', err, r)"
proof -
  let ?f = "flags_byte (MessageType p) (Dup p) (Qos p) (Retain p)"
  have 1: "io_ReadFull 1 (FixedHeader_pack p @ body @ r) =
      ([?f], None, encodeLength (RemainingLength p) @ body @ r)"
    by (simp add: FixedHeader_pack_flags io_ReadFull_def)
  have 2: "FixedHeader_unpack zeroFixedHeader ?f (encodeLength (RemainingLength p) @ body @ r) =
      (header_of p, None, body @ r)"
    using assms(1) by (simp add: header_wf_def FixedHeader_unpack_flags header_of_def)
  have 3: "io_ReadFull (nat (RemainingLength p)) (body @ r) = (body, None, r)"
    using assms(2) by (simp add: io_ReadFull_append)
  show ?thesis
    unfolding ReadPacket_def 1 using assms(3)
    by (simp add: 2 [unfolded assms(2)] io_ReadFull_append assms(2,4))
qed

lemma connect_flags:
  fixes wq :: byte and cs wl wr pf uf :: bool
  assumes "wq < 4"
  defines "w \<equiv> push_bit 1 (boolToByte cs) OR push_bit 2 (boolToByte wl) OR push_bit 3 wq OR
    push_bit 5 (boolToByte wr) OR push_bit 6 (boolToByte pf) OR push_bit 7 (boolToByte uf)"
  shows "1 AND w = 0" "1 AND drop_bit 1 w > 0 \<longleftrightarrow> cs" "1 AND drop_bit 2 w > 0 \<longleftrightarrow> wl"
    "3 AND drop_bit 3 w = wq" "1 AND drop_bit 5 w > 0 \<longleftrightarrow> wr" "1 AND drop_bit 6 w > 0 \<longleftrightarrow> pf"
    "1 AND drop_bit 7 w > 0 \<longleftrightarrow> uf"
proof -
  have q: "bit wq n \<Longrightarrow> n < 2" for n
    using assms(1) by (intro bit_small_word [of wq]) (auto simp: word_less_def)
  have w: "bit w n \<longleftrightarrow> n < 8 \<and> (cs \<and> n = 1 \<or> wl \<and> n = 2 \<or> 3 \<le> n \<and> bit wq (n - 3) \<or>
      wr \<and> n = 5 \<or> pf \<and> n = 6 \<or> uf \<and> n = 7)" for n
    unfolding w_def bit_or_iff bit_push_bit_iff bit_boolToByte possible_bit_word
    by auto
  have three: "bit (3 :: int) n \<longleftrightarrow> n < 2" for n
    using bit_mask_iff [of 2 n, where 'a = int] by (simp add: mask_eq_exp_minus_1)
  show "1 AND w = 0"
    using w [of 0] by (simp add: one_and_eq bit_0 even_iff_mod_2_eq_zero [symmetric])
  show "3 AND drop_bit 3 w = wq"
    by (rule bit_word_eqI) (auto simp: bit_drop_bit_eq bit_and_iff three w dest: q)
  show "1 AND drop_bit 1 w > 0 \<longleftrightarrow> cs" "1 AND drop_bit 2 w > 0 \<longleftrightarrow> wl"
    "1 AND drop_bit 5 w > 0 \<longleftrightarrow> wr" "1 AND drop_bit 6 w > 0 \<longleftrightarrow> pf" "1 AND drop_bit 7 w > 0 \<longleftrightarrow> uf"
    by (auto simp: and.commute [of 1] byte_bit_pos bit_drop_bit_eq w dest: q)
qed


section \<open>Round trips\<close>

text \<open>
  What a packet must satisfy to survive being written and read back: its header fields fit their
  bits, its strings fit their 16-bit lengths, fields that are only sent under a flag hold their
  zero value when the flag is off, and the whole body fits a remaining length.
\<close>

definition connect_wf :: "ConnectPacket \<Rightarrow> bool" where
  "connect_wf c \<longleftrightarrow> MessageType c = Connect \<and> Qos c < 4 \<and> WillQos c < 4 \<and> ReservedBit c = 0 \<and>
     length (ProtocolName c) < 65536 \<and> length (ClientIdentifier c) < 65536 \<and>
     length (WillTopic c) < 65536 \<and> length (WillMessage c) < 65536 \<and>
     length (Username c) < 65536 \<and> length (Password c) < 65536 \<and>
     (case Other c of None \<Rightarrow> True | Some f \<Rightarrow> length f < 65536) \<and>
     (\<not> WillFlag c \<longrightarrow> WillTopic c = [] \<and> WillMessage c = []) \<and>
     (\<not> UsernameFlag c \<longrightarrow> Username c = []) \<and> (\<not> PasswordFlag c \<longrightarrow> Password c = [])"

fun packet_wf :: "ControlPacket \<Rightarrow> bool" where
  "packet_wf (CP_Connect c) \<longleftrightarrow> connect_wf c"
| "packet_wf (CP_Connack p) \<longleftrightarrow> MessageType p = Connack \<and> Qos p < 4"
| "packet_wf (CP_Publish p) \<longleftrightarrow> MessageType p = Publish \<and> Qos p < 4 \<and> length (TopicName p) < 65536 \<and>
     length (TopicName p) + length (Payload p) + 4 < 268435456 \<and> (Qos p = 0 \<longrightarrow> MessageID p = 0)"
| "packet_wf (CP_Puback p) \<longleftrightarrow> MessageType p = Puback \<and> Qos p < 4"
| "packet_wf (CP_Pubrec p) \<longleftrightarrow> MessageType p = Pubrec \<and> Qos p < 4"
| "packet_wf (CP_Pubrel p) \<longleftrightarrow> MessageType p = Pubrel \<and> Qos p < 4"
| "packet_wf (CP_Pubcomp p) \<longleftrightarrow> MessageType p = Pubcomp \<and> Qos p < 4"
| "packet_wf (CP_Subscribe p) \<longleftrightarrow> MessageType p = Subscribe \<and> Qos p < 4 \<and>
     length (Qoss p) = length (Topics p) \<and> (\<forall>t \<in> set (Topics p). length t < 65536) \<and>
     (\<Sum>t \<leftarrow> Topics p. length t + 3) + 2 < 268435456"
| "packet_wf (CP_Suback p) \<longleftrightarrow> MessageType p = Suback \<and> Qos p < 4 \<and>
     length (ReturnCodes p) + 2 < 268435456"
| "packet_wf (CP_Unsubscribe p) \<longleftrightarrow> MessageType p = Unsubscribe \<and> Qos p < 4 \<and>
     (\<forall>t \<in> set (Topics p). t \<noteq> [] \<and> length t < 65536) \<and>
     (\<Sum>t \<leftarrow> Topics p. length t + 2) + 2 < 268435456"
| "packet_wf (CP_Unsuback p) \<longleftrightarrow> MessageType p = Unsuback \<and> Qos p < 4"
| "packet_wf (CP_Pingreq p) \<longleftrightarrow> MessageType p = Pingreq \<and> Qos p < 4 \<and> RemainingLength p = 0"
| "packet_wf (CP_Pingresp p) \<longleftrightarrow> MessageType p = Pingresp \<and> Qos p < 4 \<and> RemainingLength p = 0"
| "packet_wf (CP_Disconnect p) \<longleftrightarrow> MessageType p = Disconnect \<and> Qos p < 4 \<and> RemainingLength p = 0"

text \<open>The extra field of CONNECT is always sent, so it comes back as a (possibly empty) field.\<close>

fun as_read :: "ControlPacket \<Rightarrow> ControlPacket" where
  "as_read (CP_Connect c) =
     CP_Connect (c\<lparr>Other := Some (case Other c of None \<Rightarrow> [] | Some f \<Rightarrow> f)\<rparr>)"
| "as_read p = p"

lemma subscribe_body_Some:
  "length qs = length ts \<Longrightarrow>
   \<exists>b. subscribe_body ts qs = Some b \<and> length b = (\<Sum>t \<leftarrow> ts. length t + 3)"
  by (induction ts qs rule: subscribe_body.induct) auto

lemma subscribe_loop_body:
  assumes "subscribe_body ts qs = Some b" "length qs = length ts" "\<forall>t \<in> set ts. length t < 65536"
  shows "subscribe_loop (int (length b)) s b = (s\<lparr>Topics := Topics s @ ts, Qoss := Qoss s @ qs\<rparr>, None, [])"
  using assms
proof (induction ts qs arbitrary: s b rule: subscribe_body.induct)
  case (1 qs)
  then show ?case by (simp add: subscribe_loop.simps)
next
  case (3 t ts q qs)
  then obtain b' where b': "subscribe_body ts qs = Some b'" "b = encodeString t @ q # b'" by auto
  have IH: "subscribe_loop (int (length b')) s' b' =
      (s'\<lparr>Topics := Topics s' @ ts, Qoss := Qoss s' @ qs\<rparr>, None, [])" for s'
    using 3 b' by simp
  have len: "int (length b) - (3 + int (length t)) = int (length b')" "b \<noteq> []"
    by (simp_all add: b')
  have dec: "decodeString b = (t, None, q # b')" using "3.prems" by (simp add: b')
  show ?case
    unfolding subscribe_loop.simps [of "int (length b)"] by (simp add: dec len IH del: of_nat_add)
qed simp

lemma unsubscribe_loop_topics:
  assumes "\<forall>t \<in> set ts. t \<noteq> [] \<and> length t < 65536"
  shows "unsubscribe_loop u (concat (map encodeString ts)) = (u\<lparr>Topics := Topics u @ ts\<rparr>, [])"
  using assms
proof (induction ts arbitrary: u)
  case Nil
  have "decodeString [] = ([], Some EOF, [])"
    by (simp add: decodeString_def decodeBytes_def decodeUint16_def buffer_Read_def string_of_bytes_def)
  then show ?case by (simp add: unsubscribe_loop.simps)
next
  case (Cons t ts)
  then show ?case by (simp add: unsubscribe_loop.simps [of u])
qed

text \<open>The body of a CONNECT packet in the three parts the decoder is divided into.\<close>

definition credentials_body :: "ConnectPacket \<Rightarrow> bytes" where
  "credentials_body c =
     (if UsernameFlag c then encodeString (Username c) else []) @
     (if PasswordFlag c then encodeBytes (Password c) else []) @
     encodeBytes (case Other c of None \<Rightarrow> [] | Some b \<Rightarrow> b)"

definition connect_payload_body :: "ConnectPacket \<Rightarrow> bytes" where
  "connect_payload_body c =
     encodeString (ClientIdentifier c) @
     (if WillFlag c then encodeString (WillTopic c) @ encodeBytes (WillMessage c) else []) @
     credentials_body c"

definition connect_options :: "ConnectPacket \<Rightarrow> byte" where
  "connect_options c =
     push_bit 1 (boolToByte (CleanSession c)) OR push_bit 2 (boolToByte (WillFlag c)) OR
     push_bit 3 (WillQos c) OR push_bit 5 (boolToByte (WillRetain c)) OR
     push_bit 6 (boolToByte (PasswordFlag c)) OR push_bit 7 (boolToByte (UsernameFlag c))"

definition connect_body :: "ConnectPacket \<Rightarrow> bytes" where
  "connect_body c = encodeString (ProtocolName c) @ ProtocolVersion c # connect_options c #
     encodeUint16 (Keepalive c) @ connect_payload_body c"

lemmas connect_body_defs =
  connect_body_def connect_payload_body_def credentials_body_def connect_options_def

lemma ConnectPacket_Write_body:
  "ConnectPacket_Write c = (let c' = c\<lparr>RemainingLength := int (length (connect_body c))\<rparr>
     in (c', FixedHeader_pack c' @ connect_body c))"
  by (simp add: ConnectPacket_Write_def connect_body_defs Let_def)

abbreviation with_other :: "ConnectPacket \<Rightarrow> ConnectPacket" where
  "with_other c \<equiv> c\<lparr>Other := Some (case Other c of None \<Rightarrow> [] | Some f \<Rightarrow> f)\<rparr>"

lemma connect_wf_other: "connect_wf c \<Longrightarrow> length (case Other c of None \<Rightarrow> [] | Some f \<Rightarrow> f) < 65536"
  by (auto simp: connect_wf_def split: option.splits)

lemma ConnectPacket_Unpack_credentials_body:
  assumes "connect_wf c"
  shows "ConnectPacket_Unpack_credentials (c\<lparr>Username := [], Password := [], Other := None\<rparr>)
     (credentials_body c) = (with_other c, None, [])"
  using assms connect_wf_other [OF assms]
  by (cases "UsernameFlag c"; cases "PasswordFlag c")
    (simp_all add: ConnectPacket_Unpack_credentials_def credentials_body_def connect_wf_def)

lemma ConnectPacket_Unpack_payload_body:
  assumes "connect_wf c"
  shows "ConnectPacket_Unpack_payload (c\<lparr>ClientIdentifier := [], WillTopic := [], WillMessage := [],
       Username := [], Password := [], Other := None\<rparr>) (connect_payload_body c) =
    (with_other c, None, [])"
proof (cases "WillFlag c")
  case True
  with assms ConnectPacket_Unpack_credentials_body [OF assms] show ?thesis
    by (simp add: ConnectPacket_Unpack_payload_def connect_payload_body_def connect_wf_def)
next
  case False
  then have same: "c\<lparr>WillTopic := [], WillMessage := [], Username := [], Password := [], Other := None\<rparr> =
      c\<lparr>Username := [], Password := [], Other := None\<rparr>"
    using assms by (cases c) (simp add: connect_wf_def)
  have "length (ClientIdentifier c) < 65536" using assms by (simp add: connect_wf_def)
  with False show ?thesis
    by (simp add: ConnectPacket_Unpack_payload_def connect_payload_body_def same
        ConnectPacket_Unpack_credentials_body [OF assms])
qed

lemma ConnectPacket_Unpack_body:
  assumes "connect_wf c"
  shows "ConnectPacket_Unpack (new_ConnectPacket (header_of c)) (connect_body c) =
    (with_other c, None, [])"
proof -
  have wf: "WillQos c < 4" "length (ProtocolName c) < 65536" "ReservedBit c = 0"
    using assms by (auto simp: connect_wf_def)
  have rebuild: "(new_ConnectPacket (header_of c))\<lparr>ProtocolName := ProtocolName c,
      ProtocolVersion := ProtocolVersion c, ReservedBit := 0, CleanSession := CleanSession c,
      WillFlag := WillFlag c, WillQos := WillQos c, WillRetain := WillRetain c,
      PasswordFlag := PasswordFlag c, UsernameFlag := UsernameFlag c, Keepalive := Keepalive c\<rparr> =
    c\<lparr>ClientIdentifier := [], WillTopic := [], WillMessage := [],
       Username := [], Password := [], Other := None\<rparr>"
    using wf(3) by (cases c) (simp add: new_ConnectPacket_def header_of_def)
  note flags = connect_flags [OF wf(1), of "CleanSession c" "WillFlag c" "WillRetain c"
      "PasswordFlag c" "UsernameFlag c", folded connect_options_def]
  show ?thesis
    unfolding ConnectPacket_Unpack_def connect_body_def
    by (simp only: Let_def decodeString_encodeString [OF wf(2)] split decodeByte_Cons
      decodeUint16_encodeUint16 flags rebuild ConnectPacket_Unpack_payload_body [OF assms]
      not_True_eq_False simp_thms if_False)
qed


lemma PublishPacket_Unpack_body:
  assumes "length (TopicName p) < 65536" "Qos p = 0 \<longrightarrow> MessageID p = 0"
  defines "b \<equiv> encodeString (TopicName p) @ (if Qos p > 0 then encodeUint16 (MessageID p) else []) @ Payload p"
  assumes "RemainingLength p = int (length b)"
  shows "PublishPacket_Unpack (new_PublishPacket (header_of p)) b = (p, None, [])"
proof -
  have pl: "buffer_Read (length (Payload p)) (Payload p) = (Payload p, None, [])"
    by (simp add: buffer_Read_def)
  have len: "length (encodeString (TopicName p)) = length (TopicName p) + 2" by simp
  have cp: "header_of p = \<lparr>MessageType = MessageType p, Dup = Dup p, Qos = Qos p, Retain = Retain p,
     RemainingLength = int (length b)\<rparr>" by (simp add: header_of_def assms(4))
  show ?thesis
  proof (cases "Qos p > 0")
    case True
    with assms(1) have "PublishPacket_Unpack (new_PublishPacket (header_of p)) b =
        ((new_PublishPacket (header_of p))\<lparr>TopicName := TopicName p, MessageID := MessageID p,
          Payload := Payload p\<rparr>, None, [])"
      by (simp add: PublishPacket_Unpack_def new_PublishPacket_def pl b_def assms(4) cp)
    then show ?thesis by (cases p) (simp add: new_PublishPacket_def header_of_def)
  next
    case False
    with assms(1) have "PublishPacket_Unpack (new_PublishPacket (header_of p)) b =
        ((new_PublishPacket (header_of p))\<lparr>TopicName := TopicName p, Payload := Payload p\<rparr>, None, [])"
      by (simp add: PublishPacket_Unpack_def new_PublishPacket_def pl b_def assms(4) cp)
    with False assms(2) show ?thesis by (cases p) (simp add: new_PublishPacket_def header_of_def word_gt_0)
  qed
qed

lemma SubscribePacket_Unpack_body:
  assumes "subscribe_body (Topics p) (Qoss p) = Some b" "length (Qoss p) = length (Topics p)"
    "\<forall>t \<in> set (Topics p). length t < 65536" "RemainingLength p = int (length b) + 2"
  shows "SubscribePacket_Unpack (new_SubscribePacket (header_of p)) (encodeUint16 (MessageID p) @ b) =
    (p, None, [])"
  using assms by (cases p) (simp add: SubscribePacket_Unpack_def new_SubscribePacket_def
      subscribe_loop_body header_of_def)

lemma SubackPacket_Unpack_body:
  "SubackPacket_Unpack (new_SubackPacket (header_of p)) (encodeUint16 (MessageID p) @ ReturnCodes p) =
    (p, None, [])"
  by (cases p) (simp add: SubackPacket_Unpack_def new_SubackPacket_def header_of_def)

lemma UnsubscribePacket_Unpack_body:
  assumes "\<forall>t \<in> set (Topics p). t \<noteq> [] \<and> length t < 65536"
  shows "UnsubscribePacket_Unpack (new_UnsubscribePacket (header_of p))
     (encodeUint16 (MessageID p) @ concat (map encodeString (Topics p))) = (p, None, [])"
  using assms by (cases p) (simp add: UnsubscribePacket_Unpack_def new_UnsubscribePacket_def
      unsubscribe_loop_topics header_of_def)

lemma MidPacket_rebuild: "(new_MidPacket (header_of p))\<lparr>MessageID := MessageID p\<rparr> = (p :: MidPacket)"
  by (cases p) (simp add: new_MidPacket_def header_of_def)

lemma ConnackPacket_rebuild:
  "(new_ConnackPacket (header_of p))\<lparr>SessionPresent := SessionPresent p, ReturnCode := ReturnCode p\<rparr> = p"
  by (cases p) (simp add: new_ConnackPacket_def header_of_def)

lemma header_of_FixedHeader: "header_of p = (p :: FixedHeader)"
  by (cases p) (simp add: header_of_def)

lemmas mid_Unpack_defs = PubackPacket_Unpack_def PubrecPacket_Unpack_def PubrelPacket_Unpack_def
  PubcompPacket_Unpack_def UnsubackPacket_Unpack_def

lemmas mid_Write_defs = PubackPacket_Write_def PubrecPacket_Write_def PubrelPacket_Write_def
  PubcompPacket_Write_def UnsubackPacket_Write_def

lemma length_concat_encodeString:
  "length (concat (map encodeString ts)) = (\<Sum>t \<leftarrow> ts. length t + 2)"
  by (induction ts) auto

lemma ReadPacket_written:
  assumes "header_wf q" "RemainingLength q = int (length body)"
    and "NewControlPacketWithHeader (header_of q) = Inr cp"
    and "ControlPacket_Unpack cp body = (as_read p', None, b')"
    and "ControlPacket_Write p = Some (p', FixedHeader_pack q @ body)"
  shows "\<exists>p' bs. ControlPacket_Write p = Some (p', bs) \<and>
    ReadPacket (bs @ rest) = (Some (as_read p'), None, rest)"
  using ReadPacket_frame [OF assms(1-4)] assms(5) by auto

lemma header_of_RemainingLength: "header_of (p\<lparr>RemainingLength := n\<rparr>) = (header_of p)\<lparr>RemainingLength := n\<rparr>"
  by (simp add: header_of_def)

lemma connect_body_bound: "connect_wf c \<Longrightarrow> length (connect_body c) < 268435456"
  using connect_wf_other [of c] by (auto simp: connect_wf_def connect_body_defs encodeUint16_def)

lemma connect_body_RemainingLength: "connect_body (c\<lparr>RemainingLength := n\<rparr>) = connect_body c"
  by (simp add: connect_body_defs)

lemma connect_wf_RemainingLength: "connect_wf (c\<lparr>RemainingLength := n\<rparr>) = connect_wf c"
  by (simp add: connect_wf_def)

lemma connect_written:
  assumes "packet_wf (CP_Connect c)"
  shows "\<exists>p' bs. ControlPacket_Write (CP_Connect c) = Some (p', bs) \<and>
    ReadPacket (bs @ rest) = (Some (as_read p'), None, rest)"
proof -
  let ?c = "c\<lparr>RemainingLength := int (length (connect_body c))\<rparr>"
  have wf: "connect_wf ?c" using assms by (simp add: connect_wf_RemainingLength)
  then have "header_wf ?c" using connect_body_bound [of c] assms by (simp add: header_wf_def connect_wf_def)
  moreover have "NewControlPacketWithHeader (header_of ?c) = Inr (CP_Connect (new_ConnectPacket (header_of ?c)))"
    using wf by (simp add: NewControlPacketWithHeader_def connect_wf_def)
  ultimately show ?thesis
    using ConnectPacket_Unpack_body [OF wf]
    by (intro ReadPacket_written [of ?c "connect_body c" _ "CP_Connect ?c"])
      (auto simp: ConnectPacket_Write_body connect_body_RemainingLength Let_def)
qed

definition publish_body :: "PublishPacket \<Rightarrow> bytes" where
  "publish_body p =
     encodeString (TopicName p) @ (if Qos p > 0 then encodeUint16 (MessageID p) else []) @ Payload p"

lemma PublishPacket_Write_body:
  "PublishPacket_Write p = (p\<lparr>RemainingLength := int (length (publish_body p))\<rparr>,
     FixedHeader_pack (p\<lparr>RemainingLength := int (length (publish_body p))\<rparr>) @ publish_body p)"
  by (simp add: PublishPacket_Write_def publish_body_def Let_def add.assoc)

lemma publish_body_RemainingLength: "publish_body (p\<lparr>RemainingLength := n\<rparr>) = publish_body p"
  by (simp add: publish_body_def)

lemma publish_written:
  assumes "packet_wf (CP_Publish p)"
  shows "\<exists>p' bs. ControlPacket_Write (CP_Publish p) = Some (p', bs) \<and>
    ReadPacket (bs @ rest) = (Some (as_read p'), None, rest)"
proof -
  let ?p = "p\<lparr>RemainingLength := int (length (publish_body p))\<rparr>"
  have "header_wf ?p" using assms by (simp add: header_wf_def publish_body_def encodeUint16_def)
  moreover have "NewControlPacketWithHeader (header_of ?p) = Inr (CP_Publish (new_PublishPacket (header_of ?p)))"
    using assms by (simp add: NewControlPacketWithHeader_def)
  moreover have "PublishPacket_Unpack (new_PublishPacket (header_of ?p)) (publish_body p) = (?p, None, [])"
    using PublishPacket_Unpack_body [of ?p, folded publish_body_def] assms
    by (simp add: publish_body_RemainingLength)
  ultimately show ?thesis
    by (intro ReadPacket_written [of ?p "publish_body p" _ "CP_Publish ?p"]) (auto simp: PublishPacket_Write_body)
qed

lemma subscribe_written:
  assumes "packet_wf (CP_Subscribe p)"
  shows "\<exists>p' bs. ControlPacket_Write (CP_Subscribe p) = Some (p', bs) \<and>
    ReadPacket (bs @ rest) = (Some (as_read p'), None, rest)"
proof -
  obtain b where b: "subscribe_body (Topics p) (Qoss p) = Some b" "length b = (\<Sum>t \<leftarrow> Topics p. length t + 3)"
    using assms subscribe_body_Some [of "Qoss p" "Topics p"] by auto
  let ?b = "encodeUint16 (MessageID p) @ b"
  let ?p = "p\<lparr>RemainingLength := int (length ?b)\<rparr>"
  have "header_wf ?p" using assms b(2) by (simp add: header_wf_def encodeUint16_def)
  moreover have "NewControlPacketWithHeader (header_of ?p) =
      Inr (CP_Subscribe (new_SubscribePacket (header_of ?p)))"
    using assms by (simp add: NewControlPacketWithHeader_def)
  moreover have "SubscribePacket_Unpack (new_SubscribePacket (header_of ?p)) ?b = (?p, None, [])"
    using SubscribePacket_Unpack_body [of ?p b] b assms by (simp add: encodeUint16_def)
  ultimately show ?thesis
    using b(1) by (intro ReadPacket_written [of ?p ?b _ "CP_Subscribe ?p"])
     (auto simp: SubscribePacket_Write_def Let_def)
qed

lemma suback_written:
  assumes "packet_wf (CP_Suback p)"
  shows "\<exists>p' bs. ControlPacket_Write (CP_Suback p) = Some (p', bs) \<and>
    ReadPacket (bs @ rest) = (Some (as_read p'), None, rest)"
proof -
  let ?b = "encodeUint16 (MessageID p) @ ReturnCodes p"
  let ?p = "p\<lparr>RemainingLength := int (length ?b)\<rparr>"
  have "header_wf ?p" using assms by (simp add: header_wf_def encodeUint16_def)
  moreover have "NewControlPacketWithHeader (header_of ?p) = Inr (CP_Suback (new_SubackPacket (header_of ?p)))"
    using assms by (simp add: NewControlPacketWithHeader_def)
  ultimately show ?thesis
    using SubackPacket_Unpack_body [of ?p]
    by (intro ReadPacket_written [of ?p ?b _ "CP_Suback ?p"]) (auto simp: SubackPacket_Write_def Let_def)
qed

lemma unsubscribe_written:
  assumes "packet_wf (CP_Unsubscribe p)"
  shows "\<exists>p' bs. ControlPacket_Write (CP_Unsubscribe p) = Some (p', bs) \<and>
    ReadPacket (bs @ rest) = (Some (as_read p'), None, rest)"
proof -
  let ?b = "encodeUint16 (MessageID p) @ concat (map encodeString (Topics p))"
  let ?p = "p\<lparr>RemainingLength := int (length ?b)\<rparr>"
  have "header_wf ?p" using assms length_concat_encodeString [of "Topics p"]
    by (simp add: header_wf_def encodeUint16_def)
  moreover have "NewControlPacketWithHeader (header_of ?p) =
      Inr (CP_Unsubscribe (new_UnsubscribePacket (header_of ?p)))"
    using assms by (simp add: NewControlPacketWithHeader_def)
  ultimately show ?thesis
    using UnsubscribePacket_Unpack_body [of ?p] assms
    by (intro ReadPacket_written [of ?p ?b _ "CP_Unsubscribe ?p"]) (auto simp: UnsubscribePacket_Write_def Let_def)
qed

lemma connack_written:
  assumes "packet_wf (CP_Connack p)"
  shows "\<exists>p' bs. ControlPacket_Write (CP_Connack p) = Some (p', bs) \<and>
    ReadPacket (bs @ rest) = (Some (as_read p'), None, rest)"
proof -
  let ?b = "[boolToByte (SessionPresent p), ReturnCode p]"
  let ?p = "p\<lparr>RemainingLength := 2\<rparr>"
  have "header_wf ?p" using assms by (simp add: header_wf_def)
  moreover have "NewControlPacketWithHeader (header_of ?p) = Inr (CP_Connack (new_ConnackPacket (header_of ?p)))"
    using assms by (simp add: NewControlPacketWithHeader_def)
  moreover have "(1 AND boolToByte b > 0) = b" for b by (cases b) (simp_all add: boolToByte_def)
  then have "ConnackPacket_Unpack (new_ConnackPacket (header_of ?p)) ?b = (?p, None, [])"
    by (cases p) (simp add: ConnackPacket_Unpack_def new_ConnackPacket_def header_of_def)
  ultimately show ?thesis
    by (intro ReadPacket_written [of ?p ?b _ "CP_Connack ?p"])
      (auto simp: ConnackPacket_Write_def Let_def)
qed

lemma mid_written:
  assumes "Qos p < 4" "(C, t) \<in> {(CP_Puback, Puback), (CP_Pubrec, Pubrec), (CP_Pubrel, Pubrel),
      (CP_Pubcomp, Pubcomp), (CP_Unsuback, Unsuback)}" "MessageType p = t"
  shows "\<exists>p' bs. ControlPacket_Write (C p) = Some (p', bs) \<and>
    ReadPacket (bs @ rest) = (Some (as_read p'), None, rest)"
proof -
  let ?p = "p\<lparr>RemainingLength := 2\<rparr>"
  have "header_wf ?p" using assms by (auto simp: header_wf_def)
  moreover have "NewControlPacketWithHeader (header_of ?p) = Inr (C (new_MidPacket (header_of ?p)))"
    using assms by (auto simp: NewControlPacketWithHeader_def)
  moreover have "ControlPacket_Unpack (C (new_MidPacket (header_of ?p))) (encodeUint16 (MessageID p)) =
      (as_read (C ?p), None, [])"
    using assms MidPacket_rebuild [of ?p] by (auto simp: mid_Unpack_defs)
  ultimately show ?thesis using assms
    by (intro ReadPacket_written [of ?p "encodeUint16 (MessageID p)" _ "C ?p"])
      (auto simp: mid_Write_defs Let_def encodeUint16_def)
qed

lemma empty_written:
  assumes "Qos p < 4" "RemainingLength p = 0" "MessageType p = t"
    "(C, t) \<in> {(CP_Pingreq, Pingreq), (CP_Pingresp, Pingresp), (CP_Disconnect, Disconnect)}"
  shows "\<exists>p' bs. ControlPacket_Write (C p) = Some (p', bs) \<and>
    ReadPacket (bs @ rest) = (Some (as_read p'), None, rest)"
proof -
  have "header_wf p" using assms by (auto simp: header_wf_def)
  moreover have "NewControlPacketWithHeader (header_of p) = Inr (C p)"
    using assms by (auto simp: NewControlPacketWithHeader_def header_of_FixedHeader)
  moreover have "ControlPacket_Unpack (C p) [] = (as_read (C p), None, [])"
    using assms by (auto simp: PingreqPacket_Unpack_def PingrespPacket_Unpack_def DisconnectPacket_Unpack_def)
  ultimately show ?thesis using assms
    by (intro ReadPacket_written [of p "[]" _ "C p"])
      (auto simp: PingreqPacket_Write_def PingrespPacket_Write_def DisconnectPacket_Write_def)
qed

lemma packet_written:
  assumes "packet_wf p"
  shows "\<exists>p' bs. ControlPacket_Write p = Some (p', bs) \<and>
    ReadPacket (bs @ rest) = (Some (as_read p'), None, rest)"
proof (cases p)
  case (CP_Connect c)
  with assms show ?thesis using connect_written by blast
next
  case (CP_Publish c)
  with assms show ?thesis using publish_written by blast
next
  case (CP_Subscribe c)
  with assms show ?thesis using subscribe_written by blast
next
  case (CP_Suback c)
  with assms show ?thesis using suback_written by blast
next
  case (CP_Unsubscribe c)
  with assms show ?thesis using unsubscribe_written by blast
next
  case (CP_Connack c)
  with assms show ?thesis using connack_written by blast
next
  case (CP_Puback q)
  with assms show ?thesis using mid_written [of q CP_Puback] by simp
next
  case (CP_Pubrec q)
  with assms show ?thesis using mid_written [of q CP_Pubrec] by simp
next
  case (CP_Pubrel q)
  with assms show ?thesis using mid_written [of q CP_Pubrel] by simp
next
  case (CP_Pubcomp q)
  with assms show ?thesis using mid_written [of q CP_Pubcomp] by simp
next
  case (CP_Unsuback q)
  with assms show ?thesis using mid_written [of q CP_Unsuback] by simp
next
  case (CP_Pingreq q)
  with assms show ?thesis using empty_written [of q _ CP_Pingreq] by simp
next
  case (CP_Pingresp q)
  with assms show ?thesis using empty_written [of q _ CP_Pingresp] by simp
next
  case (CP_Disconnect q)
  with assms show ?thesis using empty_written [of q _ CP_Disconnect] by simp
qed

section \<open>Framing\<close>

text \<open>The type code a packet's constructor stands for.\<close>

fun packet_code :: "ControlPacket \<Rightarrow> byte" where
  "packet_code (CP_Connect _) = Connect"
| "packet_code (CP_Connack _) = Connack"
| "packet_code (CP_Publish _) = Publish"
| "packet_code (CP_Puback _) = Puback"
| "packet_code (CP_Pubrec _) = Pubrec"
| "packet_code (CP_Pubrel _) = Pubrel"
| "packet_code (CP_Pubcomp _) = Pubcomp"
| "packet_code (CP_Subscribe _) = Subscribe"
| "packet_code (CP_Suback _) = Suback"
| "packet_code (CP_Unsubscribe _) = Unsubscribe"
| "packet_code (CP_Unsuback _) = Unsuback"
| "packet_code (CP_Pingreq _) = Pingreq"
| "packet_code (CP_Pingresp _) = Pingresp"
| "packet_code (CP_Disconnect _) = Disconnect"

lemma packet_code_Unpack: "ControlPacket_Unpack cp b = (cp', e, b') \<Longrightarrow> packet_code cp' = packet_code cp"
  by (cases cp) (auto simp: map_prod_def split: prod.splits)

lemma packet_code_New:
  "NewControlPacketWithHeader fh = Inr cp \<Longrightarrow> packet_code cp = MessageType fh"
  by (auto simp: NewControlPacketWithHeader_def Let_def split: if_splits)

lemma decodeLength_loop_Cons:
  "decodeLength_loop l m (d # r) =
     (if m < 27 then
        let l' = l OR push_bit (unat m) (ucast (d AND 127)) in
        if d AND 128 = 0 then (uint l', None, r) else decodeLength_loop l' (m + 7) r
      else (uint l, None, d # r))"
  by (subst decodeLength_loop.simps) (simp add: io_ReadFull_def)

lemma decodeLength_loop_append:
  "decodeLength_loop l m r = (n, None, r') \<Longrightarrow> decodeLength_loop l m (r @ s) = (n, None, r' @ s)"
proof (induction r arbitrary: l m)
  case Nil
  then have "\<not> m < 27" "n = uint l" "r' = []"
    by (auto simp: decodeLength_loop.simps [of l m] io_ReadFull_def split: if_splits)
  then show ?case by (simp add: decodeLength_loop.simps [of l m])
qed (auto simp: decodeLength_loop_Cons Let_def split: if_splits)

lemma decodeLength_append:
  "decodeLength r = (n, None, r') \<Longrightarrow> decodeLength (r @ s) = (n, None, r' @ s)"
  by (simp add: decodeLength_def decodeLength_loop_append)

lemma ReadPacket_packet:
  assumes "ReadPacket r = (Some cp, e, r')"
  obtains b r1 fh r2 where "r = b # r1" "FixedHeader_unpack zeroFixedHeader b r1 = (fh, None, r2)"
    "packet_code cp = MessageType fh" "nat (RemainingLength fh) \<le> length r2"
    "r' = drop (nat (RemainingLength fh)) r2"
proof (cases r)
  case Nil
  with assms show ?thesis by (simp add: ReadPacket_def io_ReadFull_def)
next
  case (Cons b r1)
  then have 1: "io_ReadFull 1 r = ([b], None, r1)" by (simp add: io_ReadFull_def)
  obtain fh e2 r2 where 2: "FixedHeader_unpack zeroFixedHeader b r1 = (fh, e2, r2)"
    by (meson prod_cases3)
  have e2: "e2 = None"
    using assms unfolding ReadPacket_def 1 by (simp add: 2 split: if_splits)
  with 2 assms obtain cp0 where 3: "NewControlPacketWithHeader fh = Inr cp0"
    unfolding ReadPacket_def 1 by (auto split: sum.splits)
  have 4: "nat (RemainingLength fh) \<le> length r2"
    using assms unfolding ReadPacket_def 1 by (simp add: 2 3 e2 io_ReadFull_def split: if_splits)
  obtain cp1 e1 b1 where 5: "ControlPacket_Unpack cp0 (take (nat (RemainingLength fh)) r2) = (cp1, e1, b1)"
    by (meson prod_cases3)
  have 6: "cp1 = cp" "r' = drop (nat (RemainingLength fh)) r2"
    using assms unfolding ReadPacket_def 1 by (simp_all add: 2 3 4 5 e2 io_ReadFull_def split: if_splits)
  show ?thesis
    using that [OF Cons 2 [unfolded e2] _ 4 6(2)] packet_code_Unpack [OF 5] packet_code_New [OF 3] 6(1) by simp
qed

text \<open>The frame a packet was read from.\<close>

lemma ReadPacket_progress:
  assumes "ReadPacket r = (Some cp, e, r')"
  shows "\<exists>b r1 r2 n. r = b # r1 \<and> decodeLength r1 = (n, None, r2) \<and> 0 \<le> n \<and> nat n \<le> length r2 \<and>
    r' = drop (nat n) r2 \<and> packet_code cp = drop_bit 4 b \<and> length r' < length r"
proof -
  obtain b r1 fh r2 where r: "r = b # r1" and u: "FixedHeader_unpack zeroFixedHeader b r1 = (fh, None, r2)"
    and cp: "packet_code cp = MessageType fh" "nat (RemainingLength fh) \<le> length r2"
      "r' = drop (nat (RemainingLength fh)) r2"
    using ReadPacket_packet [OF assms] by metis
  obtain n where n: "decodeLength r1 = (n, None, r2)" "RemainingLength fh = n" "MessageType fh = drop_bit 4 b"
    using u by (auto simp: FixedHeader_unpack_def Let_def split: prod.splits)
  have "0 \<le> n" "length r2 \<le> length r1" using decodeLength_bound [OF n(1)] by auto
  with r cp n show ?thesis by auto
qed

text \<open>One of the results is always present: the packet, or an error.\<close>

lemma ReadPacket_None: "ReadPacket r = (None, e, r') \<Longrightarrow> e \<noteq> None"
  by (auto simp: ReadPacket_def split: prod.splits if_splits sum.splits)

lemma FixedHeader_unpack_append:
  "FixedHeader_unpack h b r = (fh, None, r') \<Longrightarrow> FixedHeader_unpack h b (r @ s) = (fh, None, r' @ s)"
  by (auto simp: FixedHeader_unpack_def Let_def decodeLength_append split: prod.splits)

lemma ReadPacket_prefix:
  assumes "ReadPacket (r @ s) = (Some p, e, [])" "ReadPacket r = (Some q, e', r')"
  shows "s = []"
proof -
  obtain b r1 fh r2 where r: "r = b # r1" "FixedHeader_unpack zeroFixedHeader b r1 = (fh, None, r2)"
    "nat (RemainingLength fh) \<le> length r2"
    using ReadPacket_packet [OF assms(2)] by metis
  obtain b' r1' fh' r2' where r': "r @ s = b' # r1'" "FixedHeader_unpack zeroFixedHeader b' r1' = (fh', None, r2')"
    "[] = drop (nat (RemainingLength fh')) r2'"
    using ReadPacket_packet [OF assms(1)] by metis
  have "b' = b" "r1' = r1 @ s" using r(1) r'(1) by auto
  with r'(2) FixedHeader_unpack_append [OF r(2), of s] have "fh' = fh" "r2' = r2 @ s" by auto
  with r'(3) have "length r2 + length s \<le> nat (RemainingLength fh)" by auto
  with r(3) have "length s = 0" by linarith
  then show ?thesis by simp
qed

section \<open>Properties\<close>

text \<open>
  C2. Round trip of every MQTT control packet: a packet whose fields fit the wire format is written
  without a panic, and \<open>ReadPacket\<close> on the written bytes followed by any further stream returns that
  packet (as \<open>Write\<close> left it, with its remaining length filled in), no error, and leaves exactly
  the further stream unread. For CONNECT the extra field comes back as an empty field when it was nil.
\<close>

theorem ReadPacket_Write_roundtrip:
  assumes "packet_wf p"
  shows "\<exists>p' bs. ControlPacket_Write p = Some (p', bs) \<and>
    ReadPacket (bs @ rest) = (Some (as_read p'), None, rest)"
  using assms by (rule packet_written)

definition sample_publish :: PublishPacket where
  "sample_publish = (new_PublishPacket (zeroHeader Publish 1))\<lparr>TopicName := ''a/b'', MessageID := 7,
     Payload := [1, 2, 3]\<rparr>"

theorem ReadPacket_Write_roundtrip_witness:
  "\<exists>p' bs. ControlPacket_Write (CP_Publish sample_publish) = Some (p', bs) \<and>
    ReadPacket (bs @ [192, 0]) = (Some (as_read p'), None, [192, 0])"
  by (rule ReadPacket_Write_roundtrip) (simp add: sample_publish_def new_PublishPacket_def zeroHeader_def)

text \<open>
  C32. Framing on a connection: whatever bytes arrive, when \<open>ReadPacket\<close> returns a packet (also one
  whose body failed to unpack) it has consumed the type byte, the one to four bytes of the remaining
  length and exactly as many body bytes as that length says, and the packet is of the type the
  first byte names. So a malformed body never shifts the packets behind it, and every packet makes
  progress on the stream.
\<close>

theorem ReadPacket_framing:
  assumes "ReadPacket r = (Some cp, e, r')"
  shows "\<exists>b r1 r2 n. r = b # r1 \<and> decodeLength r1 = (n, None, r2) \<and> 0 \<le> n \<and> nat n \<le> length r2 \<and>
    r' = drop (nat n) r2 \<and> packet_code cp = drop_bit 4 b \<and> length r' < length r"
  using assms by (rule ReadPacket_progress)

theorem ReadPacket_framing_witness:
  "\<exists>cp. ReadPacket [0x90, 3, 0, 9, 1, 0xC0, 0] = (Some cp, None, [0xC0, 0]) \<and> packet_code cp = Suback"
proof -
  have d: "decodeLength [3, 0, 9, 1, 0xC0, 0] = (3, None, [0, 9, 1, 0xC0, 0])"
    by (simp add: decodeLength_def decodeLength_loop_Cons)
  have "\<exists>cp. ReadPacket [0x90, 3, 0, 9, 1, 0xC0, 0] = (Some cp, None, [0xC0, 0])"
    by (simp add: ReadPacket_def io_ReadFull_def FixedHeader_unpack_def NewControlPacketWithHeader_def d
        zeroFixedHeader_def zeroHeader_def Let_def SubackPacket_Unpack_def decodeUint16_def buffer_Read_def)
  then obtain cp where cp: "ReadPacket [0x90, 3, 0, 9, 1, 0xC0, 0] = (Some cp, None, [0xC0, 0])" by blast
  have "packet_code cp = drop_bit 4 0x90" using ReadPacket_framing [OF cp] by auto
  with cp show ?thesis by simp
qed

text \<open>
  A truncated packet is always reported: every proper prefix of the bytes \<open>Write\<close> produces for
  a well-formed packet makes \<open>ReadPacket\<close> return an error and no packet at all.
\<close>

theorem ReadPacket_truncated:
  assumes "packet_wf p" "ControlPacket_Write p = Some (p', bs)" "k < length bs"
  shows "\<exists>e r'. ReadPacket (take k bs) = (None, Some e, r')"
proof (cases "ReadPacket (take k bs)")
  case (fields cp e r')
  have whole: "ReadPacket bs = (Some (as_read p'), None, [])"
    using packet_written [OF assms(1), of "[]"] assms(2) by simp
  have "cp = None"
  proof (rule ccontr)
    assume "cp \<noteq> None"
    then obtain q where q: "ReadPacket (take k bs) = (Some q, e, r')" using fields by auto
    have "drop k bs = []"
      using ReadPacket_prefix [of "take k bs" "drop k bs"] whole q by simp
    with assms(3) show False by simp
  qed
  with fields ReadPacket_None show ?thesis by (cases e) auto
qed

theorem ReadPacket_truncated_witness:
  "\<exists>bs e r'. ControlPacket_Write (CP_Pingreq (zeroHeader Pingreq 0)) =
      Some (CP_Pingreq (zeroHeader Pingreq 0), bs) \<and> ReadPacket (take 1 bs) = (None, Some e, r')"
proof -
  have w: "ControlPacket_Write (CP_Pingreq (zeroHeader Pingreq 0)) =
      Some (CP_Pingreq (zeroHeader Pingreq 0), [192, 0])"
    by (simp add: PingreqPacket_Write_def FixedHeader_pack_def zeroHeader_def boolToByte_def
        encodeLength.simps push_bit_eq_mult)
  have "\<exists>e r'. ReadPacket (take 1 [192, 0]) = (None, Some e, r')"
    by (rule ReadPacket_truncated [OF _ w]) (simp_all add: zeroHeader_def)
  with w show ?thesis by blast
qed

text \<open>
  CONNECT validation: \<open>Validate\<close> accepts exactly the packets of protocol MQIsdp 3 or MQTT 4 with a
  clear reserved bit, no password without a user name, fields of at most 65535 bytes, and a client
  identifier unless the session is clean.
\<close>

theorem Validate_accepts_iff:
  "ConnectPacket_Validate c = Accepted \<longleftrightarrow>
     (ProtocolName c, ProtocolVersion c) \<in> {(''MQIsdp'', 3), (''MQTT'', 4)} \<and> ReservedBit c = 0 \<and>
     (PasswordFlag c \<longrightarrow> UsernameFlag c) \<and> (ClientIdentifier c = [] \<longrightarrow> CleanSession c) \<and>
     length (ClientIdentifier c) \<le> 65535 \<and> length (Username c) \<le> 65535 \<and> length (Password c) \<le> 65535"
  by (auto simp: ConnectPacket_Validate_def)

theorem Validate_accepts_iff_witness:
  "ConnectPacket_Validate ((new_ConnectPacket (zeroHeader Connect 0))
     \<lparr>ProtocolName := ''MQTT'', ProtocolVersion := 4, CleanSession := True\<rparr>) = Accepted"
  unfolding Validate_accepts_iff by (simp add: new_ConnectPacket_def)

end
