(* ===== verification/TopicLevels.thy ===== *)
theory TopicLevels
  imports Prelude
begin

text \<open>
  Topic levels of the broker, \<open>nextTopicLevel\<close> of \<open>src/broker/lib/topics/memtopics.go\<close>: one call cuts
  the first level off a topic and rejects misplaced wildcards. Every tree operation walks a topic by
  calling it until nothing remains; \<open>topic_levels\<close> is that walk, and it is compared with a reference
  definition that splits the whole topic at once. \<open>sub_match\<close> and \<open>ret_match\<close> are the matching
  relations the two trees are measured against.
\<close>

section \<open>Constants\<close>

abbreviation MWC :: string where "MWC \<equiv> ''#''"
abbreviation SWC :: string where "SWC \<equiv> ''+''"
abbreviation SEP :: string where "SEP \<equiv> ''/''"

datatype level_state = stateCHR | stateMWC | stateSWC | stateSEP | stateSYS

abbreviation err_mwc_not_last :: go_error where
  "err_mwc_not_last \<equiv> Errorf ''Multi-level wildcard found in topic and it's not at the last level''"
abbreviation err_mwc_level :: go_error where
  "err_mwc_level \<equiv> Errorf ''Wildcard character '#' must occupy entire topic level''"
abbreviation err_swc_level :: go_error where
  "err_swc_level \<equiv> Errorf ''Wildcard character '+' must occupy entire topic level''"
abbreviation err_wc_level :: go_error where
  "err_wc_level \<equiv> Errorf ''Wildcard characters '#' and '+' must occupy entire topic level''"

section \<open>Cutting off a level\<close>

text \<open>The \<open>for i, c := range topic\<close> loop; the last argument is \<open>topic[i:]\<close>.\<close>

fun nextTopicLevel_loop ::
  "string \<Rightarrow> level_state \<Rightarrow> nat \<Rightarrow> string \<Rightarrow> go_error + string \<times> string" where
  "nextTopicLevel_loop topic s i [] = Inr (topic, [])"
| "nextTopicLevel_loop topic s i (c # cs) =
     (if c = CHR ''/'' then
        if s = stateMWC then Inl err_mwc_not_last
        else if i = 0 then Inr (SWC, drop (i + 1) topic)
        else Inr (take i topic, drop (i + 1) topic)
      else if c = CHR ''#'' then
        if i \<noteq> 0 then Inl err_mwc_level else nextTopicLevel_loop topic stateMWC (i + 1) cs
      else if c = CHR ''+'' then
        if i \<noteq> 0 then Inl err_swc_level else nextTopicLevel_loop topic stateSWC (i + 1) cs
      else
        if s = stateMWC \<or> s = stateSWC then Inl err_wc_level
        else nextTopicLevel_loop topic stateCHR (i + 1) cs)"

definition nextTopicLevel :: "string \<Rightarrow> go_error + string \<times> string" where
  "nextTopicLevel topic = nextTopicLevel_loop topic stateCHR 0 topic"

lemma nextTopicLevel_loop_shorter:
  "nextTopicLevel_loop topic s i cs = Inr (l, rem) \<Longrightarrow> topic \<noteq> [] \<Longrightarrow> length rem < length topic"
  by (induction topic s i cs rule: nextTopicLevel_loop.induct) (auto split: if_splits)

lemma nextTopicLevel_shorter [termination_simp]:
  "nextTopicLevel topic = Inr (l, rem) \<Longrightarrow> topic \<noteq> [] \<Longrightarrow> length rem < length topic"
  by (simp add: nextTopicLevel_def nextTopicLevel_loop_shorter)

section \<open>Walking a topic\<close>

function topic_levels :: "string \<Rightarrow> string list option" where
  "topic_levels topic =
     (if topic = [] then Some []
      else case nextTopicLevel topic of
        Inl e \<Rightarrow> None
      | Inr (level, rem) \<Rightarrow> map_option (Cons level) (topic_levels rem))"
  by pat_completeness auto
termination
  by (relation "measure length") (auto simp: nextTopicLevel_shorter)

declare topic_levels.simps [simp del]

lemma topic_levels_Nil [level_simps, simp]: "topic_levels [] = Some []"
  by (simp add: topic_levels.simps)

lemma topic_levels_step [level_simps]:
  "topic \<noteq> [] \<Longrightarrow> nextTopicLevel topic = Inr (level, rem) \<Longrightarrow>
   topic_levels topic = map_option (Cons level) (topic_levels rem)"
  by (simp add: topic_levels.simps [of topic])

lemma topic_levels_err [level_simps]:
  "topic \<noteq> [] \<Longrightarrow> nextTopicLevel topic = Inl e \<Longrightarrow> topic_levels topic = None"
  by (simp add: topic_levels.simps [of topic])

section \<open>The reference: split at every separator\<close>

definition level_ok :: "string \<Rightarrow> bool" where
  "level_ok l \<longleftrightarrow> l = MWC \<or> l = SWC \<or> CHR ''#'' \<notin> set l \<and> CHR ''+'' \<notin> set l"

text \<open>An empty level stands for \<open>+\<close>, except that one empty level at the very end is dropped.\<close>

fun levels_of_parts :: "string list \<Rightarrow> string list option" where
  "levels_of_parts [] = Some []"
| "levels_of_parts [l] = (if l = [] then Some [] else if level_ok l then Some [l] else None)"
| "levels_of_parts (l # m # ls) =
     (if level_ok l \<and> l \<noteq> MWC
      then map_option (Cons (if l = [] then SWC else l)) (levels_of_parts (m # ls)) else None)"

definition ref_levels :: "string \<Rightarrow> string list option" where
  "ref_levels topic = levels_of_parts (go_split (CHR ''/'') topic)"

text \<open>The part of a topic before its first separator decides what one call returns.\<close>

definition plain :: "string \<Rightarrow> bool" where
  "plain l \<longleftrightarrow> CHR ''#'' \<notin> set l \<and> CHR ''+'' \<notin> set l"

lemma plain_Cons: "plain (c # cs) \<longleftrightarrow> c \<noteq> CHR ''#'' \<and> c \<noteq> CHR ''+'' \<and> plain cs"
  by (auto simp: plain_def)

lemma nextTopicLevel_loop_plain:
  assumes "CHR ''/'' \<notin> set cs" "plain cs"
  shows "nextTopicLevel_loop topic stateCHR i (cs @ rest) =
    nextTopicLevel_loop topic stateCHR (i + length cs) rest"
  using assms by (induction cs arbitrary: i) (auto simp: plain_Cons)

lemma nextTopicLevel_loop_wildcard:
  assumes "CHR ''/'' \<notin> set cs" "\<not> plain cs" "i > 0"
  shows "\<exists>e. nextTopicLevel_loop topic stateCHR i (cs @ rest) = Inl e"
  using assms
proof (induction cs arbitrary: i)
  case (Cons c cs)
  then show ?case by (cases "c = CHR ''#'' \<or> c = CHR ''+''") (auto simp: plain_Cons)
qed (simp add: plain_def)

lemma nextTopicLevel_loop_WC:
  assumes "CHR ''/'' \<notin> set cs" "i > 0" "s = stateMWC \<or> s = stateSWC" "cs \<noteq> []"
  shows "\<exists>e. nextTopicLevel_loop topic s i (cs @ rest) = Inl e"
  using assms by (cases cs) auto

lemma level_ok_cases:
  "level_ok l \<longleftrightarrow> l = MWC \<or> l = SWC \<or> plain l"
  by (simp add: level_ok_def plain_def)

lemma nextTopicLevel_bad:
  assumes "CHR ''/'' \<notin> set l" "\<not> level_ok l"
  shows "\<exists>e. nextTopicLevel (l @ rest) = Inl e"
proof (cases l)
  case (Cons c cs)
  let ?t = "l @ rest"
  have cs: "CHR ''/'' \<notin> set cs" "c \<noteq> CHR ''/''" using assms(1) Cons by auto
  consider "c = CHR ''#''" | "c = CHR ''+''" | "c \<noteq> CHR ''#''" "c \<noteq> CHR ''+''" by blast
  then show ?thesis
  proof cases
    case 1
    with assms(2) Cons have "cs \<noteq> []" by (auto simp: level_ok_cases)
    with 1 Cons nextTopicLevel_loop_WC [OF cs(1), of 1 stateMWC ?t rest] show ?thesis
      by (simp add: nextTopicLevel_def)
  next
    case 2
    with assms(2) Cons have "cs \<noteq> []" by (auto simp: level_ok_cases)
    with 2 Cons nextTopicLevel_loop_WC [OF cs(1), of 1 stateSWC ?t rest] show ?thesis
      by (simp add: nextTopicLevel_def)
  next
    case 3
    with assms(2) Cons have "\<not> plain cs" by (auto simp: level_ok_cases plain_Cons)
    with 3 cs Cons nextTopicLevel_loop_wildcard [OF cs(1), of 1 ?t rest] show ?thesis
      by (simp add: nextTopicLevel_def)
  qed
qed (use assms in \<open>simp add: level_ok_def\<close>)

lemma nextTopicLevel_last:
  assumes "CHR ''/'' \<notin> set l" "level_ok l"
  shows "nextTopicLevel l = Inr (l, [])"
  using assms(2) nextTopicLevel_loop_plain [OF assms(1), of l 0 "[]"]
  unfolding level_ok_cases by (elim disjE) (simp_all add: nextTopicLevel_def)

lemma nextTopicLevel_sep:
  assumes "CHR ''/'' \<notin> set l" "level_ok l"
  shows "nextTopicLevel (l @ CHR ''/'' # rest) =
    (if l = MWC then Inl err_mwc_not_last else Inr (if l = [] then SWC else l, rest))"
  using assms(2) nextTopicLevel_loop_plain [OF assms(1), of "l @ CHR ''/'' # rest" 0 "CHR ''/'' # rest"]
  unfolding level_ok_cases by (elim disjE) (auto simp add: nextTopicLevel_def plain_def)

lemma topic_levels_ref: "topic_levels topic = ref_levels topic"
proof (induction topic rule: topic_levels.induct)
  case (1 topic)
  obtain l ls where parts: "go_split (CHR ''/'') topic = l # ls"
    by (meson go_split_ne list.exhaust)
  then have nosep: "CHR ''/'' \<notin> set l"
    using go_split_parts_no_sep [of l "CHR ''/''" topic] by simp
  have topic: "topic = go_join (CHR ''/'') (l # ls)"
    by (metis go_join_split parts)
  show ?case
  proof (cases ls)
    case Nil
    with topic have "topic = l" by simp
    with Nil parts nosep show ?thesis
      using nextTopicLevel_bad [OF nosep, of "[]"] nextTopicLevel_last [OF nosep]
      by (cases "l = []"; cases "level_ok l") (auto simp: ref_levels_def level_simps)
  next
    case (Cons m ms)
    define rest where "rest = go_join (CHR ''/'') ls"
    have t: "topic = l @ CHR ''/'' # rest"
      using topic Cons by (simp add: rest_def)
    have split: "go_split (CHR ''/'') rest = ls"
      using parts nosep by (simp add: t go_split_append)
    have ne: "topic \<noteq> []" by (simp add: t)
    show ?thesis
    proof (cases "level_ok l \<and> l \<noteq> MWC")
      case True
      then have n: "nextTopicLevel topic = Inr (if l = [] then SWC else l, rest)"
        using nextTopicLevel_sep [OF nosep, of rest] by (simp add: t)
      then have "topic_levels rest = ref_levels rest" using "1.IH" ne by blast
      with n ne True Cons parts split show ?thesis by (simp add: topic_levels_step ref_levels_def)
    next
      case False
      then obtain e where "nextTopicLevel topic = Inl e"
        using nextTopicLevel_sep [OF nosep, of rest] nextTopicLevel_bad [OF nosep, of "CHR ''/'' # rest"]
        by (auto simp: t)
      with ne False Cons parts show ?thesis by (auto simp add: topic_levels_err ref_levels_def)
    qed
  qed
qed

section \<open>Matching\<close>

text \<open>A subscription path against the levels of a published topic.\<close>

fun sub_match :: "string list \<Rightarrow> string list \<Rightarrow> bool" where
  "sub_match [] [] = True"
| "sub_match [] (t # ts) = False"
| "sub_match (f # fs) [] = (f = MWC \<and> fs = [])"
| "sub_match (f # fs) (t # ts) =
     (if f = MWC then fs = [] else (f = SWC \<or> f = t) \<and> sub_match fs ts)"

text \<open>A subscription filter against the path of a retained message.\<close>

fun ret_match :: "string list \<Rightarrow> string list \<Rightarrow> bool" where
  "ret_match [] p = (p = [])"
| "ret_match (f # fs) p =
     (if f = MWC then True
      else case p of [] \<Rightarrow> False
        | l # ls \<Rightarrow> (f = SWC \<or> f = l) \<and> ret_match fs ls)"

section \<open>Properties\<close>

text \<open>
  Walking a topic level by level, as every operation on the subscription and retained trees does,
  is splitting it at every separator: the walk succeeds exactly when each wildcard occupies a whole
  level and \<open>#\<close> only the last one, an empty level becomes \<open>+\<close>, and one trailing empty level is dropped.
\<close>

theorem topic_walk_is_split: "topic_levels topic = ref_levels topic"
  by (rule topic_levels_ref)

end
