(* ===== verification/TopicTree.thy ===== *)
theory TopicTree
  imports TopicLevels
begin

text \<open>
  The subscription tree of \<open>src/broker/lib/topics/memtopics.go\<close>: \<open>snode\<close> with \<open>sinsert\<close>, \<open>sremove\<close>,
  \<open>smatch\<close>, \<open>matchQos\<close> and the subscriber comparison \<open>equal\<close>.

  A node holds its subscribers and their QoS in two parallel slices and its children in a map from
  level to node. The code mutates nodes through pointers that are never shared between two places
  of the tree, so an operation returns the updated node together with its error. \<open>slookup\<close> reads the
  subscribers at a path of levels; the lemmas say which path each operation changes.
\<close>

section \<open>Subscriber values\<close>

text \<open>
  The dynamic values an \<open>interface{}\<close> may hold here: a pointer, a function, or one of the basic
  types \<open>equal\<close> lists. Values of types on which \<open>==\<close> panics (slices, maps) are left out.
\<close>

datatype num_kind = Int64 | Int32 | Int16 | Int8 | Int | Uint | Uint8 | Uint16 | Uint32 | Uint64 | Uintptr

datatype go_float = NaN | Infinite bool | Flt rat

datatype iface =
    IfPtr nat
  | IfFunc nat
  | IfString string
  | IfNum num_kind int
  | IfFloat32 go_float
  | IfFloat64 go_float

fun float_eq :: "go_float \<Rightarrow> go_float \<Rightarrow> bool" where
  "float_eq NaN y = False"
| "float_eq x y = (x = y)"

text \<open>
  The dynamic types must agree. For functions the code compares the addresses of its own two
  parameters, which always differ.
\<close>

fun equal :: "iface \<Rightarrow> iface \<Rightarrow> bool" where
  "equal (IfPtr a) (IfPtr b) = (a = b)"
| "equal (IfFunc a) (IfFunc b) = False"
| "equal (IfString a) (IfString b) = (a = b)"
| "equal (IfNum k a) (IfNum k' b) = (k = k' \<and> a = b)"
| "equal (IfFloat32 a) (IfFloat32 b) = float_eq a b"
| "equal (IfFloat64 a) (IfFloat64 b) = float_eq a b"
| "equal _ _ = False"

section \<open>Nodes\<close>

datatype snode = SNode (subs: "iface list") (qos: bytes) (snodes: "(string \<times> snode) list")

definition newSNode :: snode where
  "newSNode = SNode [] [] []"

text \<open>The loop over \<open>this.subs\<close> that stops at the first equal subscriber.\<close>

fun find_sub :: "iface list \<Rightarrow> iface \<Rightarrow> nat option" where
  "find_sub [] sub = None"
| "find_sub (s # ss) sub = (if equal s sub then Some 0 else map_option Suc (find_sub ss sub))"

function sinsert :: "snode \<Rightarrow> string \<Rightarrow> byte \<Rightarrow> iface \<Rightarrow> snode \<times> go_error option" where
  "sinsert this topic q sub =
     (if topic = [] then
        (case find_sub (subs this) sub of
           Some i \<Rightarrow> (SNode (subs this) ((qos this)[i := q]) (snodes this), None)
         | None \<Rightarrow> (SNode (subs this @ [sub]) (qos this @ [q]) (snodes this), None))
      else case nextTopicLevel topic of
        Inl err \<Rightarrow> (this, Some err)
      | Inr (level, rem) \<Rightarrow>
          (let n = (case gm_get (snodes this) level of Some n \<Rightarrow> n | None \<Rightarrow> newSNode) in
           case sinsert n rem q sub of (n', err) \<Rightarrow>
             (SNode (subs this) (qos this) (gm_put level n' (snodes this)), err)))"
  by pat_completeness auto
termination
  by (relation "measure (\<lambda>(n, t, q, s). length t)") (auto simp: nextTopicLevel_shorter)

declare sinsert.simps [simp del]

text \<open>\<open>sub = None\<close> is Go's nil, the signal to remove every subscriber of the node.\<close>

function sremove :: "snode \<Rightarrow> string \<Rightarrow> iface option \<Rightarrow> snode \<times> go_error option" where
  "sremove this topic sub =
     (if topic = [] then
        (case sub of
           None \<Rightarrow> (SNode [] [] (snodes this), None)
         | Some s \<Rightarrow>
             (case find_sub (subs this) s of
                Some i \<Rightarrow> (SNode (take i (subs this) @ drop (Suc i) (subs this))
                                 (take i (qos this) @ drop (Suc i) (qos this)) (snodes this), None)
              | None \<Rightarrow> (this, Some (Errorf ''No topic found for subscriber''))))
      else case nextTopicLevel topic of
        Inl err \<Rightarrow> (this, Some err)
      | Inr (level, rem) \<Rightarrow>
          (case gm_get (snodes this) level of
             None \<Rightarrow> (this, Some (Errorf ''No topic found''))
           | Some n \<Rightarrow>
               (case sremove n rem sub of (n', err) \<Rightarrow>
                  let this' = SNode (subs this) (qos this) (gm_put level n' (snodes this)) in
                  if err \<noteq> None then (this', err)
                  else if subs n' = [] \<and> snodes n' = []
                    then (SNode (subs this) (qos this) (gm_del level (snodes this')), None)
                  else (this', None))))"
  by pat_completeness auto
termination
  by (relation "measure (\<lambda>(n, t, s). length t)") (auto simp: nextTopicLevel_shorter)

declare sremove.simps [simp del]

text \<open>The two slices the caller passes are appended to; every entry gets the publisher's QoS.\<close>

definition matchQos :: "snode \<Rightarrow> byte \<Rightarrow> iface list \<times> bytes \<Rightarrow> iface list \<times> bytes" where
  "matchQos this q acc =
     fold (\<lambda>sub (ss, qs). (ss @ [sub], qs @ [q])) (subs this) acc"

fun smatch :: "snode \<Rightarrow> string \<Rightarrow> byte \<Rightarrow> iface list \<times> bytes \<Rightarrow> (iface list \<times> bytes) \<times> go_error option"
and smatch_range :: "(string \<times> snode) list \<Rightarrow> string \<Rightarrow> string \<Rightarrow> byte \<Rightarrow> iface list \<times> bytes \<Rightarrow>
    (iface list \<times> bytes) \<times> go_error option" where
  "smatch (SNode ss qs kids) topic q acc =
     (if topic = [] then
        (let acc1 = matchQos (SNode ss qs kids) q acc in
         case gm_get kids MWC of
           Some mwcn \<Rightarrow> (matchQos mwcn q acc1, None)
         | None \<Rightarrow> (acc1, None))
      else case nextTopicLevel topic of
        Inl err \<Rightarrow> (acc, Some err)
      | Inr (level, rem) \<Rightarrow> smatch_range kids level rem q acc)"
| "smatch_range [] level rem q acc = (acc, None)"
| "smatch_range ((k, n) # kids) level rem q acc =
     (if k = MWC then smatch_range kids level rem q (matchQos n q acc)
      else if k = SWC \<or> k = level then
        (case smatch n rem q acc of (acc', err) \<Rightarrow>
           if err \<noteq> None then (acc', err) else smatch_range kids level rem q acc')
      else smatch_range kids level rem q acc)"

declare smatch.simps [simp del]

section \<open>Lookup\<close>

text \<open>The entries at a path of levels, with their QoS.\<close>

fun slookup :: "snode \<Rightarrow> string list \<Rightarrow> (iface \<times> byte) list" where
  "slookup n [] = zip (subs n) (qos n)"
| "slookup n (l # ls) =
     (case gm_get (snodes n) l of None \<Rightarrow> [] | Some m \<Rightarrow> slookup m ls)"

text \<open>The two slices are parallel, at every node, and the child maps are maps.\<close>

fun snode_wf :: "snode \<Rightarrow> bool" where
  "snode_wf (SNode ss qs kids) \<longleftrightarrow>
     length ss = length qs \<and> gm_wf kids \<and> (\<forall>(k, n) \<in> set kids. snode_wf n)"

declare snode_wf.simps [simp del]

lemma snode_wf_node:
  "snode_wf n \<longleftrightarrow> length (subs n) = length (qos n) \<and> gm_wf (snodes n) \<and>
     (\<forall>l m. gm_get (snodes n) l = Some m \<longrightarrow> snode_wf m)"
proof (cases n)
  case (SNode ss qs kids)
  show ?thesis
    unfolding SNode snode_wf.simps snode.sel
    using gm_get_mem [of kids] by (metis (no_types, lifting) case_prod_conv prod.exhaust)
qed

lemma newSNode_wf [simp]: "snode_wf newSNode"
  by (simp add: newSNode_def snode_wf.simps)

lemma slookup_newSNode [simp]: "slookup newSNode p = []"
  by (cases p) (simp_all add: newSNode_def)

section \<open>Insertion\<close>

text \<open>What an insertion and a removal do to the entries of one node.\<close>

fun entries_put :: "(iface \<times> byte) list \<Rightarrow> iface \<Rightarrow> byte \<Rightarrow> (iface \<times> byte) list" where
  "entries_put [] s q = [(s, q)]"
| "entries_put ((s', q') # es) s q =
     (if equal s' s then (s', q) # es else (s', q') # entries_put es s q)"

fun entries_del :: "(iface \<times> byte) list \<Rightarrow> iface \<Rightarrow> (iface \<times> byte) list" where
  "entries_del [] s = []"
| "entries_del ((s', q') # es) s = (if equal s' s then es else (s', q') # entries_del es s)"

lemma find_sub_Some: "find_sub ss s = Some i \<Longrightarrow> i < length ss \<and> equal (ss ! i) s"
  by (induction ss arbitrary: i) (auto split: if_splits)

lemma find_sub_None: "find_sub ss s = None \<longleftrightarrow> (\<forall>s' \<in> set ss. \<not> equal s' s)"
  by (induction ss) auto

lemma zip_put:
  assumes "length ss = length qs"
  shows "(case find_sub ss s of Some i \<Rightarrow> zip ss (qs[i := q]) | None \<Rightarrow> zip (ss @ [s]) (qs @ [q])) =
    entries_put (zip ss qs) s q"
  using assms
  by (induction ss qs rule: list_induct2) (auto split: option.splits)

lemma zip_del:
  assumes "length ss = length qs" "find_sub ss s = Some i"
  shows "zip (take i ss @ drop (Suc i) ss) (take i qs @ drop (Suc i) qs) = entries_del (zip ss qs) s"
  using assms
  by (induction ss qs arbitrary: i rule: list_induct2) (auto split: if_splits)

lemma snode_wf_len: "snode_wf n \<Longrightarrow> length (subs n) = length (qos n)"
  by (simp add: snode_wf_node [of n])

lemma snode_wf_kids:
  "snode_wf n \<Longrightarrow> snodes n' = snodes n \<Longrightarrow> length (subs n') = length (qos n') \<Longrightarrow> snode_wf n'"
  by (simp add: snode_wf_node [of n] snode_wf_node [of n'])

lemma snode_wf_child: "snode_wf n \<Longrightarrow> gm_get (snodes n) l = Some m \<Longrightarrow> snode_wf m"
  by (simp add: snode_wf_node [of n])

lemma sinsert_leaf:
  "snode_wf n \<Longrightarrow> sinsert n [] q s = (n', err) \<Longrightarrow>
   err = None \<and> zip (subs n') (qos n') = entries_put (zip (subs n) (qos n)) s q \<and>
   snodes n' = snodes n \<and> length (subs n') = length (qos n')"
  using zip_put [of "subs n" "qos n" s q] snode_wf_len [of n]
  by (auto simp: sinsert.simps [of n] split: option.splits)

lemma slookup_child [simp]:
  "slookup (SNode ss qs kids) (l # ls) = (case gm_get kids l of None \<Rightarrow> [] | Some m \<Rightarrow> slookup m ls)"
  by simp

abbreviation child_or_new :: "snode \<Rightarrow> string \<Rightarrow> snode" where
  "child_or_new n l \<equiv> (case gm_get (snodes n) l of Some m \<Rightarrow> m | None \<Rightarrow> newSNode)"

lemma slookup_child_or_new: "slookup (child_or_new n l) ls = slookup n (l # ls)"
  by (simp split: option.splits)

lemma child_or_new_wf: "snode_wf n \<Longrightarrow> snode_wf (child_or_new n l)"
  by (auto simp: snode_wf_node [of n] split: option.splits)

lemma snode_wf_put:
  "snode_wf n \<Longrightarrow> snode_wf m \<Longrightarrow> snode_wf (SNode (subs n) (qos n) (gm_put l m (snodes n)))"
  by (auto simp: snode_wf_node [of n] snode_wf_node [of "SNode (subs n) (qos n) _"])

lemma snode_wf_del:
  "snode_wf n \<Longrightarrow> snode_wf (SNode (subs n) (qos n) (gm_del l (snodes n)))"
  by (auto simp: snode_wf_node [of n] snode_wf_node [of "SNode (subs n) (qos n) _"] split: if_splits)

lemma slookup_put_child:
  "slookup (SNode (subs n) (qos n) (gm_put l m (snodes n))) p =
     (case p of [] \<Rightarrow> slookup n [] | l' # p' \<Rightarrow> if l' = l then slookup m p' else slookup n p)"
  by (cases p) (auto split: option.splits)

lemma slookup_del_child:
  "slookup (SNode (subs n) (qos n) (gm_del l (snodes n))) p =
     (case p of [] \<Rightarrow> slookup n [] | l' # p' \<Rightarrow> if l' = l then [] else slookup n p)"
  by (cases p) (auto split: option.splits)

lemma sinsert_wf: "snode_wf n \<Longrightarrow> sinsert n t q s = (n', err) \<Longrightarrow> snode_wf n'"
proof (induction n t q s arbitrary: n' err rule: sinsert.induct)
  case (1 n t q s)
  show ?case
  proof (cases "t = []")
    case True
    with "1.prems" sinsert_leaf [of n q s n' err] show ?thesis by (auto intro: snode_wf_kids)
  next
    case False
    then show ?thesis
    proof (cases "nextTopicLevel t")
      case (Inl e)
      with "1.prems" False show ?thesis by (simp add: sinsert.simps [of n])
    next
      case (Inr lr)
      obtain l r where lr: "lr = (l, r)" by (cases lr)
      obtain m err' where m: "sinsert (child_or_new n l) r q s = (m, err')" by fastforce
      have "snode_wf m"
        by (rule "1.IH" [OF False Inr lr [symmetric] refl child_or_new_wf [OF "1.prems"(1)] m])
      with "1.prems" False Inr lr m show ?thesis
        by (auto simp: sinsert.simps [of n] intro: snode_wf_put)
    qed
  qed
qed

lemma sinsert_step:
  assumes "t \<noteq> []" "nextTopicLevel t = Inr (l, r)" "sinsert (child_or_new n l) r q s = (m, err)"
  shows "sinsert n t q s = (SNode (subs n) (qos n) (gm_put l m (snodes n)), err)"
  using assms by (simp add: sinsert.simps [of n])

lemma sinsert_lookup:
  assumes "snode_wf n" "topic_levels t = Some ls" "sinsert n t q s = (n', err)"
  shows "err = None \<and> slookup n' p = (if p = ls then entries_put (slookup n ls) s q else slookup n p)"
  using assms
proof (induction t arbitrary: n n' err ls p rule: topic_levels.induct)
  case (1 t)
  show ?case
  proof (cases "t = []")
    case True
    with "1.prems" sinsert_leaf [of n q s n' err] show ?thesis by (cases p) auto
  next
    case False
    with "1.prems"(2) obtain l r ls' where n: "nextTopicLevel t = Inr (l, r)"
      and ls: "topic_levels r = Some ls'" "ls = l # ls'"
      by (auto simp: topic_levels.simps [of t] split: sum.splits)
    obtain m err' where m: "sinsert (child_or_new n l) r q s = (m, err')" by fastforce
    have IH: "err' = None \<and> slookup m p' =
        (if p' = ls' then entries_put (slookup (child_or_new n l) ls') s q else slookup (child_or_new n l) p')" for p'
      by (rule "1.IH" [OF False n refl child_or_new_wf [OF "1.prems"(1)] ls(1) m])
    have n': "n' = SNode (subs n) (qos n) (gm_put l m (snodes n))" "err = err'"
      using sinsert_step [OF False n m] "1.prems"(3) by auto
    show ?thesis
      using IH unfolding n' slookup_put_child slookup_child_or_new ls(2) by (auto split: list.splits)
  qed
qed

lemma sinsert_invalid:
  assumes "topic_levels t = None" "sinsert n t q s = (n', err)"
  shows "(\<exists>e. err = Some e) \<and> slookup n' p = slookup n p"
  using assms
proof (induction t arbitrary: n n' err p rule: topic_levels.induct)
  case (1 t)
  have ne: "t \<noteq> []" using "1.prems"(1) by auto
  show ?case
  proof (cases "nextTopicLevel t")
    case (Inl e)
    with "1.prems" ne show ?thesis by (auto simp add: sinsert.simps [of n])
  next
    case (Inr lr)
    obtain l r where lr: "lr = (l, r)" by (cases lr)
    have r: "topic_levels r = None" using "1.prems"(1) Inr lr ne by (simp add: topic_levels.simps [of t])
    obtain m err' where m: "sinsert (child_or_new n l) r q s = (m, err')" by fastforce
    have IH: "(\<exists>e. err' = Some e) \<and> slookup m p' = slookup (child_or_new n l) p'" for p'
      by (rule "1.IH" [OF ne Inr lr [symmetric] r m])
    have n': "n' = SNode (subs n) (qos n) (gm_put l m (snodes n))" "err = err'"
      using sinsert_step [OF ne Inr [unfolded lr] m] "1.prems"(2) by auto
    show ?thesis
      using IH unfolding n' slookup_put_child slookup_child_or_new by (auto split: list.splits)
  qed
qed

section \<open>Removal\<close>

text \<open>Removal of one subscriber, or of all of them.\<close>

definition entries_remove :: "(iface \<times> byte) list \<Rightarrow> iface option \<Rightarrow> (iface \<times> byte) list" where
  "entries_remove es sub = (case sub of None \<Rightarrow> [] | Some s \<Rightarrow> entries_del es s)"

definition removable :: "(iface \<times> byte) list \<Rightarrow> iface option \<Rightarrow> bool" where
  "removable es sub \<longleftrightarrow> (case sub of None \<Rightarrow> True | Some s \<Rightarrow> \<exists>e \<in> set es. equal (fst e) s)"

lemma find_sub_zip:
  "length ss = length qs \<Longrightarrow> find_sub ss s = None \<longleftrightarrow> \<not> (\<exists>e \<in> set (zip ss qs). equal (fst e) s)"
  by (induction ss qs rule: list_induct2) auto

lemma find_sub_zip_Some:
  "length ss = length qs \<Longrightarrow> find_sub ss s = Some i \<Longrightarrow> \<exists>e \<in> set (zip ss qs). equal (fst e) s"
  by (metis find_sub_zip option.distinct(1))

lemma snode_wf_put_del:
  "snode_wf n \<Longrightarrow> snode_wf m \<Longrightarrow> snode_wf (SNode (subs n) (qos n) (gm_del l (gm_put l m (snodes n))))"
  using snode_wf_del [OF snode_wf_put, of n m l l] by simp

lemma sremove_leaf:
  assumes "snode_wf n" "sremove n [] sub = (n', err)"
  shows "err = None \<longleftrightarrow> removable (slookup n []) sub"
    and "err = None \<Longrightarrow> slookup n' [] = entries_remove (slookup n []) sub"
    and "err \<noteq> None \<Longrightarrow> n' = n"
    and "snodes n' = snodes n" "length (subs n') = length (qos n')"
  using assms snode_wf_len [of n] find_sub_zip [of "subs n" "qos n"] find_sub_zip_Some [of "subs n" "qos n"] zip_del [of "subs n" "qos n"]
  by (auto simp: sremove.simps [of n] entries_remove_def removable_def dest: find_sub_Some
      split: option.splits)

lemma sremove_wf: "snode_wf n \<Longrightarrow> sremove n t sub = (n', err) \<Longrightarrow> snode_wf n'"
proof (induction n t sub arbitrary: n' err rule: sremove.induct)
  case (1 n t sub)
  show ?case
  proof (cases "t = []")
    case True
    with "1.prems" sremove_leaf [of n sub n' err] show ?thesis by (auto intro: snode_wf_kids)
  next
    case False
    then show ?thesis
    proof (cases "nextTopicLevel t")
      case (Inl e)
      with "1.prems" False show ?thesis by (simp add: sremove.simps [of n])
    next
      case (Inr lr)
      obtain l r where lr: "lr = (l, r)" by (cases lr)
      show ?thesis
      proof (cases "gm_get (snodes n) l")
        case None
        with "1.prems" False Inr lr show ?thesis by (simp add: sremove.simps [of n])
      next
        case (Some k)
        obtain m err' where m: "sremove k r sub = (m, err')" by fastforce
        have "snode_wf m"
          by (rule "1.IH" [OF False Inr lr [symmetric] Some snode_wf_child [OF "1.prems"(1) Some] m])
        with "1.prems" False Inr lr Some m show ?thesis
          by (auto simp: sremove.simps [of n] Let_def intro: snode_wf_put snode_wf_put_del split: if_splits)
      qed
    qed
  qed
qed

lemma slookup_empty: "subs n = [] \<Longrightarrow> snodes n = [] \<Longrightarrow> slookup n p = []"
  by (cases p) auto

text \<open>Whether or not the child is pruned, lookups only change below the child.\<close>

lemma sremove_step:
  assumes "t \<noteq> []" "nextTopicLevel t = Inr (l, r)" "gm_get (snodes n) l = Some k"
    "sremove k r sub = (m, err)" "sremove n t sub = (n', err')"
  shows "err' = err" and "slookup n' p =
     (case p of [] \<Rightarrow> slookup n [] | l' # p' \<Rightarrow> if l' = l then slookup m p' else slookup n p)"
proof -
  have n': "err' = err" "n' = SNode (subs n) (qos n) (gm_put l m (snodes n)) \<or>
      n' = SNode (subs n) (qos n) (gm_del l (gm_put l m (snodes n))) \<and> subs m = [] \<and> snodes m = []"
    using assms by (auto simp: sremove.simps [of n] Let_def split: if_splits)
  show "err' = err" by (rule n'(1))
  show "slookup n' p =
     (case p of [] \<Rightarrow> slookup n [] | l' # p' \<Rightarrow> if l' = l then slookup m p' else slookup n p)"
    using n'(2) slookup_put_child [of n l m p] slookup_empty [of m]
    by (auto split: list.splits)
qed

lemma sremove_lookup:
  assumes "snode_wf n" "topic_levels t = Some ls" "sremove n t sub = (n', None)"
  shows "slookup n' p = (if p = ls then entries_remove (slookup n ls) sub else slookup n p)"
  using assms
proof (induction t arbitrary: n n' ls p rule: topic_levels.induct)
  case (1 t)
  show ?case
  proof (cases "t = []")
    case True
    with "1.prems" sremove_leaf [of n sub n' None] show ?thesis by (cases p) auto
  next
    case False
    with "1.prems"(2) obtain l r ls' where n: "nextTopicLevel t = Inr (l, r)"
      and ls: "topic_levels r = Some ls'" "ls = l # ls'"
      by (auto simp: topic_levels.simps [of t] split: sum.splits)
    from "1.prems"(3) False n obtain k where k: "gm_get (snodes n) l = Some k"
      by (auto simp: sremove.simps [of n] split: option.splits)
    obtain m err where m: "sremove k r sub = (m, err)" by fastforce
    note step = sremove_step [OF False n k m "1.prems"(3)]
    have IH: "slookup m p' = (if p' = ls' then entries_remove (slookup k ls') sub else slookup k p')" for p'
      using "1.IH" [OF False n refl snode_wf_child [OF "1.prems"(1) k] ls(1)] m step(1) by simp
    show ?thesis
      using k unfolding step(2) IH ls(2) by (cases p) auto
  qed
qed

lemma sremove_fails:
  assumes "sremove n t sub = (n', Some e)"
  shows "slookup n' p = slookup n p"
  using assms
proof (induction n t sub arbitrary: n' p rule: sremove.induct)
  case (1 n t sub)
  show ?case
  proof (cases "t = []")
    case True
    with "1.prems" show ?thesis by (auto simp: sremove.simps [of n] split: option.splits)
  next
    case False
    then show ?thesis
    proof (cases "nextTopicLevel t")
      case (Inl e)
      with "1.prems" False show ?thesis by (simp add: sremove.simps [of n])
    next
      case (Inr lr)
      obtain l r where lr: "lr = (l, r)" by (cases lr)
      show ?thesis
      proof (cases "gm_get (snodes n) l")
        case None
        with "1.prems" False Inr lr show ?thesis by (simp add: sremove.simps [of n])
      next
        case (Some k)
        obtain m err where m: "sremove k r sub = (m, err)" by fastforce
        note step = sremove_step [OF False Inr [unfolded lr] Some m "1.prems"]
        have "slookup m p' = slookup k p'" for p'
          using "1.IH" [OF False Inr lr [symmetric] Some] m step(1) by simp
        with Some show ?thesis unfolding step(2) by (cases p) auto
      qed
    qed
  qed
qed

lemma sremove_err:
  assumes "snode_wf n" "topic_levels t = Some ls" "sremove n t sub = (n', err)" "removable (slookup n ls) sub"
    "slookup n ls \<noteq> []"
  shows "err = None"
  using assms
proof (induction t arbitrary: n n' err ls rule: topic_levels.induct)
  case (1 t)
  show ?case
  proof (cases "t = []")
    case True
    with "1.prems" sremove_leaf(1) [of n sub n' err] show ?thesis by auto
  next
    case False
    with "1.prems"(2) obtain l r ls' where n: "nextTopicLevel t = Inr (l, r)"
      and ls: "topic_levels r = Some ls'" "ls = l # ls'"
      by (auto simp: topic_levels.simps [of t] split: sum.splits)
    from "1.prems"(5) ls obtain k where k: "gm_get (snodes n) l = Some k"
      by (auto split: option.splits)
    obtain m err' where m: "sremove k r sub = (m, err')" by fastforce
    have "err' = None"
      using "1.IH" [OF False n refl snode_wf_child [OF "1.prems"(1) k] ls(1) m] "1.prems"(4,5) k ls(2) by simp
    then show ?thesis using sremove_step(1) [OF False n k m "1.prems"(3)] by simp
  qed
qed

lemma sremove_ok:
  assumes "snode_wf n" "sremove n t sub = (n', None)"
  shows "\<exists>ls. topic_levels t = Some ls \<and> removable (slookup n ls) sub"
  using assms
proof (induction t arbitrary: n n' rule: topic_levels.induct)
  case (1 t)
  show ?case
  proof (cases "t = []")
    case True
    with "1.prems" sremove_leaf(1) [of n sub n' None] show ?thesis by auto
  next
    case False
    with "1.prems"(2) obtain l r where n: "nextTopicLevel t = Inr (l, r)"
      by (auto simp: sremove.simps [of n] split: sum.splits)
    from "1.prems"(2) False n obtain k where k: "gm_get (snodes n) l = Some k"
      by (auto simp: sremove.simps [of n] split: option.splits)
    obtain m err where m: "sremove k r sub = (m, err)" by fastforce
    with sremove_step(1) [OF False n k m "1.prems"(2)] have "sremove k r sub = (m, None)" by simp
    from "1.IH" [OF False n refl snode_wf_child [OF "1.prems"(1) k] this]
    obtain ls where "topic_levels r = Some ls" "removable (slookup k ls) sub" by blast
    then show ?thesis using n False k by (intro exI [of _ "l # ls"]) (simp add: topic_levels_step)
  qed
qed

section \<open>Matching a published topic\<close>

text \<open>All entries of a tree with their paths, and the subscribers on the paths a predicate selects.\<close>

fun sflat :: "snode \<Rightarrow> (string list \<times> iface \<times> byte) list"
and sflat_kids :: "(string \<times> snode) list \<Rightarrow> (string list \<times> iface \<times> byte) list" where
  "sflat (SNode ss qs kids) = map (Pair []) (zip ss qs) @ sflat_kids kids"
| "sflat_kids [] = []"
| "sflat_kids ((k, n) # kids) = map (\<lambda>(p, e). (k # p, e)) (sflat n) @ sflat_kids kids"

definition hits :: "(string list \<Rightarrow> bool) \<Rightarrow> (string list \<times> iface \<times> byte) list \<Rightarrow> iface list" where
  "hits P es = map (\<lambda>(p, s, q). s) (filter (\<lambda>(p, e). P p) es)"

lemma hits_Nil [simp]: "hits P [] = []"
  by (simp add: hits_def)

lemma hits_append [simp]: "hits P (xs @ ys) = hits P xs @ hits P ys"
  by (simp add: hits_def)

lemma hits_Cons_path [simp]:
  "hits P (map (\<lambda>(p, e). (k # p, e)) es) = hits (\<lambda>p. P (k # p)) es"
  by (induction es) (auto simp: hits_def)

lemma hits_root [simp]:
  "length ss = length qs \<Longrightarrow> hits P (map (Pair []) (zip ss qs)) = (if P [] then ss else [])"
  by (induction ss qs rule: list_induct2) (auto simp: hits_def)

lemma hits_none: "(\<And>p. \<not> P p) \<Longrightarrow> hits P es = []"
  by (simp add: hits_def)

lemma hits_kids_nonempty: "(\<And>k p. \<not> P (k # p)) \<Longrightarrow> hits P (sflat_kids kids) = []"
  by (induction kids) (auto simp: hits_none)

lemma hits_here: "snode_wf n \<Longrightarrow> hits (\<lambda>p. p = []) (sflat n) = subs n"
  using snode_wf_len [of n] by (cases n) (simp add: hits_kids_nonempty)

lemma hits_child:
  assumes "gm_wf kids"
  shows "hits (\<lambda>p. p = [l]) (sflat_kids kids) =
    (case gm_get kids l of None \<Rightarrow> [] | Some m \<Rightarrow> hits (\<lambda>p. p = []) (sflat m))"
  using assms
proof (induction kids)
  case (Cons kn kids)
  obtain k m where kn: "kn = (k, m)" by (cases kn)
  from Cons.prems kn have "k = l \<Longrightarrow> gm_get kids l = None" by (simp add: gm_get_None)
  with Cons kn show ?case by (auto simp: hits_none)
qed simp

lemma sflat_slookup: "snode_wf n \<Longrightarrow> (p, e) \<in> set (sflat n) \<longleftrightarrow> e \<in> set (slookup n p)"
proof (induction p arbitrary: n)
  case Nil
  have "([], e) \<notin> set (sflat_kids kids)" for kids by (induction kids) auto
  then show ?case by (cases n) auto
next
  case (Cons l p)
  have kids: "(l # p, e) \<in> set (sflat_kids kids) \<longleftrightarrow> (\<exists>m. (l, m) \<in> set kids \<and> (p, e) \<in> set (sflat m))" for kids
    by (induction kids) auto
  have "gm_wf (snodes n)" using Cons.prems by (simp add: snode_wf_node [of n])
  note get = gm_get_mem [OF this]
  have "(l # p, e) \<in> set (sflat n) \<longleftrightarrow> (\<exists>m. (l, m) \<in> set (snodes n) \<and> (p, e) \<in> set (sflat m))"
    by (cases n) (auto simp: kids)
  with Cons show ?case unfolding get by (auto simp: snode_wf_child split: option.splits)
qed

lemma matchQos_append:
  "matchQos n q (ss, qs) = (ss @ subs n, qs @ replicate (length (subs n)) q)"
proof -
  have "fold (\<lambda>sub (ss, qs). (ss @ [sub], qs @ [q])) xs (ss, qs) = (ss @ xs, qs @ replicate (length xs) q)"
    for xs :: "iface list" and ss qs
    by (induction xs arbitrary: ss qs) auto
  then show ?thesis by (simp add: matchQos_def)
qed

text \<open>The accumulators are only ever extended, by the same subscribers whatever they held.\<close>

definition extends :: "byte \<Rightarrow> iface multiset \<Rightarrow> iface list \<times> bytes \<Rightarrow> iface list \<times> bytes \<Rightarrow> bool" where
  "extends q ms acc acc' \<longleftrightarrow>
     (\<exists>rs. mset rs = ms \<and> acc' = (fst acc @ rs, snd acc @ replicate (length rs) q))"

lemma extends_refl [simp]: "extends q {#} acc acc"
  by (simp add: extends_def)

lemma extends_matchQos: "extends q (mset (subs n)) acc (matchQos n q acc)"
  by (cases acc) (auto simp: extends_def matchQos_append)

lemma extends_trans:
  "extends q ms acc acc1 \<Longrightarrow> extends q ms' acc1 acc2 \<Longrightarrow> extends q (ms + ms') acc acc2"
  unfolding extends_def
  by (elim exE conjE, rule exI [of _ "_ @ _"]) (auto simp: replicate_add)

lemma sub_match_Nil: "sub_match p [] \<longleftrightarrow> p = [] \<or> p = [MWC]"
  by (cases p) auto

lemma hits_split_Nil:
  "mset (hits (\<lambda>p. sub_match p []) es) = mset (hits (\<lambda>p. p = []) es) + mset (hits (\<lambda>p. p = [MWC]) es)"
  by (induction es) (auto simp: hits_def sub_match_Nil)

lemma smatch_sound:
  "snode_wf n \<Longrightarrow> topic_levels t = Some ls \<Longrightarrow>
    \<exists>acc'. smatch n t q acc = (acc', None) \<and> extends q (mset (hits (\<lambda>p. sub_match p ls) (sflat n))) acc acc'"
  "gm_wf kids \<Longrightarrow> \<forall>(k, n) \<in> set kids. snode_wf n \<Longrightarrow> topic_levels r = Some ls' \<Longrightarrow>
    \<exists>acc'. smatch_range kids l r q acc = (acc', None) \<and>
      extends q (mset (hits (\<lambda>p. sub_match p (l # ls')) (sflat_kids kids))) acc acc'"
proof (induction n t q acc and kids l r q acc arbitrary: ls and ls' rule: smatch_smatch_range.induct)
  case (1 ss qs kids t q acc)
  have wf: "length ss = length qs" "gm_wf kids" "\<forall>(k, n) \<in> set kids. snode_wf n"
    using "1.prems"(1) by (auto simp: snode_wf.simps)
  show ?case
  proof (cases "t = []")
    case True
    let ?n = "SNode ss qs kids"
    have h: "mset (hits (\<lambda>p. sub_match p []) (sflat ?n)) =
        mset ss + mset (case gm_get kids MWC of None \<Rightarrow> [] | Some m \<Rightarrow> subs m)"
      using hits_here [OF "1.prems"(1)] hits_child [OF wf(2), of MWC] hits_here snode_wf_child [OF "1.prems"(1)]
      by (simp add: hits_split_Nil wf(1) split: option.splits)
    have "ls = []" using True "1.prems"(2) by simp
    with True h extends_matchQos [of q ?n acc] extends_trans [OF extends_matchQos [of q ?n acc] extends_matchQos]
    show ?thesis
      by (cases "gm_get kids MWC") (simp_all add: smatch.simps Let_def del: sflat.simps split_paired_Ex)
  next
    case False
    with "1.prems"(2) obtain l r ls' where n: "nextTopicLevel t = Inr (l, r)"
      and ls: "topic_levels r = Some ls'" "ls = l # ls'"
      by (auto simp: topic_levels.simps [of t] split: sum.splits)
    have "hits (\<lambda>p. sub_match p ls) (sflat (SNode ss qs kids)) = hits (\<lambda>p. sub_match p ls) (sflat_kids kids)"
      by (simp add: wf(1) ls(2))
    with "1.IH" [OF False n refl wf(2,3) ls(1)] show ?thesis
      using False n ls(2) by (simp add: smatch.simps)
  qed
next
  case (3 k n kids l r q acc)
  have kids: "gm_wf kids" "\<forall>(k, n) \<in> set kids. snode_wf n" and n: "snode_wf n"
    using "3.prems" by auto
  show ?case
  proof (cases "k = MWC")
    case True
    obtain acc' where "smatch_range kids l r q (matchQos n q acc) = (acc', None)"
      "extends q (mset (hits (\<lambda>p. sub_match p (l # ls')) (sflat_kids kids))) (matchQos n q acc) acc'"
      using "3.IH"(1) [OF True kids "3.prems"(3)] by blast
    with extends_trans [OF extends_matchQos [of q n acc]] True show ?thesis
      by (auto simp: smatch.simps hits_here [OF n])
  next
    case False
    show ?thesis
    proof (cases "k = SWC \<or> k = l")
      case True
      obtain acc1 where 1: "smatch n r q acc = (acc1, None)"
        "extends q (mset (hits (\<lambda>p. sub_match p ls') (sflat n))) acc acc1"
        using "3.IH"(2) [OF False True n "3.prems"(3)] by blast
      obtain acc2 where 2: "smatch_range kids l r q acc1 = (acc2, None)"
        "extends q (mset (hits (\<lambda>p. sub_match p (l # ls')) (sflat_kids kids))) acc1 acc2"
        using "3.IH"(3) [OF False True 1(1) [symmetric] _ kids "3.prems"(3)] by auto
      have h: "hits (\<lambda>p. sub_match (k # p) (l # ls')) (sflat n) = hits (\<lambda>p. sub_match p ls') (sflat n)"
        using True False by (auto simp: hits_def)
      show ?thesis
        using extends_trans [OF 1(2) 2(2)] 1(1) 2(1) True False h by (simp add: smatch.simps)
    next
      case False2: False
      obtain acc' where "smatch_range kids l r q acc = (acc', None)"
        "extends q (mset (hits (\<lambda>p. sub_match p (l # ls')) (sflat_kids kids))) acc acc'"
        using "3.IH"(4) [OF False False2 kids "3.prems"(3)] by blast
      with False False2 show ?thesis by (simp add: smatch.simps hits_none)
    qed
  qed
qed (simp add: smatch.simps)

lemma hits_all: "set (hits P es) \<subseteq> set (hits (\<lambda>_. True) es)"
  by (force simp: hits_def)

lemma matchQos_set: "set (fst (matchQos n q acc)) = set (fst acc) \<union> set (subs n)"
  by (cases acc) (simp add: matchQos_append)

text \<open>Whatever the topic, also a malformed one, only subscribers of the tree are found.\<close>

lemma smatch_within:
  "snode_wf n \<Longrightarrow> set (fst (fst (smatch n t q acc))) \<subseteq> set (fst acc) \<union> set (hits (\<lambda>_. True) (sflat n))"
  "\<forall>(k, n) \<in> set kids. snode_wf n \<Longrightarrow>
    set (fst (fst (smatch_range kids l r q acc))) \<subseteq> set (fst acc) \<union> set (hits (\<lambda>_. True) (sflat_kids kids))"
proof (induction n t q acc and kids l r q acc rule: smatch_smatch_range.induct)
  case (1 ss qs kids t q acc)
  have wf: "length ss = length qs" "gm_wf kids" "\<forall>(k, n) \<in> set kids. snode_wf n"
    using "1.prems"(1) by (auto simp: snode_wf.simps)
  have kid: "set (subs m) \<subseteq> set (hits (\<lambda>_. True) (sflat_kids kids))" if "gm_get kids MWC = Some m" for m
  proof -
    have "set (hits (\<lambda>p. p = [MWC]) (sflat_kids kids)) = set (subs m)"
      using hits_child [OF wf(2), of MWC] hits_here snode_wf_child [OF "1.prems"(1)] that by simp
    then show ?thesis by (auto simp: hits_def)
  qed
  show ?case
  proof (cases "t = []")
    case True
    then show ?thesis
      using wf(1) by (auto simp: smatch.simps Let_def matchQos_set dest!: kid split: option.splits)
  next
    case False
    then show ?thesis
    proof (cases "nextTopicLevel t")
      case (Inr lr)
      obtain l r where lr: "lr = (l, r)" by fastforce
      from "1.IH" [OF False Inr lr [symmetric] wf(3)] False Inr lr wf(1) show ?thesis by (auto simp: smatch.simps)
    qed (simp add: smatch.simps)
  qed
next
  case (3 k n kids l r q acc)
  have kids: "\<forall>(k, n) \<in> set kids. snode_wf n" and n: "snode_wf n" using "3.prems" by auto
  have here: "set (subs n) \<subseteq> set (hits (\<lambda>_. True) (sflat n))"
    using hits_here [OF n] hits_all by metis
  show ?case
  proof (cases "k = MWC")
    case True
    with "3.IH"(1) [OF True kids] here show ?thesis by (auto simp: smatch.simps matchQos_set)
  next
    case False
    show ?thesis
    proof (cases "k = SWC \<or> k = l")
      case True
      obtain acc1 err where 1: "smatch n r q acc = (acc1, err)" by fastforce
      with "3.IH"(2) [OF False True n] "3.IH"(3) [OF False True 1 [symmetric] _ kids] True False
      show ?thesis by (auto simp: smatch.simps split: if_splits)
    qed (use "3.IH"(4) [OF False _ kids] False in \<open>auto simp: smatch.simps\<close>)
  qed
qed (simp add: smatch.simps)

end
