(* ===== verification/RetainTree.thy ===== *)
theory RetainTree
  imports TopicLevels Packets
begin

text \<open>
  The tree of retained messages of \<open>src/broker/lib/topics/memtopics.go\<close>: \<open>rnode\<close> with
  \<open>rinsertOrUpdate\<close>, \<open>rremove\<close>, \<open>rmatch\<close> and \<open>allRetained\<close>. As for the subscription tree, an operation
  returns the updated node and its error, and \<open>rlookup\<close> reads the message at a path of levels.
\<close>

section \<open>Nodes\<close>

datatype rnode = RNode (rmsg: "PublishPacket option") (rnodes: "(string \<times> rnode) list")

definition newRNode :: rnode where
  "newRNode = RNode None []"

function rinsertOrUpdate :: "rnode \<Rightarrow> string \<Rightarrow> PublishPacket \<Rightarrow> rnode \<times> go_error option" where
  "rinsertOrUpdate this topic msg =
     (if topic = [] then (RNode (Some msg) (rnodes this), None)
      else case nextTopicLevel topic of
        Inl err \<Rightarrow> (this, Some err)
      | Inr (level, rem) \<Rightarrow>
          (let n = (case gm_get (rnodes this) level of Some n \<Rightarrow> n | None \<Rightarrow> newRNode) in
           case rinsertOrUpdate n rem msg of (n', err) \<Rightarrow>
             (RNode (rmsg this) (gm_put level n' (rnodes this)), err)))"
  by pat_completeness auto
termination
  by (relation "measure (\<lambda>(n, t, m). length t)") (auto simp: nextTopicLevel_shorter)

declare rinsertOrUpdate.simps [simp del]

text \<open>The visited child is deleted as soon as it has no children, whether or not it holds a message.\<close>

function rremove :: "rnode \<Rightarrow> string \<Rightarrow> rnode \<times> go_error option" where
  "rremove this topic =
     (if topic = [] then (RNode None (rnodes this), None)
      else case nextTopicLevel topic of
        Inl err \<Rightarrow> (this, Some err)
      | Inr (level, rem) \<Rightarrow>
          (case gm_get (rnodes this) level of
             None \<Rightarrow> (this, Some (Errorf ''No topic found''))
           | Some n \<Rightarrow>
               (case rremove n rem of (n', err) \<Rightarrow>
                  let this' = RNode (rmsg this) (gm_put level n' (rnodes this)) in
                  if err \<noteq> None then (this', err)
                  else if rnodes n' = [] then (RNode (rmsg this) (gm_del level (rnodes this')), None)
                  else (this', None))))"
  by pat_completeness auto
termination
  by (relation "measure (\<lambda>(n, t). length t)") (auto simp: nextTopicLevel_shorter)

declare rremove.simps [simp del]

fun allRetained :: "rnode \<Rightarrow> PublishPacket list \<Rightarrow> PublishPacket list"
and allRetained_range :: "(string \<times> rnode) list \<Rightarrow> PublishPacket list \<Rightarrow> PublishPacket list" where
  "allRetained (RNode m kids) msgs =
     allRetained_range kids (case m of None \<Rightarrow> msgs | Some p \<Rightarrow> msgs @ [p])"
| "allRetained_range [] msgs = msgs"
| "allRetained_range ((k, n) # kids) msgs = allRetained_range kids (allRetained n msgs)"

text \<open>\<open>rmatch_range\<close> is the loop over all children for the level \<open>+\<close>.\<close>

function rmatch :: "rnode \<Rightarrow> string \<Rightarrow> PublishPacket list \<Rightarrow> PublishPacket list \<times> go_error option"
and rmatch_range :: "(string \<times> rnode) list \<Rightarrow> string \<Rightarrow> PublishPacket list \<Rightarrow>
    PublishPacket list \<times> go_error option" where
  "rmatch this topic msgs =
     (if topic = [] then
        ((case rmsg this of None \<Rightarrow> msgs | Some p \<Rightarrow> msgs @ [p]), None)
      else case nextTopicLevel topic of
        Inl err \<Rightarrow> (msgs, Some err)
      | Inr (level, rem) \<Rightarrow>
          if level = MWC then (allRetained this msgs, None)
          else if level = SWC then rmatch_range (rnodes this) rem msgs
          else case gm_get (rnodes this) level of
            Some n \<Rightarrow> rmatch n rem msgs
          | None \<Rightarrow> (msgs, None))"
| "rmatch_range [] rem msgs = (msgs, None)"
| "rmatch_range ((k, n) # kids) rem msgs =
     (case rmatch n rem msgs of (msgs', err) \<Rightarrow>
        if err \<noteq> None then (msgs', err) else rmatch_range kids rem msgs')"
  by pat_completeness auto
termination
  by (relation "measures [\<lambda>x. case x of Inl (n, t, m) \<Rightarrow> 2 * length t | Inr (ks, r, m) \<Rightarrow> Suc (2 * length r),
      \<lambda>x. case x of Inl (n, t, m) \<Rightarrow> 0 | Inr (ks, r, m) \<Rightarrow> length ks]")
    (auto dest: nextTopicLevel_shorter)

declare rmatch.simps [simp del]

section \<open>Lookup\<close>

fun rlookup :: "rnode \<Rightarrow> string list \<Rightarrow> PublishPacket option" where
  "rlookup n [] = rmsg n"
| "rlookup n (l # ls) = (case gm_get (rnodes n) l of None \<Rightarrow> None | Some m \<Rightarrow> rlookup m ls)"

fun rnode_wf :: "rnode \<Rightarrow> bool" where
  "rnode_wf (RNode m kids) \<longleftrightarrow> gm_wf kids \<and> (\<forall>(k, n) \<in> set kids. rnode_wf n)"

declare rnode_wf.simps [simp del]

lemma rnode_wf_node:
  "rnode_wf n \<longleftrightarrow> gm_wf (rnodes n) \<and> (\<forall>l m. gm_get (rnodes n) l = Some m \<longrightarrow> rnode_wf m)"
proof (cases n)
  case (RNode m kids)
  show ?thesis
    unfolding RNode rnode_wf.simps rnode.sel
    using gm_get_mem [of kids] by (metis (no_types, lifting) case_prod_conv prod.exhaust)
qed

lemma rnode_wf_child: "rnode_wf n \<Longrightarrow> gm_get (rnodes n) l = Some m \<Longrightarrow> rnode_wf m"
  by (simp add: rnode_wf_node [of n])

lemma rnode_wf_put: "rnode_wf n \<Longrightarrow> rnode_wf m \<Longrightarrow> rnode_wf (RNode x (gm_put l m (rnodes n)))"
  by (auto simp: rnode_wf_node [of n] rnode_wf_node [of "RNode x _"])

lemma rnode_wf_put_del:
  "rnode_wf n \<Longrightarrow> rnode_wf m \<Longrightarrow> rnode_wf (RNode x (gm_del l (gm_put l m (rnodes n))))"
  by (auto simp: rnode_wf_node [of n] rnode_wf_node [of "RNode x _"] split: if_splits)

lemma rnode_wf_msg: "rnode_wf n \<Longrightarrow> rnode_wf (RNode x (rnodes n))"
  by (simp add: rnode_wf_node [of n] rnode_wf_node [of "RNode x _"])

lemma newRNode_wf [simp]: "rnode_wf newRNode"
  by (simp add: newRNode_def rnode_wf.simps)

lemma rlookup_newRNode [simp]: "rlookup newRNode p = None"
  by (cases p) (simp_all add: newRNode_def)

abbreviation rchild_or_new :: "rnode \<Rightarrow> string \<Rightarrow> rnode" where
  "rchild_or_new n l \<equiv> (case gm_get (rnodes n) l of Some m \<Rightarrow> m | None \<Rightarrow> newRNode)"

lemma rlookup_child_or_new: "rlookup (rchild_or_new n l) ls = rlookup n (l # ls)"
  by (simp split: option.splits)

lemma rchild_or_new_wf: "rnode_wf n \<Longrightarrow> rnode_wf (rchild_or_new n l)"
  by (auto intro: rnode_wf_child split: option.splits)

lemma rlookup_put_child:
  "rlookup (RNode x (gm_put l m (rnodes n))) p =
     (case p of [] \<Rightarrow> x | l' # p' \<Rightarrow> if l' = l then rlookup m p' else rlookup n p)"
  by (cases p) (auto split: option.splits)

section \<open>Storing a message\<close>

lemma rinsert_step:
  assumes "t \<noteq> []" "nextTopicLevel t = Inr (l, r)" "rinsertOrUpdate (rchild_or_new n l) r msg = (m, err)"
  shows "rinsertOrUpdate n t msg = (RNode (rmsg n) (gm_put l m (rnodes n)), err)"
  using assms by (simp add: rinsertOrUpdate.simps [of n])

lemma rinsert_lookup:
  assumes "rnode_wf n" "rinsertOrUpdate n t msg = (n', err)"
  shows "rnode_wf n' \<and>
    (case topic_levels t of
       Some ls \<Rightarrow> err = None \<and> rlookup n' p = (if p = ls then Some msg else rlookup n p)
     | None \<Rightarrow> err \<noteq> None \<and> rlookup n' p = rlookup n p)"
  using assms
proof (induction t arbitrary: n n' err p rule: topic_levels.induct)
  case (1 t)
  show ?case
  proof (cases "t = []")
    case True
    with "1.prems" show ?thesis by (cases p) (auto simp: rinsertOrUpdate.simps [of n] rnode_wf_msg)
  next
    case False
    show ?thesis
    proof (cases "nextTopicLevel t")
      case (Inl e)
      with "1.prems" False show ?thesis by (auto simp: rinsertOrUpdate.simps [of n] topic_levels_err)
    next
      case (Inr lr)
      obtain l r where n: "nextTopicLevel t = Inr (l, r)" by (metis Inr surj_pair)
      obtain m err' where m: "rinsertOrUpdate (rchild_or_new n l) r msg = (m, err')" by fastforce
      note IH = "1.IH" [OF False n refl rchild_or_new_wf [OF "1.prems"(1)] m, unfolded rlookup_child_or_new]
      have n': "n' = RNode (rmsg n) (gm_put l m (rnodes n))" "err = err'"
        using rinsert_step [OF False n m] "1.prems"(2) by auto
      have wf: "rnode_wf n'" using IH "1.prems"(1) n' by (simp add: rnode_wf_put)
      show ?thesis
        unfolding topic_levels_step [OF False n] n'(2)
      proof (intro conjI wf, cases "topic_levels r")
        case None
        then show "case map_option ((#) l) (topic_levels r) of
            Some ls \<Rightarrow> err' = None \<and> rlookup n' p = (if p = ls then Some msg else rlookup n p)
          | None \<Rightarrow> err' \<noteq> None \<and> rlookup n' p = rlookup n p"
          using IH unfolding n' rlookup_put_child by (cases p) auto
      next
        case (Some ls)
        then show "case map_option ((#) l) (topic_levels r) of
            Some ls \<Rightarrow> err' = None \<and> rlookup n' p = (if p = ls then Some msg else rlookup n p)
          | None \<Rightarrow> err' \<noteq> None \<and> rlookup n' p = rlookup n p"
          using IH unfolding n' rlookup_put_child by (cases p) auto
      qed
    qed
  qed
qed

section \<open>Clearing a message\<close>

lemma rremove_step:
  assumes "t \<noteq> []" "nextTopicLevel t = Inr (l, r)" "gm_get (rnodes n) l = Some k"
    "rremove k r = (m, err)" "rremove n t = (n', err')"
  shows "err' = err" and "rmsg n' = rmsg n"
    and "n' = RNode (rmsg n) (gm_put l m (rnodes n)) \<or>
      err = None \<and> n' = RNode (rmsg n) (gm_del l (gm_put l m (rnodes n))) \<and> rnodes m = []"
  using assms by (auto simp: rremove.simps [of n] Let_def split: if_splits)

lemma rremove_wf: "rnode_wf n \<Longrightarrow> rremove n t = (n', err) \<Longrightarrow> rnode_wf n'"
proof (induction n t arbitrary: n' err rule: rremove.induct)
  case (1 n t)
  show ?case
  proof (cases "t = [] \<or> (\<exists>e. nextTopicLevel t = Inl e)")
    case True
    with "1.prems" show ?thesis
      by (auto simp: rremove.simps [of n] rnode_wf_msg split: if_splits)
  next
    case False
    then obtain l r where t: "t \<noteq> []" and n: "nextTopicLevel t = Inr (l, r)"
      by (metis surj_pair sum.exhaust)
    show ?thesis
    proof (cases "gm_get (rnodes n) l")
      case None
      with "1.prems" t n show ?thesis by (simp add: rremove.simps [of n])
    next
      case (Some k)
      obtain m err' where m: "rremove k r = (m, err')" by fastforce
      have "rnode_wf m" by (rule "1.IH" [OF t n refl Some rnode_wf_child [OF "1.prems"(1) Some] m])
      then show ?thesis
        using rremove_step(3) [OF t n Some m "1.prems"(2)] "1.prems"(1) rnode_wf_put rnode_wf_put_del by blast
    qed
  qed
qed

lemma rlookup_childless: "rnodes n = [] \<Longrightarrow> rlookup n (l # p) = None"
  by simp

lemma rremove_lookup:
  assumes "topic_levels t = Some ls" "rremove n t = (n', None)"
  shows "rlookup n' ls = None \<and> (\<not> (\<exists>s. ls = p @ s) \<longrightarrow> rlookup n' p = rlookup n p) \<and> (ls \<noteq> [] \<longrightarrow> rmsg n' = rmsg n)"
  using assms
proof (induction t arbitrary: n n' ls p rule: topic_levels.induct)
  case (1 t)
  show ?case
  proof (cases "t = []")
    case True
    with "1.prems" show ?thesis by (cases p) (auto simp: rremove.simps [of n])
  next
    case False
    with "1.prems"(1) obtain l r ls' where n: "nextTopicLevel t = Inr (l, r)"
      and ls: "topic_levels r = Some ls'" "ls = l # ls'"
      by (auto simp: topic_levels.simps [of t] split: sum.splits)
    from "1.prems"(2) False n obtain k where k: "gm_get (rnodes n) l = Some k"
      by (auto simp: rremove.simps [of n] split: option.splits)
    obtain m err where m: "rremove k r = (m, err)" by fastforce
    note step = rremove_step [OF False n k m "1.prems"(2)]
    have IH: "rlookup m ls' = None \<and> (\<not> (\<exists>s. ls' = p' @ s) \<longrightarrow> rlookup m p' = rlookup k p')" for p'
      using "1.IH" [OF False n refl ls(1)] m step(1) by simp
    show ?thesis
    proof (intro conjI impI)
      show "rmsg n' = rmsg n" by (rule step(2))
      show "rlookup n' ls = None" using step(3) IH [of "[]"] by (auto simp: ls(2))
      assume p: "\<not> (\<exists>s. ls = p @ s)"
      then obtain l' p' where lp: "p = l' # p'" by (cases p) (auto simp: ls(2))
      show "rlookup n' p = rlookup n p"
      proof (cases "l' = l")
        case True
        with p lp ls(2) have np: "\<not> (\<exists>s. ls' = p' @ s)" by auto
        then have "p' \<noteq> []" by auto
        with True lp k IH [of p'] np step(3) show ?thesis by (cases p') auto
      next
        case False
        with lp step(3) show ?thesis by auto
      qed
    qed
  qed
qed

lemma rremove_fails: "rremove n t = (n', Some e) \<Longrightarrow> rlookup n' p = rlookup n p"
proof (induction n t arbitrary: n' p rule: rremove.induct)
  case (1 n t)
  show ?case
  proof (cases "t = [] \<or> (\<exists>e. nextTopicLevel t = Inl e)")
    case True
    with "1.prems" show ?thesis by (auto simp: rremove.simps [of n] split: if_splits)
  next
    case False
    then obtain l r where t: "t \<noteq> []" and n: "nextTopicLevel t = Inr (l, r)"
      by (metis surj_pair sum.exhaust)
    show ?thesis
    proof (cases "gm_get (rnodes n) l")
      case None
      with "1.prems" t n show ?thesis by (simp add: rremove.simps [of n])
    next
      case (Some k)
      obtain m err where m: "rremove k r = (m, err)" by fastforce
      note step = rremove_step [OF t n Some m "1.prems"]
      have IH: "rlookup m p' = rlookup k p'" for p'
        using "1.IH" [OF t n refl Some] m step(1) by simp
      have "n' = RNode (rmsg n) (gm_put l m (rnodes n))" using step by auto
      with IH Some show ?thesis by (cases p) auto
    qed
  qed
qed

section \<open>Matching a subscription filter\<close>

fun rflat :: "rnode \<Rightarrow> (string list \<times> PublishPacket) list"
and rflat_kids :: "(string \<times> rnode) list \<Rightarrow> (string list \<times> PublishPacket) list" where
  "rflat (RNode m kids) = (case m of None \<Rightarrow> [] | Some p \<Rightarrow> [([], p)]) @ rflat_kids kids"
| "rflat_kids [] = []"
| "rflat_kids ((k, n) # kids) = map (\<lambda>(p, e). (k # p, e)) (rflat n) @ rflat_kids kids"

definition rhits :: "(string list \<Rightarrow> bool) \<Rightarrow> (string list \<times> PublishPacket) list \<Rightarrow> PublishPacket list" where
  "rhits P es = map snd (filter (\<lambda>(p, e). P p) es)"

lemma rhits_simps [simp]:
  "rhits P [] = []" "rhits P (xs @ ys) = rhits P xs @ rhits P ys"
  "rhits P ((p, e) # es) = (if P p then e # rhits P es else rhits P es)"
  "rhits (\<lambda>p. True) es = map snd es" "rhits (\<lambda>p. False) es = []"
  by (auto simp: rhits_def)

lemma rhits_Cons_path [simp]:
  "rhits P (map (\<lambda>(p, e). (k # p, e)) es) = rhits (\<lambda>p. P (k # p)) es"
  by (induction es) auto

lemma rhits_kids_nonempty: "(\<And>k p. \<not> P (k # p)) \<Longrightarrow> rhits P (rflat_kids kids) = []"
  by (induction kids) auto

lemma rhits_child:
  assumes "gm_wf kids"
  shows "rhits (\<lambda>p. case p of [] \<Rightarrow> False | k # p' \<Rightarrow> l = k \<and> P p') (rflat_kids kids) =
    (case gm_get kids l of None \<Rightarrow> [] | Some m \<Rightarrow> rhits P (rflat m))"
  using assms
proof (induction kids)
  case (Cons kn kids)
  obtain k m where kn: "kn = (k, m)" by (cases kn)
  from Cons.prems kn have "k = l \<Longrightarrow> gm_get kids l = None" by (simp add: gm_get_None)
  with Cons kn show ?case by auto
qed simp

lemma rflat_rlookup: "rnode_wf n \<Longrightarrow> (p, m) \<in> set (rflat n) \<longleftrightarrow> rlookup n p = Some m"
proof (induction p arbitrary: n)
  case Nil
  have "([], m) \<notin> set (rflat_kids kids)" for kids by (induction kids) auto
  then show ?case by (cases n) (auto split: option.splits)
next
  case (Cons l p)
  have kids: "(l # p, m) \<in> set (rflat_kids kids) \<longleftrightarrow> (\<exists>k. (l, k) \<in> set kids \<and> (p, m) \<in> set (rflat k))" for kids
    by (induction kids) auto
  have "gm_wf (rnodes n)" using Cons.prems by (simp add: rnode_wf_node [of n])
  note get = gm_get_mem [OF this]
  have "(l # p, m) \<in> set (rflat n) \<longleftrightarrow> (\<exists>k. (l, k) \<in> set (rnodes n) \<and> (p, m) \<in> set (rflat k))"
    by (cases n) (auto simp: kids split: option.splits)
  with Cons show ?case unfolding get by (auto simp: rnode_wf_child split: option.splits)
qed

lemma allRetained_flat:
  "allRetained n msgs = msgs @ map snd (rflat n)"
  "allRetained_range kids msgs = msgs @ map snd (rflat_kids kids)"
  by (induction n msgs and kids msgs rule: allRetained_allRetained_range.induct)
    (auto simp: case_prod_beta comp_def split: option.splits)

lemma ret_match_range: "ret_match (SWC # ls) p \<longleftrightarrow> (case p of [] \<Rightarrow> False | k # p' \<Rightarrow> ret_match ls p')"
  by (simp split: list.splits)

lemma rmatch_sound:
  "rnode_wf n \<Longrightarrow> topic_levels t = Some ls \<Longrightarrow>
    rmatch n t msgs = (msgs @ rhits (ret_match ls) (rflat n), None)"
  "\<forall>(k, n) \<in> set kids. rnode_wf n \<Longrightarrow> topic_levels r = Some ls' \<Longrightarrow>
    rmatch_range kids r msgs = (msgs @ rhits (ret_match (SWC # ls')) (rflat_kids kids), None)"
proof (induction n t msgs and kids r msgs arbitrary: ls and ls' rule: rmatch_rmatch_range.induct)
  case (1 n t msgs)
  show ?case
  proof (cases "t = []")
    case True
    with "1.prems" show ?thesis
      by (cases n) (auto simp: rmatch.simps rhits_kids_nonempty split: option.splits)
  next
    case False
    with "1.prems"(2) obtain l r ls' where n: "nextTopicLevel t = Inr (l, r)"
      and ls: "topic_levels r = Some ls'" "ls = l # ls'"
      by (auto simp: topic_levels.simps [of t] split: sum.splits)
    have kids: "\<forall>(k, m) \<in> set (rnodes n). rnode_wf m" "gm_wf (rnodes n)"
      using "1.prems"(1) by (cases n, auto simp: rnode_wf.simps)+
    consider "l = MWC" | "l = SWC" | "l \<noteq> MWC" "l \<noteq> SWC" by blast
    then show ?thesis
    proof cases
      case 1
      with False n ls show ?thesis by (simp add: rmatch.simps [of n] allRetained_flat)
    next
      case 2
      then have "l \<noteq> MWC" by simp
      from "1.IH"(1) [OF False n refl this 2 kids(1) ls(1)] 2 False n ls show ?thesis
        by (cases n) (auto simp: rmatch.simps split: option.splits)
    next
      case 3
      have eq: "ret_match (l # ls') = (\<lambda>p. case p of [] \<Rightarrow> False | k # p' \<Rightarrow> l = k \<and> ret_match ls' p')"
        using 3 by (auto simp: fun_eq_iff split: list.splits)
      have h: "rhits (ret_match (l # ls')) (rflat n) =
          (case gm_get (rnodes n) l of None \<Rightarrow> [] | Some m \<Rightarrow> rhits (ret_match ls') (rflat m))"
        unfolding eq using rhits_child [OF kids(2), of l "ret_match ls'"]
        by (cases n) (simp split: option.splits)
      show ?thesis
        using "1.IH"(2) [OF False n refl 3 _ rnode_wf_child [OF "1.prems"(1)] ls(1)] 3 False n h ls(2)
        by (auto simp: rmatch.simps [of n] simp del: ret_match.simps split: option.splits)
    qed
  qed
next
  case (3 k n kids r msgs)
  have "rmatch n r msgs = (msgs @ rhits (ret_match ls') (rflat n), None)"
    using 3 by auto
  with 3 show ?case by (auto simp: rmatch.simps)
qed (simp add: rmatch.simps)

end
