(* ===== verification/Topics.thy ===== *)
theory Topics
  imports TopicTree RetainTree
begin

text \<open>
  The topics provider of \<open>src/broker/lib/topics/\<close>: the in-memory provider \<open>memTopics\<close> with its two
  trees, the provider registry and the \<open>Manager\<close> that forwards every call to its provider.

  \<open>Close\<close> sets both roots to nil. A method on a nil node still rejects a malformed first level and
  panics otherwise; operations return None where the code panics. The mutexes only serialise the
  operations and have no counterpart here.
\<close>

section \<open>The in-memory provider\<close>

abbreviation QosAtMostOnce :: byte where "QosAtMostOnce \<equiv> 0"
abbreviation QosAtLeastOnce :: byte where "QosAtLeastOnce \<equiv> 1"
abbreviation QosExactlyOnce :: byte where "QosExactlyOnce \<equiv> 2"
abbreviation QosFailure :: byte where "QosFailure \<equiv> 0x80"

record memTopics =
  sroot :: "snode option"
  rroot :: "rnode option"

definition NewMemProvider :: memTopics where
  "NewMemProvider = \<lparr>sroot = Some newSNode, rroot = Some newRNode\<rparr>"

definition ValidQos :: "byte \<Rightarrow> bool" where
  "ValidQos q \<longleftrightarrow> q = QosAtMostOnce \<or> q = QosAtLeastOnce \<or> q = QosExactlyOnce"

text \<open>A tree method called on a nil node: it only gets as far as the first level's syntax.\<close>

definition nil_node :: "string \<Rightarrow> go_error option" where
  "nil_node topic =
     (if topic = [] then None
      else case nextTopicLevel topic of Inl err \<Rightarrow> Some err | Inr _ \<Rightarrow> None)"

definition invalid_qos :: "byte \<Rightarrow> go_error" where
  "invalid_qos q = Errorf (''Invalid QoS '' @ go_itoa (unat q))"

definition memTopics_Subscribe ::
  "memTopics \<Rightarrow> string \<Rightarrow> byte \<Rightarrow> iface option \<Rightarrow> (memTopics \<times> byte \<times> go_error option) option" where
  "memTopics_Subscribe this topic q sub =
     (if \<not> ValidQos q then Some (this, QosFailure, Some (invalid_qos q))
      else case sub of
        None \<Rightarrow> Some (this, QosFailure, Some (Errorf ''Subscriber cannot be nil''))
      | Some s \<Rightarrow>
          (let q' = (if q > QosExactlyOnce then QosExactlyOnce else q) in
           case sroot this of
             None \<Rightarrow> map_option (\<lambda>err. (this, QosFailure, Some err)) (nil_node topic)
           | Some tree \<Rightarrow>
               (case sinsert tree topic q' s of (tree', err) \<Rightarrow>
                  let this' = this\<lparr>sroot := Some tree'\<rparr> in
                  if err \<noteq> None then Some (this', QosFailure, err) else Some (this', q', None))))"

definition memTopics_Unsubscribe ::
  "memTopics \<Rightarrow> string \<Rightarrow> iface option \<Rightarrow> (memTopics \<times> go_error option) option" where
  "memTopics_Unsubscribe this topic sub =
     (case sroot this of
        None \<Rightarrow> map_option (\<lambda>err. (this, Some err)) (nil_node topic)
      | Some tree \<Rightarrow>
          (case sremove tree topic sub of (tree', err) \<Rightarrow> Some (this\<lparr>sroot := Some tree'\<rparr>, err)))"

text \<open>
  The caller's slices are emptied before the search, but only after the QoS check; the result is
  what they hold afterwards.
\<close>

definition memTopics_Subscribers ::
  "memTopics \<Rightarrow> string \<Rightarrow> byte \<Rightarrow> iface list \<times> bytes \<Rightarrow> ((iface list \<times> bytes) \<times> go_error option) option" where
  "memTopics_Subscribers this topic q acc =
     (if \<not> ValidQos q then Some (acc, Some (invalid_qos q))
      else case sroot this of
        None \<Rightarrow> map_option (\<lambda>err. (([], []), Some err)) (nil_node topic)
      | Some tree \<Rightarrow> Some (smatch tree topic q ([], [])))"

definition memTopics_Retain ::
  "memTopics \<Rightarrow> PublishPacket \<Rightarrow> (memTopics \<times> go_error option) option" where
  "memTopics_Retain this msg =
     (case rroot this of
        None \<Rightarrow> map_option (\<lambda>err. (this, Some err)) (nil_node (TopicName msg))
      | Some tree \<Rightarrow>
          (case (if Payload msg = [] then rremove tree (TopicName msg)
                 else rinsertOrUpdate tree (TopicName msg) msg) of (tree', err) \<Rightarrow>
             Some (this\<lparr>rroot := Some tree'\<rparr>, err)))"

definition memTopics_Retained ::
  "memTopics \<Rightarrow> string \<Rightarrow> PublishPacket list \<Rightarrow> (PublishPacket list \<times> go_error option) option" where
  "memTopics_Retained this topic msgs =
     (case rroot this of
        None \<Rightarrow> map_option (\<lambda>err. (msgs, Some err)) (nil_node topic)
      | Some tree \<Rightarrow> Some (rmatch tree topic msgs))"

definition memTopics_Close :: "memTopics \<Rightarrow> memTopics \<times> go_error option" where
  "memTopics_Close this = (this\<lparr>sroot := None, rroot := None\<rparr>, None)"

section \<open>Providers and the manager\<close>

text \<open>
  The package variable \<open>providers\<close> maps names to providers. Registering nil or a name twice panics.
\<close>

definition topics_Register ::
  "string \<Rightarrow> 'p option \<Rightarrow> (string, 'p) gomap \<Rightarrow> (string, 'p) gomap option" where
  "topics_Register name provider providers =
     (case provider of
        None \<Rightarrow> None
      | Some p \<Rightarrow>
          (case gm_get providers name of
             Some _ \<Rightarrow> None
           | None \<Rightarrow> Some (gm_put name p providers)))"

definition topics_Unregister :: "string \<Rightarrow> (string, 'p) gomap \<Rightarrow> (string, 'p) gomap" where
  "topics_Unregister name providers = gm_del name providers"

record 'p topics_Manager =
  topics_p :: 'p

definition topics_NewManager ::
  "string \<Rightarrow> (string, 'p) gomap \<Rightarrow> go_error + 'p topics_Manager" where
  "topics_NewManager providerName providers =
     (case gm_get providers providerName of
        None \<Rightarrow> Inl (Errorf (''session: unknown provider '' @ CHR 0x22 # providerName @ [CHR 0x22]))
      | Some p \<Rightarrow> Inr \<lparr>topics_p = p\<rparr>)"

text \<open>The manager of an in-memory provider forwards each call.\<close>

type_synonym Manager = "memTopics topics_Manager"

definition topics_Manager_Subscribe ::
  "Manager \<Rightarrow> string \<Rightarrow> byte \<Rightarrow> iface option \<Rightarrow> (Manager \<times> byte \<times> go_error option) option" where
  "topics_Manager_Subscribe this topic q sub =
     map_option (\<lambda>(p, r). (this\<lparr>topics_p := p\<rparr>, r)) (memTopics_Subscribe (topics_p this) topic q sub)"

definition topics_Manager_Unsubscribe ::
  "Manager \<Rightarrow> string \<Rightarrow> iface option \<Rightarrow> (Manager \<times> go_error option) option" where
  "topics_Manager_Unsubscribe this topic sub =
     map_option (\<lambda>(p, r). (this\<lparr>topics_p := p\<rparr>, r)) (memTopics_Unsubscribe (topics_p this) topic sub)"

definition topics_Manager_Subscribers ::
  "Manager \<Rightarrow> string \<Rightarrow> byte \<Rightarrow> iface list \<times> bytes \<Rightarrow> ((iface list \<times> bytes) \<times> go_error option) option" where
  "topics_Manager_Subscribers this topic q acc = memTopics_Subscribers (topics_p this) topic q acc"

definition topics_Manager_Retain ::
  "Manager \<Rightarrow> PublishPacket \<Rightarrow> (Manager \<times> go_error option) option" where
  "topics_Manager_Retain this msg =
     map_option (\<lambda>(p, r). (this\<lparr>topics_p := p\<rparr>, r)) (memTopics_Retain (topics_p this) msg)"

definition topics_Manager_Retained ::
  "Manager \<Rightarrow> string \<Rightarrow> PublishPacket list \<Rightarrow> (PublishPacket list \<times> go_error option) option" where
  "topics_Manager_Retained this topic msgs = memTopics_Retained (topics_p this) topic msgs"

definition topics_Manager_Close :: "Manager \<Rightarrow> Manager \<times> go_error option" where
  "topics_Manager_Close this = (this\<lparr>topics_p := fst (memTopics_Close (topics_p this))\<rparr>, None)"

section \<open>What a topics provider promises\<close>

text \<open>
  The interface the broker relies on, for subscribers held by pointer: \<open>entries\<close> is the set of
  (filter levels, subscriber) pairs in force. A client sees the effect of the operations only
  through it.
\<close>

locale topics_provider =
  fixes inv :: "'s \<Rightarrow> bool"
    and entries :: "'s \<Rightarrow> (string list \<times> nat) set"
    and subscribe :: "'s \<Rightarrow> string \<Rightarrow> byte \<Rightarrow> iface option \<Rightarrow> ('s \<times> byte \<times> go_error option) option"
    and unsubscribe :: "'s \<Rightarrow> string \<Rightarrow> iface option \<Rightarrow> ('s \<times> go_error option) option"
    and subscribers :: "'s \<Rightarrow> string \<Rightarrow> byte \<Rightarrow> iface list \<times> bytes \<Rightarrow>
      ((iface list \<times> bytes) \<times> go_error option) option"
  assumes finite_entries: "inv s \<Longrightarrow> finite (entries s)"
    and subscribe_ok: "inv s \<Longrightarrow> ValidQos q \<Longrightarrow> topic_levels t = Some ls \<Longrightarrow>
      \<exists>s'. subscribe s t q (Some (IfPtr a)) = Some (s', q, None) \<and> inv s' \<and>
        entries s' = insert (ls, a) (entries s)"
    and subscribe_err: "inv s \<Longrightarrow> \<not> ValidQos q \<or> topic_levels t = None \<Longrightarrow>
      \<exists>s' e. subscribe s t q (Some (IfPtr a)) = Some (s', QosFailure, Some e) \<and> inv s' \<and>
        entries s' = entries s"
    and unsubscribe_ok: "inv s \<Longrightarrow> topic_levels t = Some ls \<Longrightarrow> (ls, a) \<in> entries s \<Longrightarrow>
      \<exists>s'. unsubscribe s t (Some (IfPtr a)) = Some (s', None) \<and> inv s' \<and>
        entries s' = entries s - {(ls, a)}"
    and unsubscribe_err: "inv s \<Longrightarrow> \<forall>ls. topic_levels t = Some ls \<longrightarrow> (ls, a) \<notin> entries s \<Longrightarrow>
      \<exists>s' e. unsubscribe s t (Some (IfPtr a)) = Some (s', Some e) \<and> inv s' \<and> entries s' = entries s"
    and subscribers_ok: "inv s \<Longrightarrow> ValidQos q \<Longrightarrow> topic_levels t = Some ls \<Longrightarrow>
      \<exists>rs. subscribers s t q acc = Some ((rs, replicate (length rs) q), None) \<and>
        set rs \<subseteq> range IfPtr \<and>
        (\<forall>a. count (mset rs) (IfPtr a) = card {p. (p, a) \<in> entries s \<and> sub_match p ls})"    and subscribers_total: "inv s \<Longrightarrow>
      \<exists>rs qs err. subscribers s t q acc = Some ((rs, qs), err) \<and>
        (err = None \<longrightarrow> ValidQos q \<and> set rs \<subseteq> {IfPtr a | a. \<exists>p. (p, a) \<in> entries s})"
begin

text \<open>The abstract effect of one operation, failed ones included.\<close>

definition after_subscribe :: "(string list \<times> nat) set \<Rightarrow> string \<Rightarrow> byte \<Rightarrow> nat \<Rightarrow> (string list \<times> nat) set" where
  "after_subscribe E t q a =
     (case topic_levels t of Some ls \<Rightarrow> if ValidQos q then insert (ls, a) E else E | None \<Rightarrow> E)"

definition after_unsubscribe :: "(string list \<times> nat) set \<Rightarrow> string \<Rightarrow> nat \<Rightarrow> (string list \<times> nat) set" where
  "after_unsubscribe E t a = (case topic_levels t of Some ls \<Rightarrow> E - {(ls, a)} | None \<Rightarrow> E)"

lemma subscribe_total:
  assumes "inv s"
  shows "\<exists>s' r. subscribe s t q (Some (IfPtr a)) = Some (s', r) \<and> inv s' \<and>
    entries s' = after_subscribe (entries s) t q a"
proof (cases "topic_levels t")
  case None
  with subscribe_err [OF assms, of q t a] show ?thesis by (auto simp: after_subscribe_def)
next
  case (Some ls)
  with subscribe_err [OF assms, of q t a] subscribe_ok [OF assms _ Some, of q a] show ?thesis
    by (cases "ValidQos q") (auto simp: after_subscribe_def)
qed

lemma unsubscribe_total:
  assumes "inv s"
  shows "\<exists>s' r. unsubscribe s t (Some (IfPtr a)) = Some (s', r) \<and> inv s' \<and>
    entries s' = after_unsubscribe (entries s) t a"
proof (cases "\<exists>ls. topic_levels t = Some ls \<and> (ls, a) \<in> entries s")
  case True
  with unsubscribe_ok [OF assms] show ?thesis by (fastforce simp: after_unsubscribe_def)
next
  case False
  with unsubscribe_err [OF assms, of t a] show ?thesis
    by (cases "topic_levels t") (auto simp: after_unsubscribe_def)
qed

lemma subscribers_set:
  assumes "inv s" "ValidQos q" "topic_levels t = Some ls"
  shows "\<exists>rs. subscribers s t q acc = Some ((rs, replicate (length rs) q), None) \<and>
    set rs = {IfPtr a | a. \<exists>p. (p, a) \<in> entries s \<and> sub_match p ls}"
proof -
  obtain rs where rs: "subscribers s t q acc = Some ((rs, replicate (length rs) q), None)"
    "set rs \<subseteq> range IfPtr"
    "\<And>a. count (mset rs) (IfPtr a) = card {p. (p, a) \<in> entries s \<and> sub_match p ls}"
    using subscribers_ok [OF assms, of acc] by auto
  have fin: "finite {p. (p, a) \<in> entries s \<and> sub_match p ls}" for a
    by (rule finite_subset [OF _ finite_imageI [OF finite_entries [OF assms(1)], of fst]]) force
  have "IfPtr a \<in> set rs \<longleftrightarrow> (\<exists>p. (p, a) \<in> entries s \<and> sub_match p ls)" for a
  proof -
    have "IfPtr a \<in> set rs \<longleftrightarrow> count (mset rs) (IfPtr a) \<noteq> 0"
      by (metis count_eq_zero_iff set_mset_mset)
    also have "\<dots> \<longleftrightarrow> {p. (p, a) \<in> entries s \<and> sub_match p ls} \<noteq> {}"
      using fin by (simp add: rs(3) card_eq_0_iff)
    finally show ?thesis by blast
  qed
  then have "set rs = {IfPtr a | a. \<exists>p. (p, a) \<in> entries s \<and> sub_match p ls}"
    using rs(2) by auto
  with rs(1) show ?thesis by auto
qed

lemma subscribe_delivers:
  assumes "inv s" "ValidQos q" "ValidQos q'" "topic_levels f = Some fs" "topic_levels t = Some ts" "sub_match fs ts"
  shows "\<exists>s' rs. subscribe s f q (Some (IfPtr a)) = Some (s', q, None) \<and>
    subscribers s' t q' acc = Some ((rs, replicate (length rs) q'), None) \<and> IfPtr a \<in> set rs"
proof -
  obtain s' where s': "subscribe s f q (Some (IfPtr a)) = Some (s', q, None)" "inv s'"
    "entries s' = insert (fs, a) (entries s)"
    using subscribe_ok [OF assms(1,2,4)] by blast
  with subscribers_set [OF s'(2) assms(3,5), of acc] assms(6) show ?thesis by blast
qed

lemma unsubscribe_silences:
  assumes "inv s" "ValidQos q" "topic_levels f = Some fs" "topic_levels t = Some ts" "(fs, a) \<in> entries s"
    "\<And>p. (p, a) \<in> entries s \<Longrightarrow> sub_match p ts \<Longrightarrow> p = fs"
  shows "\<exists>s' rs. unsubscribe s f (Some (IfPtr a)) = Some (s', None) \<and>
    subscribers s' t q acc = Some ((rs, replicate (length rs) q), None) \<and> IfPtr a \<notin> set rs"
proof -
  obtain s' where s': "unsubscribe s f (Some (IfPtr a)) = Some (s', None)" "inv s'"
    "entries s' = entries s - {(fs, a)}"
    using unsubscribe_ok [OF assms(1,3,5)] by blast
  with subscribers_set [OF s'(2) assms(2,4), of acc] assms(6) show ?thesis by blast
qed

end

section \<open>The in-memory provider keeps the promise\<close>

text \<open>Subscribers are pointers, each at most once per node.\<close>

definition skeys :: "snode \<Rightarrow> string list \<Rightarrow> iface set" where
  "skeys n p = fst ` set (slookup n p)"

definition tree_ok :: "snode \<Rightarrow> bool" where
  "tree_ok n \<longleftrightarrow> snode_wf n \<and> (\<forall>p. distinct (map fst (slookup n p)) \<and> skeys n p \<subseteq> range IfPtr)"

definition mt_inv :: "memTopics \<Rightarrow> bool" where
  "mt_inv s \<longleftrightarrow> (\<exists>tree. sroot s = Some tree \<and> tree_ok tree)"

definition tree_entries :: "snode \<Rightarrow> (string list \<times> nat) set" where
  "tree_entries n = {(p, a). IfPtr a \<in> skeys n p}"

definition mt_entries :: "memTopics \<Rightarrow> (string list \<times> nat) set" where
  "mt_entries s = (case sroot s of None \<Rightarrow> {} | Some tree \<Rightarrow> tree_entries tree)"

lemma equal_ptr: "equal s (IfPtr a) \<longleftrightarrow> s = IfPtr a"
  by (cases s) auto

lemma entries_put_fst:
  "fst ` set (entries_put es (IfPtr a) q) = insert (IfPtr a) (fst ` set es)"
proof (induction es)
  case (Cons e es)
  then show ?case by (cases e) (simp add: equal_ptr insert_commute)
qed simp

lemma entries_put_distinct:
  "distinct (map fst es) \<Longrightarrow> distinct (map fst (entries_put es (IfPtr a) q))"
proof (induction es)
  case (Cons e es)
  then show ?case by (cases e; cases "fst e = IfPtr a") (simp_all add: equal_ptr entries_put_fst)
qed simp

lemma entries_del_fst:
  "distinct (map fst es) \<Longrightarrow> fst ` set (entries_del es (IfPtr a)) = fst ` set es - {IfPtr a}"
proof (induction es)
  case (Cons e es)
  then show ?case
    by (cases e; cases "fst e = IfPtr a") (simp_all add: equal_ptr insert_Diff_if)
qed simp

lemma entries_del_distinct:
  "distinct (map fst es) \<Longrightarrow> distinct (map fst (entries_del es (IfPtr a)))"
proof (induction es)
  case (Cons e es)
  then show ?case by (cases e; cases "fst e = IfPtr a") (simp_all add: equal_ptr entries_del_fst)
qed simp

lemma tree_ok_sinsert:
  assumes "tree_ok n" "topic_levels t = Some ls" "sinsert n t q (IfPtr a) = (n', err)"
  shows "err = None \<and> tree_ok n' \<and> tree_entries n' = insert (ls, a) (tree_entries n)"
proof -
  have wf: "snode_wf n" using assms(1) by (simp add: tree_ok_def)
  note l = sinsert_lookup [OF wf assms(2,3)]
  have k: "skeys n' p = (if p = ls then insert (IfPtr a) (skeys n p) else skeys n p)" for p
    using l [of p] by (simp add: skeys_def entries_put_fst)
  have "distinct (map fst (slookup n' p))" for p
    using assms(1) l [of p] by (simp add: tree_ok_def entries_put_distinct)
  with k have "tree_ok n'"
    using assms(1) sinsert_wf [OF wf assms(3)] by (simp add: tree_ok_def)
  moreover have "tree_entries n' = insert (ls, a) (tree_entries n)"
    by (auto simp: tree_entries_def k split: if_splits)
  ultimately show ?thesis using l by blast
qed

lemma tree_ok_sremove:
  assumes "tree_ok n" "topic_levels t = Some ls" "sremove n t (Some (IfPtr a)) = (n', None)"
  shows "tree_ok n' \<and> tree_entries n' = tree_entries n - {(ls, a)}"
proof -
  have wf: "snode_wf n" using assms(1) by (simp add: tree_ok_def)
  note l = sremove_lookup [OF wf assms(2,3)]
  have d: "distinct (map fst (slookup n p))" for p using assms(1) by (simp add: tree_ok_def)
  have k: "skeys n' p = (if p = ls then skeys n p - {IfPtr a} else skeys n p)" for p
    using l [of p] d by (simp add: skeys_def entries_remove_def entries_del_fst)
  have "distinct (map fst (slookup n' p))" for p
    using d l [of p] by (simp add: entries_remove_def entries_del_distinct)
  moreover have "skeys n p \<subseteq> range IfPtr" for p using assms(1) by (simp add: tree_ok_def)
  ultimately have "tree_ok n'"
    using sremove_wf [OF wf assms(3)] by (auto simp: tree_ok_def k split: if_splits)
  moreover have "tree_entries n' = tree_entries n - {(ls, a)}"
    by (auto simp: tree_entries_def k split: if_splits)
  ultimately show ?thesis by blast
qed

lemma removable_ptr: "removable (slookup n p) (Some (IfPtr a)) \<longleftrightarrow> (p, a) \<in> tree_entries n"
  by (simp add: removable_def equal_ptr tree_entries_def skeys_def image_iff) metis

lemma same_lookups:
  assumes "tree_ok n" "snode_wf n'" "\<And>p. slookup n' p = slookup n p"
  shows "tree_ok n' \<and> tree_entries n' = tree_entries n"
  using assms by (simp add: tree_ok_def tree_entries_def skeys_def)

text \<open>Counting deliveries: one entry of the flattened tree per subscription in force.\<close>

abbreviation flat_keys :: "(string list \<times> iface \<times> byte) list \<Rightarrow> (string list \<times> iface) list" where
  "flat_keys es \<equiv> map (\<lambda>(p, s, q). (p, s)) es"

lemma flat_keys_path:
  "flat_keys (map (\<lambda>(p, e). (k # p, e)) es) = map (\<lambda>(p, s). (k # p, s)) (flat_keys es)"
  by (induction es) auto

lemma flat_keys_kids:
  assumes "x \<in> set (flat_keys (sflat_kids kids))"
  shows "fst x \<noteq> [] \<and> hd (fst x) \<in> fst ` set kids"
proof -
  have "(p, e) \<in> set (sflat_kids kids) \<Longrightarrow> p \<noteq> [] \<and> hd p \<in> fst ` set kids" for p e
    by (induction kids) auto
  with assms show ?thesis by auto
qed

lemma flat_keys_root: "flat_keys (map (Pair []) (zip ss qs)) = map (Pair []) (map fst (zip ss qs))"
  by (induction ss qs rule: list_induct2') auto

lemma sflat_kids_distinct:
  assumes "gm_wf kids" "\<And>l m. (l, m) \<in> set kids \<Longrightarrow> distinct (flat_keys (sflat m))"
  shows "distinct (flat_keys (sflat_kids kids))"
  using assms
proof (induction kids)
  case (Cons km ks)
  obtain k m where km: "km = (k, m)" by (cases km)
  let ?m = "map (\<lambda>(p, s). (k # p, s)) (flat_keys (sflat m))"
  have "distinct (flat_keys (sflat m))" by (rule Cons.prems(2) [of k]) (simp add: km)
  then have m: "distinct ?m" by (subst distinct_map) (auto intro: inj_onI)
  have ks: "distinct (flat_keys (sflat_kids ks))"
    using Cons.prems km by (intro Cons.IH) auto
  have disj: "x \<notin> set (flat_keys (sflat_kids ks))" if "x \<in> set ?m" for x
  proof
    assume "x \<in> set (flat_keys (sflat_kids ks))"
    then have "hd (fst x) \<in> fst ` set ks" using flat_keys_kids by blast
    moreover have "hd (fst x) = k" using that by auto
    ultimately show False using Cons.prems(1) km by simp
  qed
  have "flat_keys (sflat_kids (km # ks)) = ?m @ flat_keys (sflat_kids ks)"
    by (simp only: km sflat_kids.simps map_append flat_keys_path)
  then show ?case using m ks disj by (simp only: distinct_append) blast
qed simp

lemma sflat_distinct:
  assumes "snode_wf n" "\<And>p. distinct (map fst (slookup n p))"
  shows "distinct (flat_keys (sflat n))"
  using assms
proof (induction n)
  case (SNode ss qs kids)
  have wf: "gm_wf kids" using SNode.prems(1) by (simp_all add: snode_wf.simps)
  have "distinct (flat_keys (sflat m))" if m: "(l, m) \<in> set kids" for l m
  proof (rule SNode.IH [OF m])
    have g: "gm_get kids l = Some m" by (rule map_of_is_SomeI [OF wf m])
    show "snode_wf m" using snode_wf_child [OF SNode.prems(1)] g by simp
    show "distinct (map fst (slookup m p))" for p using SNode.prems(2) [of "l # p"] g by simp
  qed auto
  then have kids: "distinct (flat_keys (sflat_kids kids))" by (rule sflat_kids_distinct [OF wf])
  have here: "distinct (map (Pair ([] :: string list)) (map fst (zip ss qs)))"
    using SNode.prems(2) [of "[]"] by (subst distinct_map) (auto intro: inj_onI)
  have "flat_keys (sflat (SNode ss qs kids)) = map (Pair []) (map fst (zip ss qs)) @ flat_keys (sflat_kids kids)"
    by (simp only: sflat.simps map_append flat_keys_root)
  moreover have "x \<notin> set (flat_keys (sflat_kids kids))" if "x \<in> set (map (Pair []) (map fst (zip ss qs)))" for x
  proof
    assume "x \<in> set (flat_keys (sflat_kids kids))"
    then have "fst x \<noteq> []" using flat_keys_kids by blast
    with that show False by auto
  qed
  ultimately show ?case using here kids by (simp only: distinct_append) blast
qed

lemma count_hits:
  "count (mset (hits P es)) s = length (filter (\<lambda>(p, s'). P p \<and> s' = s) (flat_keys es))"
  by (induction es) (auto simp: hits_def)

lemma tree_entries_finite:
  assumes "tree_ok n"
  shows "finite (tree_entries n)"
proof -
  have wf: "snode_wf n" using assms by (simp add: tree_ok_def)
  have "tree_entries n \<subseteq> (\<lambda>(p, s). (p, case s of IfPtr a \<Rightarrow> a | _ \<Rightarrow> 0)) ` set (flat_keys (sflat n))"
  proof
    fix x assume "x \<in> tree_entries n"
    then obtain p a q where x: "x = (p, a)" "(IfPtr a, q) \<in> set (slookup n p)"
      by (auto simp: tree_entries_def skeys_def)
    then have "(p, IfPtr a, q) \<in> set (sflat n)" using sflat_slookup [OF wf] by blast
    then have "(p, IfPtr a) \<in> set (flat_keys (sflat n))" by force
    then show "x \<in> (\<lambda>(p, s). (p, case s of IfPtr a \<Rightarrow> a | _ \<Rightarrow> 0)) ` set (flat_keys (sflat n))"
      unfolding x(1) by (rule rev_image_eqI) simp
  qed
  then show ?thesis by (rule finite_subset) simp
qed

lemma hits_count_entries:
  assumes "tree_ok n"
  shows "count (mset (hits P (sflat n))) (IfPtr a) = card {p. (p, a) \<in> tree_entries n \<and> P p}"
proof -
  have wf: "snode_wf n" using assms by (simp add: tree_ok_def)
  let ?F = "filter (\<lambda>(p, s'). P p \<and> s' = IfPtr a) (flat_keys (sflat n))"
  have d: "distinct (flat_keys (sflat n))"
    using assms by (intro sflat_distinct) (simp_all add: tree_ok_def)
  have mem: "(p, s) \<in> set (flat_keys (sflat n)) \<longleftrightarrow> s \<in> skeys n p" for p s
    using sflat_slookup [OF wf, of p] by (force simp: skeys_def)
  have "set ?F = (\<lambda>p. (p, IfPtr a)) ` {p. (p, a) \<in> tree_entries n \<and> P p}"
    using mem by (auto simp: tree_entries_def simp del: set_map)
  moreover have "length ?F = card (set ?F)" by (rule distinct_card [OF distinct_filter [OF d], symmetric])
  ultimately show ?thesis
    unfolding count_hits by (simp add: card_image inj_on_def)
qed

lemma mt_subscribe_ok:
  assumes "mt_inv s" "ValidQos q" "topic_levels t = Some ls"
  shows "\<exists>s'. memTopics_Subscribe s t q (Some (IfPtr a)) = Some (s', q, None) \<and> mt_inv s' \<and>
    mt_entries s' = insert (ls, a) (mt_entries s)"
proof -
  obtain n where n: "sroot s = Some n" "tree_ok n" using assms(1) by (auto simp: mt_inv_def)
  obtain n' err where i: "sinsert n t q (IfPtr a) = (n', err)" by fastforce
  have q: "(if q > QosExactlyOnce then QosExactlyOnce else q) = q" using assms(2) by (auto simp: ValidQos_def)
  show ?thesis
    using tree_ok_sinsert [OF n(2) assms(3) i] n assms(2) i q
    by (simp add: memTopics_Subscribe_def mt_inv_def mt_entries_def Let_def)
qed

lemma mt_subscribe_err:
  assumes "mt_inv s" "\<not> ValidQos q \<or> topic_levels t = None"
  shows "\<exists>s' e. memTopics_Subscribe s t q (Some (IfPtr a)) = Some (s', QosFailure, Some e) \<and> mt_inv s' \<and>
    mt_entries s' = mt_entries s"
proof (cases "ValidQos q")
  case False
  with assms(1) show ?thesis by (simp add: memTopics_Subscribe_def)
next
  case True
  obtain n where n: "sroot s = Some n" "tree_ok n" using assms(1) by (auto simp: mt_inv_def)
  define q' where "q' = (if q > QosExactlyOnce then QosExactlyOnce else q)"
  obtain n' err where i: "sinsert n t q' (IfPtr a) = (n', err)" by fastforce
  have t: "topic_levels t = None" using assms(2) True by simp
  have "tree_ok n' \<and> tree_entries n' = tree_entries n"
    using sinsert_invalid [OF t i] sinsert_wf [OF _ i] n(2)
    by (intro same_lookups) (auto simp: tree_ok_def)
  with sinsert_invalid [OF t i] n i True show ?thesis
    by (auto simp: memTopics_Subscribe_def mt_inv_def mt_entries_def Let_def simp flip: q'_def)
qed

lemma mt_unsubscribe_ok:
  assumes "mt_inv s" "topic_levels t = Some ls" "(ls, a) \<in> mt_entries s"
  shows "\<exists>s'. memTopics_Unsubscribe s t (Some (IfPtr a)) = Some (s', None) \<and> mt_inv s' \<and>
    mt_entries s' = mt_entries s - {(ls, a)}"
proof -
  obtain n where n: "sroot s = Some n" "tree_ok n" using assms(1) by (auto simp: mt_inv_def)
  have wf: "snode_wf n" and e: "(ls, a) \<in> tree_entries n"
    using n assms(3) by (simp_all add: tree_ok_def mt_entries_def)
  obtain n' err where r: "sremove n t (Some (IfPtr a)) = (n', err)" by fastforce
  have "slookup n ls \<noteq> []" using e by (auto simp: tree_entries_def skeys_def)
  with sremove_err [OF wf assms(2) r] e have "err = None" by (simp add: removable_ptr)
  with r tree_ok_sremove [OF n(2) assms(2)] n show ?thesis
    by (simp add: memTopics_Unsubscribe_def mt_inv_def mt_entries_def)
qed

lemma mt_unsubscribe_err:
  assumes "mt_inv s" "\<forall>ls. topic_levels t = Some ls \<longrightarrow> (ls, a) \<notin> mt_entries s"
  shows "\<exists>s' e. memTopics_Unsubscribe s t (Some (IfPtr a)) = Some (s', Some e) \<and> mt_inv s' \<and>
    mt_entries s' = mt_entries s"
proof -
  obtain n where n: "sroot s = Some n" "tree_ok n" using assms(1) by (auto simp: mt_inv_def)
  have wf: "snode_wf n" using n by (simp add: tree_ok_def)
  obtain n' err where r: "sremove n t (Some (IfPtr a)) = (n', err)" by fastforce
  have "err \<noteq> None"
    using sremove_ok [OF wf, of t "Some (IfPtr a)" n'] r assms(2) n by (auto simp: removable_ptr mt_entries_def)
  then obtain e where e: "err = Some e" by auto
  have "tree_ok n' \<and> tree_entries n' = tree_entries n"
    using sremove_fails [OF r [unfolded e]] sremove_wf [OF wf r] n(2) by (intro same_lookups) auto
  with r e n show ?thesis by (simp add: memTopics_Unsubscribe_def mt_inv_def mt_entries_def)
qed

lemma mt_subscribers_ok:
  assumes "mt_inv s" "ValidQos q" "topic_levels t = Some ls"
  shows "\<exists>rs. memTopics_Subscribers s t q acc = Some ((rs, replicate (length rs) q), None) \<and>
    set rs \<subseteq> range IfPtr \<and>
    (\<forall>a. count (mset rs) (IfPtr a) = card {p. (p, a) \<in> mt_entries s \<and> sub_match p ls})"
proof -
  obtain n where n: "sroot s = Some n" "tree_ok n" using assms(1) by (auto simp: mt_inv_def)
  have wf: "snode_wf n" using n by (simp add: tree_ok_def)
  obtain rs where rs: "smatch n t q ([], []) = ((rs, replicate (length rs) q), None)"
    "mset rs = mset (hits (\<lambda>p. sub_match p ls) (sflat n))"
    using smatch_sound(1) [OF wf assms(3), of q "([], [])"] by (auto simp: extends_def)
  have "set rs = set (hits (\<lambda>p. sub_match p ls) (sflat n))" using rs(2) by (metis set_mset_mset)
  also have "\<dots> \<subseteq> range IfPtr"
  proof
    fix s assume "s \<in> set (hits (\<lambda>p. sub_match p ls) (sflat n))"
    then obtain p q where "(p, s, q) \<in> set (sflat n)" by (auto simp: hits_def)
    then have "s \<in> skeys n p" using sflat_slookup [OF wf, of p] by (force simp: skeys_def)
    then show "s \<in> range IfPtr" using n(2) unfolding tree_ok_def by blast
  qed
  finally have "set rs \<subseteq> range IfPtr" .
  then show ?thesis
    using n rs assms(2) hits_count_entries [OF n(2)]
    by (simp add: memTopics_Subscribers_def mt_entries_def)
qed

lemma mt_subscribers_total:
  assumes "mt_inv s"
  shows "\<exists>rs qs err. memTopics_Subscribers s t q acc = Some ((rs, qs), err) \<and>
    (err = None \<longrightarrow> ValidQos q \<and> set rs \<subseteq> {IfPtr a | a. \<exists>p. (p, a) \<in> mt_entries s})"
proof -
  obtain n where n: "sroot s = Some n" "tree_ok n" using assms(1) by (auto simp: mt_inv_def)
  have wf: "snode_wf n" using n by (simp add: tree_ok_def)
  have "set (hits (\<lambda>_. True) (sflat n)) \<subseteq> {IfPtr a | a. \<exists>p. (p, a) \<in> tree_entries n}"
  proof
    fix x assume "x \<in> set (hits (\<lambda>_. True) (sflat n))"
    then obtain p q where "(p, x, q) \<in> set (sflat n)" by (auto simp: hits_def)
    then have "x \<in> skeys n p" using sflat_slookup [OF wf, of p] by (force simp: skeys_def)
    moreover from this obtain a where "x = IfPtr a" using n(2) unfolding tree_ok_def by blast
    ultimately show "x \<in> {IfPtr a | a. \<exists>p. (p, a) \<in> tree_entries n}" by (auto simp: tree_entries_def)
  qed
  with smatch_within(1) [OF wf, of t q "([], [])"]
  have "set (fst (fst (smatch n t q ([], [])))) \<subseteq> {IfPtr a | a. \<exists>p. (p, a) \<in> mt_entries s}"
    using n(1) by (simp add: mt_entries_def)
  with n(1) show ?thesis
    by (cases "smatch n t q ([], [])"; cases "ValidQos q") (auto simp: memTopics_Subscribers_def)
qed

lemma mt_entries_finite: "mt_inv s \<Longrightarrow> finite (mt_entries s)"
  by (auto simp: mt_inv_def mt_entries_def tree_entries_finite)

interpretation mem_provider: topics_provider mt_inv mt_entries memTopics_Subscribe
  memTopics_Unsubscribe memTopics_Subscribers
  by unfold_locales
    (fact mt_entries_finite mt_subscribe_ok mt_subscribe_err mt_unsubscribe_ok mt_unsubscribe_err
      mt_subscribers_ok mt_subscribers_total)+

lemma NewMemProvider_inv: "mt_inv NewMemProvider" "mt_entries NewMemProvider = {}"
  by (simp_all add: mt_inv_def NewMemProvider_def tree_ok_def skeys_def mt_entries_def tree_entries_def)

section \<open>Sequences of operations\<close>

datatype topics_op = OpSubscribe string byte nat | OpUnsubscribe string nat

text \<open>Run against the provider; None is a panic.\<close>

fun run_ops :: "topics_op list \<Rightarrow> memTopics \<Rightarrow> memTopics option" where
  "run_ops [] s = Some s"
| "run_ops (OpSubscribe t q a # ops) s =
     (case memTopics_Subscribe s t q (Some (IfPtr a)) of None \<Rightarrow> None | Some (s', r) \<Rightarrow> run_ops ops s')"
| "run_ops (OpUnsubscribe t a # ops) s =
     (case memTopics_Unsubscribe s t (Some (IfPtr a)) of None \<Rightarrow> None | Some (s', r) \<Rightarrow> run_ops ops s')"

text \<open>The abstract state is the set of subscriptions in force.\<close>

fun abs_op :: "topics_op \<Rightarrow> (string list \<times> nat) set \<Rightarrow> (string list \<times> nat) set" where
  "abs_op (OpSubscribe t q a) E =
     (case ref_levels t of Some ls \<Rightarrow> if ValidQos q then insert (ls, a) E else E | None \<Rightarrow> E)"
| "abs_op (OpUnsubscribe t a) E = (case ref_levels t of Some ls \<Rightarrow> E - {(ls, a)} | None \<Rightarrow> E)"

lemma run_ops_refine:
  "mt_inv s \<Longrightarrow> \<exists>s'. run_ops ops s = Some s' \<and> mt_inv s' \<and> mt_entries s' = fold abs_op ops (mt_entries s)"
proof (induction ops s rule: run_ops.induct)
  case (2 t q a ops s)
  obtain s' r where s': "memTopics_Subscribe s t q (Some (IfPtr a)) = Some (s', r)" "mt_inv s'"
    "mt_entries s' = abs_op (OpSubscribe t q a) (mt_entries s)"
    using mem_provider.subscribe_total [OF 2(2), of t q a]
    by (auto simp: mem_provider.after_subscribe_def topic_levels_ref)
  from 2(1) [OF s'(1) refl s'(2)] s' show ?case by simp
next
  case (3 t a ops s)
  obtain s' r where s': "memTopics_Unsubscribe s t (Some (IfPtr a)) = Some (s', r)" "mt_inv s'"
    "mt_entries s' = abs_op (OpUnsubscribe t a) (mt_entries s)"
    using mem_provider.unsubscribe_total [OF 3(2), of t a]
    by (auto simp: mem_provider.after_unsubscribe_def topic_levels_ref)
  from 3(1) [OF s'(1) refl s'(2)] s' show ?case by simp
qed simp

section \<open>Properties\<close>

text \<open>
  C1. The subscription store refines a set of subscriptions: after any sequence of Subscribe and
  Unsubscribe calls on a fresh provider (failed calls included, which change nothing) none of which
  panics, \<open>Subscribers\<close> for a well-formed topic reports no error and returns every subscriber exactly
  as many times as it has a subscription in force whose filter matches the topic, each with the QoS
  of the publication.
\<close>

theorem subscriptions_refine:
  assumes "ValidQos q" "ref_levels t = Some ls"
  shows "\<exists>s rs. run_ops ops NewMemProvider = Some s \<and>
    memTopics_Subscribers s t q acc = Some ((rs, replicate (length rs) q), None) \<and>
    set rs \<subseteq> range IfPtr \<and>
    (\<forall>a. count (mset rs) (IfPtr a) = card {p. (p, a) \<in> fold abs_op ops {} \<and> sub_match p ls})"
proof -
  obtain s where s: "run_ops ops NewMemProvider = Some s" "mt_inv s" "mt_entries s = fold abs_op ops {}"
    using run_ops_refine [OF NewMemProvider_inv(1), of ops] NewMemProvider_inv(2) by auto
  then show ?thesis
    using mem_provider.subscribers_ok [OF s(2) assms(1), of t ls acc] assms(2) by (simp add: topic_levels_ref)
qed

theorem subscriptions_refine_witness:
  "\<exists>s rs. run_ops [OpSubscribe ''a/+'' 1 7, OpSubscribe ''a/#'' 0 8, OpUnsubscribe ''a/#'' 8] NewMemProvider = Some s \<and>
    memTopics_Subscribers s ''a/b'' 1 ([], []) = Some ((rs, replicate (length rs) 1), None) \<and>
    IfPtr 7 \<in> set rs \<and> IfPtr 8 \<notin> set rs"
proof -
  let ?ops = "[OpSubscribe ''a/+'' 1 7, OpSubscribe ''a/#'' 0 8, OpUnsubscribe ''a/#'' 8]"
  have E: "fold abs_op ?ops {} = {([''a'', ''+''], 7)}"
    by (simp add: ref_levels_def level_ok_def ValidQos_def insert_Diff_if)
  obtain s rs where *: "run_ops ?ops NewMemProvider = Some s"
    "memTopics_Subscribers s ''a/b'' 1 ([], []) = Some ((rs, replicate (length rs) 1), None)"
    "\<forall>a. count (mset rs) (IfPtr a) = card {p. (p, a) \<in> {([''a'', ''+''], 7)} \<and> sub_match p [''a'', ''b'']}"
    using subscriptions_refine [of 1 "''a/b''" "[''a'', ''b'']" ?ops "([], [])"]
    unfolding E by (auto simp: ref_levels_def level_ok_def ValidQos_def)
  have "{p. p = [''a'', ''+''] \<and> sub_match p [''a'', ''b'']} = {[''a'', ''+'']}" by auto
  then have "count (mset rs) (IfPtr 7) = 1" "count (mset rs) (IfPtr 8) = 0" using *(3) by simp_all
  then have "IfPtr 7 \<in> set rs" "IfPtr 8 \<notin> set rs"
    by (metis count_eq_zero_iff set_mset_mset zero_neq_one, metis count_eq_zero_iff set_mset_mset)
  with *(1,2) show ?thesis by blast
qed

text \<open>
  Subscribing and unsubscribing are local, for every kind of subscriber value: both keep the
  tree well-formed; \<open>sinsert\<close> changes the entries at exactly the filter's path (replacing the QoS of an
  equal subscriber in place or appending a new one) and fails exactly on malformed filters;
  a failing \<open>sremove\<close> changes no entry at all, and a successful one removes the first equal subscriber
  (all subscribers for nil) at exactly the filter's path although it prunes emptied nodes.
\<close>

theorem subscription_update_local:
  assumes "snode_wf n" "sinsert n t q s = (n1, e1)" "sremove n t sub = (n2, e2)"
  shows "snode_wf n1 \<and> snode_wf n2 \<and>
    (case ref_levels t of
       Some ls \<Rightarrow>
         e1 = None \<and> slookup n1 p = (if p = ls then entries_put (slookup n ls) s q else slookup n p) \<and>
         slookup n2 p = (if e2 = None \<and> p = ls then entries_remove (slookup n ls) sub else slookup n p)
     | None \<Rightarrow> e1 \<noteq> None \<and> slookup n1 p = slookup n p \<and> e2 \<noteq> None \<and> slookup n2 p = slookup n p)"
proof -
  have wf: "snode_wf n1" "snode_wf n2"
    using sinsert_wf [OF assms(1,2)] sremove_wf [OF assms(1,3)] .
  show ?thesis
  proof (cases "ref_levels t")
    case None
    then have t: "topic_levels t = None" by (simp add: topic_levels_ref)
    have "e2 \<noteq> None" using sremove_ok [OF assms(1), of t sub n2] assms(3) t by (cases e2) auto
    with None wf sinsert_invalid [OF t assms(2), of p] sremove_fails [of n t sub n2 _ p] assms(3)
    show ?thesis by auto
  next
    case (Some ls)
    then have t: "topic_levels t = Some ls" by (simp add: topic_levels_ref)
    have "slookup n2 p = (if e2 = None \<and> p = ls then entries_remove (slookup n ls) sub else slookup n p)"
      using sremove_lookup [OF assms(1) t, of sub n2 p] sremove_fails [of n t sub n2 _ p] assms(3)
      by (cases e2) auto
    with Some wf sinsert_lookup [OF assms(1) t assms(2), of p] show ?thesis by simp
  qed
qed

theorem subscription_update_local_witness:
  "\<exists>n1 n2. sinsert newSNode ''a/b'' 1 (IfString ''x'') = (n1, None) \<and>
    sremove n1 ''a/b'' (Some (IfString ''x'')) = (n2, None) \<and>
    slookup n1 [''a'', ''b''] = [(IfString ''x'', 1)] \<and> slookup n2 [''a'', ''b''] = []"
proof -
  let ?s = "IfString ''x''"
  obtain n1 e1 where 1: "sinsert newSNode ''a/b'' 1 ?s = (n1, e1)" by fastforce
  obtain n2 e2 where 2: "sremove n1 ''a/b'' (Some ?s) = (n2, e2)" by fastforce
  obtain n3 e3 where 3: "sremove newSNode ''a/b'' (Some ?s) = (n3, e3)" by fastforce
  obtain n4 e4 where 4: "sinsert n1 ''a/b'' 1 ?s = (n4, e4)" by fastforce
  have r: "ref_levels ''a/b'' = Some [''a'', ''b'']" by (simp add: ref_levels_def level_ok_def)
  have l1: "snode_wf n1" "e1 = None" "slookup n1 [''a'', ''b''] = [(?s, 1)]"
    using subscription_update_local [OF newSNode_wf 1 3, of "[''a'', ''b'']"] 
    by (simp_all add: r del: slookup.simps slookup_child)
  have "e2 = None"
    by (rule sremove_err [OF l1(1) _ 2, of "[''a'', ''b'']"])
      (use l1(3) in \<open>simp_all add: r topic_levels_ref removable_def del: slookup.simps slookup_child\<close>)
  then have "slookup n2 [''a'', ''b''] = []"
    using subscription_update_local [OF l1(1) 4 2, of "[''a'', ''b'']"] l1(3)
    by (simp add: r entries_remove_def del: slookup.simps slookup_child)
  with 1 2 l1 \<open>e2 = None\<close> show ?thesis by blast
qed

text \<open>
  C34. Retained messages: storing a message under a well-formed topic makes it the message of exactly
  that path and keeps all others; and \<open>Retained\<close> for a well-formed filter then appends exactly the
  stored messages whose path matches the filter (\<open>#\<close> also matching the level it follows), once each.
\<close>

theorem retained_store_and_match:
  assumes "rroot s = Some n" "rnode_wf n" "Payload msg \<noteq> []"
    "ref_levels (TopicName msg) = Some ls" "ref_levels f = Some fs"
  shows "\<exists>s' n'. memTopics_Retain s msg = Some (s', None) \<and> rroot s' = Some n' \<and> rnode_wf n' \<and>
    (\<forall>p. rlookup n' p = (if p = ls then Some msg else rlookup n p)) \<and>
    memTopics_Retained s' f msgs = Some (msgs @ rhits (ret_match fs) (rflat n'), None) \<and>
    (\<forall>p m. (p, m) \<in> set (rflat n') \<longleftrightarrow> rlookup n' p = Some m)"
proof -
  obtain n' err where i: "rinsertOrUpdate n (TopicName msg) msg = (n', err)" by fastforce
  have l: "rnode_wf n'" "err = None" "rlookup n' p = (if p = ls then Some msg else rlookup n p)" for p
    using rinsert_lookup [OF assms(2) i, of p] assms(4) by (auto simp: topic_levels_ref)
  have m: "rmatch n' f msgs = (msgs @ rhits (ret_match fs) (rflat n'), None)"
    using rmatch_sound(1) [OF l(1), of f fs] assms(5) by (simp add: topic_levels_ref)
  show ?thesis
    using assms(1,3) i l m rflat_rlookup [OF l(1)]
    by (simp add: memTopics_Retain_def memTopics_Retained_def)
qed

definition retained_sample :: "string \<Rightarrow> bytes \<Rightarrow> PublishPacket" where
  "retained_sample t b = (new_PublishPacket (zeroHeader Publish 0))\<lparr>TopicName := t, Payload := b\<rparr>"

theorem retained_store_and_match_witness:
  "\<exists>s' n'. memTopics_Retain NewMemProvider (retained_sample ''a/b'' [1]) = Some (s', None) \<and>
    rroot s' = Some n' \<and> rlookup n' [''a'', ''b''] = Some (retained_sample ''a/b'' [1])"
proof -
  let ?m = "retained_sample ''a/b'' [1]"
  have pre: "rroot NewMemProvider = Some newRNode" "Payload ?m \<noteq> []"
    "ref_levels (TopicName ?m) = Some [''a'', ''b'']" "ref_levels ''a/#'' = Some [''a'', ''#'']"
    by (simp_all add: NewMemProvider_def ref_levels_def level_ok_def retained_sample_def)
  obtain s' n' where *: "memTopics_Retain NewMemProvider ?m = Some (s', None)" "rroot s' = Some n'"
    "\<forall>p. rlookup n' p = (if p = [''a'', ''b''] then Some ?m else rlookup newRNode p)"
    using retained_store_and_match [OF pre(1) newRNode_wf pre(2-4), of "[]"] by blast
  show ?thesis
    by (rule exI [of _ s'], rule exI [of _ n']) (use * in \<open>simp del: rlookup.simps\<close>)
qed

text \<open>
  Clearing a retained message (an empty payload): when it succeeds the topic has no message any
  more and every message whose path is not a prefix of the topic's path is kept; when it fails no
  message is lost.
\<close>

theorem retained_clear:
  assumes "rroot s = Some n" "rnode_wf n" "Payload msg = []" "ref_levels (TopicName msg) = Some ls"
    "memTopics_Retain s msg = Some (s', err)"
  shows "\<exists>n'. rroot s' = Some n' \<and> rnode_wf n' \<and>
    (err = None \<longrightarrow> rlookup n' ls = None) \<and> (\<forall>p. err \<noteq> None \<or> (\<nexists>r. ls = p @ r) \<longrightarrow> rlookup n' p = rlookup n p)"
proof -
  obtain n' e where r: "rremove n (TopicName msg) = (n', e)" by fastforce
  with assms have s': "rroot s' = Some n'" "e = err" by (auto simp: memTopics_Retain_def)
  show ?thesis
  proof (cases err)
    case None
    with r s' rremove_lookup [of "TopicName msg" ls n n'] rremove_wf [OF assms(2) r] assms(4) show ?thesis
      by (auto simp: topic_levels_ref)
  next
    case (Some x)
    with r s' rremove_fails [of n "TopicName msg" n' x] rremove_wf [OF assms(2) r] show ?thesis by auto
  qed
qed

theorem retained_clear_witness:
  "\<exists>s1 s2 n. memTopics_Retain NewMemProvider (retained_sample ''a'' [1]) = Some (s1, None) \<and>
     memTopics_Retain s1 (retained_sample ''a'' []) = Some (s2, None) \<and>
     rroot s2 = Some n \<and> rlookup n [''a''] = None"
proof -
  let ?n = "RNode None [(''a'', RNode (Some (retained_sample ''a'' [1])) [])]"
  let ?s = "NewMemProvider\<lparr>rroot := Some ?n\<rparr>"
  have 1: "memTopics_Retain NewMemProvider (retained_sample ''a'' [1]) = Some (?s, None)"
    by (simp add: memTopics_Retain_def NewMemProvider_def retained_sample_def new_PublishPacket_def
        newRNode_def nextTopicLevel_def rinsertOrUpdate.simps)
  have 2: "memTopics_Retain ?s (retained_sample ''a'' []) = Some (?s\<lparr>rroot := Some (RNode None [])\<rparr>, None)"
    by (simp add: memTopics_Retain_def retained_sample_def nextTopicLevel_def rremove.simps)
  have "\<exists>n. rroot (?s\<lparr>rroot := Some (RNode None [])\<rparr>) = Some n \<and> rlookup n [''a''] = None"
    using retained_clear [OF _ _ _ _ 2, of ?n "[''a'']"]
    by (simp add: rnode_wf.simps retained_sample_def ref_levels_def level_ok_def)
  with 1 2 show ?thesis by blast
qed

text \<open>
  What the pruning in \<open>rremove\<close> loses: after retaining a message on \<open>a\<close> and one on \<open>a/b\<close>, clearing
  \<open>a/b\<close> succeeds and also drops the retained message of \<open>a\<close>, which nobody cleared.
\<close>

theorem retained_parent_lost:
  "\<exists>s1 s2 s3. memTopics_Retain NewMemProvider (retained_sample ''a'' [1]) = Some (s1, None) \<and>
     memTopics_Retain s1 (retained_sample ''a/b'' [2]) = Some (s2, None) \<and>
     memTopics_Retained s2 ''a'' [] = Some ([retained_sample ''a'' [1]], None) \<and>
     memTopics_Retain s2 (retained_sample ''a/b'' []) = Some (s3, None) \<and>
     memTopics_Retained s3 ''a'' [] = Some ([], None)"
  by (simp add: memTopics_Retain_def memTopics_Retained_def NewMemProvider_def retained_sample_def
      new_PublishPacket_def zeroHeader_def newRNode_def nextTopicLevel_def
      rinsertOrUpdate.simps rremove.simps rmatch.simps)

end
