(* ===== verification/Sessions.thy ===== *)
theory Sessions
  imports Packets
begin

text \<open>
  Client sessions: \<open>src/broker/lib/sessions/\<close> (the session object, the in-memory provider, the
  provider registry and manager) and \<open>getSession\<close> of \<open>src/broker/sesson.go\<close>.

  Sessions are shared by pointer between the provider's map and the connected client, so they live
  in a heap: a map from addresses to sessions with a counter for the next address. The random bytes
  a generated session id is made of are an argument.
\<close>

section \<open>The session object\<close>

record Session =
  cmsg :: "ConnectPacket option"
  Will :: "PublishPacket option"
  Retained :: "PublishPacket option"
  topics :: "(string, byte) gomap"
  initted :: bool
  sid :: string

text \<open>\<open>&Session{id: id}\<close>.\<close>

definition newSession :: "string \<Rightarrow> Session" where
  "newSession i = \<lparr>cmsg = None, Will = None, Retained = None, topics = [], initted = False, sid = i\<rparr>"

definition not_initialized :: go_error where
  "not_initialized = Errorf ''Session not yet initialized''"

definition Session_Init :: "Session \<Rightarrow> ConnectPacket \<Rightarrow> Session \<times> go_error option" where
  "Session_Init this msg =
     (if initted this then (this, Some (Errorf ''Session already initialized''))
      else
        let this1 = this\<lparr>cmsg := Some msg\<rparr>;
            this2 = (if WillFlag msg
                     then this1\<lparr>Will := Some ((new_PublishPacket (zeroHeader Publish 0))
                            \<lparr>Qos := Qos msg, TopicName := WillTopic msg, Payload := WillMessage msg,
                             Retain := WillRetain msg\<rparr>)\<rparr>
                     else this1)
        in (this2\<lparr>topics := [], sid := ClientIdentifier msg, initted := True\<rparr>, None))"

definition Session_Update :: "Session \<Rightarrow> ConnectPacket \<Rightarrow> Session \<times> go_error option" where
  "Session_Update this msg = (this\<lparr>cmsg := Some msg\<rparr>, None)"

definition Session_RetainMessage :: "Session \<Rightarrow> PublishPacket \<Rightarrow> Session \<times> go_error option" where
  "Session_RetainMessage this msg = (this\<lparr>Retained := Some msg\<rparr>, None)"

definition Session_AddTopic :: "Session \<Rightarrow> string \<Rightarrow> byte \<Rightarrow> Session \<times> go_error option" where
  "Session_AddTopic this topic q =
     (if \<not> initted this then (this, Some not_initialized)
      else (this\<lparr>topics := gm_put topic q (topics this)\<rparr>, None))"

definition Session_RemoveTopic :: "Session \<Rightarrow> string \<Rightarrow> Session \<times> go_error option" where
  "Session_RemoveTopic this topic =
     (if \<not> initted this then (this, Some not_initialized)
      else (this\<lparr>topics := gm_del topic (topics this)\<rparr>, None))"

definition Session_Topics :: "Session \<Rightarrow> string list \<times> bytes \<times> go_error option" where
  "Session_Topics this =
     (if \<not> initted this then ([], [], Some not_initialized)
      else (map fst (topics this), map snd (topics this), None))"

text \<open>The accessors of the CONNECT message panic on a session that never got one.\<close>

definition Session_ID :: "Session \<Rightarrow> string option" where
  "Session_ID this = map_option ClientIdentifier (cmsg this)"

definition Session_WillFlag :: "Session \<Rightarrow> bool option" where
  "Session_WillFlag this = map_option WillFlag (cmsg this)"

definition Session_SetWillFlag :: "Session \<Rightarrow> bool \<Rightarrow> Session option" where
  "Session_SetWillFlag this v =
     map_option (\<lambda>m. this\<lparr>cmsg := Some (m\<lparr>WillFlag := v\<rparr>)\<rparr>) (cmsg this)"

definition Session_CleanSession :: "Session \<Rightarrow> bool option" where
  "Session_CleanSession this = map_option CleanSession (cmsg this)"

section \<open>The in-memory provider\<close>

type_synonym session_ptr = nat

record memProvider =
  st :: "(string, session_ptr) gomap"
  sess_heap :: "(session_ptr, Session) gomap"
  sess_next :: session_ptr

definition sessions_NewMemProvider :: memProvider where
  "sessions_NewMemProvider = \<lparr>st = [], sess_heap = [], sess_next = 0\<rparr>"

definition memProvider_New :: "memProvider \<Rightarrow> string \<Rightarrow> memProvider \<times> session_ptr \<times> go_error option" where
  "memProvider_New this i =
     (let a = sess_next this in
      (this\<lparr>st := gm_put i a (st this), sess_heap := gm_put a (newSession i) (sess_heap this),
            sess_next := Suc a\<rparr>, a, None))"

definition memProvider_Get :: "memProvider \<Rightarrow> string \<Rightarrow> session_ptr option \<times> go_error option" where
  "memProvider_Get this i =
     (case gm_get (st this) i of
        None \<Rightarrow> (None, Some (Errorf (''store/Get: No session found for key '' @ i)))
      | Some a \<Rightarrow> (Some a, None))"

definition memProvider_Del :: "memProvider \<Rightarrow> string \<Rightarrow> memProvider" where
  "memProvider_Del this i = this\<lparr>st := gm_del i (st this)\<rparr>"

definition memProvider_Save :: "memProvider \<Rightarrow> string \<Rightarrow> go_error option" where
  "memProvider_Save this i = None"

definition memProvider_Count :: "memProvider \<Rightarrow> nat" where
  "memProvider_Count this = length (st this)"

definition memProvider_Close :: "memProvider \<Rightarrow> memProvider \<times> go_error option" where
  "memProvider_Close this = (this\<lparr>st := []\<rparr>, None)"

section \<open>Registry and manager\<close>

definition sessions_Register ::
  "string \<Rightarrow> 'p option \<Rightarrow> (string, 'p) gomap \<Rightarrow> (string, 'p) gomap option" where
  "sessions_Register name provider providers =
     (case provider of
        None \<Rightarrow> None
      | Some p \<Rightarrow>
          (case gm_get providers name of
             Some _ \<Rightarrow> None
           | None \<Rightarrow> Some (gm_put name p providers)))"

definition sessions_Unregister :: "string \<Rightarrow> (string, 'p) gomap \<Rightarrow> (string, 'p) gomap" where
  "sessions_Unregister name providers = gm_del name providers"

record 'p sessions_Manager =
  sessions_p :: 'p

definition sessions_NewManager ::
  "string \<Rightarrow> (string, 'p) gomap \<Rightarrow> go_error + 'p sessions_Manager" where
  "sessions_NewManager providerName providers =
     (case gm_get providers providerName of
        None \<Rightarrow> Inl (Errorf (''session: unknown provider '' @ CHR 0x22 # providerName @ [CHR 0x22]))
      | Some p \<Rightarrow> Inr \<lparr>sessions_p = p\<rparr>)"

text \<open>\<open>base64.URLEncoding.EncodeToString\<close>.\<close>

definition b64_alphabet :: string where
  "b64_alphabet = ''ABCDEFGHIJKLMNOPQRSTUVWXYZabcdefghijklmnopqrstuvwxyz0123456789-_''"

definition b64_char :: "nat \<Rightarrow> char" where
  "b64_char n = b64_alphabet ! (n mod 64)"

fun b64_encode :: "bytes \<Rightarrow> string" where
  "b64_encode [] = []"
| "b64_encode [a] = [b64_char (unat a div 4), b64_char (unat a mod 4 * 16), CHR ''='', CHR ''='']"
| "b64_encode [a, b] =
     [b64_char (unat a div 4), b64_char (unat a mod 4 * 16 + unat b div 16),
      b64_char (unat b mod 16 * 4), CHR ''='']"
| "b64_encode (a # b # c # bs) =
     b64_char (unat a div 4) # b64_char (unat a mod 4 * 16 + unat b div 16) #
     b64_char (unat b mod 16 * 4 + unat c div 64) # b64_char (unat c mod 64) # b64_encode bs"

text \<open>\<open>rnd\<close>: the fifteen bytes read from the random source, or None when reading them failed.\<close>

definition sessionId :: "bytes option \<Rightarrow> string" where
  "sessionId rnd = (case rnd of None \<Rightarrow> [] | Some b \<Rightarrow> b64_encode b)"

type_synonym SessionManager = "memProvider sessions_Manager"

definition sessions_Manager_New ::
  "SessionManager \<Rightarrow> bytes option \<Rightarrow> string \<Rightarrow> SessionManager \<times> session_ptr \<times> go_error option" where
  "sessions_Manager_New this rnd i =
     (let i' = (if i = [] then sessionId rnd else i) in
      case memProvider_New (sessions_p this) i' of (p, r) \<Rightarrow> (this\<lparr>sessions_p := p\<rparr>, r))"

definition sessions_Manager_Get ::
  "SessionManager \<Rightarrow> string \<Rightarrow> session_ptr option \<times> go_error option" where
  "sessions_Manager_Get this i = memProvider_Get (sessions_p this) i"

definition sessions_Manager_Del :: "SessionManager \<Rightarrow> string \<Rightarrow> SessionManager" where
  "sessions_Manager_Del this i = this\<lparr>sessions_p := memProvider_Del (sessions_p this) i\<rparr>"

definition sessions_Manager_Save :: "SessionManager \<Rightarrow> string \<Rightarrow> go_error option" where
  "sessions_Manager_Save this i = memProvider_Save (sessions_p this) i"

definition sessions_Manager_Count :: "SessionManager \<Rightarrow> nat" where
  "sessions_Manager_Count this = memProvider_Count (sessions_p this)"

definition sessions_Manager_Close :: "SessionManager \<Rightarrow> SessionManager \<times> go_error option" where
  "sessions_Manager_Close this =
     (this\<lparr>sessions_p := fst (memProvider_Close (sessions_p this))\<rparr>, None)"

text \<open>A method called through a session pointer.\<close>

definition on_session ::
  "(Session \<Rightarrow> Session \<times> 'r) \<Rightarrow> session_ptr \<Rightarrow> SessionManager \<Rightarrow> (SessionManager \<times> 'r) option" where
  "on_session f a m =
     (case gm_get (sess_heap (sessions_p m)) a of
        None \<Rightarrow> None
      | Some s \<Rightarrow>
          (case f s of (s', r) \<Rightarrow>
             Some (m\<lparr>sessions_p := (sessions_p m)\<lparr>sess_heap := gm_put a s' (sess_heap (sessions_p m))\<rparr>\<rparr>, r)))"

section \<open>Finding the session of a connecting client\<close>

text \<open>
  \<open>getSession\<close> changes the client's session pointer, the request (\<open>CleanSession\<close> is forced for an
  empty identifier), the response and the session store. None is a nil-pointer panic.
\<close>

record getSession_result =
  gs_session :: "session_ptr option"
  gs_req :: ConnectPacket
  gs_resp :: ConnackPacket
  gs_mgr :: SessionManager
  gs_err :: "go_error option"

definition getSession_new ::
  "bytes option \<Rightarrow> string \<Rightarrow> getSession_result \<Rightarrow> getSession_result option" where
  "getSession_new rnd cid r =
     (case sessions_Manager_New (gs_mgr r) rnd cid of (m, a, err) \<Rightarrow>
        let r1 = r\<lparr>gs_mgr := m, gs_session := Some a\<rparr> in
        if err \<noteq> None then Some (r1\<lparr>gs_err := err\<rparr>)
        else
          let r2 = r1\<lparr>gs_resp := (gs_resp r1)\<lparr>SessionPresent := False\<rparr>\<rparr> in
          map_option (\<lambda>(m', err). r2\<lparr>gs_mgr := m', gs_err := err\<rparr>)
            (on_session (\<lambda>s. Session_Init s (gs_req r2)) a (gs_mgr r2)))"

definition getSession ::
  "SessionManager \<Rightarrow> bytes option \<Rightarrow> session_ptr option \<Rightarrow> ConnectPacket \<Rightarrow> ConnackPacket \<Rightarrow>
    getSession_result option" where
  "getSession mgr rnd session req resp =
     (let req1 = (if length (ClientIdentifier req) = 0 then req\<lparr>CleanSession := True\<rparr> else req);
          cid = ClientIdentifier req1;
          r0 = \<lparr>gs_session = session, gs_req = req1, gs_resp = resp, gs_mgr = mgr, gs_err = None\<rparr>
      in
      if \<not> CleanSession req1 then
        (case sessions_Manager_Get mgr cid of
           (Some a, None) \<Rightarrow>
             map_option (\<lambda>(m', err). r0\<lparr>gs_session := Some a, gs_resp := resp\<lparr>SessionPresent := True\<rparr>,
                 gs_mgr := m', gs_err := err\<rparr>)
               (on_session (\<lambda>s. Session_Update s req1) a mgr)
         | (found, _) \<Rightarrow>
             (case found of
                None \<Rightarrow> getSession_new rnd cid (r0\<lparr>gs_session := None\<rparr>)
              | Some a \<Rightarrow> Some (r0\<lparr>gs_session := Some a\<rparr>)))
      else
        (case session of
           None \<Rightarrow> getSession_new rnd cid r0
         | Some a \<Rightarrow> Some r0))"

section \<open>What a session provider promises\<close>

locale sessions_provider =
  fixes inv :: "'s \<Rightarrow> bool"
    and lookup :: "'s \<Rightarrow> string \<Rightarrow> session_ptr option"
    and deref :: "'s \<Rightarrow> session_ptr \<Rightarrow> Session option"
    and new :: "'s \<Rightarrow> string \<Rightarrow> 's \<times> session_ptr \<times> go_error option"
    and get :: "'s \<Rightarrow> string \<Rightarrow> session_ptr option \<times> go_error option"
    and del :: "'s \<Rightarrow> string \<Rightarrow> 's"
    and count :: "'s \<Rightarrow> nat"
  assumes lookup_deref: "inv s \<Longrightarrow> lookup s i = Some a \<Longrightarrow> deref s a \<noteq> None"
    and new_ok: "inv s \<Longrightarrow> new s i = (s', a, err) \<Longrightarrow>
      err = None \<and> inv s' \<and> deref s a = None \<and> deref s' = (deref s)(a \<mapsto> newSession i) \<and>
      lookup s' = (lookup s)(i \<mapsto> a)"
    and get_ok: "get s i = (lookup s i, if lookup s i = None then
        Some (Errorf (''store/Get: No session found for key '' @ i)) else None)"
    and del_ok: "inv s \<Longrightarrow> inv (del s i) \<and> deref (del s i) = deref s \<and> lookup (del s i) = (lookup s)(i := None)"
    and count_ok: "inv s \<Longrightarrow> count s = card (dom (lookup s)) \<and> finite (dom (lookup s))"
begin

lemma get_after_new: "inv s \<Longrightarrow> new s i = (s', a, err) \<Longrightarrow> get s' i = (Some a, None)"
  using new_ok [of s i s' a err] get_ok [of s' i] by simp

lemma get_other_after_new: "inv s \<Longrightarrow> new s i = (s', a, err) \<Longrightarrow> j \<noteq> i \<Longrightarrow> get s' j = get s j"
  using new_ok [of s i s' a err] get_ok [of s' j] get_ok [of s j] by simp

lemma new_is_fresh:
  assumes "inv s" "new s i = (s', a, err)"
  shows "lookup s j \<noteq> Some a"
  using new_ok [OF assms] lookup_deref [OF assms(1), of j a] by auto

lemma get_after_del: "inv s \<Longrightarrow> fst (get (del s i) i) = None"
  using del_ok [of s i] get_ok [of "del s i" i] by simp

lemma count_after_new:
  assumes "inv s" "new s i = (s', a, err)"
  shows "count s' = (if lookup s i = None then Suc (count s) else count s)"
proof -
  have "dom (lookup s') = insert i (dom (lookup s))" using new_ok [OF assms] by auto
  then show ?thesis
    using new_ok [OF assms] count_ok [OF assms(1)] count_ok [of s'] by (auto simp: card_insert_if domIff)
qed

end

text \<open>The pointers in the map are allocated, and the next address is free.\<close>

definition sess_wf :: "memProvider \<Rightarrow> bool" where
  "sess_wf p \<longleftrightarrow> gm_wf (st p) \<and> gm_wf (sess_heap p) \<and>
     (\<forall>i a. gm_get (st p) i = Some a \<longrightarrow> gm_get (sess_heap p) a \<noteq> None) \<and>
     (\<forall>a. gm_get (sess_heap p) a \<noteq> None \<longrightarrow> a < sess_next p)"

lemma sess_wf_empty: "sess_wf sessions_NewMemProvider"
  by (simp add: sess_wf_def sessions_NewMemProvider_def)

lemma sess_wf_New: "sess_wf p \<Longrightarrow> memProvider_New p i = (p', a, err) \<Longrightarrow> sess_wf p'"
  by (auto simp: sess_wf_def memProvider_New_def Let_def split: if_splits) fastforce+

lemma sess_next_free: "sess_wf p \<Longrightarrow> gm_get (sess_heap p) (sess_next p) = None"
  by (auto simp: sess_wf_def)

interpretation mem_sessions: sessions_provider sess_wf "\<lambda>p. gm_get (st p)" "\<lambda>p. gm_get (sess_heap p)"
  memProvider_New memProvider_Get memProvider_Del memProvider_Count
proof
  show "sess_wf s \<Longrightarrow> gm_get (st s) i = Some a \<Longrightarrow> gm_get (sess_heap s) a \<noteq> None" for s i a
    by (simp add: sess_wf_def)
  show "sess_wf s \<Longrightarrow> memProvider_New s i = (s', a, err) \<Longrightarrow>
      err = None \<and> sess_wf s' \<and> gm_get (sess_heap s) a = None \<and>
      gm_get (sess_heap s') = (gm_get (sess_heap s))(a \<mapsto> newSession i) \<and>
      gm_get (st s') = (gm_get (st s))(i \<mapsto> a)" for s i s' a err
    using sess_wf_New [of s i s' a err] sess_next_free [of s]
    by (auto simp: memProvider_New_def Let_def fun_eq_iff)
  show "memProvider_Get s i = (gm_get (st s) i, if gm_get (st s) i = None then
      Some (Errorf (''store/Get: No session found for key '' @ i)) else None)" for s i
    by (simp add: memProvider_Get_def split: option.splits)
  show "sess_wf s \<Longrightarrow> sess_wf (memProvider_Del s i) \<and>
      gm_get (sess_heap (memProvider_Del s i)) = gm_get (sess_heap s) \<and>
      gm_get (st (memProvider_Del s i)) = (gm_get (st s))(i := None)" for s i
    by (auto simp: memProvider_Del_def sess_wf_def fun_eq_iff split: if_splits)
  show "sess_wf s \<Longrightarrow> memProvider_Count s = card (dom (gm_get (st s))) \<and> finite (dom (gm_get (st s)))" for s
    by (simp add: memProvider_Count_def gm_length_card sess_wf_def finite_dom_map_of)
qed

section \<open>Connecting\<close>

definition request_id :: "bytes option \<Rightarrow> ConnectPacket \<Rightarrow> string" where
  "request_id rnd req = (if ClientIdentifier req = [] then sessionId rnd else ClientIdentifier req)"

definition effective_req :: "ConnectPacket \<Rightarrow> ConnectPacket" where
  "effective_req req = (if ClientIdentifier req = [] then req\<lparr>CleanSession := True\<rparr> else req)"

lemma effective_req_id [simp]: "ClientIdentifier (effective_req req) = ClientIdentifier req"
  by (simp add: effective_req_def)

lemma getSession_new_fresh:
  assumes "sess_wf (sessions_p (gs_mgr r))" "cid = ClientIdentifier (gs_req r)"
  shows "\<exists>r' a s. getSession_new rnd cid r = Some r' \<and> gs_err r' = None \<and> gs_session r' = Some a \<and>
    gs_req r' = gs_req r \<and> gs_resp r' = (gs_resp r)\<lparr>SessionPresent := False\<rparr> \<and>
    sess_wf (sessions_p (gs_mgr r')) \<and>
    gm_get (sess_heap (sessions_p (gs_mgr r))) a = None \<and>
    gm_get (sess_heap (sessions_p (gs_mgr r'))) = (gm_get (sess_heap (sessions_p (gs_mgr r))))(a \<mapsto> s) \<and>
    gm_get (st (sessions_p (gs_mgr r'))) = (gm_get (st (sessions_p (gs_mgr r))))(request_id rnd (gs_req r) \<mapsto> a) \<and>
    initted s \<and> topics s = [] \<and> cmsg s = Some (gs_req r) \<and> sid s = cid"
proof -
  let ?p = "sessions_p (gs_mgr r)"
  let ?i = "request_id rnd (gs_req r)"
  obtain p' a err where n: "memProvider_New ?p ?i = (p', a, err)" by (cases "memProvider_New ?p ?i") auto
  note new = mem_sessions.new_ok [OF assms(1) n]
  obtain s e where s: "Session_Init (newSession ?i) (gs_req r) = (s, e)" by fastforce
  have s': "e = None" "initted s" "topics s = []" "cmsg s = Some (gs_req r)" "sid s = cid"
    using s assms(2) by (auto simp: Session_Init_def newSession_def Let_def)
  let ?p' = "p'\<lparr>sess_heap := gm_put a s (sess_heap p')\<rparr>"
  have "gm_get (sess_heap p') a \<noteq> None" "sess_wf p'" using new by simp_all
  then have "sess_wf ?p'" unfolding sess_wf_def by (auto split: if_splits)
  moreover have "on_session (\<lambda>s. Session_Init s (gs_req r)) a ((gs_mgr r)\<lparr>sessions_p := p'\<rparr>) =
      Some ((gs_mgr r)\<lparr>sessions_p := ?p'\<rparr>, None)"
    using new s s'(1) by (simp add: on_session_def)
  ultimately show ?thesis
    using n new s' assms(2)
    by (auto simp: getSession_new_def sessions_Manager_New_def request_id_def Let_def fun_eq_iff
        split: if_splits)
qed

lemma getSession_resume:
  assumes "sess_wf (sessions_p mgr)" "\<not> CleanSession (effective_req req)"
    "gm_get (st (sessions_p mgr)) (ClientIdentifier req) = Some a"
  shows "\<exists>r s. gm_get (sess_heap (sessions_p mgr)) a = Some s \<and>
    getSession mgr rnd session req resp = Some r \<and> gs_err r = None \<and> gs_session r = Some a \<and>
    gs_resp r = resp\<lparr>SessionPresent := True\<rparr> \<and> gs_req r = req \<and>
    st (sessions_p (gs_mgr r)) = st (sessions_p mgr) \<and>
    gm_get (sess_heap (sessions_p (gs_mgr r))) =
      (gm_get (sess_heap (sessions_p mgr)))(a \<mapsto> s\<lparr>cmsg := Some req\<rparr>)"
proof -
  obtain s where s: "gm_get (sess_heap (sessions_p mgr)) a = Some s"
    using mem_sessions.lookup_deref [OF assms(1,3)] by auto
  have "ClientIdentifier req \<noteq> []" using assms(2) by (auto simp: effective_req_def)
  then show ?thesis
    using assms s
    by (auto simp: getSession_def Let_def effective_req_def sessions_Manager_Get_def memProvider_Get_def
        on_session_def Session_Update_def fun_eq_iff)
qed

lemma getSession_fresh:
  assumes "sess_wf (sessions_p mgr)"
    "CleanSession (effective_req req) \<or> gm_get (st (sessions_p mgr)) (ClientIdentifier req) = None"
  shows "\<exists>r a s. getSession mgr rnd None req resp = Some r \<and> gs_err r = None \<and> gs_session r = Some a \<and>
    gs_req r = effective_req req \<and> gs_resp r = resp\<lparr>SessionPresent := False\<rparr> \<and>
    sess_wf (sessions_p (gs_mgr r)) \<and>
    gm_get (sess_heap (sessions_p mgr)) a = None \<and>
    gm_get (sess_heap (sessions_p (gs_mgr r))) = (gm_get (sess_heap (sessions_p mgr)))(a \<mapsto> s) \<and>
    gm_get (st (sessions_p (gs_mgr r))) = (gm_get (st (sessions_p mgr)))(request_id rnd req \<mapsto> a) \<and>
    initted s \<and> topics s = [] \<and> cmsg s = Some (effective_req req) \<and> sid s = ClientIdentifier req"
proof -
  let ?r0 = "\<lparr>gs_session = None, gs_req = effective_req req, gs_resp = resp, gs_mgr = mgr, gs_err = None\<rparr>"
  have "getSession mgr rnd None req resp = getSession_new rnd (ClientIdentifier req) ?r0"
    using assms(2)
    by (auto simp: getSession_def Let_def effective_req_def sessions_Manager_Get_def memProvider_Get_def
        split: option.splits)
  moreover have "request_id rnd (effective_req req) = request_id rnd req" by (simp add: request_id_def)
  ultimately show ?thesis
    using getSession_new_fresh [of ?r0 "ClientIdentifier req" rnd] assms(1) by simp
qed

section \<open>Generated identifiers\<close>

lemma b64_char_inject: "m < 64 \<Longrightarrow> n < 64 \<Longrightarrow> b64_char m = b64_char n \<Longrightarrow> m = n"
proof -
  have "distinct b64_alphabet" "length b64_alphabet = 64" by (simp_all add: b64_alphabet_def)
  then show "m < 64 \<Longrightarrow> n < 64 \<Longrightarrow> b64_char m = b64_char n \<Longrightarrow> m = n"
    by (simp add: b64_char_def nth_eq_iff_index_eq)
qed

lemma byte_unat_bound: "unat (a :: byte) < 256"
  using unsigned_less [of a, where 'a = nat] by simp

lemma b64_group_inject:
  fixes a b c a' b' c' :: byte
  assumes "b64_char (unat a div 4) = b64_char (unat a' div 4)"
    "b64_char (unat a mod 4 * 16 + unat b div 16) = b64_char (unat a' mod 4 * 16 + unat b' div 16)"
    "b64_char (unat b mod 16 * 4 + unat c div 64) = b64_char (unat b' mod 16 * 4 + unat c' div 64)"
    "b64_char (unat c mod 64) = b64_char (unat c' mod 64)"
  shows "a = a' \<and> b = b' \<and> c = c'"
proof -
  have bnd: "unat a < 256" "unat a' < 256" "unat b < 256" "unat b' < 256" "unat c < 256" "unat c' < 256"
    by (rule byte_unat_bound)+
  have 1: "unat a div 4 = unat a' div 4"
    using bnd by (intro b64_char_inject [OF _ _ assms(1)]) auto
  have 2: "unat a mod 4 * 16 + unat b div 16 = unat a' mod 4 * 16 + unat b' div 16"
  proof (rule b64_char_inject [OF _ _ assms(2)])
    show "unat a mod 4 * 16 + unat b div 16 < 64" using bnd by linarith
    show "unat a' mod 4 * 16 + unat b' div 16 < 64" using bnd by linarith
  qed
  have 3: "unat b mod 16 * 4 + unat c div 64 = unat b' mod 16 * 4 + unat c' div 64"
  proof (rule b64_char_inject [OF _ _ assms(3)])
    show "unat b mod 16 * 4 + unat c div 64 < 64" using bnd by linarith
    show "unat b' mod 16 * 4 + unat c' div 64 < 64" using bnd by linarith
  qed
  have 4: "unat c mod 64 = unat c' mod 64"
    by (intro b64_char_inject [OF _ _ assms(4)]) auto
  from digits_inject [OF 2] bnd have b1: "unat a mod 4 = unat a' mod 4" "unat b div 16 = unat b' div 16" by auto
  from digits_inject [OF 3] bnd have c1: "unat b mod 16 = unat b' mod 16" "unat c div 64 = unat c' div 64" by auto
  have "unat a = unat a'" by (metis 1 b1(1) div_mod_decomp)
  moreover have "unat b = unat b'" by (metis b1(2) c1(1) div_mod_decomp)
  moreover have "unat c = unat c'" by (metis c1(2) 4 div_mod_decomp)
  ultimately show ?thesis by (simp add: unsigned_word_eqI)
qed

lemma three_more:
  assumes "length xs = 3 * Suc k"
  obtains a b c ys where "xs = a # b # c # ys" "length ys = 3 * k"
proof -
  obtain a xs1 where 1: "xs = a # xs1" using assms by (cases xs) auto
  obtain b xs2 where 2: "xs1 = b # xs2" using assms 1 by (cases xs1) auto
  obtain c ys where 3: "xs2 = c # ys" using assms 1 2 by (cases xs2) auto
  show thesis using that [of a b c ys] assms 1 2 3 by simp
qed

lemma b64_encode_length: "length bs = 3 * k \<Longrightarrow> length (b64_encode bs) = 4 * k"
proof (induction k arbitrary: bs)
  case (Suc k)
  then show ?case by (elim three_more) simp
qed simp

lemma b64_encode_inject:
  "length bs = 3 * k \<Longrightarrow> length cs = 3 * k \<Longrightarrow> b64_encode bs = b64_encode cs \<Longrightarrow> bs = cs"
proof (induction k arbitrary: bs cs)
  case (Suc k)
  obtain a b c bs' where bs: "bs = a # b # c # bs'" "length bs' = 3 * k" using three_more [OF Suc.prems(1)] .
  obtain a' b' c' cs' where cs: "cs = a' # b' # c' # cs'" "length cs' = 3 * k" using three_more [OF Suc.prems(2)] .
  have "a = a' \<and> b = b' \<and> c = c'"
    by (rule b64_group_inject) (use Suc.prems(3) in \<open>simp_all add: bs(1) cs(1)\<close>)
  moreover have "bs' = cs'" using Suc.IH [OF bs(2) cs(2)] Suc.prems(3) by (simp add: bs(1) cs(1))
  ultimately show ?case by (simp add: bs(1) cs(1))
qed simp

section \<open>Properties\<close>

text \<open>
  Resuming a session: a client that connects with its own identifier and without the clean
  flag, and for which the store has a session, gets a pointer to that very session; the response
  announces it, the store still maps the same identifiers to the same sessions, and the only change
  anywhere is that this session now holds the new CONNECT message, so its topics and its will
  survive the reconnection.
\<close>

theorem connect_resumes_session:
  assumes "sess_wf (sessions_p mgr)" "\<not> CleanSession req" "ClientIdentifier req \<noteq> []"
    "gm_get (st (sessions_p mgr)) (ClientIdentifier req) = Some a"
  shows "\<exists>r s. gm_get (sess_heap (sessions_p mgr)) a = Some s \<and>
    getSession mgr rnd session req resp = Some r \<and> gs_err r = None \<and> gs_session r = Some a \<and>
    gs_resp r = resp\<lparr>SessionPresent := True\<rparr> \<and> gs_req r = req \<and>
    st (sessions_p (gs_mgr r)) = st (sessions_p mgr) \<and>
    gm_get (sess_heap (sessions_p (gs_mgr r))) =
      (gm_get (sess_heap (sessions_p mgr)))(a \<mapsto> s\<lparr>cmsg := Some req\<rparr>)"
  using assms by (intro getSession_resume) (simp_all add: effective_req_def)

definition sample_connect :: "string \<Rightarrow> bool \<Rightarrow> ConnectPacket" where
  "sample_connect cid clean =
     (new_ConnectPacket (zeroHeader Connect 0))\<lparr>ClientIdentifier := cid, CleanSession := clean\<rparr>"

definition sample_manager :: SessionManager where
  "sample_manager =
     \<lparr>sessions_p = \<lparr>st = [(''c1'', 0)], sess_heap = [(0, newSession ''c1'')], sess_next = 1\<rparr>\<rparr>"

definition sample_connack :: ConnackPacket where
  "sample_connack = new_ConnackPacket (zeroHeader Connack 0)"

theorem connect_resumes_session_witness:
  "\<exists>r. getSession sample_manager None None (sample_connect ''c1'' False) sample_connack = Some r \<and>
     gs_session r = Some 0 \<and> SessionPresent (gs_resp r)"
proof -
  have "\<exists>r s. gm_get (sess_heap (sessions_p sample_manager)) 0 = Some s \<and>
    getSession sample_manager None None (sample_connect ''c1'' False) sample_connack = Some r \<and> gs_err r = None \<and>
    gs_session r = Some 0 \<and> gs_resp r = sample_connack\<lparr>SessionPresent := True\<rparr> \<and>
    gs_req r = sample_connect ''c1'' False \<and>
    st (sessions_p (gs_mgr r)) = st (sessions_p sample_manager) \<and>
    gm_get (sess_heap (sessions_p (gs_mgr r))) =
      (gm_get (sess_heap (sessions_p sample_manager)))(0 \<mapsto> s\<lparr>cmsg := Some (sample_connect ''c1'' False)\<rparr>)"
    by (rule connect_resumes_session)
      (simp_all add: sample_manager_def sample_connect_def sess_wf_def new_ConnectPacket_def)
  then show ?thesis by auto
qed

text \<open>
  A fresh session otherwise: a clean connection, an empty client identifier or an unknown one
  gets a newly allocated session that is initialised with the request and has no topics; the
  response says that no session was present; the identifier (a generated one when the client gave
  none) now leads to the new session; no other session object and no other identifier is affected.
\<close>

theorem connect_fresh_session:
  assumes "sess_wf (sessions_p mgr)"
    "CleanSession req \<or> ClientIdentifier req = [] \<or>
     gm_get (st (sessions_p mgr)) (ClientIdentifier req) = None"
  shows "\<exists>r a s. getSession mgr rnd None req resp = Some r \<and> gs_err r = None \<and> gs_session r = Some a \<and>
    gs_resp r = resp\<lparr>SessionPresent := False\<rparr> \<and> sess_wf (sessions_p (gs_mgr r)) \<and>
    gm_get (sess_heap (sessions_p mgr)) a = None \<and>
    gm_get (sess_heap (sessions_p (gs_mgr r))) = (gm_get (sess_heap (sessions_p mgr)))(a \<mapsto> s) \<and>
    gm_get (st (sessions_p (gs_mgr r))) = (gm_get (st (sessions_p mgr)))
      ((if ClientIdentifier req = [] then sessionId rnd else ClientIdentifier req) \<mapsto> a) \<and>
    initted s \<and> topics s = [] \<and> cmsg s = Some (gs_req r) \<and>
    CleanSession (gs_req r) = (CleanSession req \<or> ClientIdentifier req = [])"
proof -
  have "CleanSession (effective_req req) \<or> gm_get (st (sessions_p mgr)) (ClientIdentifier req) = None"
    using assms(2) by (auto simp: effective_req_def)
  from getSession_fresh [OF assms(1) this, of rnd resp] show ?thesis
    unfolding request_id_def by (fastforce simp: effective_req_def)
qed

theorem connect_fresh_session_witness:
  "\<exists>r. getSession sample_manager None None (sample_connect ''c1'' True) sample_connack = Some r \<and>
     \<not> SessionPresent (gs_resp r) \<and> gs_session r \<noteq> Some 0"
proof -
  have "sess_wf (sessions_p sample_manager)" "CleanSession (sample_connect ''c1'' True)"
    by (simp_all add: sample_manager_def sample_connect_def sess_wf_def)
  from connect_fresh_session [OF this(1), of "sample_connect ''c1'' True" None sample_connack] this(2)
  obtain r a where "getSession sample_manager None None (sample_connect ''c1'' True) sample_connack = Some r"
    "gs_session r = Some a" "gs_resp r = sample_connack\<lparr>SessionPresent := False\<rparr>"
    "gm_get (sess_heap (sessions_p sample_manager)) a = None" by blast
  then show ?thesis by (auto simp: sample_manager_def split: if_splits)
qed

text \<open>
  Generated session identifiers are as unique as the random bytes they encode: fifteen bytes
  give an identifier of twenty characters, and different bytes give different identifiers.
\<close>

theorem session_ids_unique:
  assumes "length b = 15" "length c = 15"
  shows "length (sessionId (Some b)) = 20 \<and> (sessionId (Some b) = sessionId (Some c) \<longleftrightarrow> b = c)"
  using assms b64_encode_length [of b 5] b64_encode_inject [of b 5 c] by (auto simp: sessionId_def)

theorem session_ids_unique_witness:
  "sessionId (Some (replicate 15 0)) \<noteq> sessionId (Some (replicate 15 1))"
  using session_ids_unique [of "replicate 15 0" "replicate 15 1"] by (simp add: eval_nat_numeral)

text \<open>
  The will message a session prepares takes its QoS from the fixed header of CONNECT and not from
  the will QoS of the connect flags.
\<close>

lemma will_qos_from_header:
  "\<not> initted s \<Longrightarrow> WillFlag c \<Longrightarrow>
   \<exists>w. Will (fst (Session_Init s c)) = Some w \<and> Qos w = Qos c \<and> TopicName w = WillTopic c \<and>
     Payload w = WillMessage c \<and> Retain w = WillRetain c"
  by (simp add: Session_Init_def Let_def)

end
