(* ===== verification/ConfigTable.thy ===== *)
theory ConfigTable
  imports Prelude
begin

text \<open>
  The interface shared by the three configuration tables the broker keeps in step with the cluster
  store: access rules (\<open>src/acl/\<close>), users (\<open>src/auth/\<close>) and bridge rules (\<open>src/bridge/\<close>). Each can be
  loaded as a whole, updated and cleared key by key, and looked up. What follows from that contract
  about a replayed stream of change events is proved once here.
\<close>

section \<open>Change events\<close>

datatype 'v table_event = PutEvent 'v | DeleteEvent string

fun apply_event :: "('t \<Rightarrow> 'v \<Rightarrow> 't) \<Rightarrow> ('t \<Rightarrow> string \<Rightarrow> 't) \<Rightarrow> 'v table_event \<Rightarrow> 't \<Rightarrow> 't" where
  "apply_event add remove (PutEvent v) t = add t v"
| "apply_event add remove (DeleteEvent k) t = remove t k"

fun event_key :: "('v \<Rightarrow> string) \<Rightarrow> 'v table_event \<Rightarrow> string" where
  "event_key key (PutEvent v) = key v"
| "event_key key (DeleteEvent k) = k"

fun event_value :: "'v table_event \<Rightarrow> 'v option" where
  "event_value (PutEvent v) = Some v"
| "event_value (DeleteEvent k) = None"

text \<open>The events of a stream that name a key, and what the last of them leaves behind.\<close>

definition replayed :: "('v \<Rightarrow> string) \<Rightarrow> 'v table_event list \<Rightarrow> (string \<Rightarrow> 'v option) \<Rightarrow> string \<Rightarrow> 'v option" where
  "replayed key es before k =
     (case filter (\<lambda>e. event_key key e = k) es of [] \<Rightarrow> before k | es' \<Rightarrow> event_value (last es'))"

locale config_table =
  fixes key :: "'v \<Rightarrow> string"
    and load :: "'t \<Rightarrow> 'm option \<Rightarrow> 't"
    and content :: "'m \<Rightarrow> string \<rightharpoonup> 'v"
    and add :: "'t \<Rightarrow> 'v \<Rightarrow> 't"
    and remove :: "'t \<Rightarrow> string \<Rightarrow> 't"
    and get :: "'t \<Rightarrow> string \<Rightarrow> 'v option"
  assumes get_load_nil: "load t None = t"
    and get_load: "get (load t (Some m)) k = content m k"
    and get_add: "get (add t v) k = (if k = key v then Some v else get t k)"
    and get_remove: "get (remove t k') k = (if k = k' then None else get t k)"
begin

lemma get_step:
  "get (apply_event add remove e t) k = (if k = event_key key e then event_value e else get t k)"
  by (cases e) (simp_all add: get_add get_remove)

lemma get_replay: "get (fold (apply_event add remove) es t) k = replayed key es (get t) k"
proof (induction es rule: rev_induct)
  case (snoc e es)
  then show ?case by (auto simp: get_step replayed_def split: list.splits)
qed (simp add: replayed_def)

lemma event_idempotent:
  "get (apply_event add remove e (apply_event add remove e t)) k = get (apply_event add remove e t) k"
  by (simp add: get_step)

lemma events_commute:
  "event_key key e \<noteq> event_key key e' \<Longrightarrow>
   get (apply_event add remove e (apply_event add remove e' t)) k =
   get (apply_event add remove e' (apply_event add remove e t)) k"
  by (simp add: get_step)

lemma reload_forgets: "get (load (fold (apply_event add remove) es t) (Some m)) k = content m k"
  by (simp add: get_load)

end

end
