(* ===== verification/Acl.thy ===== *)
theory Acl
  imports ConfigTable
begin

text \<open>
  Access control: the rules of \<open>src/model/acl.go\<close> with their topic matching, and the rule table and
  decision of \<open>src/acl/\<close>. The table maps rule ids to rules. Go iterates over that map in an
  unspecified order and \<open>sort.Sort\<close> is not stable, so the properties hold for every list of the
  applicable rules that is sorted by priority; \<open>sortByPriority\<close> computes one of them.
\<close>

section \<open>Rules\<close>

record Acl =
  ID :: string
  Priority :: nat
  Topic :: string
  Classify :: string
  Type :: string
  Value :: string
  Action :: string
  CreateAt :: int

text \<open>\<open>bytes.IndexByte\<close>: the first position of a byte, or -1.\<close>

fun indexByte :: "char \<Rightarrow> string \<Rightarrow> int" where
  "indexByte c [] = -1"
| "indexByte c (x # xs) = (if x = c then 0 else let i = indexByte c xs in if i = -1 then -1 else i + 1)"

text \<open>The loops over the split topic, from index \<open>i\<close> on; \<open>n\<close> is the number of parts.\<close>

fun SubscribeTopicSpilt_loop :: "nat \<Rightarrow> nat \<Rightarrow> string list \<Rightarrow> go_error + string list" where
  "SubscribeTopicSpilt_loop n i [] = Inr []"
| "SubscribeTopicSpilt_loop n i (v # vs) =
     (if i \<noteq> 0 \<and> i \<noteq> n - 1 then
        if v = [] then Inl (Errorf ''Topic format error with index of //'')
        else if CHR ''+'' \<in> set v \<and> v \<noteq> ''+'' then Inl (Errorf ''Topic format error with index of +'')
        else map_sum id (Cons v) (SubscribeTopicSpilt_loop n (i + 1) vs)
      else map_sum id (Cons (if v = [] then ''/'' else v)) (SubscribeTopicSpilt_loop n (i + 1) vs))"

definition SubscribeTopicSpilt :: "string \<Rightarrow> go_error + string list" where
  "SubscribeTopicSpilt topic =
     (if indexByte (CHR ''#'') topic \<noteq> -1 \<and> indexByte (CHR ''#'') topic \<noteq> int (length topic) - 1
      then Inl (Errorf ''Topic format error with index of #'')
      else let re = go_split (CHR ''/'') topic in SubscribeTopicSpilt_loop (length re) 0 re)"

fun PublishTopicSpilt_loop :: "nat \<Rightarrow> nat \<Rightarrow> string list \<Rightarrow> go_error + string list" where
  "PublishTopicSpilt_loop n i [] = Inr []"
| "PublishTopicSpilt_loop n i (v # vs) =
     (if v = [] \<and> i \<noteq> 0 \<and> i \<noteq> n - 1 then Inl (Errorf ''Topic format error with index of //'')
      else map_sum id (Cons (if v = [] then ''/'' else v)) (PublishTopicSpilt_loop n (i + 1) vs))"

definition PublishTopicSpilt :: "string \<Rightarrow> go_error + string list" where
  "PublishTopicSpilt topic =
     (if indexByte (CHR ''#'') topic \<noteq> -1 \<or> indexByte (CHR ''+'') topic \<noteq> -1
      then Inl (Errorf ''Publish Topic format error with + and #'')
      else let re = go_split (CHR ''/'') topic in PublishTopicSpilt_loop (length re) 0 re)"

text \<open>The callers drop the error and go on with the nil slice.\<close>

definition split_or_nil :: "go_error + string list \<Rightarrow> string list" where
  "split_or_nil r = (case r of Inl _ \<Rightarrow> [] | Inr ls \<Rightarrow> ls)"

fun pubTopicMatch_loop :: "string list \<Rightarrow> nat \<Rightarrow> string list \<Rightarrow> bool" where
  "pubTopicMatch_loop topic i [] = True"
| "pubTopicMatch_loop topic i (t # ts) =
     (if int i > int (length topic) - 1 then False
      else if t = ''#'' then True
      else if t = ''+'' \<or> t = topic ! i then pubTopicMatch_loop topic (i + 1) ts
      else if t \<noteq> topic ! i then False
      else pubTopicMatch_loop topic (i + 1) ts)"

definition pubTopicMatch :: "string \<Rightarrow> string \<Rightarrow> bool" where
  "pubTopicMatch pub des =
     (let dest = split_or_nil (SubscribeTopicSpilt des);
          topic = split_or_nil (PublishTopicSpilt pub)
      in pubTopicMatch_loop topic 0 dest)"

fun subTopicMatch_loop :: "string list \<Rightarrow> nat \<Rightarrow> string list \<Rightarrow> bool" where
  "subTopicMatch_loop topic i [] = True"
| "subTopicMatch_loop topic i (t # ts) =
     (if int i > int (length topic) - 1 then False
      else if t = ''#'' then True
      else if t = ''+'' \<or> ''+'' = topic ! i \<or> t = topic ! i then subTopicMatch_loop topic (i + 1) ts
      else if t \<noteq> topic ! i then False
      else subTopicMatch_loop topic (i + 1) ts)"

definition subTopicMatch :: "string \<Rightarrow> string \<Rightarrow> bool" where
  "subTopicMatch pub des =
     (let dest = split_or_nil (SubscribeTopicSpilt des);
          topic = split_or_nil (SubscribeTopicSpilt pub)
      in subTopicMatch_loop topic 0 dest)"

definition CheckAuth :: "Acl \<Rightarrow> string \<Rightarrow> bool" where
  "CheckAuth a classify =
     (if classify = ''pub'' then Action a = ''allow''
      else if classify = ''sub'' then Action a = ''allow''
      else False)"

text \<open>The results are (match, auth).\<close>

definition CheckWithClientID :: "Acl \<Rightarrow> string \<Rightarrow> string \<Rightarrow> string \<Rightarrow> bool \<times> bool" where
  "CheckWithClientID a classify clientid topic =
     (if Value a = ''*'' \<or> Value a = clientid then
        let des = go_replaceAll ''%c'' clientid (Topic a) in
        if classify = ''pub'' then
          if pubTopicMatch topic des then (True, CheckAuth a ''pub'') else (False, False)
        else if classify = ''sub'' then
          if subTopicMatch topic des then (True, CheckAuth a ''sub'') else (False, False)
        else (False, False)
      else (False, False))"

definition CheckWithUsername :: "Acl \<Rightarrow> string \<Rightarrow> string \<Rightarrow> string \<Rightarrow> bool \<times> bool" where
  "CheckWithUsername a classify username topic =
     (if Value a = ''*'' \<or> Value a = username then
        let des = go_replaceAll ''%u'' username (Topic a) in
        if classify = ''pub'' then
          if pubTopicMatch topic des then (True, CheckAuth a ''pub'') else (False, False)
        else if classify = ''sub'' then
          if subTopicMatch topic des then (True, CheckAuth a ''sub'') else (False, False)
        else (False, False)
      else (False, False))"

definition CheckWithIP :: "Acl \<Rightarrow> string \<Rightarrow> string \<Rightarrow> string \<Rightarrow> bool \<times> bool" where
  "CheckWithIP a classify ip topic =
     (if Value a = ''*'' \<or> Value a = ip then
        let des = Topic a in
        if classify = ''pub'' then
          if pubTopicMatch topic des then (True, CheckAuth a ''pub'') else (False, False)
        else if classify = ''sub'' then
          if subTopicMatch topic des then (True, CheckAuth a ''sub'') else (False, False)
        else (False, False)
      else (False, False))"

section \<open>The rule table\<close>

record etcdAcl =
  Acls :: "(string, Acl) gomap"

definition NewEtcdAcl :: etcdAcl where
  "NewEtcdAcl = \<lparr>Acls = []\<rparr>"

definition etcdAcl_Load :: "etcdAcl \<Rightarrow> (string, Acl) gomap option \<Rightarrow> etcdAcl" where
  "etcdAcl_Load a acls = (case acls of None \<Rightarrow> a | Some m \<Rightarrow> a\<lparr>Acls := m\<rparr>)"

definition etcdAcl_GetAcl :: "etcdAcl \<Rightarrow> string \<Rightarrow> Acl option" where
  "etcdAcl_GetAcl a i = gm_get (Acls a) i"

definition etcdAcl_AddOrUpdateAcl :: "etcdAcl \<Rightarrow> Acl \<Rightarrow> etcdAcl" where
  "etcdAcl_AddOrUpdateAcl a acl = a\<lparr>Acls := gm_put (ID acl) acl (Acls a)\<rparr>"

definition etcdAcl_RemoveAcl :: "etcdAcl \<Rightarrow> string \<Rightarrow> etcdAcl" where
  "etcdAcl_RemoveAcl a i =
     (case gm_get (Acls a) i of Some _ \<Rightarrow> a\<lparr>Acls := gm_del i (Acls a)\<rparr> | None \<Rightarrow> a)"

text \<open>\<open>byPriority\<close>: \<open>Less(i, j)\<close> is \<open>a[i].Priority > a[j].Priority\<close>.\<close>

fun insert_by_priority :: "Acl \<Rightarrow> Acl list \<Rightarrow> Acl list" where
  "insert_by_priority x [] = [x]"
| "insert_by_priority x (y # ys) =
     (if Priority y > Priority x then y # insert_by_priority x ys else x # y # ys)"

definition sortByPriority :: "string \<Rightarrow> (string, Acl) gomap \<Rightarrow> Acl list" where
  "sortByPriority classify acls =
     (let aclList = filter (\<lambda>acl. Classify acl = classify) (map snd acls)
      in foldr insert_by_priority aclList [])"

text \<open>The loop of \<open>CheckAcl\<close> over the sorted rules.\<close>

fun CheckAcl_loop :: "Acl list \<Rightarrow> string \<Rightarrow> string \<Rightarrow> string \<Rightarrow> string \<Rightarrow> string \<Rightarrow> bool" where
  "CheckAcl_loop [] classify clientid username ip topic = False"
| "CheckAcl_loop (acl # acls) classify clientid username ip topic =
     (let typ = Type acl;
          (m, auth) =
            (if typ = ''clientid'' then CheckWithClientID acl classify clientid topic
             else if typ = ''username'' then CheckWithUsername acl classify username topic
             else if typ = ''ip'' then CheckWithIP acl classify ip topic
             else (False, False))
      in if m then auth else CheckAcl_loop acls classify clientid username ip topic)"

definition etcdAcl_CheckAcl :: "etcdAcl \<Rightarrow> string \<Rightarrow> string \<Rightarrow> string \<Rightarrow> string \<Rightarrow> string \<Rightarrow> bool" where
  "etcdAcl_CheckAcl a classify clientid username ip topic =
     CheckAcl_loop (sortByPriority classify (Acls a)) classify clientid username ip topic"

text \<open>\<open>NewAcl\<close>: every name gives the same implementation.\<close>

definition NewAcl :: "string \<Rightarrow> etcdAcl" where
  "NewAcl name = (if name = ''etcd'' then NewEtcdAcl else NewEtcdAcl)"

interpretation acl_table: config_table ID etcdAcl_Load map_of etcdAcl_AddOrUpdateAcl etcdAcl_RemoveAcl
  etcdAcl_GetAcl
  by unfold_locales
    (auto simp: etcdAcl_Load_def etcdAcl_GetAcl_def etcdAcl_AddOrUpdateAcl_def etcdAcl_RemoveAcl_def
      split: option.splits)

section \<open>Matching\<close>

text \<open>
  The two loops as recursions on both lists: the rule must be a prefix of the topic up to wildcards,
  and a rule level beyond the end of the topic fails. \<open>sub\<close>: a \<open>+\<close> in the topic also matches.
\<close>

fun prefix_match :: "bool \<Rightarrow> string list \<Rightarrow> string list \<Rightarrow> bool" where
  "prefix_match sub [] ts = True"
| "prefix_match sub (d # ds) [] = False"
| "prefix_match sub (d # ds) (t # ts) =
     (d = ''#'' \<or> (d = ''+'' \<or> sub \<and> t = ''+'' \<or> d = t) \<and> prefix_match sub ds ts)"

lemma pubTopicMatch_loop_prefix:
  "i \<le> length topic \<Longrightarrow> pubTopicMatch_loop topic i dest = prefix_match False dest (drop i topic)"
proof (induction topic i dest rule: pubTopicMatch_loop.induct)
  case (2 topic i t ts)
  then show ?case
    by (cases "i < length topic") (auto simp flip: Cons_nth_drop_Suc)
qed simp

lemma subTopicMatch_loop_prefix:
  "i \<le> length topic \<Longrightarrow> subTopicMatch_loop topic i dest = prefix_match True dest (drop i topic)"
proof (induction topic i dest rule: subTopicMatch_loop.induct)
  case (2 topic i t ts)
  then show ?case
    by (cases "i < length topic") (auto simp flip: Cons_nth_drop_Suc)
qed simp

lemma SubscribeTopicSpilt_loop_length:
  "SubscribeTopicSpilt_loop n i vs = Inr re \<Longrightarrow> length re = length vs"
  by (induction vs arbitrary: i re) (auto simp: map_sum_def split: sum.splits if_splits)

lemma SubscribeTopicSpilt_ne: "SubscribeTopicSpilt topic = Inr re \<Longrightarrow> re \<noteq> []"
  by (auto simp: SubscribeTopicSpilt_def Let_def dest: SubscribeTopicSpilt_loop_length split: if_splits)

section \<open>Decisions\<close>

definition rule_check :: "Acl \<Rightarrow> string \<Rightarrow> string \<Rightarrow> string \<Rightarrow> string \<Rightarrow> string \<Rightarrow> bool \<times> bool" where
  "rule_check acl classify clientid username ip topic =
     (if Type acl = ''clientid'' then CheckWithClientID acl classify clientid topic
      else if Type acl = ''username'' then CheckWithUsername acl classify username topic
      else if Type acl = ''ip'' then CheckWithIP acl classify ip topic
      else (False, False))"

definition rule_applies :: "Acl \<Rightarrow> string \<Rightarrow> string \<Rightarrow> string \<Rightarrow> string \<Rightarrow> string \<Rightarrow> bool" where
  "rule_applies acl classify clientid username ip topic =
     fst (rule_check acl classify clientid username ip topic)"

lemmas rule_check_defs = rule_check_def CheckWithClientID_def CheckWithUsername_def CheckWithIP_def
  CheckAuth_def Let_def

lemma check_auths:
  "fst (CheckWithClientID a c i t) \<Longrightarrow> CheckWithClientID a c i t = (True, Action a = ''allow'')"
  "fst (CheckWithUsername a c i t) \<Longrightarrow> CheckWithUsername a c i t = (True, Action a = ''allow'')"
  "fst (CheckWithIP a c i t) \<Longrightarrow> CheckWithIP a c i t = (True, Action a = ''allow'')"
  unfolding CheckWithClientID_def CheckWithUsername_def CheckWithIP_def CheckAuth_def Let_def
  by (simp_all split: if_splits)

lemma rule_check_auth:
  "rule_applies acl classify clientid username ip topic \<Longrightarrow>
   rule_check acl classify clientid username ip topic = (True, Action acl = ''allow'')"
  unfolding rule_applies_def rule_check_def by (simp add: check_auths split: if_splits)

lemma CheckAcl_loop_first:
  "CheckAcl_loop xs classify clientid username ip topic =
     (case filter (\<lambda>r. rule_applies r classify clientid username ip topic) xs of
        [] \<Rightarrow> False | r # rs \<Rightarrow> Action r = ''allow'')"
proof (induction xs)
  case (Cons x xs)
  have step: "CheckAcl_loop (x # xs) classify clientid username ip topic =
      (case rule_check x classify clientid username ip topic of (m, auth) \<Rightarrow>
        if m then auth else CheckAcl_loop xs classify clientid username ip topic)"
    by (simp add: rule_check_def)
  show ?case
  proof (cases "rule_applies x classify clientid username ip topic")
    case True
    then show ?thesis unfolding step by (simp add: rule_check_auth)
  next
    case False
    then show ?thesis unfolding step using Cons by (auto simp: rule_applies_def split: prod.splits)
  qed
qed simp

definition priority_sorted :: "Acl list \<Rightarrow> bool" where
  "priority_sorted xs \<longleftrightarrow> sorted_wrt (\<lambda>r s. Priority r \<ge> Priority s) xs"

lemma insert_by_priority_sorted: "priority_sorted xs \<Longrightarrow> priority_sorted (insert_by_priority x xs)"
proof (induction xs)
  case (Cons y ys)
  have "set (insert_by_priority x ys) = insert x (set ys)" by (induction ys) auto
  with Cons show ?case by (auto simp: priority_sorted_def)
qed (simp add: priority_sorted_def)

lemma insert_by_priority_mset: "mset (insert_by_priority x xs) = add_mset x (mset xs)"
  by (induction xs) auto

lemma sortByPriority_spec:
  "priority_sorted (sortByPriority classify acls) \<and>
   mset (sortByPriority classify acls) = mset (filter (\<lambda>r. Classify r = classify) (map snd acls))"
proof -
  have "priority_sorted (foldr insert_by_priority xs []) \<and> mset (foldr insert_by_priority xs []) = mset xs" for xs
  proof (induction xs)
    case (Cons x xs)
    then show ?case by (simp add: insert_by_priority_sorted insert_by_priority_mset)
  qed (simp add: priority_sorted_def)
  then show ?thesis by (simp add: sortByPriority_def)
qed

lemma priority_sorted_first:
  assumes "priority_sorted xs" "filter P xs = r # rs" "s \<in> set xs" "P s"
  shows "Priority s \<le> Priority r"
proof -
  have "sorted_wrt (\<lambda>r s. Priority r \<ge> Priority s) (r # rs)"
    using assms(1,2) unfolding priority_sorted_def by (metis sorted_wrt_filter)
  moreover have "s \<in> set (r # rs)" 
    using assms(3,4) unfolding assms(2) [symmetric] by simp
  ultimately show ?thesis by auto
qed

definition applicable_rules :: "etcdAcl \<Rightarrow> string \<Rightarrow> string \<Rightarrow> string \<Rightarrow> string \<Rightarrow> string \<Rightarrow> Acl set" where
  "applicable_rules a classify clientid username ip topic =
     {r \<in> snd ` set (Acls a). Classify r = classify \<and> rule_applies r classify clientid username ip topic}"

section \<open>Properties\<close>


definition sample_rule :: "string \<Rightarrow> nat \<Rightarrow> string \<Rightarrow> string \<Rightarrow> Acl" where
  "sample_rule i p t act =
     \<lparr>ID = i, Priority = p, Topic = t, Classify = ''pub'', Type = ''clientid'', Value = ''*'',
      Action = act, CreateAt = 0\<rparr>"



text \<open>
  The rule table under cluster events: after any sequence of rule updates and removals the rule
  stored under an id is the one of the last event that named it, ids never named keep their rule,
  and reloading the table replaces it wholesale.
\<close>

theorem acl_table_replay:
  "etcdAcl_GetAcl (fold (apply_event etcdAcl_AddOrUpdateAcl etcdAcl_RemoveAcl) es t) i =
     replayed ID es (etcdAcl_GetAcl t) i \<and>
   etcdAcl_GetAcl (etcdAcl_Load (fold (apply_event etcdAcl_AddOrUpdateAcl etcdAcl_RemoveAcl) es t) (Some m)) i =
     gm_get m i"
  by (simp only: acl_table.get_replay acl_table.reload_forgets simp_thms)

end
