(* ===== verification/Auth.thy ===== *)
theory Auth
  imports ConfigTable
begin

text \<open>
  Client authentication, \<open>src/auth/\<close> with the user record of \<open>src/model/user.go\<close>. The password check
  \<open>utils.ComparePassword\<close> calls bcrypt, which is not part of the repository: \<open>compare\<close> stands for it.
\<close>

record User =
  ClientID :: string
  Name :: string
  Role :: nat
  UserPassword :: string
  UserCreateAt :: int

record etcdAuth =
  Users :: "(string, User) gomap"

definition NewEtcdAuth :: etcdAuth where
  "NewEtcdAuth = \<lparr>Users = []\<rparr>"

definition etcdAuth_Load :: "etcdAuth \<Rightarrow> (string, User) gomap option \<Rightarrow> etcdAuth" where
  "etcdAuth_Load a users = (case users of None \<Rightarrow> a | Some m \<Rightarrow> a\<lparr>Users := m\<rparr>)"

definition etcdAuth_GetUser :: "etcdAuth \<Rightarrow> string \<Rightarrow> User option" where
  "etcdAuth_GetUser a name = gm_get (Users a) name"

definition etcdAuth_AddOrUpdateUser :: "etcdAuth \<Rightarrow> User \<Rightarrow> etcdAuth" where
  "etcdAuth_AddOrUpdateUser a user = a\<lparr>Users := gm_put (Name user) user (Users a)\<rparr>"

definition etcdAuth_RemoveUser :: "etcdAuth \<Rightarrow> User \<Rightarrow> etcdAuth" where
  "etcdAuth_RemoveUser a user =
     (case gm_get (Users a) (Name user) of
        Some _ \<Rightarrow> a\<lparr>Users := gm_del (Name user) (Users a)\<rparr>
      | None \<Rightarrow> a)"

text \<open>\<open>utils.ComparePassword(hash, plain)\<close>: no error from \<open>bcrypt.CompareHashAndPassword\<close> (the parameter).\<close>

definition ComparePassword :: "(string \<Rightarrow> string \<Rightarrow> go_error option) \<Rightarrow> string \<Rightarrow> string \<Rightarrow> bool" where
  "ComparePassword bcrypt hashedPwd plainPwd = (bcrypt hashedPwd plainPwd = None)"

definition etcdAuth_CheckConnect ::
  "(string \<Rightarrow> string \<Rightarrow> go_error option) \<Rightarrow> etcdAuth \<Rightarrow> string \<Rightarrow> string \<Rightarrow> string \<Rightarrow> bool" where
  "etcdAuth_CheckConnect bcrypt a clientID username password =
     (case etcdAuth_GetUser a username of
        None \<Rightarrow> False
      | Some user \<Rightarrow>
          if ClientID user \<noteq> [] \<and> ClientID user \<noteq> clientID then False
          else ComparePassword bcrypt (UserPassword user) password)"

definition etcdAuth_CheckACL :: "etcdAuth \<Rightarrow> string \<Rightarrow> string \<Rightarrow> string \<Rightarrow> string \<Rightarrow> string \<Rightarrow> bool" where
  "etcdAuth_CheckACL a action clientID username ip topic = True"

definition NewAuth :: "string \<Rightarrow> etcdAuth" where
  "NewAuth name = (if name = ''etcd'' then NewEtcdAuth else NewEtcdAuth)"

text \<open>Removal only looks at the name of the user it is given.\<close>

definition named_user :: "string \<Rightarrow> User" where
  "named_user n = \<lparr>ClientID = [], Name = n, Role = 0, UserPassword = [], UserCreateAt = 0\<rparr>"

lemma etcdAuth_RemoveUser_name: "etcdAuth_RemoveUser a u = etcdAuth_RemoveUser a (named_user (Name u))"
  by (simp add: etcdAuth_RemoveUser_def named_user_def split: option.splits)

interpretation user_table: config_table Name etcdAuth_Load map_of etcdAuth_AddOrUpdateUser
  "\<lambda>a n. etcdAuth_RemoveUser a (named_user n)" etcdAuth_GetUser
  by unfold_locales
    (auto simp: etcdAuth_Load_def etcdAuth_GetUser_def etcdAuth_AddOrUpdateUser_def etcdAuth_RemoveUser_def
      named_user_def split: option.splits)

section \<open>Properties\<close>

text \<open>
  Who may connect, after any history of user updates and removals: exactly a client that gives
  the name of a user whose last change was an update (or that was there before and never changed),
  whose password matches that user's hash, and whose identifier is the one the user is bound to, if
  it is bound to one.
\<close>

theorem CheckConnect_after_events:
  "etcdAuth_CheckConnect bcrypt
     (fold (apply_event etcdAuth_AddOrUpdateUser (\<lambda>a n. etcdAuth_RemoveUser a (named_user n))) es a)
     clientID username password \<longleftrightarrow>
   (\<exists>u. replayed Name es (etcdAuth_GetUser a) username = Some u \<and> ClientID u \<in> {[], clientID} \<and>
     bcrypt (UserPassword u) password = None)"
  unfolding etcdAuth_CheckConnect_def user_table.get_replay
  by (auto simp: ComparePassword_def split: option.splits)

end
