(* ===== verification/Bridge.thy ===== *)
theory Bridge
  imports ConfigTable TopicLevels
begin

text \<open>
  The Kafka bridge, \<open>src/bridge/\<close>: the table of delivery rules (topic filter to Kafka topic), the
  matching of published topics against the filters and the publication. The Kafka producer is
  outside the repository: \<open>accepts n\<close> says whether its input channel takes the n-th message within
  five seconds, and \<open>marshal\<close> is the JSON encoder.
\<close>

datatype 'j payload = BytesPayload bytes | OtherPayload 'j

record 'j Elements =
  El_ClientID :: string
  El_Username :: string
  El_Topic :: string
  El_Payload :: "'j payload"
  El_Timestamp :: int

record kafka =
  deliverMap :: "(string, string) gomap"

definition InitKafka :: kafka where
  "InitKafka = \<lparr>deliverMap = []\<rparr>"

fun bridge_match :: "string list \<Rightarrow> string list \<Rightarrow> bool" where
  "bridge_match subTopic topic =
     (if length subTopic = 0 then length topic = 0
      else if length topic = 0 then subTopic ! 0 = ''#''
      else if subTopic ! 0 = ''#'' then True
      else if subTopic ! 0 = ''+'' \<or> subTopic ! 0 = topic ! 0 then bridge_match (drop 1 subTopic) (drop 1 topic)
      else False)"

declare bridge_match.simps [simp del]

definition matchTopic :: "string \<Rightarrow> string \<Rightarrow> bool" where
  "matchTopic subTopic topic = bridge_match (go_split (CHR ''/'') subTopic) (go_split (CHR ''/'') topic)"

record ProducerMessage =
  PM_Topic :: string
  PM_Key :: bytes
  PM_Value :: bytes

text \<open>The loop of \<open>publish\<close>: the messages handed to the producer, and the timeout error.\<close>

fun kafka_publish_loop ::
  "(nat \<Rightarrow> bool) \<Rightarrow> string list \<Rightarrow> string \<Rightarrow> bytes \<Rightarrow> nat \<Rightarrow> ProducerMessage list \<times> go_error option" where
  "kafka_publish_loop accepts [] key payload n = ([], None)"
| "kafka_publish_loop accepts (topic # topics) key payload n =
     (if accepts n then
        (case kafka_publish_loop accepts topics key payload (n + 1) of (sent, err) \<Rightarrow>
           (\<lparr>PM_Topic = topic, PM_Key = bytes_of_string key, PM_Value = payload\<rparr> # sent, err))
      else ([], Some (Errorf ''write kafka timeout'')))"

definition kafka_publish ::
  "('j Elements \<Rightarrow> go_error + bytes) \<Rightarrow> (nat \<Rightarrow> bool) \<Rightarrow> string list \<Rightarrow> string \<Rightarrow> 'j Elements \<Rightarrow>
    ProducerMessage list \<times> go_error option" where
  "kafka_publish marshal accepts topics key msg =
     (case El_Payload msg of
        BytesPayload payload \<Rightarrow> kafka_publish_loop accepts topics key payload 0
      | OtherPayload _ \<Rightarrow>
          (case marshal msg of
             Inl err \<Rightarrow> ([], Some err)
           | Inr data \<Rightarrow> kafka_publish_loop accepts topics key data 0))"

text \<open>The Kafka topics of the rules whose filter matches.\<close>

definition matching_queues :: "kafka \<Rightarrow> string \<Rightarrow> string list" where
  "matching_queues k t = map snd (filter (\<lambda>(reg, topic). matchTopic reg t) (deliverMap k))"

definition kafka_Publish ::
  "('j Elements \<Rightarrow> go_error + bytes) \<Rightarrow> (nat \<Rightarrow> bool) \<Rightarrow> kafka \<Rightarrow> 'j Elements \<Rightarrow>
    ProducerMessage list \<times> go_error option" where
  "kafka_Publish marshal accepts k e =
     (let key = El_Topic e;
          topics = matching_queues k (El_Topic e)
      in kafka_publish marshal accepts topics key e)"

definition kafka_Load :: "kafka \<Rightarrow> (string, string) gomap option \<Rightarrow> kafka" where
  "kafka_Load k objs = (case objs of None \<Rightarrow> k | Some m \<Rightarrow> k\<lparr>deliverMap := m\<rparr>)"

definition kafka_AddOrUpdateObj :: "kafka \<Rightarrow> string \<Rightarrow> string \<Rightarrow> kafka" where
  "kafka_AddOrUpdateObj k key val = k\<lparr>deliverMap := gm_put key val (deliverMap k)\<rparr>"

definition kafka_RemoveObj :: "kafka \<Rightarrow> string \<Rightarrow> kafka" where
  "kafka_RemoveObj k key =
     (case gm_get (deliverMap k) key of
        Some _ \<Rightarrow> k\<lparr>deliverMap := gm_del key (deliverMap k)\<rparr>
      | None \<Rightarrow> k)"

definition kafka_GetObj :: "kafka \<Rightarrow> string \<Rightarrow> string option" where
  "kafka_GetObj k key = gm_get (deliverMap k) key"

definition NewBridgeMQ :: "string \<Rightarrow> kafka" where
  "NewBridgeMQ name = (if name = ''kafka'' then InitKafka else InitKafka)"

text \<open>A rule is a pair of filter and Kafka topic, keyed by the filter.\<close>

interpretation bridge_table: config_table fst kafka_Load "\<lambda>m k. map_option (Pair k) (map_of m k)"
  "\<lambda>t v. kafka_AddOrUpdateObj t (fst v) (snd v)" kafka_RemoveObj
  "\<lambda>t k. map_option (Pair k) (kafka_GetObj t k)"
  by unfold_locales
    (auto simp: kafka_Load_def kafka_AddOrUpdateObj_def kafka_RemoveObj_def kafka_GetObj_def
      split: option.splits)

section \<open>Matching\<close>

lemma bridge_match_simps [simp]:
  "bridge_match [] ts = (ts = [])"
  "bridge_match (f # fs) [] = (f = ''#'')"
  "bridge_match (f # fs) (t # ts) = (f = ''#'' \<or> (f = ''+'' \<or> f = t) \<and> bridge_match fs ts)"
  by (simp_all add: bridge_match.simps [of "[]"] bridge_match.simps [of "f # fs"])

lemma bridge_match_sub_match:
  "''#'' \<notin> set (butlast fs) \<Longrightarrow> bridge_match fs ts = sub_match fs ts"
  by (induction fs ts rule: sub_match.induct) (auto split: if_splits)

lemma kafka_publish_loop_sent:
  "\<exists>k \<le> length topics. kafka_publish_loop accepts topics key payload n =
     (map (\<lambda>t. \<lparr>PM_Topic = t, PM_Key = bytes_of_string key, PM_Value = payload\<rparr>) (take k topics),
      if k = length topics then None else Some (Errorf ''write kafka timeout'')) \<and>
     (\<forall>i < k. accepts (n + i)) \<and> (k < length topics \<longrightarrow> \<not> accepts (n + k))"
proof (induction topics arbitrary: n)
  case (Cons t ts)
  show ?case
  proof (cases "accepts n")
    case True
    obtain k where k: "k \<le> length ts" "kafka_publish_loop accepts ts key payload (n + 1) =
        (map (\<lambda>t. \<lparr>PM_Topic = t, PM_Key = bytes_of_string key, PM_Value = payload\<rparr>) (take k ts),
         if k = length ts then None else Some (Errorf ''write kafka timeout''))"
      "\<forall>i < k. accepts (n + 1 + i)" "k < length ts \<longrightarrow> \<not> accepts (n + 1 + k)"
      using Cons [of "n + 1"] by blast
    have "\<forall>i < Suc k. accepts (n + i)" using k(3) True by (auto simp: less_Suc_eq_0_disj)
    with True k show ?thesis by (intro exI [of _ "Suc k"]) auto
  qed (auto intro!: exI [of _ 0])
qed simp

section \<open>Properties\<close>

text \<open>
  The bridge and the broker agree on what a filter matches: on the levels of a filter in which
  \<open>#\<close> occurs only at the end, the bridge's matcher gives the same answer as the subscription tree's
  matching relation.
\<close>

theorem bridge_match_agrees:
  assumes "''#'' \<notin> set (butlast (go_split (CHR ''/'') f))"
  shows "matchTopic f t = sub_match (go_split (CHR ''/'') f) (go_split (CHR ''/'') t)"
  unfolding matchTopic_def using assms by (rule bridge_match_sub_match)

theorem bridge_match_agrees_witness:
  "matchTopic ''a/+/#'' ''a/b'' = sub_match [''a'', ''+'', ''#''] [''a'', ''b'']"
  using bridge_match_agrees [of "''a/+/#''" "''a/b''"] by simp

text \<open>
  Publishing to Kafka: the messages handed to the producer are, in order, one for each delivery
  rule whose filter matches the topic, all with the topic as key and the same payload, up to the
  first one the producer does not take in time; the call reports a timeout exactly when it stopped
  early.
\<close>

theorem kafka_Publish_matching_rules:
  assumes "El_Payload e = BytesPayload payload"
  shows "\<exists>k \<le> length (matching_queues m (El_Topic e)).
     kafka_Publish marshal accepts m e =
       (map (\<lambda>t. \<lparr>PM_Topic = t, PM_Key = bytes_of_string (El_Topic e), PM_Value = payload\<rparr>)
          (take k (matching_queues m (El_Topic e))),
        if k = length (matching_queues m (El_Topic e)) then None else Some (Errorf ''write kafka timeout'')) \<and>
     (\<forall>i < k. accepts i) \<and> (k < length (matching_queues m (El_Topic e)) \<longrightarrow> \<not> accepts k)"
  using kafka_publish_loop_sent [of "matching_queues m (El_Topic e)" accepts "El_Topic e" payload 0]
  by (simp add: kafka_Publish_def kafka_publish_def assms)

definition sample_elements :: "unit Elements" where
  "sample_elements = \<lparr>El_ClientID = ''c'', El_Username = ''u'', El_Topic = ''a/b'',
     El_Payload = BytesPayload [1], El_Timestamp = 0\<rparr>"

definition sample_bridge :: kafka where
  "sample_bridge = \<lparr>deliverMap = [(''a/#'', ''q''), (''b'', ''r'')]\<rparr>"

theorem kafka_Publish_matching_rules_witness:
  "kafka_Publish (\<lambda>_. Inl EOF) (\<lambda>_. True) sample_bridge sample_elements =
     ([\<lparr>PM_Topic = ''q'', PM_Key = bytes_of_string ''a/b'', PM_Value = [1]\<rparr>], None)"
proof -
  have e: "El_Payload sample_elements = BytesPayload [1]" "El_Topic sample_elements = ''a/b''"
    by (simp_all add: sample_elements_def)
  have q: "matching_queues sample_bridge ''a/b'' = [''q'']"
    by (simp add: matching_queues_def sample_bridge_def matchTopic_def)
  obtain k where k: "k \<le> 1" "k < 1 \<longrightarrow> \<not> True" "kafka_Publish (\<lambda>_. Inl EOF) (\<lambda>_. True) sample_bridge sample_elements =
      (map (\<lambda>t. \<lparr>PM_Topic = t, PM_Key = bytes_of_string ''a/b'', PM_Value = [1]\<rparr>) (take k [''q'']),
        if k = 1 then None else Some (Errorf ''write kafka timeout''))"
    using kafka_Publish_matching_rules [OF e(1), of sample_bridge "\<lambda>_. Inl EOF" "\<lambda>_. True"]
    unfolding e(2) q by auto
  then have "k = 1" using k(1,2) by auto
  with k(3) show ?thesis by simp
qed

end
