(* ===== verification/Tokens.thy ===== *)
theory Tokens
  imports Packets
begin

text \<open>
  The client library's tokens, \<open>src/mqtt/token.go\<close>: objects a caller waits on until a flow completes.
  The channel \<open>complete\<close> is only ever closed, so it is a flag; an operation that would block on it
  returns None. The two special tokens of \<open>src/mqtt/messageids.go\<close> complete at once and ignore
  errors.
\<close>

datatype token_kind =
    ConnectToken byte bool
  | PublishToken uint16
  | SubscribeToken "string list" "(string, byte) gomap" uint16
  | UnsubscribeToken uint16
  | DisconnectToken
  | DummyToken uint16
  | PlaceHolderToken uint16

record Token =
  tkind :: token_kind
  complete :: bool
  token_err :: "go_error option"

definition base_token :: "Token \<Rightarrow> bool" where
  "base_token t = (case tkind t of DummyToken _ \<Rightarrow> False | PlaceHolderToken _ \<Rightarrow> False | _ \<Rightarrow> True)"

definition newToken :: "byte \<Rightarrow> Token option" where
  "newToken tType =
     (let mk = (\<lambda>k. Some \<lparr>tkind = k, complete = False, token_err = None\<rparr>) in
      if tType = Connect then mk (ConnectToken 0 False)
      else if tType = Subscribe then mk (SubscribeToken [] [] 0)
      else if tType = Publish then mk (PublishToken 0)
      else if tType = Unsubscribe then mk (UnsubscribeToken 0)
      else if tType = Disconnect then mk DisconnectToken
      else None)"

text \<open>\<open>close\<close> happens at most once: the select finds the channel closed already.\<close>

definition flowComplete :: "Token \<Rightarrow> Token" where
  "flowComplete t = (if base_token t \<and> \<not> complete t then t\<lparr>complete := True\<rparr> else t)"

definition setError :: "Token \<Rightarrow> go_error option \<Rightarrow> Token" where
  "setError t e = (if base_token t then flowComplete (t\<lparr>token_err := e\<rparr>) else t)"

definition Token_Error :: "Token \<Rightarrow> go_error option" where
  "Token_Error t = (if base_token t then token_err t else None)"

definition Token_Wait :: "Token \<Rightarrow> bool option" where
  "Token_Wait t = (if base_token t \<and> \<not> complete t then None else Some True)"

text \<open>When both are ready the select may take either: \<open>timer_first\<close> is its choice.\<close>

definition Token_WaitTimeout :: "Token \<Rightarrow> bool \<Rightarrow> bool" where
  "Token_WaitTimeout t timer_first =
     (if base_token t then complete t \<and> \<not> timer_first else True)"

text \<open>\<open>Done\<close> returns a channel: what matters is whether it is closed.\<close>

definition Token_Done :: "Token \<Rightarrow> bool" where
  "Token_Done t = (if base_token t then complete t else True)"

lemma base_token_flowComplete [simp]: "base_token (flowComplete t) = base_token t"
  by (simp add: flowComplete_def base_token_def)

lemma tkind_flowComplete [simp]: "tkind (flowComplete t) = tkind t"
  by (simp add: flowComplete_def)

lemma tkind_setError [simp]: "tkind (setError t e) = tkind t"
  by (simp add: setError_def)

lemma Token_Done_flowComplete [simp]: "Token_Done (flowComplete t)"
  by (simp add: Token_Done_def flowComplete_def base_token_def)

lemma flowComplete_idem [simp]: "flowComplete (flowComplete t) = flowComplete t"
  by (simp add: flowComplete_def)

lemma Token_Error_flowComplete [simp]: "Token_Error (flowComplete t) = Token_Error t"
  by (simp add: Token_Error_def flowComplete_def base_token_def)

lemma Token_Error_setError: "base_token t \<Longrightarrow> Token_Error (setError t e) = e"
  by (simp add: Token_Error_def setError_def flowComplete_def base_token_def)

lemma Token_Done_setError [simp]: "Token_Done (setError t e)"
  by (simp add: Token_Done_def setError_def flowComplete_def base_token_def)

end
