(* ===== verification/MessageIds.thy ===== *)
theory MessageIds
  imports Tokens
begin

text \<open>
  Message identifiers, \<open>src/mqtt/messageids.go\<close>: the index of identifiers in use, each with the token
  waiting for it, and the search for a free identifier. Tokens are shared with the callers, so they
  live in a heap next to the index; an entry of the index is a pointer.
\<close>

type_synonym token_ptr = nat

record messageIds =
  index :: "(uint16, token_ptr) gomap"
  lastIssuedID :: uint16
  tokens :: "(token_ptr, Token) gomap"

abbreviation midMin :: uint16 where "midMin \<equiv> 1"
abbreviation midMax :: uint16 where "midMax \<equiv> 65535"

definition on_token :: "(Token \<Rightarrow> Token) \<Rightarrow> token_ptr \<Rightarrow> (token_ptr, Token) gomap \<Rightarrow> (token_ptr, Token) gomap" where
  "on_token f a h = (case gm_get h a of None \<Rightarrow> h | Some t \<Rightarrow> gm_put a (f t) h)"

text \<open>What \<open>cleanUp\<close> does to one token of the index, by its dynamic type.\<close>

definition lost_token :: "Token \<Rightarrow> Token" where
  "lost_token t =
     flowComplete
       (case tkind t of
          PublishToken _ \<Rightarrow> setError t (Some (Errorf ''connection lost before Publish completed''))
        | SubscribeToken _ _ _ \<Rightarrow> setError t (Some (Errorf ''connection lost before Subscribe completed''))
        | UnsubscribeToken _ \<Rightarrow> setError t (Some (Errorf ''connection lost before Unsubscribe completed''))
        | _ \<Rightarrow> t)"

definition cleanUp :: "messageIds \<Rightarrow> messageIds" where
  "cleanUp mids =
     mids\<lparr>tokens := fold (\<lambda>(mid, a). on_token lost_token a) (index mids) (tokens mids), index := []\<rparr>"

definition is_sub_token :: "Token \<Rightarrow> bool" where
  "is_sub_token t = (case tkind t of SubscribeToken _ _ _ \<Rightarrow> True | UnsubscribeToken _ \<Rightarrow> True | _ \<Rightarrow> False)"

definition lost_sub_token :: "Token \<Rightarrow> Token" where
  "lost_sub_token t =
     (case tkind t of
        SubscribeToken _ _ _ \<Rightarrow> setError t (Some (Errorf ''connection lost before Subscribe completed''))
      | UnsubscribeToken _ \<Rightarrow> setError t (Some (Errorf ''connection lost before Unsubscribe completed''))
      | _ \<Rightarrow> t)"

definition cleanUpSubscribe :: "messageIds \<Rightarrow> messageIds" where
  "cleanUpSubscribe mids =
     fold (\<lambda>(mid, a) m.
        case gm_get (tokens m) a of
          None \<Rightarrow> m
        | Some t \<Rightarrow>
            if is_sub_token t
            then m\<lparr>tokens := gm_put a (lost_sub_token t) (tokens m), index := gm_del mid (index m)\<rparr>
            else m)
      (index mids) mids"

definition freeID :: "messageIds \<Rightarrow> uint16 \<Rightarrow> messageIds" where
  "freeID mids i = mids\<lparr>index := gm_del i (index mids)\<rparr>"

definition claimID :: "messageIds \<Rightarrow> token_ptr \<Rightarrow> uint16 \<Rightarrow> messageIds" where
  "claimID mids t i =
     (let m1 = (case gm_get (index mids) i of
                  None \<Rightarrow> mids\<lparr>index := gm_put i t (index mids)\<rparr>
                | Some old \<Rightarrow>
                    mids\<lparr>tokens := on_token flowComplete old (tokens mids),
                         index := gm_put i t (index mids)\<rparr>)
      in if i > lastIssuedID m1 then m1\<lparr>lastIssuedID := i\<rparr> else m1)"

text \<open>
  The search loop of \<open>getID\<close>: \<open>i\<close> and \<open>looped\<close> are its variables, \<open>used\<close> the index. The result is the
  free identifier found, or 0. It always ends: without identifier 0 the counter runs from the last
  issued one up to 65535, wraps to 1 and comes back.
\<close>

definition getID_rank :: "uint16 \<Rightarrow> bool \<Rightarrow> uint16 \<Rightarrow> nat" where
  "getID_rank lst looped i =
     (if lst = 0 then (if i = 65535 then 65536 else 65535 - unat i)
      else if \<not> looped then 131072 + (65536 - unat i)
      else if i = lst then 65536 else unat (lst - i))"

lemma word16_wrap: "i + 1 = (0 :: uint16) \<longleftrightarrow> i = 65535"
proof -
  have "i + 1 = 0 \<longleftrightarrow> i = - 1" by (simp add: eq_neg_iff_add_eq_0)
  also have "(- 1 :: uint16) = 65535" by simp
  finally show ?thesis .
qed

lemma word16_bound: "unat (i :: uint16) < 65536"
  using unsigned_less [of i, where 'a = nat] by simp

lemma word16_max:
  assumes "i \<noteq> (65535 :: uint16)"
  shows "unat i < 65535"
proof -
  have "unat i \<noteq> unat (65535 :: uint16)" using assms unsigned_word_eqI by blast
  then show ?thesis using word16_bound [of i] by simp
qed

lemma word16_Suc:
  assumes "i \<noteq> (65535 :: uint16)"
  shows "unat (i + 1) = unat i + 1"
  using word16_max [OF assms] by (simp add: unat_word_ariths)

lemma word16_dist:
  assumes "i \<noteq> lst"
  shows "unat (lst - (i + 1) :: uint16) < unat (lst - i)"
proof -
  have "lst - i \<noteq> 0" using assms by simp
  then have "unat (lst - i - 1) < unat (lst - i)" by (simp add: unat_minus_one word_neq_0_conv unat_gt_0)
  then show ?thesis by (simp add: algebra_simps)
qed

lemma getID_rank_decreases:
  assumes "i1 = i + 1" "(i2, looped2) = (if i1 = 0 then (i1 + 1, True) else (i1, looped))"
    "\<not> (looped2 \<and> i2 = lst \<or> lst = 0 \<and> i2 = midMax)"
  shows "getID_rank lst looped2 i2 < getID_rank lst looped i"
proof (cases "i = 65535")
  case True
  then have i2: "i2 = 1" "looped2" using assms by auto
  have "unat (lst - 1) < 65536" by (rule word16_bound)
  moreover have "unat (lst - 1) < unat (lst - 65535)" if "lst \<noteq> 0" "lst \<noteq> 65535"
  proof -
    have e: "lst - 65535 = lst + 1" by simp
    have "unat (lst - 1) < unat lst" using that(1) by (simp add: unat_minus_one unat_gt_0)
    also have "\<dots> < unat (lst + 1)" using word16_Suc [OF that(2)] by simp
    finally show ?thesis by (simp only: e)
  qed
  ultimately show ?thesis
    using assms(3) i2 True by (auto simp: getID_rank_def)
next
  case False
  then have i2: "i2 = i + 1" "looped2 = looped" using assms by (auto simp: word16_wrap)
  have "unat i < 65535" by (rule word16_max [OF False])
  then show ?thesis
    using assms(3) i2 word16_Suc [OF False] word16_dist [of i lst] word16_bound [of "lst - (i + 1)"]
    by (auto simp: getID_rank_def)
qed

function getID_loop :: "(uint16, token_ptr) gomap \<Rightarrow> uint16 \<Rightarrow> bool \<Rightarrow> uint16 \<Rightarrow> uint16" where
  "getID_loop used lst looped i =
     (let i1 = i + 1;
          (i2, looped2) = (if i1 = 0 then (i1 + 1, True) else (i1, looped))
      in if gm_get used i2 = None then i2
         else if looped2 \<and> i2 = lst \<or> lst = 0 \<and> i2 = midMax then 0
         else getID_loop used lst looped2 i2)"
  by pat_completeness auto
termination
  by (relation "measure (\<lambda>(used, lst, looped, i). getID_rank lst looped i)")
    (auto intro: getID_rank_decreases)

declare getID_loop.simps [simp del]

definition getID :: "messageIds \<Rightarrow> token_ptr \<Rightarrow> messageIds \<times> uint16" where
  "getID mids t =
     (let i = getID_loop (index mids) (lastIssuedID mids) False (lastIssuedID mids) in
      if i = 0 then (mids, 0)
      else (mids\<lparr>index := gm_put i t (index mids), lastIssuedID := i\<rparr>, i))"

text \<open>A pointer into the heap, or a fresh dummy token.\<close>

definition getToken :: "messageIds \<Rightarrow> uint16 \<Rightarrow> token_ptr + Token" where
  "getToken mids i =
     (case gm_get (index mids) i of
        Some a \<Rightarrow> Inl a
      | None \<Rightarrow> Inr \<lparr>tkind = DummyToken i, complete = False, token_err = None\<rparr>)"

section \<open>The search finds a free identifier whenever there is one\<close>

lemma getID_loop_step:
  "getID_loop used lst looped i =
     (let (j, looped') = (if i = 65535 then (1, True) else (i + 1, looped)) in
      if gm_get used j = None then j
      else if looped' \<and> j = lst \<or> lst = 0 \<and> j = midMax then 0
      else getID_loop used lst looped' j)"
  unfolding word16_wrap [of i, symmetric]
  by (subst getID_loop.simps, cases "i + 1 = 0") (simp_all add: Let_def)

lemma getID_loop_induct:
  fixes P :: "(uint16, token_ptr) gomap \<Rightarrow> uint16 \<Rightarrow> bool \<Rightarrow> uint16 \<Rightarrow> bool"
  assumes "\<And>used lst looped i.
    (\<And>j looped'. (j, looped') = (if i = 65535 then (1, True) else (i + 1, looped)) \<Longrightarrow>
       gm_get used j \<noteq> None \<Longrightarrow> \<not> (looped' \<and> j = lst \<or> lst = 0 \<and> j = midMax) \<Longrightarrow> P used lst looped' j) \<Longrightarrow>
    P used lst looped i"
  shows "P used lst looped i"
proof (induction used lst looped i rule: getID_loop.induct)
  case (1 used lst looped i)
  show ?case
  proof (rule assms)
    fix j looped'
    assume *: "(j, looped') = (if i = 65535 then (1, True) else (i + 1, looped))"
      "gm_get used j \<noteq> None" "\<not> (looped' \<and> j = lst \<or> lst = 0 \<and> j = midMax)"
    have "(j, looped') = (if i + 1 = 0 then (i + 1 + 1, True) else (i + 1, looped))"
      using *(1) unfolding word16_wrap [of i, symmetric] by (cases "i + 1 = 0") simp_all
    with * show "P used lst looped' j" by (intro 1) auto
  qed
qed

lemma getID_loop_free: "getID_loop used lst looped i \<noteq> 0 \<Longrightarrow> gm_get used (getID_loop used lst looped i) = None"
proof (induction used lst looped i rule: getID_loop_induct)
  case (1 used lst looped i)
  obtain j looped' where j: "(j, looped') = (if i = 65535 then (1, True) else (i + 1, looped))" by (metis surj_pair)
  have step: "getID_loop used lst looped i = (if gm_get used j = None then j
      else if looped' \<and> j = lst \<or> lst = 0 \<and> j = midMax then 0 else getID_loop used lst looped' j)"
    unfolding getID_loop_step [of used lst looped i] j [symmetric] by simp
  show ?case
  proof (cases "gm_get used j = None \<or> looped' \<and> j = lst \<or> lst = 0 \<and> j = midMax")
    case True
    then show ?thesis using "1.prems" step by auto
  next
    case False
    then have "getID_loop used lst looped i = getID_loop used lst looped' j" using step by auto
    then show ?thesis using 1 j False by auto
  qed
qed

text \<open>The identifiers still ahead of the search.\<close>

definition ahead :: "uint16 \<Rightarrow> bool \<Rightarrow> uint16 \<Rightarrow> uint16 \<Rightarrow> bool" where
  "ahead lst looped i j \<longleftrightarrow> unat j \<noteq> 0 \<and>
     (if lst = 0 then unat i < unat j
      else if \<not> looped then unat i < unat j \<or> unat j \<le> unat lst
      else unat i < unat j \<and> unat j \<le> unat lst)"

lemma ahead_step:
  assumes "ahead lst looped i k" "(j, looped') = (if i = 65535 then (1, True) else (i + 1, looped))"
    "k \<noteq> j"
  shows "ahead lst looped' j k \<and> \<not> (looped' \<and> j = lst \<or> lst = 0 \<and> j = midMax)"
proof -
  have kj: "unat k \<noteq> unat j" using assms(3) unsigned_word_eqI by blast
  have b: "unat k < 65536" "unat lst < 65536" by (rule word16_bound)+
  have z: "lst = 0 \<longleftrightarrow> unat lst = 0" by (simp add: unat_eq_0)
  show ?thesis
  proof (cases "i = 65535")
    case True
    then have j: "j = 1" "looped'" using assms(2) by auto
    with assms(1) True b kj z show ?thesis by (auto simp: ahead_def split: if_splits)
  next
    case False
    then have j: "unat j = unat i + 1" "looped' = looped" using assms(2) word16_Suc [OF False] by auto
    have m: "j = midMax \<longleftrightarrow> unat j = 65535"
      using word16_max [of j] by (cases "j = midMax") auto
    have l: "j = lst \<longleftrightarrow> unat j = unat lst" using unsigned_word_eqI [of j lst] by auto
    show ?thesis unfolding ahead_def m l using assms(1) j b kj z by (auto simp: ahead_def)
  qed
qed

lemma getID_loop_zero: "getID_loop used lst looped i = 0 \<Longrightarrow> ahead lst looped i k \<Longrightarrow> gm_get used k \<noteq> None"
proof (induction used lst looped i rule: getID_loop_induct)
  case (1 used lst looped i)
  obtain j looped' where j: "(j, looped') = (if i = 65535 then (1, True) else (i + 1, looped))" by (metis surj_pair)
  have "j \<noteq> 0" using j word16_wrap [of i] by (auto split: if_splits)
  then have used: "gm_get used j \<noteq> None"
    using "1.prems"(1) unfolding getID_loop_step [of used lst looped i] j [symmetric] by (auto split: if_splits)
  show ?case
  proof (cases "k = j")
    case False
    note a = ahead_step [OF "1.prems"(2) j False]
    then have "getID_loop used lst looped' j = 0"
      using "1.prems"(1) used unfolding getID_loop_step [of used lst looped i] j [symmetric] by auto
    with 1 j used a show ?thesis by blast
  qed (use used in simp)
qed

lemma getID_zero: "snd (getID mids t) = 0 \<longleftrightarrow> (\<forall>j. j \<noteq> 0 \<longrightarrow> gm_get (index mids) j \<noteq> None)"
proof -
  let ?l = "lastIssuedID mids"
  let ?r = "getID_loop (index mids) ?l False ?l"
  have "ahead ?l False ?l j" if "j \<noteq> 0" for j
    using that by (auto simp: ahead_def unat_eq_0 unat_gt_0 word_neq_0_conv)
  then have "?r = 0 \<Longrightarrow> j \<noteq> 0 \<Longrightarrow> gm_get (index mids) j \<noteq> None" for j
    using getID_loop_zero by blast
  moreover have "?r \<noteq> 0 \<Longrightarrow> gm_get (index mids) ?r = None" by (rule getID_loop_free)
  ultimately show ?thesis by (auto simp: getID_def Let_def)
qed

section \<open>Losing the connection\<close>

lemma tkind_lost_token [simp]: "tkind (lost_token t) = tkind t"
  by (simp add: lost_token_def split: token_kind.splits)

lemma setError_again: "setError (setError t e) e = setError t e" "setError (flowComplete t) e = setError t e"
  "flowComplete (setError t e) = setError t e"
  by (simp_all add: setError_def flowComplete_def base_token_def)

lemma lost_token_idem: "lost_token (lost_token t) = lost_token t"
  by (cases "tkind t") (simp_all add: lost_token_def setError_again)

lemma gm_get_on_token:
  "gm_get (on_token f a h) b = (if b = a then map_option f (gm_get h b) else gm_get h b)"
  by (auto simp: on_token_def split: option.splits)

lemma fold_on_token:
  assumes "\<And>t. f (f t) = f t"
  shows "gm_get (fold (\<lambda>(mid, a). on_token f a) es h) b =
    (if b \<in> snd ` set es then map_option f (gm_get h b) else gm_get h b)"
proof (induction es arbitrary: h)
  case (Cons e es)
  obtain mid a where e: "e = (mid, a)" by (cases e)
  show ?case using assms by (auto simp: Cons e gm_get_on_token option.map_comp comp_def)
qed simp

lemma lost_sub_token_idem: "lost_sub_token (lost_sub_token t) = lost_sub_token t"
  by (cases "tkind t") (simp_all add: lost_sub_token_def setError_again)

lemma is_sub_lost_sub_token [simp]: "is_sub_token (lost_sub_token t) = is_sub_token t"
  by (cases "tkind t") (simp_all add: lost_sub_token_def is_sub_token_def)

definition sub_entry :: "messageIds \<Rightarrow> token_ptr \<Rightarrow> bool" where
  "sub_entry m a \<longleftrightarrow> (case gm_get (tokens m) a of None \<Rightarrow> False | Some t \<Rightarrow> is_sub_token t)"

definition drop_sub :: "uint16 \<times> token_ptr \<Rightarrow> messageIds \<Rightarrow> messageIds" where
  "drop_sub e m =
     (case gm_get (tokens m) (snd e) of
        None \<Rightarrow> m
      | Some t \<Rightarrow>
          if is_sub_token t
          then m\<lparr>tokens := gm_put (snd e) (lost_sub_token t) (tokens m), index := gm_del (fst e) (index m)\<rparr>
          else m)"

lemma cleanUpSubscribe_drop: "cleanUpSubscribe m = fold drop_sub (index m) m"
  unfolding cleanUpSubscribe_def by (rule fold_cong) (auto simp: drop_sub_def fun_eq_iff split: option.splits)

lemma drop_sub_simps:
  "gm_get (index (drop_sub e m)) i =
     (if i = fst e \<and> sub_entry m (snd e) then None else gm_get (index m) i)"
  "gm_get (tokens (drop_sub e m)) a =
     (if a = snd e \<and> sub_entry m a then map_option lost_sub_token (gm_get (tokens m) a) else gm_get (tokens m) a)"
  "sub_entry (drop_sub e m) a = sub_entry m a"
  by (auto simp: drop_sub_def sub_entry_def split: option.splits if_splits)

lemma fold_drop_sub:
  "gm_get (index (fold drop_sub es m)) i =
     (if \<exists>a. (i, a) \<in> set es \<and> sub_entry m a then None else gm_get (index m) i)"
  "gm_get (tokens (fold drop_sub es m)) a =
     (if a \<in> snd ` set es \<and> sub_entry m a then map_option lost_sub_token (gm_get (tokens m) a)
      else gm_get (tokens m) a)"
proof (induction es arbitrary: m)
  case (Cons e es)
  { case 1
    show ?case by (cases e) (auto simp: Cons drop_sub_simps)
  next
    case 2
    show ?case
      by (cases e) (auto simp: Cons drop_sub_simps option.map_comp comp_def lost_sub_token_idem) }
qed simp_all

section \<open>Properties\<close>

text \<open>
  Issuing a message identifier never reuses one in flight and never misses a free one: \<open>getID\<close>
  returns 0 and changes nothing exactly when all identifiers 1 to 65535 are in use; otherwise it
  returns a non-zero identifier that was free, records the token under it, and leaves every other
  entry as it was. The search always ends.
\<close>

theorem getID_fresh:
  assumes "getID mids t = (mids', i)"
  shows "if \<forall>j. j \<noteq> 0 \<longrightarrow> gm_get (index mids) j \<noteq> None then i = 0 \<and> mids' = mids
    else i \<noteq> 0 \<and> gm_get (index mids) i = None \<and> gm_get (index mids') = (gm_get (index mids))(i \<mapsto> t) \<and>
      lastIssuedID mids' = i \<and> tokens mids' = tokens mids"
proof -
  have z: "i = 0 \<longleftrightarrow> (\<forall>j. j \<noteq> 0 \<longrightarrow> gm_get (index mids) j \<noteq> None)"
    using getID_zero [of mids t] assms by simp
  have "i \<noteq> 0 \<Longrightarrow> gm_get (index mids) i = None"
    using assms getID_loop_free [of "index mids" "lastIssuedID mids" False "lastIssuedID mids"]
    by (auto simp: getID_def Let_def split: if_splits)
  with assms z show ?thesis
    by (auto simp: getID_def Let_def fun_eq_iff split: if_splits)
qed

theorem getID_fresh_witness:
  "\<exists>mids'. getID \<lparr>index = [(65535, 4), (1, 5)], lastIssuedID = 65534, tokens = []\<rparr> 9 = (mids', 2) \<and>
     gm_get (index mids') 2 = Some 9 \<and> gm_get (index mids') 1 = Some 5"
proof -
  let ?m = "\<lparr>index = [(65535, 4), (1, 5)], lastIssuedID = 65534, tokens = []\<rparr>"
  obtain mids' i where g: "getID ?m 9 = (mids', i)" by fastforce
  have i: "i = 2"
    using g by (simp add: getID_def getID_loop_step [of _ 65534] Let_def split: if_splits)
  have "gm_get (index ?m) 2 = None" "(2 :: uint16) \<noteq> 0" by simp_all
  then have "\<not> (\<forall>j. j \<noteq> 0 \<longrightarrow> gm_get (index ?m) j \<noteq> None)" by blast
  with getID_fresh [OF g] have "gm_get (index mids') = (gm_get (index ?m))(i \<mapsto> 9)" by presburger
  with i g show ?thesis by simp
qed

text \<open>
  When the connection is lost for good, \<open>cleanUp\<close> leaves no identifier in use and no waiter
  hanging: every token of the index is completed, those of Publish, Subscribe and Unsubscribe calls
  carry an error, and tokens outside the index are untouched.
\<close>

theorem cleanUp_completes_all:
  "index (cleanUp mids) = [] \<and>
   gm_get (tokens (cleanUp mids)) a =
     (if a \<in> snd ` set (index mids) then map_option lost_token (gm_get (tokens mids) a)
      else gm_get (tokens mids) a) \<and>
   Token_Done (lost_token t) \<and>
   (case tkind t of PublishToken _ \<Rightarrow> Token_Error (lost_token t) \<noteq> None
     | SubscribeToken _ _ _ \<Rightarrow> Token_Error (lost_token t) \<noteq> None
     | UnsubscribeToken _ \<Rightarrow> Token_Error (lost_token t) \<noteq> None
     | _ \<Rightarrow> Token_Error (lost_token t) = Token_Error t)"
proof (intro conjI)
  show "gm_get (tokens (cleanUp mids)) a =
     (if a \<in> snd ` set (index mids) then map_option lost_token (gm_get (tokens mids) a)
      else gm_get (tokens mids) a)"
    by (simp add: cleanUp_def fold_on_token lost_token_idem)
  show "case tkind t of PublishToken _ \<Rightarrow> Token_Error (lost_token t) \<noteq> None
     | SubscribeToken _ _ _ \<Rightarrow> Token_Error (lost_token t) \<noteq> None
     | UnsubscribeToken _ \<Rightarrow> Token_Error (lost_token t) \<noteq> None
     | _ \<Rightarrow> Token_Error (lost_token t) = Token_Error t"
    by (cases "tkind t") (simp_all add: lost_token_def Token_Error_setError base_token_def)
qed (simp_all add: cleanUp_def lost_token_def)

text \<open>
  When a reconnecting client will not resend its subscriptions, \<open>cleanUpSubscribe\<close> frees exactly
  the identifiers of pending Subscribe and Unsubscribe calls and fails exactly their tokens;
  in-flight publications keep their identifiers and tokens.
\<close>

theorem cleanUpSubscribe_only_subs:
  "gm_get (index (cleanUpSubscribe mids)) i =
     (if \<exists>a. (i, a) \<in> set (index mids) \<and> sub_entry mids a then None else gm_get (index mids) i) \<and>
   gm_get (tokens (cleanUpSubscribe mids)) a =
     (if a \<in> snd ` set (index mids) \<and> sub_entry mids a
      then map_option lost_sub_token (gm_get (tokens mids) a) else gm_get (tokens mids) a)"
  by (simp add: cleanUpSubscribe_drop fold_drop_sub)

end
