(* ===== verification/Stores.thy ===== *)
theory Stores
  imports PacketCodec
begin

text \<open>
  The message stores of the client (\<open>mqtt/store.go\<close>, \<open>mqtt/memstore.go\<close>,
  \<open>mqtt/memstore_ordered.go\<close>, \<open>mqtt/filestore.go\<close>): keys of stored messages, which packets are
  persisted and which remove what was persisted, and the three stores.

  A call that panics is \<^const>\<open>None\<close>. A nil packet is \<^const>\<open>None\<close> of the packet argument. \<open>time.Now()\<close>
  is the argument \<open>now\<close>. The file store keeps the files of its directory by name; calls of the
  operating system other than a test for existence are taken to succeed.

  The locale \<open>message_store\<close> is the contract of the interface \<open>Store\<close>: what the store holds is a
  map from keys to packets, \<open>Put\<close> and \<open>Del\<close> change it at one key, \<open>Get\<close> reads it and \<open>All\<close> lists
  its domain. Inside the locale the exchanges in progress of a session are shown to be what the
  store holds after any sequence of packets sent and received.
\<close>

section \<open>Keys\<close>

abbreviation inboundPrefix :: string where "inboundPrefix \<equiv> ''i.''"
abbreviation outboundPrefix :: string where "outboundPrefix \<equiv> ''o.''"

definition is_digit :: "char \<Rightarrow> bool" where
  "is_digit c \<longleftrightarrow> 48 \<le> (of_char c :: nat) \<and> (of_char c :: nat) \<le> 57"

text \<open>\<open>strconv.ParseUint(s, 10, 16)\<close>, \<^const>\<open>None\<close> for its syntax and range errors.\<close>

definition go_ParseUint16 :: "string \<Rightarrow> uint16 option" where
  "go_ParseUint16 s =
     (if s \<noteq> [] \<and> list_all is_digit s \<and> go_atoi s < 65536 then Some (word_of_nat (go_atoi s)) else None)"

definition mIDFromKey :: "string \<Rightarrow> uint16 option" where
  "mIDFromKey key = (if length key < 2 then None else go_ParseUint16 (drop 2 key))"

definition isKeyOutbound :: "string \<Rightarrow> bool option" where
  "isKeyOutbound key = (if length key < 2 then None else Some (take 2 key = outboundPrefix))"

definition isKeyInbound :: "string \<Rightarrow> bool option" where
  "isKeyInbound key = (if length key < 2 then None else Some (take 2 key = inboundPrefix))"

definition inboundKeyFromMID :: "uint16 \<Rightarrow> string" where
  "inboundKeyFromMID mid = inboundPrefix @ go_itoa (unat mid)"

definition outboundKeyFromMID :: "uint16 \<Rightarrow> string" where
  "outboundKeyFromMID mid = outboundPrefix @ go_itoa (unat mid)"

section \<open>What is persisted\<close>

text \<open>The two functions over the operations \<open>Put\<close> and \<open>Del\<close> of the store they are given.\<close>

definition persistOutbound ::
  "('s \<Rightarrow> string \<Rightarrow> ControlPacket option \<Rightarrow> 's option) \<Rightarrow> ('s \<Rightarrow> string \<Rightarrow> 's option) \<Rightarrow>
   's \<Rightarrow> ControlPacket \<Rightarrow> 's option" where
  "persistOutbound Put Del s m =
     (let qos = Details_Qos (ControlPacket_Details m); mid = Details_MessageID (ControlPacket_Details m) in
      if qos = 0 then
        (case m of
           CP_Puback _ \<Rightarrow> Del s (inboundKeyFromMID mid)
         | CP_Pubcomp _ \<Rightarrow> Del s (inboundKeyFromMID mid)
         | _ \<Rightarrow> Some s)
      else if qos = 1 then
        (case m of
           CP_Publish _ \<Rightarrow> Put s (outboundKeyFromMID mid) (Some m)
         | CP_Pubrel _ \<Rightarrow> Put s (outboundKeyFromMID mid) (Some m)
         | CP_Subscribe _ \<Rightarrow> Put s (outboundKeyFromMID mid) (Some m)
         | CP_Unsubscribe _ \<Rightarrow> Put s (outboundKeyFromMID mid) (Some m)
         | _ \<Rightarrow> Some s)
      else if qos = 2 then
        (case m of
           CP_Publish _ \<Rightarrow> Put s (outboundKeyFromMID mid) (Some m)
         | _ \<Rightarrow> Some s)
      else Some s)"

definition persistInbound ::
  "('s \<Rightarrow> string \<Rightarrow> ControlPacket option \<Rightarrow> 's option) \<Rightarrow> ('s \<Rightarrow> string \<Rightarrow> 's option) \<Rightarrow>
   's \<Rightarrow> ControlPacket \<Rightarrow> 's option" where
  "persistInbound Put Del s m =
     (let qos = Details_Qos (ControlPacket_Details m); mid = Details_MessageID (ControlPacket_Details m) in
      if qos = 0 then
        (case m of
           CP_Puback _ \<Rightarrow> Del s (outboundKeyFromMID mid)
         | CP_Suback _ \<Rightarrow> Del s (outboundKeyFromMID mid)
         | CP_Unsuback _ \<Rightarrow> Del s (outboundKeyFromMID mid)
         | CP_Pubcomp _ \<Rightarrow> Del s (outboundKeyFromMID mid)
         | _ \<Rightarrow> Some s)
      else if qos = 1 then
        (case m of
           CP_Publish _ \<Rightarrow> Put s (inboundKeyFromMID mid) (Some m)
         | CP_Pubrel _ \<Rightarrow> Put s (inboundKeyFromMID mid) (Some m)
         | _ \<Rightarrow> Some s)
      else if qos = 2 then
        (case m of
           CP_Publish _ \<Rightarrow> Put s (inboundKeyFromMID mid) (Some m)
         | _ \<Rightarrow> Some s)
      else Some s)"

section \<open>The in-memory store\<close>

record MemoryStore =
  ms_messages :: "(string, ControlPacket option) gomap"
  ms_opened :: bool

definition NewMemoryStore :: MemoryStore where
  "NewMemoryStore = \<lparr>ms_messages = [], ms_opened = False\<rparr>"

definition MemoryStore_Open :: "MemoryStore \<Rightarrow> MemoryStore" where
  "MemoryStore_Open store = store\<lparr>ms_opened := True\<rparr>"

definition MemoryStore_Put :: "MemoryStore \<Rightarrow> string \<Rightarrow> ControlPacket option \<Rightarrow> MemoryStore" where
  "MemoryStore_Put store key m =
     (if \<not> ms_opened store then store else store\<lparr>ms_messages := gm_put key m (ms_messages store)\<rparr>)"

text \<open>Indexing a map with an absent key gives nil.\<close>

definition MemoryStore_Get :: "MemoryStore \<Rightarrow> string \<Rightarrow> ControlPacket option option" where
  "MemoryStore_Get store key =
     (if \<not> ms_opened store then Some None
      else case mIDFromKey key of
        None \<Rightarrow> None
      | Some mid \<Rightarrow> Some (Option.bind (gm_get (ms_messages store) key) id))"

definition MemoryStore_All :: "MemoryStore \<Rightarrow> string list" where
  "MemoryStore_All store = (if \<not> ms_opened store then [] else map fst (ms_messages store))"

definition MemoryStore_Del :: "MemoryStore \<Rightarrow> string \<Rightarrow> MemoryStore option" where
  "MemoryStore_Del store key =
     (if \<not> ms_opened store then Some store
      else case mIDFromKey key of
        None \<Rightarrow> None
      | Some mid \<Rightarrow>
          (case Option.bind (gm_get (ms_messages store) key) id of
             None \<Rightarrow> Some store
           | Some m \<Rightarrow> Some (store\<lparr>ms_messages := gm_del key (ms_messages store)\<rparr>)))"

definition MemoryStore_Close :: "MemoryStore \<Rightarrow> MemoryStore" where
  "MemoryStore_Close store = (if \<not> ms_opened store then store else store\<lparr>ms_opened := False\<rparr>)"

definition MemoryStore_Reset :: "MemoryStore \<Rightarrow> MemoryStore" where
  "MemoryStore_Reset store = store\<lparr>ms_messages := []\<rparr>"

section \<open>The ordered in-memory store\<close>

record storedMessage =
  sm_ts :: int
  sm_msg :: "ControlPacket option"

record OrderedMemoryStore =
  oms_messages :: "(string, storedMessage) gomap"
  oms_opened :: bool

definition NewOrderedMemoryStore :: OrderedMemoryStore where
  "NewOrderedMemoryStore = \<lparr>oms_messages = [], oms_opened = False\<rparr>"

definition OrderedMemoryStore_Open :: "OrderedMemoryStore \<Rightarrow> OrderedMemoryStore" where
  "OrderedMemoryStore_Open store = store\<lparr>oms_opened := True\<rparr>"

definition OrderedMemoryStore_Put ::
  "int \<Rightarrow> OrderedMemoryStore \<Rightarrow> string \<Rightarrow> ControlPacket option \<Rightarrow> OrderedMemoryStore" where
  "OrderedMemoryStore_Put now store key m =
     (if \<not> oms_opened store then store
      else store\<lparr>oms_messages := gm_put key \<lparr>sm_ts = now, sm_msg = m\<rparr> (oms_messages store)\<rparr>)"

definition OrderedMemoryStore_Get :: "OrderedMemoryStore \<Rightarrow> string \<Rightarrow> ControlPacket option option" where
  "OrderedMemoryStore_Get store key =
     (if \<not> oms_opened store then Some None
      else case mIDFromKey key of
        None \<Rightarrow> None
      | Some mid \<Rightarrow> Some (Option.bind (gm_get (oms_messages store) key) sm_msg))"

definition OrderedMemoryStore_All :: "OrderedMemoryStore \<Rightarrow> string list" where
  "OrderedMemoryStore_All store =
     (if \<not> oms_opened store then []
      else map snd (sort_key fst (map (\<lambda>(k, v). (sm_ts v, k)) (oms_messages store))))"

definition OrderedMemoryStore_Del :: "OrderedMemoryStore \<Rightarrow> string \<Rightarrow> OrderedMemoryStore option" where
  "OrderedMemoryStore_Del store key =
     (if \<not> oms_opened store then Some store
      else case mIDFromKey key of
        None \<Rightarrow> None
      | Some mid \<Rightarrow>
          (case gm_get (oms_messages store) key of
             None \<Rightarrow> Some store
           | Some _ \<Rightarrow> Some (store\<lparr>oms_messages := gm_del key (oms_messages store)\<rparr>)))"

definition OrderedMemoryStore_Close :: "OrderedMemoryStore \<Rightarrow> OrderedMemoryStore" where
  "OrderedMemoryStore_Close store = (if \<not> oms_opened store then store else store\<lparr>oms_opened := False\<rparr>)"

definition OrderedMemoryStore_Reset :: "OrderedMemoryStore \<Rightarrow> OrderedMemoryStore" where
  "OrderedMemoryStore_Reset store = store\<lparr>oms_messages := []\<rparr>"

section \<open>The file store\<close>

abbreviation msgExt :: string where "msgExt \<equiv> ''.msg''"
abbreviation tmpExt :: string where "tmpExt \<equiv> ''.tmp''"
abbreviation corruptExt :: string where "corruptExt \<equiv> ''.CORRUPT''"

record stored_file =
  content :: bytes
  ModTime :: int

text \<open>\<open>files\<close> are the files of \<open>directory\<close>, by name.\<close>

record FileStore =
  directory :: string
  fs_opened :: bool
  files :: "(string, stored_file) gomap"

definition NewFileStore :: "string \<Rightarrow> (string, stored_file) gomap \<Rightarrow> FileStore" where
  "NewFileStore dir fs = \<lparr>directory = dir, fs_opened = False, files = fs\<rparr>"

definition FileStore_Open :: "string \<Rightarrow> FileStore \<Rightarrow> FileStore" where
  "FileStore_Open cwd store =
     store\<lparr>directory := (if directory store = [] then cwd else directory store), fs_opened := True\<rparr>"

definition FileStore_Close :: "FileStore \<Rightarrow> FileStore" where
  "FileStore_Close store = store\<lparr>fs_opened := False\<rparr>"

definition fullpath :: "string \<Rightarrow> string" where
  "fullpath key = key @ msgExt"

definition tmppath :: "string \<Rightarrow> string" where
  "tmppath key = key @ tmpExt"

definition corruptpath :: "string \<Rightarrow> string" where
  "corruptpath key = key @ corruptExt"

definition file_exists :: "(string, stored_file) gomap \<Rightarrow> string \<Rightarrow> bool" where
  "file_exists fs name = (gm_get fs name \<noteq> None)"

text \<open>\<open>os.Rename\<close>: the file keeps its content and time and replaces one of the new name.\<close>

definition os_Rename :: "(string, stored_file) gomap \<Rightarrow> string \<Rightarrow> string \<Rightarrow> (string, stored_file) gomap" where
  "os_Rename fs old new =
     (case gm_get fs old of None \<Rightarrow> fs | Some f \<Rightarrow> gm_put new f (gm_del old fs))"

definition file_write ::
  "int \<Rightarrow> (string, stored_file) gomap \<Rightarrow> string \<Rightarrow> ControlPacket option \<Rightarrow> (string, stored_file) gomap option" where
  "file_write now fs key m =
     (case Option.bind m ControlPacket_Write of
        None \<Rightarrow> None
      | Some (_, bs) \<Rightarrow>
          Some (os_Rename (gm_put (tmppath key) \<lparr>content = bs, ModTime = now\<rparr> fs)
                  (tmppath key) (fullpath key)))"

definition FileStore_Put ::
  "int \<Rightarrow> FileStore \<Rightarrow> string \<Rightarrow> ControlPacket option \<Rightarrow> FileStore option" where
  "FileStore_Put now store key m =
     (if \<not> fs_opened store then Some store
      else map_option (\<lambda>fs. store\<lparr>files := fs\<rparr>) (file_write now (files store) key m))"

definition FileStore_Get :: "FileStore \<Rightarrow> string \<Rightarrow> FileStore \<times> ControlPacket option" where
  "FileStore_Get store key =
     (if \<not> fs_opened store then (store, None)
      else case gm_get (files store) (fullpath key) of
        None \<Rightarrow> (store, None)
      | Some f \<Rightarrow>
          (case ReadPacket (content f) of
             (_, Some rerr, _) \<Rightarrow>
               (store\<lparr>files := os_Rename (files store) (fullpath key) (corruptpath key)\<rparr>, None)
           | (p, None, _) \<Rightarrow> (store, p)))"

definition has_msgExt :: "string \<Rightarrow> bool" where
  "has_msgExt name \<longleftrightarrow> \<not> (length name < length msgExt \<or> drop (length name - length msgExt) name \<noteq> msgExt)"

definition FileStore_all :: "FileStore \<Rightarrow> string list" where
  "FileStore_all store =
     (if \<not> fs_opened store then []
      else map (\<lambda>(n, f). take (length n - 4) n)
             (filter (\<lambda>(n, f). has_msgExt n) (sort_key (\<lambda>(n, f). ModTime f) (files store))))"

definition FileStore_All :: "FileStore \<Rightarrow> string list" where
  "FileStore_All store = FileStore_all store"

definition FileStore_del :: "FileStore \<Rightarrow> string \<Rightarrow> FileStore" where
  "FileStore_del store key =
     (if \<not> fs_opened store then store
      else if \<not> file_exists (files store) (fullpath key) then store
      else store\<lparr>files := gm_del (fullpath key) (files store)\<rparr>)"

definition FileStore_Del :: "FileStore \<Rightarrow> string \<Rightarrow> FileStore" where
  "FileStore_Del store key = FileStore_del store key"

definition FileStore_Reset :: "FileStore \<Rightarrow> FileStore" where
  "FileStore_Reset store = foldl FileStore_del store (FileStore_all store)"


section \<open>Exchanges in progress\<close>

text \<open>
  A packet the client sends or receives, with the time it is persisted at, and the two sets of
  exchanges in progress these packets leave, by message identifier: those the client started and
  those the broker started.
\<close>

datatype traffic = Sent int ControlPacket | Received int ControlPacket

fun traffic_packet :: "traffic \<Rightarrow> ControlPacket" where
  "traffic_packet (Sent t p) = p"
| "traffic_packet (Received t p) = p"

primrec run_traffic ::
  "(int \<Rightarrow> 's \<Rightarrow> string \<Rightarrow> ControlPacket option \<Rightarrow> 's option) \<Rightarrow> ('s \<Rightarrow> string \<Rightarrow> 's option) \<Rightarrow>
   's \<Rightarrow> traffic list \<Rightarrow> 's option" where
  "run_traffic Put Del s [] = Some s"
| "run_traffic Put Del s (e # es) =
     (case (case e of Sent t p \<Rightarrow> persistOutbound (Put t) Del s p
                    | Received t p \<Rightarrow> persistInbound (Put t) Del s p) of
        None \<Rightarrow> None
      | Some s' \<Rightarrow> run_traffic Put Del s' es)"

fun opens_sent :: "ControlPacket \<Rightarrow> bool" where
  "opens_sent (CP_Publish p) \<longleftrightarrow> Qos p = 1 \<or> Qos p = 2"
| "opens_sent (CP_Pubrel p) \<longleftrightarrow> Qos p = 1"
| "opens_sent (CP_Subscribe p) \<longleftrightarrow> True"
| "opens_sent (CP_Unsubscribe p) \<longleftrightarrow> True"
| "opens_sent _ \<longleftrightarrow> False"

fun opens_received :: "ControlPacket \<Rightarrow> bool" where
  "opens_received (CP_Publish p) \<longleftrightarrow> Qos p = 1 \<or> Qos p = 2"
| "opens_received (CP_Pubrel p) \<longleftrightarrow> Qos p = 1"
| "opens_received _ \<longleftrightarrow> False"

fun closes_sent :: "ControlPacket \<Rightarrow> bool" where
  "closes_sent (CP_Puback p) \<longleftrightarrow> Qos p = 0"
| "closes_sent (CP_Pubcomp p) \<longleftrightarrow> Qos p = 0"
| "closes_sent (CP_Suback p) \<longleftrightarrow> True"
| "closes_sent (CP_Unsuback p) \<longleftrightarrow> True"
| "closes_sent _ \<longleftrightarrow> False"

fun closes_received :: "ControlPacket \<Rightarrow> bool" where
  "closes_received (CP_Puback p) \<longleftrightarrow> Qos p = 0"
| "closes_received (CP_Pubcomp p) \<longleftrightarrow> Qos p = 0"
| "closes_received _ \<longleftrightarrow> False"

abbreviation packet_id :: "ControlPacket \<Rightarrow> uint16" where
  "packet_id p \<equiv> Details_MessageID (ControlPacket_Details p)"

type_synonym exchanges = "uint16 \<rightharpoonup> ControlPacket"

fun track_sent :: "(ControlPacket \<Rightarrow> ControlPacket) \<Rightarrow> traffic \<Rightarrow> exchanges \<Rightarrow> exchanges" where
  "track_sent rd (Sent t p) x = (if opens_sent p then x(packet_id p \<mapsto> rd p) else x)"
| "track_sent rd (Received t p) x = (if closes_sent p then x(packet_id p := None) else x)"

fun track_received :: "(ControlPacket \<Rightarrow> ControlPacket) \<Rightarrow> traffic \<Rightarrow> exchanges \<Rightarrow> exchanges" where
  "track_received rd (Received t p) x = (if opens_received p then x(packet_id p \<mapsto> rd p) else x)"
| "track_received rd (Sent t p) x = (if closes_received p then x(packet_id p := None) else x)"

section \<open>Keys and identifiers\<close>

lemma is_digit_char: "d < 10 \<Longrightarrow> is_digit (digit_char d)"
  by (simp add: is_digit_def digit_char_def)

lemma go_itoa_ne [simp]: "go_itoa n \<noteq> []"
  by (simp add: go_itoa.simps [of n])

lemma go_itoa_digits [simp]: "list_all is_digit (go_itoa n)"
proof (induction n rule: go_itoa.induct)
  case (1 n)
  have "is_digit (digit_char (n mod 10))" by (rule is_digit_char) simp
  with 1 show ?case by (cases "n < 10") (simp_all add: go_itoa.simps [of n] is_digit_char)
qed

lemma go_ParseUint16_itoa [simp]: "go_ParseUint16 (go_itoa (unat (mid :: uint16))) = Some mid"
proof -
  have "unat mid < 65536" using unsigned_less [of mid, where 'a = nat] by simp
  then show ?thesis by (simp add: go_ParseUint16_def go_itoa_digits)
qed

lemma mIDFromKey_keys [simp]:
  "mIDFromKey (inboundKeyFromMID mid) = Some mid" "mIDFromKey (outboundKeyFromMID mid) = Some mid"
  by (simp_all add: mIDFromKey_def inboundKeyFromMID_def outboundKeyFromMID_def)

lemma keys_inject [simp]:
  "inboundKeyFromMID m = inboundKeyFromMID n \<longleftrightarrow> m = n"
  "outboundKeyFromMID m = outboundKeyFromMID n \<longleftrightarrow> m = n"
  "inboundKeyFromMID m \<noteq> outboundKeyFromMID n" "outboundKeyFromMID n \<noteq> inboundKeyFromMID m"
  by (metis mIDFromKey_keys(1) option.inject, metis mIDFromKey_keys(2) option.inject,
      simp_all add: inboundKeyFromMID_def outboundKeyFromMID_def)


section \<open>The contract of a store\<close>

locale message_store =
  fixes ok :: "'s \<Rightarrow> bool"
    and holds :: "'s \<Rightarrow> string \<Rightarrow> ControlPacket option"
    and storable :: "ControlPacket \<Rightarrow> bool"
    and read_back :: "ControlPacket \<Rightarrow> ControlPacket"
    and put :: "int \<Rightarrow> 's \<Rightarrow> string \<Rightarrow> ControlPacket option \<Rightarrow> 's option"
    and get :: "'s \<Rightarrow> string \<Rightarrow> ('s \<times> ControlPacket option) option"
    and all :: "'s \<Rightarrow> string list"
    and del :: "'s \<Rightarrow> string \<Rightarrow> 's option"
  assumes put_law: "ok s \<Longrightarrow> storable p \<Longrightarrow>
      \<exists>s'. put t s k (Some p) = Some s' \<and> ok s' \<and> holds s' = (holds s)(k \<mapsto> read_back p)"
    and del_law: "ok s \<Longrightarrow> mIDFromKey k \<noteq> None \<Longrightarrow>
      \<exists>s'. del s k = Some s' \<and> ok s' \<and> holds s' = (holds s)(k := None)"
    and get_law: "ok s \<Longrightarrow> mIDFromKey k \<noteq> None \<Longrightarrow> get s k = Some (s, holds s k)"
    and all_law: "ok s \<Longrightarrow> distinct (all s) \<and> set (all s) = dom (holds s)"
begin

lemma outbound_effect:
  assumes "ok s" "storable p"
  shows "\<exists>s'. persistOutbound (put t) del s p = Some s' \<and> ok s' \<and>
    holds s' = (if opens_sent p then (holds s)(outboundKeyFromMID (packet_id p) \<mapsto> read_back p)
                else if closes_received p then (holds s)(inboundKeyFromMID (packet_id p) := None)
                else holds s)"
  using assms put_law [OF assms, of t "outboundKeyFromMID (packet_id p)"]
    del_law [OF assms(1), of "inboundKeyFromMID (packet_id p)"]
  by (cases p) (auto simp: persistOutbound_def Let_def)

lemma inbound_effect:
  assumes "ok s" "storable p"
  shows "\<exists>s'. persistInbound (put t) del s p = Some s' \<and> ok s' \<and>
    holds s' = (if opens_received p then (holds s)(inboundKeyFromMID (packet_id p) \<mapsto> read_back p)
                else if closes_sent p then (holds s)(outboundKeyFromMID (packet_id p) := None)
                else holds s)"
  using assms put_law [OF assms, of t "inboundKeyFromMID (packet_id p)"]
    del_law [OF assms(1), of "outboundKeyFromMID (packet_id p)"]
  by (cases p) (auto simp: persistInbound_def Let_def)

lemma opens_not_closes:
  "opens_sent p \<Longrightarrow> \<not> closes_received p" "opens_received p \<Longrightarrow> \<not> closes_sent p"
  by (cases p; auto)+

text \<open>What the store holds under the two kinds of keys.\<close>

definition sent_view :: "'s \<Rightarrow> exchanges" where
  "sent_view s = (\<lambda>mid. holds s (outboundKeyFromMID mid))"

definition received_view :: "'s \<Rightarrow> exchanges" where
  "received_view s = (\<lambda>mid. holds s (inboundKeyFromMID mid))"

lemma view_updates:
  "holds s' = (holds s)(outboundKeyFromMID m := v) \<Longrightarrow>
     sent_view s' = (sent_view s)(m := v) \<and> received_view s' = received_view s"
  "holds s' = (holds s)(inboundKeyFromMID m := v) \<Longrightarrow>
     sent_view s' = sent_view s \<and> received_view s' = (received_view s)(m := v)"
  "holds s' = holds s \<Longrightarrow> sent_view s' = sent_view s \<and> received_view s' = received_view s"
  by (auto simp: sent_view_def received_view_def fun_eq_iff)

lemma step_tracks:
  assumes "ok s" "storable (traffic_packet e)"
  shows "\<exists>s'. run_traffic put del s [e] = Some s' \<and> ok s' \<and>
    sent_view s' = track_sent read_back e (sent_view s) \<and>
    received_view s' = track_received read_back e (received_view s)"
proof (cases e)
  case (Sent t p)
  with outbound_effect [OF assms(1), of p t] assms(2) obtain s' where s':
    "persistOutbound (put t) del s p = Some s'" "ok s'" and
    h: "holds s' = (if opens_sent p then (holds s)(outboundKeyFromMID (packet_id p) \<mapsto> read_back p)
                else if closes_received p then (holds s)(inboundKeyFromMID (packet_id p) := None)
                else holds s)" by auto
  consider "opens_sent p" "\<not> closes_received p" | "\<not> opens_sent p" "closes_received p"
    | "\<not> opens_sent p" "\<not> closes_received p"
    using opens_not_closes by blast
  then show ?thesis using Sent s' h view_updates [of s' s] by cases simp_all
next
  case (Received t p)
  with inbound_effect [OF assms(1), of p t] assms(2) obtain s' where s':
    "persistInbound (put t) del s p = Some s'" "ok s'" and
    h: "holds s' = (if opens_received p then (holds s)(inboundKeyFromMID (packet_id p) \<mapsto> read_back p)
                else if closes_sent p then (holds s)(outboundKeyFromMID (packet_id p) := None)
                else holds s)" by auto
  consider "opens_received p" "\<not> closes_sent p" | "\<not> opens_received p" "closes_sent p"
    | "\<not> opens_received p" "\<not> closes_sent p"
    using opens_not_closes by blast
  then show ?thesis using Received s' h view_updates [of s' s] by cases simp_all
qed

lemma run_tracks:
  assumes "ok s" "\<forall>e \<in> set es. storable (traffic_packet e)"
  shows "\<exists>s'. run_traffic put del s es = Some s' \<and> ok s' \<and>
    sent_view s' = fold (track_sent read_back) es (sent_view s) \<and>
    received_view s' = fold (track_received read_back) es (received_view s)"
  using assms
proof (induction es arbitrary: s)
  case (Cons e es)
  obtain s1 where s1: "run_traffic put del s [e] = Some s1" "ok s1"
      "sent_view s1 = track_sent read_back e (sent_view s)"
      "received_view s1 = track_received read_back e (received_view s)"
    using step_tracks [of s e] Cons.prems by auto
  then have "run_traffic put del s (e # es) = run_traffic put del s1 es"
    by (auto split: option.splits)
  with Cons.IH [OF s1(2)] Cons.prems(2) s1 show ?case by auto
qed auto

lemma exchanges_tracked:
  assumes "ok s" "\<forall>k. holds s k = None" "\<forall>e \<in> set es. storable (traffic_packet e)"
  shows "\<exists>s'. run_traffic put del s es = Some s' \<and> ok s' \<and>
    (\<forall>mid. get s' (outboundKeyFromMID mid) = Some (s', fold (track_sent read_back) es (\<lambda>_. None) mid) \<and>
           get s' (inboundKeyFromMID mid) = Some (s', fold (track_received read_back) es (\<lambda>_. None) mid))"
proof -
  have "sent_view s = (\<lambda>_. None)" "received_view s = (\<lambda>_. None)"
    using assms(2) by (auto simp: sent_view_def received_view_def)
  with run_tracks [OF assms(1,3)] show ?thesis
    by (metis get_law mIDFromKey_keys option.simps(3) sent_view_def received_view_def)
qed

end

section \<open>The three stores meet the contract\<close>

text \<open>What each store holds, and when it is usable: open, with one entry per key and no nil entry.\<close>

definition ms_holds :: "MemoryStore \<Rightarrow> string \<Rightarrow> ControlPacket option" where
  "ms_holds s k = Option.bind (gm_get (ms_messages s) k) id"

definition ms_ok :: "MemoryStore \<Rightarrow> bool" where
  "ms_ok s \<longleftrightarrow> ms_opened s \<and> gm_wf (ms_messages s) \<and> (\<forall>k. gm_get (ms_messages s) k \<noteq> Some None)"

definition oms_holds :: "OrderedMemoryStore \<Rightarrow> string \<Rightarrow> ControlPacket option" where
  "oms_holds s k = Option.bind (gm_get (oms_messages s) k) sm_msg"

definition oms_ok :: "OrderedMemoryStore \<Rightarrow> bool" where
  "oms_ok s \<longleftrightarrow> oms_opened s \<and> gm_wf (oms_messages s) \<and>
     (\<forall>k v. gm_get (oms_messages s) k = Some v \<longrightarrow> sm_msg v \<noteq> None)"

definition fs_holds :: "FileStore \<Rightarrow> string \<Rightarrow> ControlPacket option" where
  "fs_holds s k = Option.bind (gm_get (files s) (fullpath k)) (\<lambda>f. fst (ReadPacket (content f)))"

definition readable :: "stored_file \<Rightarrow> bool" where
  "readable f \<longleftrightarrow> fst (ReadPacket (content f)) \<noteq> None \<and> fst (snd (ReadPacket (content f))) = None"

definition fs_ok :: "FileStore \<Rightarrow> bool" where
  "fs_ok s \<longleftrightarrow> fs_opened s \<and> gm_wf (files s) \<and>
     (\<forall>k f. gm_get (files s) (fullpath k) = Some f \<longrightarrow> readable f)"

definition read_from_file :: "ControlPacket \<Rightarrow> ControlPacket" where
  "read_from_file p = as_read (fst (the (ControlPacket_Write p)))"

lemma gm_keys_dom: "set (map fst m) = dom (gm_get m)"
  by (simp add: dom_map_of_conv_image_fst)

interpretation mem_store: message_store ms_ok ms_holds "\<lambda>_. True" "\<lambda>p. p"
  "\<lambda>t s k p. Some (MemoryStore_Put s k p)" "\<lambda>s k. map_option (Pair s) (MemoryStore_Get s k)"
  MemoryStore_All MemoryStore_Del
proof (unfold_locales, goal_cases)
  case (1 s p t k)
  then show ?case by (auto simp: ms_ok_def ms_holds_def MemoryStore_Put_def fun_eq_iff)
next
  case (2 s k)
  then show ?case
    by (auto simp: ms_ok_def ms_holds_def MemoryStore_Del_def fun_eq_iff split: option.splits)
next
  case (3 s k)
  then show ?case by (auto simp: ms_ok_def ms_holds_def MemoryStore_Get_def)
next
  case (4 s)
  then have "dom (ms_holds s) = dom (gm_get (ms_messages s))"
    by (auto simp: ms_ok_def ms_holds_def dom_def bind_eq_Some_conv) (metis not_None_eq)
  with 4 show ?case by (simp add: ms_ok_def MemoryStore_All_def gm_keys_dom [symmetric])
qed

lemma ordered_All_keys:
  "oms_opened s \<Longrightarrow> mset (OrderedMemoryStore_All s) = mset (map fst (oms_messages s))"
  by (simp add: OrderedMemoryStore_All_def multiset.map_comp comp_def case_prod_beta)

interpretation ordered_store: message_store oms_ok oms_holds "\<lambda>_. True" "\<lambda>p. p"
  "\<lambda>t s k p. Some (OrderedMemoryStore_Put t s k p)"
  "\<lambda>s k. map_option (Pair s) (OrderedMemoryStore_Get s k)"
  OrderedMemoryStore_All OrderedMemoryStore_Del
proof (unfold_locales, goal_cases)
  case (1 s p t k)
  then show ?case by (auto simp: oms_ok_def oms_holds_def OrderedMemoryStore_Put_def fun_eq_iff)
next
  case (2 s k)
  then show ?case
    by (auto simp: oms_ok_def oms_holds_def OrderedMemoryStore_Del_def fun_eq_iff split: option.splits)
next
  case (3 s k)
  then show ?case by (auto simp: oms_ok_def oms_holds_def OrderedMemoryStore_Get_def)
next
  case (4 s)
  then have "dom (oms_holds s) = dom (gm_get (oms_messages s))"
    by (auto simp: oms_ok_def oms_holds_def dom_def bind_eq_Some_conv)
  moreover have "mset (OrderedMemoryStore_All s) = mset (map fst (oms_messages s))"
    using 4 by (simp add: oms_ok_def ordered_All_keys)
  ultimately show ?case
    using 4 by (metis gm_keys_dom mset_eq_imp_distinct_iff mset_eq_setD oms_ok_def)
qed

lemma fullpath_inject [simp]: "fullpath k = fullpath l \<longleftrightarrow> k = l"
  by (simp add: fullpath_def)

lemma paths_apart [simp]: "fullpath k \<noteq> tmppath l" "fullpath k \<noteq> corruptpath l"
proof -
  have "last (fullpath k) \<noteq> last (tmppath l)" "last (fullpath k) \<noteq> last (corruptpath l)"
    by (simp_all add: fullpath_def tmppath_def corruptpath_def)
  then show "fullpath k \<noteq> tmppath l" "fullpath k \<noteq> corruptpath l" by metis+
qed

lemma has_msgExt_fullpath [simp]: "has_msgExt (fullpath k)"
  by (simp add: has_msgExt_def fullpath_def)

lemma take_fullpath [simp]: "take (length (fullpath k) - 4) (fullpath k) = k"
  by (simp add: fullpath_def)

lemma has_msgExt_iff: "has_msgExt n \<longleftrightarrow> n = fullpath (take (length n - 4) n)"
proof
  assume "has_msgExt n"
  then have "drop (length n - 4) n = msgExt" by (simp add: has_msgExt_def eval_nat_numeral)
  then show "n = fullpath (take (length n - 4) n)" by (metis append_take_drop_id fullpath_def)
qed (metis has_msgExt_fullpath)

lemma os_Rename_get:
  "gm_get (os_Rename fs old new) n =
     (if gm_get fs old = None then gm_get fs n else if n = new then gm_get fs old
      else if n = old then None else gm_get fs n)"
  by (auto simp: os_Rename_def split: option.splits)

lemma os_Rename_wf: "gm_wf fs \<Longrightarrow> gm_wf (os_Rename fs old new)"
  by (simp add: os_Rename_def split: option.split)

lemma file_write_get:
  assumes "packet_wf p"
  shows "\<exists>fs' f. file_write t fs k (Some p) = Some fs' \<and> (gm_wf fs \<longrightarrow> gm_wf fs') \<and>
    readable f \<and> fst (ReadPacket (content f)) = Some (read_from_file p) \<and>
    (\<forall>l. gm_get fs' (fullpath l) = (if l = k then Some f else gm_get fs (fullpath l)))"
proof -
  obtain p' bs where w: "ControlPacket_Write p = Some (p', bs)"
      "ReadPacket (bs @ []) = (Some (as_read p'), None, [])"
    using packet_written [OF assms, of "[]"] by auto
  then have "readable \<lparr>content = bs, ModTime = t\<rparr>" by (simp add: readable_def)
  with w show ?thesis
    by (auto simp: file_write_def os_Rename_get os_Rename_wf read_from_file_def)
qed

lemma FileStore_all_keys:
  assumes "fs_opened s" "gm_wf (files s)"
  shows "distinct (FileStore_all s)" "set (FileStore_all s) = {k. gm_get (files s) (fullpath k) \<noteq> None}"
proof -
  define l where "l = filter (\<lambda>(n, f). has_msgExt n) (sort_key (\<lambda>(n, f). ModTime f) (files s))"
  have all: "FileStore_all s = map ((\<lambda>n. take (length n - 4) n) \<circ> fst) l"
    using assms(1) by (simp add: FileStore_all_def l_def case_prod_beta comp_def)
  have set_l: "set l = {(n, f) \<in> set (files s). has_msgExt n}" by (auto simp: l_def)
  have "distinct (map fst (sort_key (\<lambda>(n, f). ModTime f) (files s)))"
    using assms(2) by (metis mset_eq_imp_distinct_iff mset_map mset_sort)
  then have d: "distinct (map fst l)" by (simp add: l_def distinct_map_filter)
  have "inj_on (\<lambda>n. take (length n - 4) n) (fst ` set l)"
  proof (rule inj_onI)
    fix m n assume "m \<in> fst ` set l" "n \<in> fst ` set l" "take (length m - 4) m = take (length n - 4) n"
    moreover from this have "has_msgExt m" "has_msgExt n" by (auto simp: set_l)
    ultimately show "m = n" using has_msgExt_iff by metis
  qed
  with d show "distinct (FileStore_all s)"
    by (simp add: all distinct_map comp_inj_on flip: map_map)
  show "set (FileStore_all s) = {k. gm_get (files s) (fullpath k) \<noteq> None}" (is "_ = ?K")
  proof (intro set_eqI iffI)
    fix k assume "k \<in> set (FileStore_all s)"
    then obtain n f where "(n, f) \<in> set (files s)" "has_msgExt n" "k = take (length n - 4) n"
      by (auto simp: all set_l)
    then have "(fullpath k, f) \<in> set (files s)" using has_msgExt_iff [of n] by metis
    with gm_get_mem [OF assms(2), of "fullpath k" f] have "gm_get (files s) (fullpath k) = Some f" by blast
    then show "k \<in> ?K" by simp
  next
    fix k assume "k \<in> ?K"
    then obtain f where "gm_get (files s) (fullpath k) = Some f" by blast
    then have "(fullpath k, f) \<in> set l" by (simp add: set_l map_of_SomeD)
    then show "k \<in> set (FileStore_all s)" by (force simp: all)
  qed
qed

interpretation file_store: message_store fs_ok fs_holds packet_wf read_from_file
  FileStore_Put "\<lambda>s k. Some (FileStore_Get s k)" FileStore_All "\<lambda>s k. Some (FileStore_Del s k)"
proof (unfold_locales, goal_cases)
  case (1 s p t k)
  with file_write_get [of p t "files s" k] show ?case
    by (auto simp: fs_ok_def fs_holds_def FileStore_Put_def fun_eq_iff)
next
  case (2 s k)
  then show ?case
    by (auto simp: fs_ok_def fs_holds_def FileStore_Del_def FileStore_del_def file_exists_def fun_eq_iff)
next
  case (3 s k)
  show ?case
  proof (cases "gm_get (files s) (fullpath k)")
    case (Some f)
    with 3 have "readable f" by (auto simp: fs_ok_def)
    with 3 Some show ?thesis
      by (cases "ReadPacket (content f)") (auto simp: fs_ok_def fs_holds_def FileStore_Get_def readable_def)
  qed (use 3 in \<open>simp add: fs_ok_def fs_holds_def FileStore_Get_def\<close>)
next
  case (4 s)
  then have "dom (fs_holds s) = {k. gm_get (files s) (fullpath k) \<noteq> None}"
    by (auto simp: fs_ok_def fs_holds_def readable_def dom_def bind_eq_Some_conv)
  with 4 FileStore_all_keys [of s] show ?case by (simp add: fs_ok_def FileStore_All_def)
qed

section \<open>Properties\<close>

lemma sorted_All:
  assumes "oms_ok s"
  shows "sorted (map (\<lambda>k. sm_ts (the (gm_get (oms_messages s) k))) (OrderedMemoryStore_All s))"
proof -
  define l where "l = sort_key fst (map (\<lambda>(k, v). (sm_ts v, k)) (oms_messages s))"
  have "(if oms_opened s then map snd l else []) = OrderedMemoryStore_All s"
    by (simp add: OrderedMemoryStore_All_def l_def)
  moreover have "map (\<lambda>k. sm_ts (the (gm_get (oms_messages s) k))) (map snd l) = map fst l"
    using assms by (auto simp: l_def oms_ok_def)
  moreover have "sorted (map fst l)" unfolding l_def by (rule sorted_sort_key)
  ultimately show ?thesis using assms unfolding oms_ok_def by metis
qed

lemma sorted_last_max:
  "sorted (map g xs) \<Longrightarrow> x \<in> set xs \<Longrightarrow> g x \<le> g (List.last xs)"
  by (induction xs) auto

lemma ordered_All_last:
  assumes "oms_ok s" "\<forall>k v. gm_get (oms_messages s) k = Some v \<longrightarrow> sm_ts v < now"
  shows "List.last (OrderedMemoryStore_All (OrderedMemoryStore_Put now s key (Some m))) = key"
proof -
  let ?s = "OrderedMemoryStore_Put now s key (Some m)"
  let ?g = "\<lambda>k. sm_ts (the (gm_get (oms_messages ?s) k))"
  obtain "oms_ok ?s" "oms_holds ?s = (oms_holds s)(key \<mapsto> m)"
    using ordered_store.put_law [OF assms(1) TrueI, of now key m] by auto
  with ordered_store.all_law [of ?s] have key: "key \<in> set (OrderedMemoryStore_All ?s)" by auto
  then have "?g key \<le> ?g (List.last (OrderedMemoryStore_All ?s))"
    using sorted_All [OF \<open>oms_ok ?s\<close>] by (rule sorted_last_max [rotated])
  moreover have "?g key = now" using assms(1) by (simp add: OrderedMemoryStore_Put_def oms_ok_def)
  moreover have "List.last (OrderedMemoryStore_All ?s) \<in> set (OrderedMemoryStore_All ?s)"
    using key by (cases "OrderedMemoryStore_All ?s") auto
  then have "List.last (OrderedMemoryStore_All ?s) \<in> dom (gm_get (oms_messages ?s))"
    using ordered_store.all_law [OF \<open>oms_ok ?s\<close>] by (auto simp: oms_holds_def bind_eq_Some_conv)
  then have "List.last (OrderedMemoryStore_All ?s) \<noteq> key \<Longrightarrow> ?g (List.last (OrderedMemoryStore_All ?s)) < now"
    using assms by (auto simp: OrderedMemoryStore_Put_def oms_ok_def)
  ultimately show ?thesis by force
qed

text \<open>
  C36. The client's message store is the record of the exchanges in progress: after any sequence of
  packets sent and received, starting from an opened empty store and whatever the message
  identifiers, no persist call panics, the message under \<open>o.<id>\<close> is the last PUBLISH, PUBREL,
  SUBSCRIBE or UNSUBSCRIBE the client sent with that identifier unless the acknowledgement that ends
  it was received since, and the message under \<open>i.<id>\<close> is the last PUBLISH or PUBREL received
  with that identifier unless PUBACK or PUBCOMP was sent since. Both in-memory stores do so.
\<close>

theorem memory_stores_track_exchanges:
  "(\<exists>s. run_traffic (\<lambda>t s k p. Some (MemoryStore_Put s k p)) MemoryStore_Del
        (MemoryStore_Open NewMemoryStore) es = Some s \<and>
      (\<forall>mid. MemoryStore_Get s (outboundKeyFromMID mid) = Some (fold (track_sent id) es Map.empty mid) \<and>
             MemoryStore_Get s (inboundKeyFromMID mid) = Some (fold (track_received id) es Map.empty mid))) \<and>
   (\<exists>s. run_traffic (\<lambda>t s k p. Some (OrderedMemoryStore_Put t s k p)) OrderedMemoryStore_Del
        (OrderedMemoryStore_Open NewOrderedMemoryStore) es = Some s \<and>
      (\<forall>mid. OrderedMemoryStore_Get s (outboundKeyFromMID mid) = Some (fold (track_sent id) es Map.empty mid) \<and>
             OrderedMemoryStore_Get s (inboundKeyFromMID mid) = Some (fold (track_received id) es Map.empty mid)))"
proof
  have "ms_ok (MemoryStore_Open NewMemoryStore)" "\<forall>k. ms_holds (MemoryStore_Open NewMemoryStore) k = None"
    by (simp_all add: ms_ok_def ms_holds_def MemoryStore_Open_def NewMemoryStore_def)
  from mem_store.exchanges_tracked [OF this, of es] show "\<exists>s. run_traffic (\<lambda>t s k p. Some (MemoryStore_Put s k p)) MemoryStore_Del
        (MemoryStore_Open NewMemoryStore) es = Some s \<and>
      (\<forall>mid. MemoryStore_Get s (outboundKeyFromMID mid) = Some (fold (track_sent id) es Map.empty mid) \<and>
             MemoryStore_Get s (inboundKeyFromMID mid) = Some (fold (track_received id) es Map.empty mid))"
    by (auto simp: id_def)
next
  have "oms_ok (OrderedMemoryStore_Open NewOrderedMemoryStore)"
    "\<forall>k. oms_holds (OrderedMemoryStore_Open NewOrderedMemoryStore) k = None"
    by (simp_all add: oms_ok_def oms_holds_def OrderedMemoryStore_Open_def NewOrderedMemoryStore_def)
  from ordered_store.exchanges_tracked [OF this, of es] show "\<exists>s. run_traffic (\<lambda>t s k p. Some (OrderedMemoryStore_Put t s k p)) OrderedMemoryStore_Del
        (OrderedMemoryStore_Open NewOrderedMemoryStore) es = Some s \<and>
      (\<forall>mid. OrderedMemoryStore_Get s (outboundKeyFromMID mid) = Some (fold (track_sent id) es Map.empty mid) \<and>
             OrderedMemoryStore_Get s (inboundKeyFromMID mid) = Some (fold (track_received id) es Map.empty mid))"
    by (auto simp: id_def)
qed

text \<open>
  C37. The file store is persistent: after any sequence of packets that fit the wire format, a store
  opened anew on the directory the previous one left behind returns for every identifier the packet
  of the exchange in progress, read back from its file, and nil where there is none.
\<close>

theorem file_store_survives_restart:
  assumes "gm_wf fs" "\<forall>k. gm_get fs (fullpath k) = None" "\<forall>e \<in> set es. packet_wf (traffic_packet e)"
  shows "\<exists>s. run_traffic FileStore_Put (\<lambda>s k. Some (FileStore_Del s k))
      (FileStore_Open cwd (NewFileStore dir fs)) es = Some s \<and>
    (let s2 = FileStore_Open cwd (NewFileStore dir (files (FileStore_Close s))) in
     \<forall>mid. snd (FileStore_Get s2 (outboundKeyFromMID mid)) = fold (track_sent read_from_file) es Map.empty mid \<and>
           snd (FileStore_Get s2 (inboundKeyFromMID mid)) = fold (track_received read_from_file) es Map.empty mid)"
proof -
  define s0 where "s0 = FileStore_Open cwd (NewFileStore dir fs)"
  have "fs_ok s0" "\<forall>k. fs_holds s0 k = None"
    using assms by (simp_all add: fs_ok_def fs_holds_def s0_def FileStore_Open_def NewFileStore_def)
  from file_store.exchanges_tracked [OF this assms(3)] obtain s where s:
    "run_traffic FileStore_Put (\<lambda>s k. Some (FileStore_Del s k)) s0 es = Some s" "fs_ok s"
    "\<forall>mid. snd (FileStore_Get s (outboundKeyFromMID mid)) = fold (track_sent read_from_file) es Map.empty mid \<and>
           snd (FileStore_Get s (inboundKeyFromMID mid)) = fold (track_received read_from_file) es Map.empty mid"
    by (metis option.inject snd_conv)
  have "snd (FileStore_Get (FileStore_Open cwd (NewFileStore dir (files (FileStore_Close s)))) k) =
      snd (FileStore_Get s k)" for k
    using s(2) by (auto simp: FileStore_Get_def FileStore_Open_def NewFileStore_def FileStore_Close_def
        fs_ok_def split: option.split prod.split)
  with s show ?thesis unfolding s0_def Let_def by auto
qed

theorem file_store_survives_restart_witness:
  "\<exists>s. run_traffic FileStore_Put (\<lambda>s k. Some (FileStore_Del s k))
      (FileStore_Open ''/tmp'' (NewFileStore ''d'' [])) [Sent 5 (CP_Publish sample_publish)] = Some s \<and>
    (let s2 = FileStore_Open ''/tmp'' (NewFileStore ''d'' (files (FileStore_Close s))) in
     \<forall>mid. snd (FileStore_Get s2 (outboundKeyFromMID mid)) =
             fold (track_sent read_from_file) [Sent 5 (CP_Publish sample_publish)] Map.empty mid \<and>
           snd (FileStore_Get s2 (inboundKeyFromMID mid)) =
             fold (track_received read_from_file) [Sent 5 (CP_Publish sample_publish)] Map.empty mid)"
  by (rule file_store_survives_restart)
    (simp_all add: sample_publish_def new_PublishPacket_def zeroHeader_def)

text \<open>
  A damaged message file: when the file of a key does not parse, \<open>Get\<close> returns nil and moves
  the file to \<open><key>.CORRUPT\<close> with its content, so that the key is no longer listed by \<open>All\<close>,
  while the files of all other messages stay as they are.
\<close>

theorem file_store_archives_corrupt:
  assumes "fs_opened s" "gm_wf (files s)" "gm_get (files s) (fullpath key) = Some f"
    "fst (snd (ReadPacket (content f))) \<noteq> None"
  shows "\<exists>s'. FileStore_Get s key = (s', None) \<and> gm_get (files s') (corruptpath key) = Some f \<and>
    set (FileStore_All s') = set (FileStore_All s) - {key} \<and>
    (\<forall>k. k \<noteq> key \<longrightarrow> gm_get (files s') (fullpath k) = gm_get (files s) (fullpath k))"
proof -
  define s' where "s' = s\<lparr>files := os_Rename (files s) (fullpath key) (corruptpath key)\<rparr>"
  have "FileStore_Get s key = (s', None)"
    using assms by (cases "ReadPacket (content f)") (auto simp: FileStore_Get_def s'_def)
  moreover have "fs_opened s'" "gm_wf (files s')" using assms by (simp_all add: s'_def os_Rename_wf)
  moreover have "gm_get (files s') (fullpath k) = (if k = key then None else gm_get (files s) (fullpath k))" for k
    using assms by (simp add: s'_def os_Rename_get)
  moreover have "gm_get (files s') (corruptpath key) = Some f"
    using assms by (simp add: s'_def os_Rename_get)
  ultimately show ?thesis
    using assms by (auto simp: FileStore_All_def FileStore_all_keys)
qed

definition corrupt_sample :: FileStore where
  "corrupt_sample = \<lparr>directory = ''d'', fs_opened = True, files = [(fullpath ''o.7'', \<lparr>content = [0x32], ModTime = 3\<rparr>)]\<rparr>"

theorem file_store_archives_corrupt_witness:
  "\<exists>s'. FileStore_Get corrupt_sample ''o.7'' = (s', None) \<and>
    gm_get (files s') (corruptpath ''o.7'') = Some \<lparr>content = [0x32], ModTime = 3\<rparr> \<and>
    set (FileStore_All s') = set (FileStore_All corrupt_sample) - {''o.7''} \<and>
    (\<forall>k. k \<noteq> ''o.7'' \<longrightarrow> gm_get (files s') (fullpath k) = gm_get (files corrupt_sample) (fullpath k))"
  by (rule file_store_archives_corrupt)
    (simp_all add: corrupt_sample_def ReadPacket_def FixedHeader_unpack_def decodeLength_def
      decodeLength_loop.simps io_ReadFull_def)

text \<open>
  The ordered store hands out its messages in the order they were stored: \<open>All\<close> lists every key
  that holds a message exactly once, by non-decreasing time of the \<open>Put\<close> that stored it, and a key
  that is put later than everything in the store moves to the end.
\<close>

theorem ordered_store_All_by_time:
  assumes "oms_ok s"
  shows "distinct (OrderedMemoryStore_All s) \<and>
    set (OrderedMemoryStore_All s) = {k. oms_holds s k \<noteq> None} \<and>
    sorted (map (\<lambda>k. sm_ts (the (gm_get (oms_messages s) k))) (OrderedMemoryStore_All s)) \<and>
    ((\<forall>k v. gm_get (oms_messages s) k = Some v \<longrightarrow> sm_ts v < now) \<longrightarrow>
       List.last (OrderedMemoryStore_All (OrderedMemoryStore_Put now s key (Some m))) = key)"
  using ordered_store.all_law [OF assms] sorted_All [OF assms] ordered_All_last [OF assms, of now key m]
  by auto

definition ordered_sample :: OrderedMemoryStore where
  "ordered_sample = OrderedMemoryStore_Put 3 (OrderedMemoryStore_Open NewOrderedMemoryStore) ''o.7''
     (Some (CP_Publish sample_publish))"

theorem ordered_store_All_by_time_witness:
  "distinct (OrderedMemoryStore_All ordered_sample) \<and>
    set (OrderedMemoryStore_All ordered_sample) = {k. oms_holds ordered_sample k \<noteq> None} \<and>
    sorted (map (\<lambda>k. sm_ts (the (gm_get (oms_messages ordered_sample) k))) (OrderedMemoryStore_All ordered_sample)) \<and>
    List.last (OrderedMemoryStore_All (OrderedMemoryStore_Put 4 ordered_sample ''o.8''
      (Some (CP_Publish sample_publish)))) = ''o.8''"
proof -
  have "oms_ok ordered_sample" "\<forall>k v. gm_get (oms_messages ordered_sample) k = Some v \<longrightarrow> sm_ts v < 4"
    by (auto simp: oms_ok_def ordered_sample_def OrderedMemoryStore_Put_def OrderedMemoryStore_Open_def
        NewOrderedMemoryStore_def split: if_splits)
  then show ?thesis using ordered_store_All_by_time [of ordered_sample 4 "''o.8''"] by blast
qed

end
