(* ===== verification/Router.thy ===== *)
theory Router
  imports Stores TopicLevels ConfigTable
begin

text \<open>
  The client's message router (\<open>mqtt/router.go\<close>), topic validation (\<open>mqtt/topic.go\<close>), received
  messages (\<open>mqtt/message.go\<close>) and their acknowledgement (\<open>ackFunc\<close> of \<open>mqtt/net.go\<close>).

  A callback is an element of a type \<open>'h\<close>; the only thing the router can observe of it is whether it
  acknowledges the message itself, the parameter \<open>acks\<close>. What happens to a message is recorded in
  the state \<open>delivery\<close>: whether its \<open>sync.Once\<close> has run, the client's store, and the log of
  calls and acknowledgements. The panic of \<open>routeSplit\<close> on a route without two separators is
  \<^const>\<open>None\<close>.
\<close>

section \<open>Matching\<close>

record 'h route =
  route_topic :: string
  callback :: 'h

fun match :: "string list \<Rightarrow> string list \<Rightarrow> bool" where
  "match route topic =
     (if length route = 0 then length topic = 0
      else if length topic = 0 then route ! 0 = ''#''
      else if route ! 0 = ''#'' then True
      else if route ! 0 = ''+'' \<or> route ! 0 = topic ! 0 then match (drop 1 route) (drop 1 topic)
      else False)"

declare match.simps [simp del]

definition routeSplit :: "string \<Rightarrow> string list option" where
  "routeSplit route =
     (if go_hasPrefix route ''$share'' then
        (let parts = go_split (CHR ''/'') route in if length parts < 2 then None else Some (drop 2 parts))
      else Some (go_split (CHR ''/'') route))"

definition routeIncludesTopic :: "string \<Rightarrow> string \<Rightarrow> bool option" where
  "routeIncludesTopic route topic =
     map_option (\<lambda>r. match r (go_split (CHR ''/'') topic)) (routeSplit route)"

definition route_match :: "'h route \<Rightarrow> string \<Rightarrow> bool option" where
  "route_match r topic =
     (if route_topic r = topic then Some True else routeIncludesTopic (route_topic r) topic)"

section \<open>The route table\<close>

record 'h router =
  routes :: "'h route list"
  defaultHandler :: "'h option"

definition newRouter :: "'h router" where
  "newRouter = \<lparr>routes = [], defaultHandler = None\<rparr>"

fun addRoute_loop :: "'h route list \<Rightarrow> string \<Rightarrow> 'h \<Rightarrow> 'h route list" where
  "addRoute_loop [] topic cb = [\<lparr>route_topic = topic, callback = cb\<rparr>]"
| "addRoute_loop (e # es) topic cb =
     (if route_topic e = topic then e\<lparr>callback := cb\<rparr> # es else e # addRoute_loop es topic cb)"

definition addRoute :: "'h router \<Rightarrow> string \<Rightarrow> 'h \<Rightarrow> 'h router" where
  "addRoute r topic cb = r\<lparr>routes := addRoute_loop (routes r) topic cb\<rparr>"

fun deleteRoute_loop :: "'h route list \<Rightarrow> string \<Rightarrow> 'h route list" where
  "deleteRoute_loop [] topic = []"
| "deleteRoute_loop (e # es) topic = (if route_topic e = topic then es else e # deleteRoute_loop es topic)"

definition deleteRoute :: "'h router \<Rightarrow> string \<Rightarrow> 'h router" where
  "deleteRoute r topic = r\<lparr>routes := deleteRoute_loop (routes r) topic\<rparr>"

definition setDefaultHandler :: "'h router \<Rightarrow> 'h option \<Rightarrow> 'h router" where
  "setDefaultHandler r handler = r\<lparr>defaultHandler := handler\<rparr>"

section \<open>Messages and acknowledgements\<close>

record message =
  m_duplicate :: bool
  m_qos :: byte
  m_retained :: bool
  m_topic :: string
  m_messageID :: uint16
  m_payload :: bytes

definition messageFromPublish :: "PublishPacket \<Rightarrow> message" where
  "messageFromPublish p = \<lparr>m_duplicate = Dup p, m_qos = Qos p, m_retained = Retain p, m_topic = TopicName p,
     m_messageID = MessageID p, m_payload = Payload p\<rparr>"

datatype 'h delivery_event = Called 'h message | AckOut ControlPacket

record ('s, 'h) delivery =
  once :: bool
  persist :: 's
  events :: "'h delivery_event list"

text \<open>\<open>ackFunc\<close>, over the operations of the store: the packets put on the outbound channel.\<close>

definition ackFunc ::
  "('s \<Rightarrow> string \<Rightarrow> ControlPacket option \<Rightarrow> 's option) \<Rightarrow> ('s \<Rightarrow> string \<Rightarrow> 's option) \<Rightarrow>
   's \<Rightarrow> PublishPacket \<Rightarrow> ('s \<times> ControlPacket list) option" where
  "ackFunc Put Del s packet =
     (if Qos packet = 2 then
        Some (s, [CP_Pubrec ((new_MidPacket (zeroHeader Pubrec 0))\<lparr>MessageID := MessageID packet\<rparr>)])
      else if Qos packet = 1 then
        (let pa = CP_Puback ((new_MidPacket (zeroHeader Puback 0))\<lparr>MessageID := MessageID packet\<rparr>) in
         map_option (\<lambda>s'. (s', [pa])) (persistOutbound Put Del s pa))
      else Some (s, []))"

definition message_Ack ::
  "('s \<Rightarrow> ('s \<times> ControlPacket list) option) \<Rightarrow> ('s, 'h) delivery \<Rightarrow> ('s, 'h) delivery option" where
  "message_Ack ack d =
     (if once d then Some d
      else map_option (\<lambda>(s, ps). d\<lparr>once := True, persist := s, events := events d @ map AckOut ps\<rparr>)
             (ack (persist d)))"

section \<open>Dispatch\<close>

text \<open>The callbacks a message goes to, in the order of the routes, or the default handler.\<close>

fun matching_callbacks :: "'h route list \<Rightarrow> string \<Rightarrow> 'h list option" where
  "matching_callbacks [] topic = Some []"
| "matching_callbacks (e # es) topic =
     (case route_match e topic of
        None \<Rightarrow> None
      | Some b \<Rightarrow> map_option (\<lambda>hs. if b then callback e # hs else hs) (matching_callbacks es topic))"

definition handlers_of :: "'h router \<Rightarrow> string \<Rightarrow> 'h list option" where
  "handlers_of r topic =
     (case matching_callbacks (routes r) topic of
        None \<Rightarrow> None
      | Some [] \<Rightarrow> Some (case defaultHandler r of None \<Rightarrow> [] | Some h \<Rightarrow> [h])
      | Some hs \<Rightarrow> Some hs)"

text \<open>A call of a callback, which may acknowledge the message itself.\<close>

definition call_handler ::
  "('h \<Rightarrow> bool) \<Rightarrow> ('s \<Rightarrow> ('s \<times> ControlPacket list) option) \<Rightarrow> message \<Rightarrow> 'h \<Rightarrow>
   ('s, 'h) delivery \<Rightarrow> ('s, 'h) delivery option" where
  "call_handler acks ack m h d =
     (let d' = d\<lparr>events := events d @ [Called h m]\<rparr> in if acks h then message_Ack ack d' else Some d')"

fun run_handlers ::
  "('h \<Rightarrow> bool) \<Rightarrow> ('s \<Rightarrow> ('s \<times> ControlPacket list) option) \<Rightarrow> message \<Rightarrow> 'h list \<Rightarrow>
   ('s, 'h) delivery \<Rightarrow> ('s, 'h) delivery option" where
  "run_handlers acks ack m [] d = Some d"
| "run_handlers acks ack m (h # hs) d =
     Option.bind (Option.bind (call_handler acks ack m h d) (message_Ack ack)) (run_handlers acks ack m hs)"

text \<open>One message of the loop of \<open>matchAndDispatch\<close> when \<open>order\<close> is set.\<close>

definition dispatch_in_order ::
  "('h \<Rightarrow> bool) \<Rightarrow> ('s \<Rightarrow> string \<Rightarrow> ControlPacket option \<Rightarrow> 's option) \<Rightarrow> ('s \<Rightarrow> string \<Rightarrow> 's option) \<Rightarrow>
   'h router \<Rightarrow> 's \<Rightarrow> PublishPacket \<Rightarrow> ('s, 'h) delivery option" where
  "dispatch_in_order acks Put Del r s p =
     Option.bind (handlers_of r (TopicName p))
       (\<lambda>hs. run_handlers acks (\<lambda>s. ackFunc Put Del s p) (messageFromPublish p) hs
               \<lparr>once = False, persist = s, events = []\<rparr>)"

text \<open>
  When \<open>order\<close> is not set, each callback runs in a goroutine of its own: it calls the callback, then
  acknowledges, then is done. A step of the system is a step of one of them.
\<close>

datatype 'h goroutine = Starting 'h | Returned 'h | Finished 'h

type_synonym ('s, 'h) pool = "'h goroutine list \<times> ('s, 'h) delivery"

inductive goroutine_step ::
  "('h \<Rightarrow> bool) \<Rightarrow> ('s \<Rightarrow> ('s \<times> ControlPacket list) option) \<Rightarrow> message \<Rightarrow>
   ('s, 'h) pool \<Rightarrow> ('s, 'h) pool \<Rightarrow> bool" for acks ack m where
  Call: "i < length gs \<Longrightarrow> gs ! i = Starting h \<Longrightarrow> call_handler acks ack m h d = Some d' \<Longrightarrow>
    goroutine_step acks ack m (gs, d) (gs[i := Returned h], d')"
| Ack: "i < length gs \<Longrightarrow> gs ! i = Returned h \<Longrightarrow> message_Ack ack d = Some d' \<Longrightarrow>
    goroutine_step acks ack m (gs, d) (gs[i := Finished h], d')"

inductive_cases goroutine_stepE: "goroutine_step acks ack m (gs, d) p"

section \<open>Validation of subscriptions\<close>

abbreviation ErrInvalidQos :: go_error where "ErrInvalidQos \<equiv> Errorf ''invalid QoS''"
abbreviation ErrInvalidTopicEmptyString :: go_error where
  "ErrInvalidTopicEmptyString \<equiv> Errorf ''invalid Topic; empty string''"
abbreviation ErrInvalidTopicMultilevel :: go_error where
  "ErrInvalidTopicMultilevel \<equiv> Errorf ''invalid Topic; multi-level wildcard must be last level''"

fun multilevel_before_last :: "nat \<Rightarrow> nat \<Rightarrow> string list \<Rightarrow> bool" where
  "multilevel_before_last n i [] = False"
| "multilevel_before_last n i (level # levels) =
     (if level = ''#'' \<and> int i \<noteq> int n - 1 then True else multilevel_before_last n (i + 1) levels)"

definition validateTopicAndQos :: "string \<Rightarrow> byte \<Rightarrow> go_error option" where
  "validateTopicAndQos topic qos =
     (if length topic = 0 then Some ErrInvalidTopicEmptyString
      else let levels = go_split (CHR ''/'') topic in
        if multilevel_before_last (length levels) 0 levels then Some ErrInvalidTopicMultilevel
        else if qos > 2 then Some ErrInvalidQos
        else None)"

fun validateSubscribeMap_loop :: "(string, byte) gomap \<Rightarrow> go_error + string list \<times> bytes" where
  "validateSubscribeMap_loop [] = Inr ([], [])"
| "validateSubscribeMap_loop ((topic, qos) # subs) =
     (case validateTopicAndQos topic qos of
        Some err \<Rightarrow> Inl err
      | None \<Rightarrow> (case validateSubscribeMap_loop subs of
                   Inl err \<Rightarrow> Inl err
                 | Inr (topics, qoss) \<Rightarrow> Inr (topic # topics, qos # qoss)))"

definition validateSubscribeMap :: "(string, byte) gomap \<Rightarrow> go_error + string list \<times> bytes" where
  "validateSubscribeMap subs =
     (if length subs = 0 then Inl (Errorf ''invalid subscription; subscribe map must not be empty'')
      else validateSubscribeMap_loop subs)"

section \<open>Lemmas on matching\<close>

lemma match_simps [simp]:
  "match [] ts = (ts = [])"
  "match (f # fs) [] = (f = ''#'')"
  "match (f # fs) (t # ts) = (f = ''#'' \<or> (f = ''+'' \<or> f = t) \<and> match fs ts)"
  by (simp_all add: match.simps [of "[]"] match.simps [of "f # fs"])

lemma match_sub_match: "''#'' \<notin> set (butlast fs) \<Longrightarrow> match fs ts = sub_match fs ts"
  by (induction fs ts rule: sub_match.induct) (auto split: if_splits)

lemma routeSplit_share:
  assumes "CHR ''/'' \<notin> set g"
  shows "routeSplit (''$share/'' @ g @ CHR ''/'' # f) = Some (go_split (CHR ''/'') f)"
proof -
  have "go_split (CHR ''/'') (''$share/'' @ g @ CHR ''/'' # f) = ''$share'' # g # go_split (CHR ''/'') f"
    using go_split_append [of "CHR ''/''" "''$share''" "g @ CHR ''/'' # f"] go_split_append [OF assms] by simp
  then show ?thesis by (simp add: routeSplit_def go_hasPrefix_def)
qed

text \<open>What a route accepts, when \<open>routeSplit\<close> does not panic and \<open>#\<close> is a last level.\<close>

definition route_ok :: "'h route \<Rightarrow> bool" where
  "route_ok e \<longleftrightarrow> (case routeSplit (route_topic e) of None \<Rightarrow> False | Some ls \<Rightarrow> ''#'' \<notin> set (butlast ls))"

definition route_accepts :: "string \<Rightarrow> 'h route \<Rightarrow> bool" where
  "route_accepts topic e \<longleftrightarrow> route_topic e = topic \<or>
     sub_match (the (routeSplit (route_topic e))) (go_split (CHR ''/'') topic)"

lemma route_match_accepts: "route_ok e \<Longrightarrow> route_match e topic = Some (route_accepts topic e)"
  by (auto simp: route_ok_def route_match_def route_accepts_def routeIncludesTopic_def match_sub_match
      split: option.splits)

lemma matching_callbacks_accepts:
  "\<forall>e \<in> set es. route_ok e \<Longrightarrow>
   matching_callbacks es topic = Some (map callback (filter (route_accepts topic) es))"
  by (induction es) (auto simp: route_match_accepts)

lemma multilevel_before_last_iff:
  "n = i + length levels \<Longrightarrow> multilevel_before_last n i levels \<longleftrightarrow> ''#'' \<in> set (butlast levels)"
proof (induction n i levels rule: multilevel_before_last.induct)
  case (2 n i level levels)
  then show ?case by (cases "levels = []") auto
qed simp

lemma levels_of_parts_multilevel: "levels_of_parts ls \<noteq> None \<Longrightarrow> ''#'' \<notin> set (butlast ls)"
  by (induction ls rule: levels_of_parts.induct) (auto split: if_splits)

section \<open>Lemmas on dispatch\<close>

lemma message_Ack_twice:
  "message_Ack ack d = Some d' \<Longrightarrow> message_Ack ack d' = Some d'"
  by (auto simp: message_Ack_def split: if_splits)

lemma run_handlers_acked:
  "once d \<Longrightarrow> run_handlers acks ack m hs d = Some (d\<lparr>events := events d @ map (\<lambda>h. Called h m) hs\<rparr>)"
  by (induction hs arbitrary: d) (simp_all add: call_handler_def message_Ack_def Let_def)

lemma run_handlers_first:
  assumes "\<not> once d" "ack (persist d) = Some (s', ps)"
  shows "run_handlers acks ack m (h # hs) d =
    Some (d\<lparr>once := True, persist := s',
            events := events d @ Called h m # map AckOut ps @ map (\<lambda>h. Called h m) hs\<rparr>)"
  using assms by (simp add: call_handler_def message_Ack_def Let_def run_handlers_acked)

text \<open>Calls and acknowledgements in a log.\<close>

fun calls :: "'h delivery_event list \<Rightarrow> 'h list" where
  "calls [] = []"
| "calls (Called h m # es) = h # calls es"
| "calls (AckOut p # es) = calls es"

fun acks_out :: "'h delivery_event list \<Rightarrow> ControlPacket list" where
  "acks_out [] = []"
| "acks_out (Called h m # es) = acks_out es"
| "acks_out (AckOut p # es) = p # acks_out es"

lemma calls_append [simp]: "calls (xs @ ys) = calls xs @ calls ys"
  by (induction xs rule: calls.induct) auto

lemma acks_out_append [simp]: "acks_out (xs @ ys) = acks_out xs @ acks_out ys"
  by (induction xs rule: acks_out.induct) auto

lemma log_of_acks [simp]: "calls (map AckOut ps) = []" "acks_out (map AckOut ps) = ps"
  by (induction ps) auto

fun goroutine_handler :: "'h goroutine \<Rightarrow> 'h" where
  "goroutine_handler (Starting h) = h"
| "goroutine_handler (Returned h) = h"
| "goroutine_handler (Finished h) = h"

fun started :: "'h goroutine \<Rightarrow> bool" where
  "started (Starting h) = False"
| "started _ = True"

fun finished :: "'h goroutine \<Rightarrow> bool" where
  "finished (Finished h) = True"
| "finished _ = False"

text \<open>How many steps a pool of goroutines has left.\<close>

fun steps_left :: "'h goroutine \<Rightarrow> nat" where
  "steps_left (Starting h) = 2"
| "steps_left (Returned h) = 1"
| "steps_left (Finished h) = 0"

definition delivery_inv ::
  "'s \<Rightarrow> 's \<times> ControlPacket list \<Rightarrow> 'h list \<Rightarrow> ('s, 'h) pool \<Rightarrow> bool" where
  "delivery_inv s0 acked hs p \<longleftrightarrow> (case p of (gs, d) \<Rightarrow>
     map goroutine_handler gs = hs \<and>
     mset (calls (events d)) = mset (map goroutine_handler (filter started gs)) \<and>
     (if once d then hs \<noteq> [] \<and> persist d = fst acked \<and> acks_out (events d) = snd acked
      else persist d = s0 \<and> acks_out (events d) = [] \<and> (\<forall>g \<in> set gs. \<not> finished g)))"

lemma delivery_inv_Ack:
  assumes "delivery_inv s0 (s', ps) hs (gs, d)" "ack s0 = Some (s', ps)" "message_Ack ack d = Some d'" "gs \<noteq> []"
  shows "delivery_inv s0 (s', ps) hs (gs, d') \<and> once d'"
  using assms by (auto simp: delivery_inv_def message_Ack_def split: if_splits)

lemma delivery_inv_call:
  assumes "delivery_inv s0 (s', ps) hs (gs, d)" "i < length gs" "gs ! i = Starting h"
  shows "delivery_inv s0 (s', ps) hs (gs[i := Returned h], d\<lparr>events := events d @ [Called h m]\<rparr>)"
proof -
  have "Starting h \<in># mset gs" using assms(2,3) by (metis nth_mem_mset)
  then have "mset (map goroutine_handler (filter started (gs[i := Returned h]))) =
      add_mset h (mset (map goroutine_handler (filter started gs)))"
    using assms(2,3) by (simp add: mset_update)
  moreover have "map goroutine_handler (gs[i := Returned h]) = map goroutine_handler gs"
    using assms(2,3) by (metis goroutine_handler.simps(1,2) list_update_id map_update)
  moreover have "(\<forall>g \<in> set gs. \<not> finished g) \<Longrightarrow> \<forall>g \<in> set (gs[i := Returned h]). \<not> finished g"
    using set_update_subset_insert [of gs i "Returned h"] by auto
  ultimately show ?thesis using assms(1) by (simp add: delivery_inv_def split: if_splits)
qed

lemma delivery_inv_finish:
  assumes "delivery_inv s0 (s', ps) hs (gs, d)" "once d" "i < length gs" "gs ! i = Returned h"
  shows "delivery_inv s0 (s', ps) hs (gs[i := Finished h], d)"
proof -
  have "Returned h \<in> set gs" using assms(3,4) by (metis nth_mem)
  then have "h \<in># image_mset goroutine_handler (filter_mset started (mset gs))" by force
  then have "mset (map goroutine_handler (filter started (gs[i := Finished h]))) =
      mset (map goroutine_handler (filter started gs))"
    using \<open>Returned h \<in> set gs\<close> assms(3,4) by (simp add: mset_update image_mset_Diff)
  moreover have "map goroutine_handler (gs[i := Finished h]) = map goroutine_handler gs"
    using assms(3,4) by (metis goroutine_handler.simps(2,3) list_update_id map_update)
  ultimately show ?thesis using assms(1,2) by (simp add: delivery_inv_def)
qed

lemma delivery_inv_step:
  assumes "goroutine_step acks ack m p q" "delivery_inv s0 (s', ps) hs p" "ack s0 = Some (s', ps)"
  shows "delivery_inv s0 (s', ps) hs q"
  using assms
proof cases
  case (Call i gs h d d')
  then have "delivery_inv s0 (s', ps) hs (gs[i := Returned h], d\<lparr>events := events d @ [Called h m]\<rparr>)"
    using delivery_inv_call assms(2) by metis
  moreover have "gs[i := Returned h] \<noteq> []" using Call(3) by auto
  moreover have "message_Ack ack (d\<lparr>events := events d @ [Called h m]\<rparr>) = Some d'" if "acks h"
    using Call(5) that by (simp add: call_handler_def Let_def)
  ultimately have "acks h \<Longrightarrow> delivery_inv s0 (s', ps) hs (gs[i := Returned h], d')"
    "delivery_inv s0 (s', ps) hs (gs[i := Returned h], d\<lparr>events := events d @ [Called h m]\<rparr>)"
    using delivery_inv_Ack [where ack = ack, OF _ assms(3)] by blast+
  then show ?thesis using Call(2,5) by (cases "acks h") (simp_all add: call_handler_def Let_def)
next
  case (Ack i gs h d d')
  then have "gs \<noteq> []" by auto
  with Ack have "delivery_inv s0 (s', ps) hs (gs, d')" "once d'"
    using delivery_inv_Ack [where ack = ack, OF _ assms(3), of hs gs d d'] assms(2) by auto
  with Ack show ?thesis using delivery_inv_finish by metis
qed

lemma delivery_inv_reachable:
  assumes "(goroutine_step acks ack m)\<^sup>*\<^sup>* (map Starting hs, \<lparr>once = False, persist = s0, events = []\<rparr>) p"
    "ack s0 = Some (s', ps)"
  shows "delivery_inv s0 (s', ps) hs p"
  using assms(1)
proof induction
  case base
  show ?case by (auto simp: delivery_inv_def comp_def)
next
  case (step p q)
  show ?case by (rule delivery_inv_step [where ack = ack, OF step(2,3) assms(2)])
qed

lemma message_Ack_total:
  assumes "delivery_inv s0 (s', ps) hs (gs, d)" "ack s0 = Some (s', ps)"
  shows "\<exists>d'. message_Ack ack d = Some d'"
  using assms by (auto simp: delivery_inv_def message_Ack_def split: if_splits)

lemma goroutine_progress:
  assumes "delivery_inv s0 (s', ps) hs (gs, d)" "ack s0 = Some (s', ps)" "g \<in> set gs" "\<not> finished g"
  shows "\<exists>q. goroutine_step acks ack m (gs, d) q"
proof -
  obtain i where i: "i < length gs" "gs ! i = g" using assms(3) by (metis in_set_conv_nth)
  show ?thesis
  proof (cases g)
    case (Starting h)
    with i have "delivery_inv s0 (s', ps) hs (gs[i := Returned h], d\<lparr>events := events d @ [Called h m]\<rparr>)"
      using delivery_inv_call assms(1) by metis
    from message_Ack_total [where ack = ack, OF this assms(2)]
    have "\<exists>d'. call_handler acks ack m h d = Some d'" by (simp add: call_handler_def Let_def)
    with i Starting show ?thesis using Call by metis
  next
    case (Returned h)
    with i show ?thesis using message_Ack_total [where ack = ack, OF assms(1,2)] Ack by metis
  qed (use assms(4) in auto)
qed

lemma steps_left_decreases:
  assumes "goroutine_step acks ack m p q"
  shows "Suc (sum_list (map steps_left (fst q))) = sum_list (map steps_left (fst p))"
  using assms
proof cases
  case (Call i gs h d d')
  then have "steps_left h' + 1 = steps_left (gs ! i)" if "h' = Returned h" for h' using that by simp
  then show ?thesis using Call elem_le_sum_list [of i "map steps_left gs"]
    by (simp add: map_update sum_list_update)
next
  case (Ack i gs h d d')
  then show ?thesis using elem_le_sum_list [of i "map steps_left gs"]
    by (simp add: map_update sum_list_update)
qed

lemma steps_bounded:
  "(goroutine_step acks ack m ^^ n) p q \<Longrightarrow>
   n + sum_list (map steps_left (fst q)) = sum_list (map steps_left (fst p))"
proof (induction n arbitrary: q)
  case (Suc n)
  then obtain r where "(goroutine_step acks ack m ^^ n) p r" "goroutine_step acks ack m r q" by auto
  with Suc.IH steps_left_decreases [of acks ack m r q] show ?case by fastforce
qed simp

section \<open>Lemmas on the route table\<close>

definition route_of :: "'h router \<Rightarrow> string \<Rightarrow> 'h option" where
  "route_of r topic = map_option callback (List.find (\<lambda>e. route_topic e = topic) (routes r))"

lemma addRoute_loop_topics:
  "distinct (map route_topic es) \<Longrightarrow> distinct (map route_topic (addRoute_loop es t h)) \<and>
   set (map route_topic (addRoute_loop es t h)) = insert t (set (map route_topic es))"
  by (induction es) auto

lemma deleteRoute_loop_topics:
  "distinct (map route_topic es) \<Longrightarrow> distinct (map route_topic (deleteRoute_loop es t)) \<and>
   set (map route_topic (deleteRoute_loop es t)) = set (map route_topic es) - {t}"
  by (induction es) (auto, metis image_eqI)

lemma route_of_addRoute:
  "route_of (addRoute r t h) k = (if k = t then Some h else route_of r k)"
proof -
  have "map_option callback (List.find (\<lambda>e. route_topic e = k) (addRoute_loop es t h)) =
      (if k = t then Some h else map_option callback (List.find (\<lambda>e. route_topic e = k) es))" for es
    by (induction es) auto
  then show ?thesis by (simp add: route_of_def addRoute_def)
qed

lemma route_of_deleteRoute:
  assumes "distinct (map route_topic (routes r))"
  shows "route_of (deleteRoute r t) k = (if k = t then None else route_of r k)"
proof -
  have "distinct (map route_topic es) \<Longrightarrow>
      map_option callback (List.find (\<lambda>e. route_topic e = k) (deleteRoute_loop es t)) =
      (if k = t then None else map_option callback (List.find (\<lambda>e. route_topic e = k) es))" for es :: "'a route list"
    by (induction es) (auto simp: find_None_iff, metis image_eqI)
  with assms show ?thesis by (simp add: route_of_def deleteRoute_def)
qed

text \<open>A change of the route table as an event naming its filter.\<close>

definition route_event :: "(string \<times> 'h) table_event \<Rightarrow> 'h router \<Rightarrow> 'h router" where
  "route_event = apply_event (\<lambda>r (t, h). addRoute r t h) deleteRoute"

lemma route_event_simps [simp]:
  "route_event (PutEvent (t, h)) r = addRoute r t h" "route_event (DeleteEvent t) r = deleteRoute r t"
  by (simp_all add: route_event_def)

lemma route_events:
  "distinct (map route_topic (routes (fold route_event es newRouter))) \<and>
   map_option (Pair k) (route_of (fold route_event es newRouter) k) = replayed fst es Map.empty k"
proof (induction es rule: rev_induct)
  case Nil
  show ?case by (simp add: newRouter_def route_of_def replayed_def)
next
  case (snoc e es)
  let ?r = "fold route_event es newRouter"
  have d: "distinct (map route_topic (routes ?r))" using snoc by simp
  have "distinct (map route_topic (routes (route_event e ?r)))"
    using addRoute_loop_topics [OF d] deleteRoute_loop_topics [OF d]
    by (cases e) (auto simp: addRoute_def deleteRoute_def)
  moreover have "route_of (route_event e ?r) k =
      (if k = event_key fst e then map_option snd (event_value e) else route_of ?r k)"
    by (cases e) (auto simp: route_of_addRoute route_of_deleteRoute [OF d])
  ultimately show ?case using snoc by (cases e) (auto simp: replayed_def split: list.splits)
qed

section \<open>Properties\<close>


definition sample_router :: "nat router" where
  "sample_router = addRoute (addRoute newRouter ''$share/g/a/+'' 1) ''a/#'' 2"


text \<open>
  Ordered dispatch acknowledges exactly once: on an open in-memory store, dispatching a message to
  its handlers calls each of them once, in order, and sends one acknowledgement right after the first,
  PUBACK for QoS 1 and PUBREC for QoS 2 with the message's identifier, whichever handlers acknowledge
  on their own; a message without handlers is not acknowledged. PUBACK removes the stored message
  of that identifier; nothing else in the store changes.
\<close>

theorem dispatch_acks_once:
  assumes "ms_ok s" "handlers_of r (TopicName p) = Some hs"
  defines "ack \<equiv> (if hs = [] then []
      else if Qos p = 2 then [CP_Pubrec ((new_MidPacket (zeroHeader Pubrec 0))\<lparr>MessageID := MessageID p\<rparr>)]
      else if Qos p = 1 then [CP_Puback ((new_MidPacket (zeroHeader Puback 0))\<lparr>MessageID := MessageID p\<rparr>)]
      else [])"
  shows "\<exists>d. dispatch_in_order acks (\<lambda>s k m. Some (MemoryStore_Put s k m)) MemoryStore_Del r s p = Some d \<and>
    events d = map (\<lambda>h. Called h (messageFromPublish p)) (take 1 hs) @ map AckOut ack @
               map (\<lambda>h. Called h (messageFromPublish p)) (drop 1 hs) \<and>
    ms_holds (persist d) = (if hs \<noteq> [] \<and> Qos p = 1 then (ms_holds s)(inboundKeyFromMID (MessageID p) := None)
                            else ms_holds s)"
proof -
  let ?ack = "\<lambda>s. ackFunc (\<lambda>s k m. Some (MemoryStore_Put s k m)) MemoryStore_Del s p"
  obtain s' where del: "MemoryStore_Del s (inboundKeyFromMID (MessageID p)) = Some s'"
      "ms_holds s' = (ms_holds s)(inboundKeyFromMID (MessageID p) := None)"
    using mem_store.del_law [OF assms(1), of "inboundKeyFromMID (MessageID p)"] by auto
  show ?thesis
  proof (cases hs)
    case Nil
    then show ?thesis by (simp add: dispatch_in_order_def assms(2) ack_def)
  next
    case (Cons h hs')
    have "?ack s = Some (if Qos p = 1 then s' else s, ack)"
      using Cons del by (auto simp: ackFunc_def ack_def persistOutbound_def new_MidPacket_def zeroHeader_def Let_def)
    then have "run_handlers acks ?ack (messageFromPublish p) (h # hs') \<lparr>once = False, persist = s, events = []\<rparr> =
        Some \<lparr>once = True, persist = (if Qos p = 1 then s' else s), events = Called h (messageFromPublish p) #
          map AckOut ack @ map (\<lambda>h. Called h (messageFromPublish p)) hs'\<rparr>"
      by (subst run_handlers_first) simp_all
    then
    show ?thesis using Cons del(2) by (simp add: dispatch_in_order_def assms(2) del: run_handlers.simps)
  qed
qed

theorem dispatch_acks_once_witness:
  "\<exists>d. dispatch_in_order (\<lambda>h. h = 2) (\<lambda>s k m. Some (MemoryStore_Put s k m)) MemoryStore_Del sample_router
      (MemoryStore_Open NewMemoryStore) sample_publish = Some d \<and>
    events d = [Called 1 (messageFromPublish sample_publish),
      AckOut (CP_Puback ((new_MidPacket (zeroHeader Puback 0))\<lparr>MessageID := 7\<rparr>)),
      Called 2 (messageFromPublish sample_publish)]"
proof -
  have "ms_ok (MemoryStore_Open NewMemoryStore)"
    by (simp add: ms_ok_def MemoryStore_Open_def NewMemoryStore_def)
  moreover have "handlers_of sample_router (TopicName sample_publish) = Some [1, 2]"
    by (simp add: sample_publish_def sample_router_def addRoute_def newRouter_def handlers_of_def
        route_match_def routeIncludesTopic_def routeSplit_def go_hasPrefix_def)
  ultimately show ?thesis
    using dispatch_acks_once [of "MemoryStore_Open NewMemoryStore" sample_router sample_publish "[1, 2]" "\<lambda>h. h = 2"]
    by (auto simp: sample_publish_def new_PublishPacket_def zeroHeader_def)
qed



text \<open>
  The client's check of a subscription is no stricter than the broker: it accepts exactly the
  non-empty filters in which \<open>#\<close> is no level but the last, with a QoS of at most 2, and so every
  filter whose levels the broker's subscription tree accepts.
\<close>

theorem validateTopicAndQos_accepts:
  "(validateTopicAndQos topic qos = None \<longleftrightarrow>
      topic \<noteq> [] \<and> ''#'' \<notin> set (butlast (go_split (CHR ''/'') topic)) \<and> qos \<le> 2) \<and>
   (topic \<noteq> [] \<and> ref_levels topic \<noteq> None \<and> qos \<le> 2 \<longrightarrow> validateTopicAndQos topic qos = None)"
proof -
  have *: "validateTopicAndQos topic qos = None \<longleftrightarrow>
      topic \<noteq> [] \<and> ''#'' \<notin> set (butlast (go_split (CHR ''/'') topic)) \<and> qos \<le> 2"
    by (auto simp: validateTopicAndQos_def Let_def multilevel_before_last_iff)
  then show ?thesis using levels_of_parts_multilevel unfolding ref_levels_def by blast
qed

theorem validateTopicAndQos_accepts_witness:
  "validateTopicAndQos ''a/+/#'' 1 = None"
  using validateTopicAndQos_accepts [of "''a/+/#''" 1] by (simp add: ref_levels_def level_ok_def)

text \<open>
  The route table is a map from filters to callbacks: after any sequence of \<open>addRoute\<close> and
  \<open>deleteRoute\<close> a filter has one route at most, with the callback of the last \<open>addRoute\<close> that named
  it, and none when \<open>deleteRoute\<close> came after that.
\<close>

theorem routes_are_a_map:
  "distinct (map route_topic (routes (fold route_event es newRouter))) \<and>
   map_option (Pair k) (route_of (fold route_event es newRouter) k) = replayed fst es Map.empty k"
  by (rule route_events)

end
