(* ===== verification/BrokerState.thy ===== *)
theory BrokerState
  imports Topics Sessions Acl Auth Bridge
begin

text \<open>
  The state of the broker and of its clients (\<open>src/broker/broker.go\<close>, \<open>src/broker/client.go\<close>) with the
  data it exchanges with the cluster store (\<open>src/model/\<close>), and the part of the code in which
  clients call each other: writing a packet, closing a client and publishing its will.

  \<^item> Clients and subscriptions are shared by pointer, so they live in heaps of the state, and the
    topic tree holds subscription pointers.
  \<^item> What leaves the broker is recorded in order in \<open>b_out\<close>: packets written to and closings of
    connections, changes requested of the cluster store, notifications, messages for Kafka, timers.
    Calls of the store and of the notifier cannot fail visibly: the code only logs their errors.
  \<^item> A connection is nil, or it is present and the flag says whether writing to it succeeds.
  \<^item> The outside world is the record \<open>env\<close>: the MD5 sum in hexadecimal, generated UUIDs, the choice of
    \<open>rand.Intn\<close>, the Kafka producer, bcrypt, and the JSON decoder of client information, which fills a
    structure behind a pointer or sets the pointer to nil. \<open>now\<close> is
    \<open>time.Now().Unix()\<close>.
  \<^item> A handler runs to completion before the next one: one step of a worker of the pool. None
    stands for a panic, which ends the process.
\<close>

section \<open>Data shared with the cluster\<close>

record Client =
  ci_ID :: string
  ci_NodeID :: string
  ci_HostName :: string
  ci_ConnectIP :: string
  ci_IntranetIP :: string
  ci_PublicIP :: string
  ci_Platform :: string
  ci_Arch :: string
  ci_OS :: string
  ci_AgentVersion :: string
  ci_UserName :: string
  ci_ProtoName :: string
  ci_ProtoVer :: nat
  ci_KeepAlive :: uint16
  ci_CleanStart :: bool
  ci_Status :: int
  ci_Timestamp :: int

definition zeroClient :: Client where
  "zeroClient = \<lparr>ci_ID = [], ci_NodeID = [], ci_HostName = [], ci_ConnectIP = [], ci_IntranetIP = [],
     ci_PublicIP = [], ci_Platform = [], ci_Arch = [], ci_OS = [], ci_AgentVersion = [], ci_UserName = [],
     ci_ProtoName = [], ci_ProtoVer = 0, ci_KeepAlive = 0, ci_CleanStart = False, ci_Status = 0,
     ci_Timestamp = 0\<rparr>"

record Subscription =
  sd_ID :: string
  sd_ClientID :: string
  sd_NodeID :: string
  sd_Topic :: string
  sd_Qos :: nat
  sd_Timestamp :: int

record Forward =
  fw_ClientID :: string
  fw_Packet :: PublishPacket
  fw_Timestamp :: int

record Node =
  nd_ID :: string
  nd_Name :: string
  nd_Version :: string
  nd_Timestamp :: int

text \<open>What is marshalled into a value of the cluster store.\<close>

datatype store_value =
    ClientValue Client
  | SubscriptionValue Subscription
  | ForwardValue Forward
  | NodeValue Node
  | UserValue User
  | AclValue Acl
  | BridgeValue string

datatype notification =
    OnClientConnect Client
  | OnClientDisconnected Client
  | OnSubscribe Subscription
  | OnUnSubscribe string string string byte int
  | OnAgentConnect Client
  | OnAgentDisconnected Client

section \<open>Clients and the broker\<close>

datatype client_typ = LOCAL | REMOTE

abbreviation Connected :: int where "Connected \<equiv> 1"
abbreviation Disconnected :: int where "Disconnected \<equiv> 2"
abbreviation awaitRelTimeout :: int where "awaitRelTimeout \<equiv> 20"
abbreviation retryInterval :: int where "retryInterval \<equiv> 20"

type_synonym client_ptr = nat
type_synonym sub_ptr = nat

datatype InflightStatus = InflightPublish | InflightPubrel

record inflightElem =
  ie_status :: InflightStatus
  ie_packet :: PublishPacket
  ie_timestamp :: int

record subscription =
  sub_client :: client_ptr
  sub_topic :: string
  sub_qos :: byte
  sub_share :: bool
  sub_groupName :: string

record client =
  c_typ :: client_typ
  c_conn :: "bool option"
  c_info :: Client
  c_willMsg :: "PublishPacket option"
  c_status :: int
  c_cancelled :: bool
  c_session :: "session_ptr option"
  c_subMap :: "(string, sub_ptr) gomap"
  c_subs :: "iface list"
  c_qoss :: bytes
  c_rmsgs :: "PublishPacket list"
  c_awaitingRel :: "(uint16, int) gomap"
  c_maxAwaitingRel :: int
  c_inflight :: "(uint16, inflightElem) gomap"
  c_retryTimer :: "int option"

datatype out_event =
    Wrote client_ptr ControlPacket
  | ConnClosed client_ptr
  | StorePut string store_value
  | StoreDel string
  | Notified notification
  | Produced "ProducerMessage list"
  | ExpireTimer client_ptr int

text \<open>A value of the map of clients: \<open>LoadClients\<close> also stores the cluster itself there.\<close>

datatype registered = ClientObj client_ptr | ClusterObj

text \<open>The directories of the cluster; \<open>forwardDir\<close> is the one of the router.\<close>

record Cluster =
  sysDir :: string
  clusterDir :: string
  nodeDir :: string
  clientDir :: string
  subscriptionDir :: string
  bridgeDir :: string
  userDir :: string
  aclDir :: string
  forwardDir :: string
  leader :: bool

record env =
  env_md5 :: "string \<Rightarrow> string"
  env_uuid :: "nat \<Rightarrow> string"
  env_Intn :: "string \<Rightarrow> nat \<Rightarrow> nat"
  env_accepts :: "nat \<Rightarrow> bool"
  env_client_info :: "bytes \<Rightarrow> Client \<Rightarrow> Client option \<times> go_error option"
  env_compare :: "string \<Rightarrow> string \<Rightarrow> go_error option"

record Broker =
  b_id :: string
  b_AclEnable :: bool
  b_BridgeEnable :: bool
  b_NotifyEnable :: bool
  b_AuthEnable :: bool
  b_clients :: "(string, registered) gomap"
  b_topicsMgr :: Manager
  b_sessionMgr :: SessionManager
  b_auth :: etcdAuth
  b_acl :: "etcdAcl option"
  b_notify :: bool
  b_bridgeMQ :: "kafka option"
  b_cluster :: Cluster
  b_heap :: "client_ptr \<rightharpoonup> client"
  b_next :: client_ptr
  b_subheap :: "sub_ptr \<rightharpoonup> subscription"
  b_subnext :: sub_ptr
  b_uuids :: nat
  b_out :: "out_event list"

definition emit :: "out_event \<Rightarrow> Broker \<Rightarrow> Broker" where
  "emit x b = b\<lparr>b_out := b_out b @ [x]\<rparr>"

text \<open>An assignment through a client pointer.\<close>

definition set_client :: "client_ptr \<Rightarrow> client \<Rightarrow> Broker \<Rightarrow> Broker" where
  "set_client p c b = b\<lparr>b_heap := (b_heap b)(p \<mapsto> c)\<rparr>"

definition notifying :: "Broker \<Rightarrow> bool" where
  "notifying b \<longleftrightarrow> b_NotifyEnable b \<and> b_notify b"

definition client_init :: "int \<Rightarrow> string \<Rightarrow> client \<Rightarrow> client" where
  "client_init now ip c =
     (let c1 = c\<lparr>c_status := Connected\<rparr>;
          c2 = (if c_typ c1 = LOCAL \<and> c_conn c1 \<noteq> None
                then c1\<lparr>c_info := (c_info c1)\<lparr>ci_Status := Connected, ci_Timestamp := now, ci_ConnectIP := ip\<rparr>\<rparr>
                else c1)
      in c2\<lparr>c_cancelled := False, c_subMap := [], c_awaitingRel := [], c_inflight := []\<rparr>)"

text \<open>\<open>&client{...}\<close> with the fields that are not given.\<close>

definition new_client ::
  "client_typ \<Rightarrow> bool option \<Rightarrow> Client \<Rightarrow> PublishPacket option \<Rightarrow> client" where
  "new_client t conn info will = \<lparr>c_typ = t, c_conn = conn, c_info = info, c_willMsg = will, c_status = 0,
     c_cancelled = False, c_session = None, c_subMap = [], c_subs = [], c_qoss = [], c_rmsgs = [],
     c_awaitingRel = [], c_maxAwaitingRel = 0, c_inflight = [], c_retryTimer = None\<rparr>"

section \<open>Requests to the cluster store\<close>

definition Subscription_GetID :: "env \<Rightarrow> Subscription \<Rightarrow> string" where
  "Subscription_GetID e s = env_md5 e (sd_Topic s) @ '':'' @ sd_ClientID s"

definition StoreAddORUpdateClient :: "Client \<Rightarrow> Broker \<Rightarrow> Broker" where
  "StoreAddORUpdateClient obj b =
     emit (StorePut (clientDir (b_cluster b) @ ''/'' @ ci_ID obj) (ClientValue obj)) b"

definition StoreRemoveClient :: "string \<Rightarrow> Broker \<Rightarrow> Broker" where
  "StoreRemoveClient cid b = emit (StoreDel (clientDir (b_cluster b) @ ''/'' @ cid)) b"

definition RemoveClient :: "string \<Rightarrow> Broker \<Rightarrow> Broker" where
  "RemoveClient cid b =
     (case gm_get (b_clients b) cid of
        None \<Rightarrow> b
      | Some _ \<Rightarrow> b\<lparr>b_clients := gm_del cid (b_clients b)\<rparr>)"

definition StoreAddORUpdateSubscription :: "env \<Rightarrow> Subscription \<Rightarrow> Broker \<Rightarrow> Subscription \<times> Broker" where
  "StoreAddORUpdateSubscription e s b =
     (let s' = s\<lparr>sd_ID := Subscription_GetID e s\<rparr> in
      (s', emit (StorePut (subscriptionDir (b_cluster b) @ ''/'' @ sd_ID s') (SubscriptionValue s')) b))"

definition StoreRemoveSubscription :: "env \<Rightarrow> string \<Rightarrow> string \<Rightarrow> Broker \<Rightarrow> Broker" where
  "StoreRemoveSubscription e topic cid b =
     emit (StoreDel (subscriptionDir (b_cluster b) @ ''/'' @ env_md5 e topic @ '':'' @ cid)) b"

text \<open>\<open>etcdRouter.Forward\<close>.\<close>

definition etcdRouter_Forward :: "env \<Rightarrow> string \<Rightarrow> Forward \<Rightarrow> Broker \<Rightarrow> Broker" where
  "etcdRouter_Forward e nodeID data b =
     (let key = forwardDir (b_cluster b) @ ''/'' @ nodeID @ ''/'' @ env_uuid e (b_uuids b) in
      (emit (StorePut key (ForwardValue data)) b)\<lparr>b_uuids := b_uuids b + 1\<rparr>)"

section \<open>Writing, closing, publishing a will\<close>

text \<open>
  \<open>WriterPacket\<close> closes a client without a connection, closing publishes the will, and publishing
  writes to other clients. The functions are written over the call they make, and tied together by
  recursion on a number of nested closings. The deferred \<open>recover\<close> of \<open>WriterPacket\<close> turns a panic of
  \<open>Write\<close> into a return without error.
\<close>

definition WriterPacket_with ::
  "(client_ptr \<Rightarrow> Broker \<Rightarrow> Broker option) \<Rightarrow> client_ptr \<Rightarrow> ControlPacket \<Rightarrow> Broker \<Rightarrow>
   (Broker \<times> go_error option) option" where
  "WriterPacket_with close p packet b =
     do { c \<leftarrow> b_heap b p;
          if c_status c = Disconnected then Some (b, None)
          else (case c_conn c of
                  None \<Rightarrow> do { b' \<leftarrow> close p b; Some (b', Some (Errorf ''connect lost ....'')) }
                | Some ok \<Rightarrow>
                    (case ControlPacket_Write packet of
                       None \<Rightarrow> Some (b, None)
                     | Some _ \<Rightarrow>
                         if ok then Some (emit (Wrote p packet) b, None)
                         else Some (b, Some (Errorf ''write error'')))) }"

definition PublishMessage_with ::
  "(client_ptr \<Rightarrow> ControlPacket \<Rightarrow> Broker \<Rightarrow> (Broker \<times> go_error option) option) \<Rightarrow>
   PublishPacket \<Rightarrow> Broker \<Rightarrow> Broker option" where
  "PublishMessage_with writer packet b =
     do { ((ss, qs), err) \<leftarrow> topics_Manager_Subscribers (b_topicsMgr b) (TopicName packet) (Qos packet) ([], []);
          if err \<noteq> None then Some b
          else fold_opt (\<lambda>s b. case s of
                   IfPtr a \<Rightarrow> do { sub \<leftarrow> b_subheap b a; (b', _) \<leftarrow> writer (sub_client sub) (CP_Publish packet) b; Some b' }
                 | _ \<Rightarrow> Some b) ss b }"

text \<open>One turn of the loop of \<open>Close\<close> over the client's subscriptions.\<close>

definition Close_topic :: "env \<Rightarrow> int \<Rightarrow> client_ptr \<Rightarrow> string \<times> sub_ptr \<Rightarrow> Broker \<Rightarrow> Broker option" where
  "Close_topic e now p ts b =
     do { sub \<leftarrow> b_subheap b (snd ts);
          (m, err) \<leftarrow> topics_Manager_Unsubscribe (b_topicsMgr b) (sub_topic sub) (Some (IfPtr (snd ts)));
          let b = b\<lparr>b_topicsMgr := m\<rparr>;
          c \<leftarrow> b_heap b p;
          let info = c_info c;
          let b = StoreRemoveSubscription e (fst ts) (ci_ID info) b;
          if notifying b then
            let b = emit (Notified (OnUnSubscribe (ci_ID info) (ci_NodeID info) (fst ts) (sub_qos sub) now)) b in
            if fst ts = ''agents/'' @ ci_ID info then
              let info' = info\<lparr>ci_Timestamp := now\<rparr> in
              Some (emit (Notified (OnAgentDisconnected info')) (set_client p (c\<lparr>c_info := info'\<rparr>) b))
            else Some b
          else Some b }"

definition Close_with ::
  "(PublishPacket \<Rightarrow> Broker \<Rightarrow> Broker option) \<Rightarrow> env \<Rightarrow> int \<Rightarrow> client_ptr \<Rightarrow> Broker \<Rightarrow> Broker option" where
  "Close_with publish_will e now p b =
     do { c \<leftarrow> b_heap b p;
          if c_status c = Disconnected then Some b
          else do {
            let c1 = c\<lparr>c_cancelled := True, c_status := Disconnected,
                       c_info := (c_info c)\<lparr>ci_Status := Disconnected\<rparr>, c_conn := None\<rparr>;
            let b1 = set_client p c1 (if c_conn c = None then b else emit (ConnClosed p) b);
            let b2 = StoreRemoveClient (ci_ID (c_info c1)) (RemoveClient (ci_ID (c_info c1)) b1);
            b3 \<leftarrow> fold_opt (Close_topic e now p) (c_subMap c1) b2;
            c3 \<leftarrow> b_heap b3 p;
            let b4 = (if notifying b3 then emit (Notified (OnClientDisconnected (c_info c3))) b3 else b3);
            (case c_willMsg c3 of None \<Rightarrow> Some b4 | Some w \<Rightarrow> publish_will w b4) } }"

primrec Close :: "nat \<Rightarrow> env \<Rightarrow> int \<Rightarrow> client_ptr \<Rightarrow> Broker \<Rightarrow> Broker option" where
  "Close 0 e now p b = None"
| "Close (Suc n) e now p b = Close_with (PublishMessage_with (WriterPacket_with (Close n e now))) e now p b"

definition WriterPacket ::
  "nat \<Rightarrow> env \<Rightarrow> int \<Rightarrow> client_ptr \<Rightarrow> ControlPacket \<Rightarrow> Broker \<Rightarrow> (Broker \<times> go_error option) option" where
  "WriterPacket n e now = WriterPacket_with (Close n e now)"

definition PublishMessage :: "nat \<Rightarrow> env \<Rightarrow> int \<Rightarrow> PublishPacket \<Rightarrow> Broker \<Rightarrow> Broker option" where
  "PublishMessage n e now = PublishMessage_with (WriterPacket n e now)"

end
