(* ===== verification/Notify.thy ===== *)
theory Notify
  imports BrokerState
begin

text \<open>
  The notifications of the broker (\<open>notify/\<close>): the two transports and the requests they send. JSON, the
  HTTP client and the gRPC stubs are the arguments \<open>transport\<close>; what a call sends is a list of
  requests, beside the value it returns. A process that ends is \<^const>\<open>None\<close>.

  The locale \<open>notification_service\<close> is the interface \<open>Notification\<close> as the broker uses it. It is
  interpreted on both transports.
\<close>

section \<open>Transports\<close>

record 'd transport =
  tr_marshal :: "'d \<Rightarrow> go_error + bytes"
  tr_post :: "string \<Rightarrow> string \<Rightarrow> bytes \<Rightarrow> go_error + nat"
  tr_call :: "string \<Rightarrow> string \<Rightarrow> bytes \<Rightarrow> go_error + bool"
  tr_dial :: "string \<Rightarrow> go_error option"

datatype request =
    HttpPost string string bytes
  | GrpcCall string string bytes

abbreviation StatusOK :: nat where "StatusOK \<equiv> 200"

record notificationHTTP =
  nh_server :: string

datatype Notification = HttpNotification notificationHTTP | GrpcNotification

definition InitHttp :: "string \<Rightarrow> notificationHTTP" where
  "InitHttp server = \<lparr>nh_server = server\<rparr>"

text \<open>A failed dial ends the process.\<close>

definition InitGrpc :: "'d transport \<Rightarrow> string \<Rightarrow> Notification option" where
  "InitGrpc tr server = (case tr_dial tr server of Some err \<Rightarrow> None | None \<Rightarrow> Some GrpcNotification)"

definition NewNotify :: "'d transport \<Rightarrow> string \<Rightarrow> string \<Rightarrow> Notification option" where
  "NewNotify tr server name =
     (if name = ''http'' then Some (HttpNotification (InitHttp server))
      else if name = ''grpc'' then InitGrpc tr server
      else Some (HttpNotification (InitHttp server)))"

text \<open>The body the six HTTP methods share.\<close>

definition http_notify :: "'d transport \<Rightarrow> notificationHTTP \<Rightarrow> string \<Rightarrow> 'd \<Rightarrow> request list \<times> bool" where
  "http_notify tr h meth data =
     (let url = nh_server h @ ''/'' @ meth in
      case tr_marshal tr data of
        Inl err \<Rightarrow> ([], False)
      | Inr obj \<Rightarrow>
          ([HttpPost url ''application/json'' obj],
           case tr_post tr url ''application/json'' obj of Inl err \<Rightarrow> False | Inr status \<Rightarrow> status = StatusOK))"

text \<open>The body the six gRPC methods share: without bytes when the data cannot be marshalled.\<close>

definition grpc_notify :: "'d transport \<Rightarrow> string \<Rightarrow> 'd \<Rightarrow> request list \<times> bool" where
  "grpc_notify tr meth data =
     (let byteData = (case tr_marshal tr data of Inl err \<Rightarrow> [] | Inr obj \<Rightarrow> obj) in
      ([GrpcCall meth ''anything'' byteData],
       case tr_call tr meth ''anything'' byteData of Inl err \<Rightarrow> False | Inr status \<Rightarrow> status))"

definition Http_OnClientConnect :: "'d transport \<Rightarrow> notificationHTTP \<Rightarrow> 'd \<Rightarrow> request list \<times> bool" where
  "Http_OnClientConnect tr h data = http_notify tr h ''OnClientConnect'' data"

definition Http_OnClientDisconnected :: "'d transport \<Rightarrow> notificationHTTP \<Rightarrow> 'd \<Rightarrow> request list \<times> bool" where
  "Http_OnClientDisconnected tr h data = http_notify tr h ''OnClientDisconnected'' data"

definition Http_OnSubscribe :: "'d transport \<Rightarrow> notificationHTTP \<Rightarrow> 'd \<Rightarrow> request list \<times> bool" where
  "Http_OnSubscribe tr h data = http_notify tr h ''OnSubscribe'' data"

definition Http_OnUnSubscribe :: "'d transport \<Rightarrow> notificationHTTP \<Rightarrow> 'd \<Rightarrow> request list \<times> bool" where
  "Http_OnUnSubscribe tr h data = http_notify tr h ''OnUnSubscribe'' data"

definition Http_OnAgentConnect :: "'d transport \<Rightarrow> notificationHTTP \<Rightarrow> 'd \<Rightarrow> request list \<times> bool" where
  "Http_OnAgentConnect tr h data = http_notify tr h ''OnAgentConnect'' data"

definition Http_OnAgentDisconnected :: "'d transport \<Rightarrow> notificationHTTP \<Rightarrow> 'd \<Rightarrow> request list \<times> bool" where
  "Http_OnAgentDisconnected tr h data = http_notify tr h ''OnAgentDisconnected'' data"

definition Grpc_OnClientConnect :: "'d transport \<Rightarrow> 'd \<Rightarrow> request list \<times> bool" where
  "Grpc_OnClientConnect tr data = grpc_notify tr ''OnClientConnect'' data"

definition Grpc_OnClientDisconnected :: "'d transport \<Rightarrow> 'd \<Rightarrow> request list \<times> bool" where
  "Grpc_OnClientDisconnected tr data = grpc_notify tr ''OnClientDisconnected'' data"

definition Grpc_OnSubscribe :: "'d transport \<Rightarrow> 'd \<Rightarrow> request list \<times> bool" where
  "Grpc_OnSubscribe tr data = grpc_notify tr ''OnSubscribe'' data"

definition Grpc_OnUnSubscribe :: "'d transport \<Rightarrow> 'd \<Rightarrow> request list \<times> bool" where
  "Grpc_OnUnSubscribe tr data = grpc_notify tr ''OnUnSubscribe'' data"

definition Grpc_OnAgentConnect :: "'d transport \<Rightarrow> 'd \<Rightarrow> request list \<times> bool" where
  "Grpc_OnAgentConnect tr data = grpc_notify tr ''OnAgentConnect'' data"

definition Grpc_OnAgentDisconnected :: "'d transport \<Rightarrow> 'd \<Rightarrow> request list \<times> bool" where
  "Grpc_OnAgentDisconnected tr data = grpc_notify tr ''OnAgentDisconnected'' data"

section \<open>The notifications of the broker\<close>

text \<open>The call the broker makes for a notification, by the transport it was created with.\<close>

definition send_notification :: "notification transport \<Rightarrow> Notification \<Rightarrow> notification \<Rightarrow> request list \<times> bool" where
  "send_notification tr n x =
     (case n of
        HttpNotification h \<Rightarrow>
          (case x of
             OnClientConnect _ \<Rightarrow> Http_OnClientConnect tr h x
             | OnClientDisconnected _ \<Rightarrow> Http_OnClientDisconnected tr h x
             | OnSubscribe _ \<Rightarrow> Http_OnSubscribe tr h x
             | OnUnSubscribe _ _ _ _ _ \<Rightarrow> Http_OnUnSubscribe tr h x
             | OnAgentConnect _ \<Rightarrow> Http_OnAgentConnect tr h x
             | OnAgentDisconnected _ \<Rightarrow> Http_OnAgentDisconnected tr h x)
      | GrpcNotification \<Rightarrow>
          (case x of
             OnClientConnect _ \<Rightarrow> Grpc_OnClientConnect tr x
             | OnClientDisconnected _ \<Rightarrow> Grpc_OnClientDisconnected tr x
             | OnSubscribe _ \<Rightarrow> Grpc_OnSubscribe tr x
             | OnUnSubscribe _ _ _ _ _ \<Rightarrow> Grpc_OnUnSubscribe tr x
             | OnAgentConnect _ \<Rightarrow> Grpc_OnAgentConnect tr x
             | OnAgentDisconnected _ \<Rightarrow> Grpc_OnAgentDisconnected tr x))"

definition method_of :: "notification \<Rightarrow> string" where
  "method_of x =
     (case x of
        OnClientConnect _ \<Rightarrow> ''OnClientConnect''
        | OnClientDisconnected _ \<Rightarrow> ''OnClientDisconnected''
        | OnSubscribe _ \<Rightarrow> ''OnSubscribe''
        | OnUnSubscribe _ _ _ _ _ \<Rightarrow> ''OnUnSubscribe''
        | OnAgentConnect _ \<Rightarrow> ''OnAgentConnect''
        | OnAgentDisconnected _ \<Rightarrow> ''OnAgentDisconnected'')"

text \<open>The requests a run of the broker makes, in the order of its outputs; the results are not looked at.\<close>

definition notification_of :: "out_event \<Rightarrow> notification list" where
  "notification_of x = (case x of Notified n \<Rightarrow> [n] | _ \<Rightarrow> [])"

definition requests_of :: "(notification \<Rightarrow> request list \<times> bool) \<Rightarrow> out_event list \<Rightarrow> request list" where
  "requests_of on out = concat (map (fst \<circ> on) (concat (map notification_of out)))"

section \<open>The interface\<close>

text \<open>
  What the broker relies on: a notification that can be marshalled is one request, to the method that
  is named after it, and success is only reported for a notification that was sent.
\<close>

locale notification_service =
  fixes on :: "notification \<Rightarrow> request list \<times> bool"
    and encodes :: "notification \<Rightarrow> bytes option"
    and request_for :: "string \<Rightarrow> bytes \<Rightarrow> request"
  assumes one_request: "encodes x = Some body \<Longrightarrow> fst (on x) = [request_for (method_of x) body]"
    and success_sent: "snd (on x) \<Longrightarrow> fst (on x) \<noteq> []"
begin

lemma requests_in_order:
  assumes "\<forall>x \<in> set (concat (map notification_of out)). encodes x \<noteq> None"
  shows "requests_of on out =
    map (\<lambda>x. request_for (method_of x) (the (encodes x))) (concat (map notification_of out))"
proof -
  have "concat (map (fst \<circ> on) xs) = map (\<lambda>x. request_for (method_of x) (the (encodes x))) xs"
    if "\<forall>x \<in> set xs. encodes x \<noteq> None" for xs
    using that by (induction xs) (auto simp: one_request)
  then show ?thesis using assms by (simp add: requests_of_def)
qed

lemma requests_only_for_notifications:
  "concat (map notification_of out) = [] \<Longrightarrow> requests_of on out = []"
  by (simp add: requests_of_def)

end

definition encoding :: "'d transport \<Rightarrow> 'd \<Rightarrow> bytes option" where
  "encoding tr x = (case tr_marshal tr x of Inl err \<Rightarrow> None | Inr obj \<Rightarrow> Some obj)"

lemma send_http: "send_notification tr (HttpNotification h) x = http_notify tr h (method_of x) x"
  by (cases x) (simp_all add: send_notification_def method_of_def Http_OnClientConnect_def Http_OnClientDisconnected_def
      Http_OnSubscribe_def Http_OnUnSubscribe_def Http_OnAgentConnect_def Http_OnAgentDisconnected_def)

lemma send_grpc: "send_notification tr GrpcNotification x = grpc_notify tr (method_of x) x"
  by (cases x) (simp_all add: send_notification_def method_of_def Grpc_OnClientConnect_def Grpc_OnClientDisconnected_def
      Grpc_OnSubscribe_def Grpc_OnUnSubscribe_def Grpc_OnAgentConnect_def Grpc_OnAgentDisconnected_def)

interpretation http_service: notification_service "send_notification tr (HttpNotification h)" "encoding tr"
  "\<lambda>meth. HttpPost (nh_server h @ ''/'' @ meth) ''application/json''" for tr h
  by unfold_locales (auto simp: send_http http_notify_def encoding_def Let_def split: sum.splits)

interpretation grpc_service: notification_service "send_notification tr GrpcNotification" "encoding tr"
  "\<lambda>meth. GrpcCall meth ''anything''" for tr
  by unfold_locales (auto simp: send_grpc grpc_notify_def encoding_def Let_def split: sum.splits)

text \<open>
  The two transports differ when the data cannot be marshalled: over HTTP nothing is sent, over gRPC a
  request without data is, which the server may acknowledge as a success.
\<close>

lemma unmarshalled_notification:
  assumes "encoding tr x = None"
  shows "send_notification tr (HttpNotification h) x = ([], False)"
    "fst (send_notification tr GrpcNotification x) = [GrpcCall (method_of x) ''anything'' []]"
  using assms by (auto simp: send_http send_grpc http_notify_def grpc_notify_def encoding_def Let_def split: sum.splits)

text \<open>Every name but the one of gRPC gives the HTTP transport, which never ends the process.\<close>

lemma NewNotify_http: "name \<noteq> ''grpc'' \<Longrightarrow> NewNotify tr server name = Some (HttpNotification \<lparr>nh_server = server\<rparr>)"
  by (simp add: NewNotify_def InitHttp_def)

lemma NewNotify_requests:
  assumes "NewNotify tr server name = Some n" "\<forall>x \<in> set (concat (map notification_of out)). encoding tr x \<noteq> None"
  shows "length (requests_of (send_notification tr n) out) = length (concat (map notification_of out))"
proof (cases n)
  case (HttpNotification h)
  then show ?thesis using http_service.requests_in_order [OF assms(2), of h] by simp
next
  case GrpcNotification
  then show ?thesis using grpc_service.requests_in_order [OF assms(2)] by simp
qed

end
