(* ===== verification/BrokerClose.thy ===== *)
theory BrokerClose
  imports BrokerState
begin

text \<open>
  The invariant that ties the broker's topic tree to the subscription maps of its clients, and what
  closing a client does to it: closing always returns, whatever wills it publishes and whichever
  other clients that closes, and it leaves no subscription of the client behind.
\<close>

section \<open>The invariant\<close>

definition in_force :: "Broker \<Rightarrow> (string list \<times> sub_ptr) set" where
  "in_force b = mt_entries (topics_p (b_topicsMgr b))"

text \<open>Every subscription of the tree is in the map of its client, under its levels.\<close>

definition tree_sound :: "Broker \<Rightarrow> bool" where
  "tree_sound b \<longleftrightarrow> (\<forall>ls a. (ls, a) \<in> in_force b \<longrightarrow>
     (\<exists>sub c t. b_subheap b a = Some sub \<and> b_heap b (sub_client sub) = Some c \<and>
        gm_get (c_subMap c) t = Some a \<and> topic_levels (sub_topic sub) = Some ls))"

text \<open>Subscriptions of a client belong to it, and are in the tree while it is not disconnected.\<close>

definition client_ok :: "Broker \<Rightarrow> client_ptr \<Rightarrow> client \<Rightarrow> bool" where
  "client_ok b p c \<longleftrightarrow> gm_wf (c_subMap c) \<and>
     (\<forall>t t' a. gm_get (c_subMap c) t = Some a \<longrightarrow> gm_get (c_subMap c) t' = Some a \<longrightarrow> t = t') \<and>
     (\<forall>t a. gm_get (c_subMap c) t = Some a \<longrightarrow>
        (\<exists>sub. b_subheap b a = Some sub \<and> sub_client sub = p \<and>
           (c_status c \<noteq> Disconnected \<longrightarrow>
              (\<exists>ls. topic_levels (sub_topic sub) = Some ls \<and> (ls, a) \<in> in_force b))))"

definition broker_inv :: "Broker \<Rightarrow> bool" where
  "broker_inv b \<longleftrightarrow> mt_inv (topics_p (b_topicsMgr b)) \<and> tree_sound b \<and>
     (\<forall>p c. b_heap b p = Some c \<longrightarrow> client_ok b p c) \<and>
     (\<forall>p \<ge> b_next b. b_heap b p = None) \<and> (\<forall>a \<ge> b_subnext b. b_subheap b a = None)"

text \<open>Clients that count as connected, and the subscriptions that belong to a client.\<close>

definition online :: "Broker \<Rightarrow> client_ptr set" where
  "online b = {p. \<exists>c. b_heap b p = Some c \<and> c_status c \<noteq> Disconnected}"

definition owned :: "Broker \<Rightarrow> client_ptr \<Rightarrow> sub_ptr set" where
  "owned b p = {a. \<exists>sub. b_subheap b a = Some sub \<and> sub_client sub = p}"

definition registered_ids :: "Broker \<Rightarrow> string set" where
  "registered_ids b = dom (gm_get (b_clients b))"

definition registry :: "Broker \<Rightarrow> (string \<rightharpoonup> registered)" where
  "registry b = gm_get (b_clients b)"

lemma registry_ids: "registry b' \<subseteq>\<^sub>m registry b \<Longrightarrow> registered_ids b' \<subseteq> registered_ids b"
  by (auto simp: registry_def registered_ids_def dest: map_le_implies_dom_le)

lemma registry_RemoveClient: "registry (RemoveClient i b) = (registry b)(i := None)"
  by (auto simp: registry_def RemoveClient_def split: option.splits)

lemma registered_ids_same: "b_clients b' = b_clients b \<Longrightarrow> registered_ids b' = registered_ids b"
  by (simp add: registered_ids_def)

lemma registered_ids_RemoveClient: "registered_ids (RemoveClient i b) = registered_ids b - {i}"
  by (auto simp: registered_ids_def RemoveClient_def split: option.splits if_splits)

lemma online_finite:
  assumes "broker_inv b"
  shows "finite (online b)"
proof (rule finite_subset)
  show "online b \<subseteq> {..<b_next b}"
    using assms unfolding online_def broker_inv_def by (force simp: not_le [symmetric])
qed simp

section \<open>How closing changes the state\<close>

text \<open>
  \<open>calmer b b'\<close>: from \<open>b\<close> to \<open>b'\<close> subscriptions may only have left the tree and clients may only have
  been disconnected; their subscription maps are the same, and output was only appended.
\<close>

definition calmer_client :: "client \<Rightarrow> client \<Rightarrow> bool" where
  "calmer_client c c' \<longleftrightarrow> c_subMap c' = c_subMap c \<and> c_typ c' = c_typ c \<and>
     ci_ID (c_info c') = ci_ID (c_info c) \<and> c_willMsg c' = c_willMsg c \<and>
     c_inflight c' = c_inflight c \<and> c_awaitingRel c' = c_awaitingRel c \<and> c_session c' = c_session c \<and>
     (c_status c' = c_status c \<and> c_conn c' = c_conn c \<or> c_status c' = Disconnected \<and> c_conn c' = None)"

definition calmer :: "Broker \<Rightarrow> Broker \<Rightarrow> bool" where
  "calmer b b' \<longleftrightarrow> in_force b' \<subseteq> in_force b \<and> b_subheap b' = b_subheap b \<and>
     b_next b' = b_next b \<and> b_subnext b' = b_subnext b \<and> b_id b' = b_id b \<and>
     b_cluster b' = b_cluster b \<and> b_NotifyEnable b' = b_NotifyEnable b \<and> b_notify b' = b_notify b \<and>
     b_sessionMgr b' = b_sessionMgr b \<and> registry b' \<subseteq>\<^sub>m registry b \<and>
     rroot (topics_p (b_topicsMgr b')) = rroot (topics_p (b_topicsMgr b)) \<and>
     (\<forall>p. rel_option calmer_client (b_heap b p) (b_heap b' p)) \<and>
     (\<exists>xs. b_out b' = b_out b @ xs)"

lemma calmer_client_refl [simp]: "calmer_client c c"
  by (simp add: calmer_client_def)

lemma calmer_client_trans: "calmer_client a b \<Longrightarrow> calmer_client b c \<Longrightarrow> calmer_client a c"
  by (auto simp: calmer_client_def)

lemma calmer_refl [simp]: "calmer b b"
  by (auto simp: calmer_def option.rel_refl)

lemma calmer_trans:
  assumes "calmer a b" "calmer b c"
  shows "calmer a c"
proof -
  have "rel_option calmer_client (b_heap a p) (b_heap c p)" for p
  proof -
    have "rel_option calmer_client (b_heap a p) (b_heap b p)" "rel_option calmer_client (b_heap b p) (b_heap c p)"
      using assms by (simp_all add: calmer_def)
    then show ?thesis
      by (cases "b_heap a p"; cases "b_heap b p"; cases "b_heap c p") (auto intro: calmer_client_trans)
  qed
  then show ?thesis using assms unfolding calmer_def by (auto intro: map_le_trans)
qed

lemma calmer_get:
  assumes "calmer b b'" "b_heap b p = Some c"
  obtains c' where "b_heap b' p = Some c'" "calmer_client c c'"
  using assms unfolding calmer_def by (metis option_rel_Some1)

lemma calmer_get_back:
  assumes "calmer b b'" "b_heap b' p = Some c'"
  obtains c where "b_heap b p = Some c" "calmer_client c c'"
  using assms unfolding calmer_def by (metis option_rel_Some2)

lemma calmer_online: "calmer b b' \<Longrightarrow> online b' \<subseteq> online b"
  by (auto simp: online_def calmer_client_def elim!: calmer_get_back)

lemma calmer_heap: "calmer b b' \<Longrightarrow> b_heap b p \<noteq> None \<Longrightarrow> b_heap b' p \<noteq> None"
  by (auto elim: calmer_get)

lemma calmer_disconnected: "calmer b b' \<Longrightarrow> b_heap b p \<noteq> None \<Longrightarrow> p \<notin> online b \<Longrightarrow> p \<notin> online b'"
  using calmer_online by blast

section \<open>Elementary changes\<close>

text \<open>Output and the map of clients do not concern the invariant.\<close>

definition same_core :: "Broker \<Rightarrow> Broker \<Rightarrow> bool" where
  "same_core b b' \<longleftrightarrow> b_topicsMgr b' = b_topicsMgr b \<and> b_heap b' = b_heap b \<and> b_subheap b' = b_subheap b \<and>
     b_next b' = b_next b \<and> b_subnext b' = b_subnext b \<and> b_id b' = b_id b \<and> b_cluster b' = b_cluster b \<and>
     b_NotifyEnable b' = b_NotifyEnable b \<and> b_notify b' = b_notify b \<and> b_sessionMgr b' = b_sessionMgr b \<and>
     registry b' \<subseteq>\<^sub>m registry b \<and> (\<exists>xs. b_out b' = b_out b @ xs)"

lemma same_core_inv: "same_core b b' \<Longrightarrow> broker_inv b \<Longrightarrow> broker_inv b'"
  by (auto simp: same_core_def broker_inv_def tree_sound_def client_ok_def in_force_def)

lemma same_core_calmer: "same_core b b' \<Longrightarrow> calmer b b'"
  by (auto simp: same_core_def calmer_def in_force_def option.rel_refl)

lemma same_core_trans: "same_core a b \<Longrightarrow> same_core b c \<Longrightarrow> same_core a c"
  by (auto simp: same_core_def intro: map_le_trans)

lemma same_core_simps [simp, intro]:
  "same_core b b" "same_core b (emit x b)" "same_core b (RemoveClient i b)"
  "same_core b (StoreRemoveClient i b)" "same_core b (StoreRemoveSubscription e t i b)"
  "same_core b (etcdRouter_Forward e n f b)"
  by (auto simp: same_core_def registry_RemoveClient)
    (auto simp: emit_def RemoveClient_def StoreRemoveClient_def StoreRemoveSubscription_def
      etcdRouter_Forward_def Let_def registry_def split: option.splits)

text \<open>A change of a client that keeps its subscriptions.\<close>

definition same_subs :: "client \<Rightarrow> client \<Rightarrow> bool" where
  "same_subs c c' \<longleftrightarrow> c_subMap c' = c_subMap c \<and> (c_status c' = c_status c \<or> c_status c' = Disconnected)"

lemma set_client_simps [simp]:
  "b_heap (set_client p c b) = (b_heap b)(p \<mapsto> c)" "b_topicsMgr (set_client p c b) = b_topicsMgr b"
  "b_subheap (set_client p c b) = b_subheap b" "b_next (set_client p c b) = b_next b"
  "b_subnext (set_client p c b) = b_subnext b" "b_out (set_client p c b) = b_out b"
  "b_id (set_client p c b) = b_id b" "b_cluster (set_client p c b) = b_cluster b"
  "b_NotifyEnable (set_client p c b) = b_NotifyEnable b" "b_notify (set_client p c b) = b_notify b"
  "b_clients (set_client p c b) = b_clients b" "in_force (set_client p c b) = in_force b"
  "b_sessionMgr (set_client p c b) = b_sessionMgr b" "registered_ids (set_client p c b) = registered_ids b"
  "registry (set_client p c b) = registry b"
  by (simp_all add: set_client_def in_force_def registered_ids_def registry_def)

lemma broker_inv_set_client:
  assumes "broker_inv b" "b_heap b p = Some c" "same_subs c c'"
  shows "broker_inv (set_client p c' b)"
proof -
  have "tree_sound (set_client p c' b)"
    using assms unfolding broker_inv_def tree_sound_def same_subs_def set_client_simps fun_upd_apply
    by (metis option.inject)
  moreover have "client_ok (set_client p c' b) q d" if "b_heap (set_client p c' b) q = Some d" for q d
    using assms that unfolding broker_inv_def client_ok_def same_subs_def
    by (auto split: if_splits) (metis assms(2))+
  ultimately show ?thesis using assms unfolding broker_inv_def by auto
qed

text \<open>Taking a subscription of a client out of the tree.\<close>

lemma Manager_Unsubscribe:
  assumes "mt_inv (topics_p m)"
  obtains m' err where "topics_Manager_Unsubscribe m t (Some (IfPtr a)) = Some (m', err)" "mt_inv (topics_p m')"
    "mt_entries (topics_p m') =
       (case topic_levels t of Some ls \<Rightarrow> mt_entries (topics_p m) - {(ls, a)} | None \<Rightarrow> mt_entries (topics_p m))"
    "rroot (topics_p m') = rroot (topics_p m)"
proof -
  obtain s' err where s': "memTopics_Unsubscribe (topics_p m) t (Some (IfPtr a)) = Some (s', err)" "mt_inv s'"
    "mt_entries s' = mem_provider.after_unsubscribe (mt_entries (topics_p m)) t a"
    using mem_provider.unsubscribe_total [OF assms, of t a] by blast
  then have "rroot s' = rroot (topics_p m)"
    by (auto simp: memTopics_Unsubscribe_def nil_node_def split: option.splits if_splits sum.splits prod.splits)
  with s' show ?thesis
    using that by (auto simp: topics_Manager_Unsubscribe_def mem_provider.after_unsubscribe_def)
qed

lemma broker_inv_shrink:
  assumes inv: "broker_inv b" and m: "mt_inv (topics_p m)"
    and sub: "mt_entries (topics_p m) \<subseteq> in_force b"
    and keep: "\<And>ls a sub c. (ls, a) \<in> in_force b \<Longrightarrow> b_subheap b a = Some sub \<Longrightarrow>
      b_heap b (sub_client sub) = Some c \<Longrightarrow> c_status c \<noteq> Disconnected \<Longrightarrow> (ls, a) \<in> mt_entries (topics_p m)"
  shows "broker_inv (b\<lparr>b_topicsMgr := m\<rparr>)"
proof -
  let ?b = "b\<lparr>b_topicsMgr := m\<rparr>"
  have E: "in_force ?b = mt_entries (topics_p m)" by (simp add: in_force_def)
  have "tree_sound ?b"
    using inv sub unfolding broker_inv_def tree_sound_def E by (simp add: subset_iff)
  moreover have "client_ok ?b p c" if "b_heap b p = Some c" for p c
  proof -
    have "client_ok b p c" using inv that by (simp add: broker_inv_def)
    then show ?thesis using that keep unfolding client_ok_def E by simp metis
  qed
  ultimately show ?thesis using inv m unfolding broker_inv_def by simp
qed

lemma unsubscribe_closed:
  assumes inv: "broker_inv b" and p: "b_heap b p = Some c" "c_status c = Disconnected"
    and a: "gm_get (c_subMap c) t = Some a"
  obtains sub m err where "b_subheap b a = Some sub" "sub_client sub = p"
    "topics_Manager_Unsubscribe (b_topicsMgr b) (sub_topic sub) (Some (IfPtr a)) = Some (m, err)"
    "broker_inv (b\<lparr>b_topicsMgr := m\<rparr>)" "calmer b (b\<lparr>b_topicsMgr := m\<rparr>)"
    "\<And>ls. (ls, a) \<notin> in_force (b\<lparr>b_topicsMgr := m\<rparr>)"
proof -
  obtain sub where sub: "b_subheap b a = Some sub" "sub_client sub = p"
    using inv p(1) a unfolding broker_inv_def client_ok_def by blast
  have mt: "mt_inv (topics_p (b_topicsMgr b))" using inv by (simp add: broker_inv_def)
  obtain m err where m: "topics_Manager_Unsubscribe (b_topicsMgr b) (sub_topic sub) (Some (IfPtr a)) = Some (m, err)"
    "mt_inv (topics_p m)" "mt_entries (topics_p m) =
       (case topic_levels (sub_topic sub) of Some ls \<Rightarrow> in_force b - {(ls, a)} | None \<Rightarrow> in_force b)"
    "rroot (topics_p m) = rroot (topics_p (b_topicsMgr b))"
    using Manager_Unsubscribe [OF mt] unfolding in_force_def by metis
  have lev: "topic_levels (sub_topic sub) = Some ls" if "(ls, a) \<in> in_force b" for ls
    using inv that sub unfolding broker_inv_def tree_sound_def by fastforce
  have E: "mt_entries (topics_p m) = {(ls, x) \<in> in_force b. x \<noteq> a}"
    using m(3) lev by (auto split: option.splits)
  then have "broker_inv (b\<lparr>b_topicsMgr := m\<rparr>)"
    using inv m(2) sub p by (intro broker_inv_shrink) auto
  moreover have "calmer b (b\<lparr>b_topicsMgr := m\<rparr>)"
    using E m(4) by (auto simp: calmer_def in_force_def option.rel_refl registry_def)
  ultimately show ?thesis using that sub m(1) E by (auto simp: in_force_def)
qed

lemma calmer_set_client:
  "b_heap b p = Some c \<Longrightarrow> calmer_client c c' \<Longrightarrow> calmer b (set_client p c' b)"
  by (auto simp: calmer_def option.rel_refl)

text \<open>The key of a subscription in the cluster store.\<close>

definition sub_key :: "env \<Rightarrow> Broker \<Rightarrow> string \<Rightarrow> string \<Rightarrow> string" where
  "sub_key e b topic cid = subscriptionDir (b_cluster b) @ ''/'' @ env_md5 e topic @ '':'' @ cid"

definition client_key :: "Broker \<Rightarrow> string \<Rightarrow> string" where
  "client_key b cid = clientDir (b_cluster b) @ ''/'' @ cid"

lemma calmer_keys: "calmer b b' \<Longrightarrow> sub_key e b' = sub_key e b" "calmer b b' \<Longrightarrow> client_key b' = client_key b"
  by (simp_all add: calmer_def sub_key_def client_key_def fun_eq_iff)

lemma calmer_out: "calmer b b' \<Longrightarrow> x \<in> set (b_out b) \<Longrightarrow> x \<in> set (b_out b')"
  by (auto simp: calmer_def)

lemma Close_topic_step:
  assumes "broker_inv b" "b_heap b p = Some c" "c_status c = Disconnected" "gm_get (c_subMap c) t = Some a"
  shows "\<exists>b'. Close_topic e now p (t, a) b = Some b' \<and> broker_inv b' \<and> calmer b b' \<and> (\<forall>ls. (ls, a) \<notin> in_force b') \<and>
    StoreDel (sub_key e b t (ci_ID (c_info c))) \<in> set (b_out b')"
proof -
  obtain sub m err where s: "b_subheap b a = Some sub"
    "topics_Manager_Unsubscribe (b_topicsMgr b) (sub_topic sub) (Some (IfPtr a)) = Some (m, err)"
    and i: "broker_inv (b\<lparr>b_topicsMgr := m\<rparr>)" "calmer b (b\<lparr>b_topicsMgr := m\<rparr>)"
    "\<And>ls. (ls, a) \<notin> in_force (b\<lparr>b_topicsMgr := m\<rparr>)"
    using unsubscribe_closed [OF assms] by metis
  define b1 where "b1 = StoreRemoveSubscription e t (ci_ID (c_info c)) (b\<lparr>b_topicsMgr := m\<rparr>)"
  define b2 where "b2 = emit (Notified (OnUnSubscribe (ci_ID (c_info c)) (ci_NodeID (c_info c)) t (sub_qos sub) now)) b1"
  define c' where "c' = c\<lparr>c_info := (c_info c)\<lparr>ci_Timestamp := now\<rparr>\<rparr>"
  define b3 where "b3 = emit (Notified (OnAgentDisconnected (c_info c'))) (set_client p c' b2)"
  have core: "same_core (b\<lparr>b_topicsMgr := m\<rparr>) b1" "same_core b1 b2" "same_core (set_client p c' b2) b3"
    by (auto simp: b1_def b2_def b3_def)
  then have hp: "b_heap b1 p = Some c" "b_heap b2 p = Some c" using assms(2) by (simp_all add: same_core_def)
  have "same_subs c c'" "calmer_client c c'" by (simp_all add: same_subs_def calmer_client_def c'_def)
  then have 23: "broker_inv b2 \<Longrightarrow> broker_inv b3" "calmer b2 b3"
    using same_core_inv [OF core(3)] same_core_calmer [OF core(3)] broker_inv_set_client [OF _ hp(2)]
      calmer_set_client [OF hp(2)] calmer_trans by blast+
  have r: "Close_topic e now p (t, a) b =
      Some (if notifying b1 then if t = ''agents/'' @ ci_ID (c_info c) then b3 else b2 else b1)"
    using assms(2) s by (simp add: Close_topic_def Let_def b1_def b2_def b3_def c'_def)
  have good: "broker_inv b' \<and> calmer (b\<lparr>b_topicsMgr := m\<rparr>) b'" if "b' \<in> {b1, b2, b3}" for b'
    using that core 23 i(1) same_core_inv same_core_calmer calmer_trans by (metis insertE singletonD)
  define b' where "b' = (if notifying b1 then if t = ''agents/'' @ ci_ID (c_info c) then b3 else b2 else b1)"
  have b': "broker_inv b'" "calmer (b\<lparr>b_topicsMgr := m\<rparr>) b'" using good [of b'] by (simp_all add: b'_def)
  then have "in_force b' \<subseteq> in_force (b\<lparr>b_topicsMgr := m\<rparr>)" by (simp add: calmer_def)
  moreover have "StoreDel (sub_key e b t (ci_ID (c_info c))) \<in> set (b_out b')"
    by (simp add: b'_def b1_def b2_def b3_def sub_key_def StoreRemoveSubscription_def emit_def)
  ultimately show ?thesis using b'(1) calmer_trans [OF i(2) b'(2)] i(3) r unfolding b'_def by blast
qed

lemma Close_topics:
  assumes "broker_inv b" "b_heap b p = Some c" "c_status c = Disconnected"
    "\<forall>x \<in> set l. gm_get (c_subMap c) (fst x) = Some (snd x)"
  shows "\<exists>b'. fold_opt (Close_topic e now p) l b = Some b' \<and> broker_inv b' \<and> calmer b b' \<and>
    (\<forall>ls. \<forall>x \<in> set l. (ls, snd x) \<notin> in_force b') \<and>
    (\<forall>x \<in> set l. StoreDel (sub_key e b (fst x) (ci_ID (c_info c))) \<in> set (b_out b'))"
  using assms
proof (induction l arbitrary: b c)
  case (Cons x l)
  obtain b1 where b1: "Close_topic e now p x b = Some b1" "broker_inv b1" "calmer b b1"
    "\<forall>ls. (ls, snd x) \<notin> in_force b1" "StoreDel (sub_key e b (fst x) (ci_ID (c_info c))) \<in> set (b_out b1)"
    using Close_topic_step [OF Cons.prems(1-3), of "fst x" "snd x" e now] Cons.prems(4) by auto
  obtain c1 where c1: "b_heap b1 p = Some c1" "calmer_client c c1"
    using calmer_get [OF b1(3) Cons.prems(2)] .
  with Cons.prems(3,4) have "c_status c1 = Disconnected" "\<forall>x \<in> set l. gm_get (c_subMap c1) (fst x) = Some (snd x)"
    by (auto simp: calmer_client_def)
  from Cons.IH [OF b1(2) c1(1) this] obtain b2 where b2: "fold_opt (Close_topic e now p) l b1 = Some b2"
    "broker_inv b2" "calmer b1 b2" "\<forall>ls. \<forall>x \<in> set l. (ls, snd x) \<notin> in_force b2"
    "\<forall>x \<in> set l. StoreDel (sub_key e b1 (fst x) (ci_ID (c_info c1))) \<in> set (b_out b2)" by blast
  moreover have "in_force b2 \<subseteq> in_force b1" using b2(3) by (simp add: calmer_def)
  moreover have "sub_key e b1 = sub_key e b" "ci_ID (c_info c1) = ci_ID (c_info c)"
    using calmer_keys [OF b1(3)] c1(2) by (simp_all add: calmer_client_def)
  ultimately show ?case using b1 calmer_trans [OF b1(3) b2(3)] calmer_out [OF b2(3)] by auto
qed auto

section \<open>Closing returns and cleans up\<close>

text \<open>What a call that may close clients leaves behind.\<close>

definition settles :: "Broker \<Rightarrow> Broker \<Rightarrow> bool" where
  "settles b b' \<longleftrightarrow> broker_inv b' \<and> calmer b b'"

lemma settles_trans: "settles a b \<Longrightarrow> settles b c \<Longrightarrow> settles a c"
  by (auto simp: settles_def intro: calmer_trans)

lemma settles_core: "broker_inv b \<Longrightarrow> same_core b b' \<Longrightarrow> settles b b'"
  by (simp add: settles_def same_core_inv same_core_calmer)

lemma settles_refl: "broker_inv b \<Longrightarrow> settles b b"
  by (simp add: settles_def)

lemma settles_heap: "settles b b' \<Longrightarrow> b_heap b p \<noteq> None \<Longrightarrow> b_heap b' p \<noteq> None"
  using calmer_heap settles_def by blast

lemma settles_sub: "settles b b' \<Longrightarrow> b_subheap b' = b_subheap b"
  by (simp add: settles_def calmer_def)

lemma settles_in_force: "settles b b' \<Longrightarrow> in_force b' \<subseteq> in_force b"
  by (simp add: settles_def calmer_def)

lemma settles_online: "settles b b' \<Longrightarrow> online b' \<subseteq> online b"
  by (simp add: settles_def calmer_online)

lemma settles_out: "settles b b' \<Longrightarrow> set (b_out b) \<subseteq> set (b_out b')"
  by (auto simp: settles_def dest: calmer_out)

lemma settles_ids: "settles b b' \<Longrightarrow> registered_ids b' \<subseteq> registered_ids b"
  by (simp add: settles_def calmer_def registry_ids)

lemma settles_inv: "settles b b' \<Longrightarrow> broker_inv b'"
  by (simp add: settles_def)

lemma settles_card: "broker_inv b \<Longrightarrow> settles b b' \<Longrightarrow> card (online b') \<le> card (online b)"
  by (simp add: settles_def card_mono calmer_online online_finite)

definition closed_up :: "env \<Rightarrow> client_ptr \<Rightarrow> client \<Rightarrow> Broker \<Rightarrow> Broker \<Rightarrow> bool" where
  "closed_up e p c b b' \<longleftrightarrow> (\<forall>ls. \<forall>a \<in> owned b p. (ls, a) \<notin> in_force b') \<and>
     ci_ID (c_info c) \<notin> registered_ids b' \<and>
     (c_conn c \<noteq> None \<longrightarrow> ConnClosed p \<in> set (b_out b')) \<and>
     StoreDel (client_key b (ci_ID (c_info c))) \<in> set (b_out b') \<and>
     (\<forall>(t, a) \<in> set (c_subMap c). StoreDel (sub_key e b t (ci_ID (c_info c))) \<in> set (b_out b'))"

definition close_ok :: "env \<Rightarrow> (client_ptr \<Rightarrow> Broker \<Rightarrow> Broker option) \<Rightarrow> nat \<Rightarrow> bool" where
  "close_ok e close n \<longleftrightarrow> (\<forall>b p c. broker_inv b \<longrightarrow> b_heap b p = Some c \<longrightarrow> card (online b) < n \<longrightarrow>
     (\<exists>b'. close p b = Some b' \<and> settles b b' \<and> p \<notin> online b' \<and>
        (p \<in> online b \<longrightarrow> closed_up e p c b b')))"

lemma WriterPacket_with_ok:
  assumes "close_ok e close n" "broker_inv b" "b_heap b p \<noteq> None" "card (online b) < n"
  shows "\<exists>b' err. WriterPacket_with close p packet b = Some (b', err) \<and> settles b b'"
proof -
  obtain c where c: "b_heap b p = Some c" using assms(3) by auto
  obtain b' where "close p b = Some b'" "settles b b'" using assms c unfolding close_ok_def by blast
  then show ?thesis
    using c settles_refl [OF assms(2)] settles_core [OF assms(2), of "emit (Wrote p packet) b"]
    by (auto simp: WriterPacket_with_def split: option.split)
qed

lemma PublishMessage_with_ok:
  assumes "close_ok e close n" "broker_inv b" "card (online b) < n"
  shows "\<exists>b'. PublishMessage_with (WriterPacket_with close) packet b = Some b' \<and> settles b b'"
proof -
  have "mt_inv (topics_p (b_topicsMgr b))" using assms(2) by (simp add: broker_inv_def)
  then obtain rs qs err where r: "topics_Manager_Subscribers (b_topicsMgr b) (TopicName packet) (Qos packet) ([], []) =
      Some ((rs, qs), err)" "err = None \<longrightarrow> set rs \<subseteq> {IfPtr a | a. \<exists>p. (p, a) \<in> in_force b}"
    using mem_provider.subscribers_total [of "topics_p (b_topicsMgr b)" "TopicName packet" "Qos packet" "([], [])"]
    unfolding topics_Manager_Subscribers_def in_force_def by blast
  let ?body = "\<lambda>s b. case s of
       IfPtr a \<Rightarrow> do { sub \<leftarrow> b_subheap b a; (b', _) \<leftarrow> WriterPacket_with close (sub_client sub) (CP_Publish packet) b; Some b' }
     | _ \<Rightarrow> Some b"
  have "\<exists>b'. fold_opt ?body rs b = Some b' \<and> settles b b'" if ok: "err = None"
  proof (rule fold_opt_inv)
    fix x b1 assume x: "x \<in> set rs" and b1: "settles b b1"
    obtain a ls where a: "x = IfPtr a" "(ls, a) \<in> in_force b" using r(2) ok x by blast
    then obtain sub c where "b_subheap b a = Some sub" "b_heap b (sub_client sub) = Some c"
      using assms(2) unfolding broker_inv_def tree_sound_def by blast
    then have sub: "b_subheap b1 a = Some sub" "b_heap b1 (sub_client sub) \<noteq> None"
      using settles_sub [OF b1] settles_heap [OF b1] by simp_all
    have "card (online b1) < n" using settles_card [OF assms(2) b1] assms(3) by simp
    from WriterPacket_with_ok [OF assms(1) settles_inv [OF b1] sub(2) this, of "CP_Publish packet"]
    obtain b2 err where "WriterPacket_with close (sub_client sub) (CP_Publish packet) b1 = Some (b2, err)" "settles b1 b2"
      by blast
    then show "\<exists>b2. ?body x b1 = Some b2 \<and> settles b b2"
      using sub(1) a(1) settles_trans [OF b1] by simp
  qed (simp add: settles_refl assms(2))
  then show ?thesis using r(1) settles_refl [OF assms(2)] by (auto simp: PublishMessage_with_def)
qed

text \<open>The first part of \<open>Close\<close>: the client is marked, its connection closed, its entries removed.\<close>

definition marked :: "client \<Rightarrow> client" where
  "marked c = c\<lparr>c_cancelled := True, c_status := Disconnected,
     c_info := (c_info c)\<lparr>ci_Status := Disconnected\<rparr>, c_conn := None\<rparr>"

lemma marked_props: "same_subs c (marked c)" "calmer_client c (marked c)" "c_status (marked c) = Disconnected"
  "c_subMap (marked c) = c_subMap c" "c_info (marked c) = (c_info c)\<lparr>ci_Status := Disconnected\<rparr>"
  by (simp_all add: marked_def same_subs_def calmer_client_def)

lemma marked_state:
  assumes "broker_inv b" "b_heap b p = Some c"
    and b2_def: "b2 = StoreRemoveClient i (RemoveClient i
      (set_client p (marked c) (if c_conn c = None then b else emit (ConnClosed p) b)))"
  shows "settles b b2" "b_heap b2 p = Some (marked c)" "p \<notin> online b2"
    "i \<notin> registered_ids b2" "c_conn c \<noteq> None \<longrightarrow> ConnClosed p \<in> set (b_out b2)"
    "StoreDel (client_key b i) \<in> set (b_out b2)"
proof -
  show "i \<notin> registered_ids b2" "c_conn c \<noteq> None \<longrightarrow> ConnClosed p \<in> set (b_out b2)"
    "StoreDel (client_key b i) \<in> set (b_out b2)"
    by (auto simp: b2_def StoreRemoveClient_def RemoveClient_def emit_def client_key_def registered_ids_def
        split: option.split)
  define b0 where "b0 = (if c_conn c = None then b else emit (ConnClosed p) b)"
  have 0: "same_core b b0" by (simp add: b0_def)
  then have "broker_inv b0" "b_heap b0 p = Some c" using assms(1,2) same_core_inv by (auto simp: same_core_def)
  then have 1: "settles b0 (set_client p (marked c) b0)"
    using broker_inv_set_client calmer_set_client marked_props by (auto simp: settles_def)
  have 2: "same_core (set_client p (marked c) b0) b2"
    unfolding b2_def b0_def by (meson same_core_simps same_core_trans)
  then show "b_heap b2 p = Some (marked c)" by (simp add: same_core_def)
  then show "p \<notin> online b2" by (simp add: online_def marked_props)
  show "settles b b2"
    using settles_core [OF assms(1) 0] 1 settles_core [OF _ 2] settles_trans by (meson settles_def)
qed

lemma owned_in_subMap:
  assumes "broker_inv b" "(ls, a) \<in> in_force b" "a \<in> owned b p" "b_heap b p = Some c"
  shows "\<exists>t. (t, a) \<in> set (c_subMap c)"
proof -
  obtain sub c' t where "b_subheap b a = Some sub" "b_heap b (sub_client sub) = Some c'"
    "gm_get (c_subMap c') t = Some a"
    using assms(1,2) unfolding broker_inv_def tree_sound_def by blast
  with assms(3,4) show ?thesis by (auto simp: owned_def dest: map_of_SomeD)
qed

lemma Close_with_ok:
  assumes pub: "\<And>packet b. broker_inv b \<Longrightarrow> card (online b) < n \<Longrightarrow>
      \<exists>b'. publish_will packet b = Some b' \<and> settles b b'"
    and inv: "broker_inv b" and p: "b_heap b p = Some c" and n: "card (online b) < Suc n"
  shows "\<exists>b'. Close_with publish_will e now p b = Some b' \<and> settles b b' \<and> p \<notin> online b' \<and>
    (p \<in> online b \<longrightarrow> closed_up e p c b b')"
proof (cases "c_status c = Disconnected")
  case True
  then show ?thesis using p settles_refl [OF inv] by (auto simp: Close_with_def online_def)
next
  case False
  define i where "i = ci_ID (c_info (marked c))"
  define b2 where "b2 = StoreRemoveClient i (RemoveClient i
      (set_client p (marked c) (if c_conn c = None then b else emit (ConnClosed p) b)))"
  note b2 = marked_state [OF inv p b2_def]
  have wf: "gm_wf (c_subMap c)" using inv p unfolding broker_inv_def client_ok_def by blast
  then have "\<forall>x \<in> set (c_subMap (marked c)). gm_get (c_subMap (marked c)) (fst x) = Some (snd x)"
    by (auto simp: marked_props)
  with b2 Close_topics [of b2 p "marked c" "c_subMap (marked c)"] obtain b3 where
    b3: "fold_opt (Close_topic e now p) (c_subMap (marked c)) b2 = Some b3" "settles b2 b3"
      "\<forall>ls. \<forall>x \<in> set (c_subMap c). (ls, snd x) \<notin> in_force b3"
      "\<forall>x \<in> set (c_subMap c). StoreDel (sub_key e b2 (fst x) (ci_ID (c_info (marked c)))) \<in> set (b_out b3)"
    using marked_props settles_def by metis
  obtain c3 where c3: "b_heap b3 p = Some c3" using settles_heap [OF b3(2), of p] b2(2) by auto
  define b4 where "b4 = (if notifying b3 then emit (Notified (OnClientDisconnected (c_info c3))) b3 else b3)"
  have b4: "settles b3 b4" using b3(2) settles_core by (auto simp: b4_def settles_def)
  have 4: "settles b b4" using b2(1) b3(2) b4 settles_trans by blast
  have "online b4 \<subseteq> online b - {p}"
    using b2 b3(2) b4 calmer_online unfolding settles_def by blast
  moreover have "p \<in> online b" using p False by (auto simp: online_def)
  ultimately have "card (online b4) < card (online b)"
    using online_finite [OF inv] by (meson card_Diff1_less card_mono finite_Diff le_less_trans)
  with n have "card (online b4) < n" by simp
  with pub [of b4] 4 have "\<exists>b5. (case c_willMsg c3 of None \<Rightarrow> Some b4 | Some w \<Rightarrow> publish_will w b4) = Some b5 \<and>
      settles b4 b5"
    using settles_refl by (auto simp: settles_def split: option.split)
  then obtain b5 where b5: "(case c_willMsg c3 of None \<Rightarrow> Some b4 | Some w \<Rightarrow> publish_will w b4) = Some b5"
    "settles b4 b5" by blast
  have "Close_with publish_will e now p b = Some b5"
    using False p b3(1) c3 b5(1) by (cases "c_willMsg c3") (simp_all add: Close_with_def Let_def marked_def b2_def b4_def i_def)
  moreover have "p \<notin> online b5" using \<open>online b4 \<subseteq> online b - {p}\<close> b5(2) calmer_online
    unfolding settles_def by blast
  moreover have "(ls, a) \<notin> in_force b5" if a: "a \<in> owned b p" for ls a
  proof
    assume "(ls, a) \<in> in_force b5"
    moreover have "in_force b5 \<subseteq> in_force b3" "in_force b3 \<subseteq> in_force b"
      using b2(1) b3(2) b4 b5(2) by (auto simp: settles_def calmer_def)
    ultimately show False using owned_in_subMap [OF inv _ a p] b3(3) by fastforce
  qed
  moreover have "settles b2 b5" "settles b3 b5" using b3(2) b4 b5(2) settles_trans by blast+
  then have "registered_ids b5 \<subseteq> registered_ids b2" "set (b_out b2) \<subseteq> set (b_out b5)"
    "set (b_out b3) \<subseteq> set (b_out b5)" using settles_ids settles_out by blast+
  moreover have "sub_key e b2 = sub_key e b" using b2(1) by (simp add: settles_def calmer_keys)
  ultimately have "closed_up e p c b b5"
    using b2(4-6) b3(4) unfolding closed_up_def by (auto simp: i_def marked_props subset_iff)
  then show ?thesis
    using settles_trans [OF 4 b5(2)] \<open>p \<notin> online b5\<close> \<open>Close_with publish_will e now p b = Some b5\<close> by blast
qed

lemma Close_ok: "close_ok e (Close n e now) n"
proof (induction n)
  case 0
  show ?case by (simp add: close_ok_def)
next
  case (Suc n)
  show ?case unfolding close_ok_def Close.simps
  proof (intro allI impI)
    fix b p c assume "broker_inv b" "b_heap b p = Some c" "card (online b) < Suc n"
    moreover have "\<exists>b'. PublishMessage_with (WriterPacket_with (Close n e now)) packet b = Some b' \<and> settles b b'"
      if "broker_inv b" "card (online b) < n" for packet b
      using PublishMessage_with_ok [OF Suc that] .
    ultimately show "\<exists>b'. Close_with (PublishMessage_with (WriterPacket_with (Close n e now))) e now p b = Some b' \<and>
        settles b b' \<and> p \<notin> online b' \<and>
        (p \<in> online b \<longrightarrow> closed_up e p c b b')"
      using Close_with_ok [of n "PublishMessage_with (WriterPacket_with (Close n e now))" b p _ e now] by blast
  qed
qed

lemmas WriterPacket_ok = WriterPacket_with_ok [OF Close_ok, folded WriterPacket_def]
lemmas PublishMessage_ok = PublishMessage_with_ok [OF Close_ok, folded WriterPacket_def, folded PublishMessage_def]

section \<open>A broker with one client\<close>

text \<open>Used by the witnesses: a client \<open>c1\<close> with a subscription to \<open>a\<close> and a will on \<open>a\<close>.\<close>

definition sample_env :: env where
  "sample_env = \<lparr>env_md5 = (\<lambda>t. ''md5''), env_uuid = (\<lambda>n. ''uuid''), env_Intn = (\<lambda>g n. 0),
     env_accepts = (\<lambda>n. True), env_client_info = (\<lambda>bs c. (Some c, None)), env_compare = (\<lambda>h p. None)\<rparr>"

definition sample_topics :: memTopics where
  "sample_topics = fst (the (memTopics_Subscribe NewMemProvider ''a'' 0 (Some (IfPtr 0))))"

definition sample_message :: PublishPacket where
  "sample_message = (new_PublishPacket (zeroHeader Publish 0))\<lparr>TopicName := ''a'', Payload := [1]\<rparr>"

definition sample_session_mgr :: SessionManager where
  "sample_session_mgr = \<lparr>sessions_p = fst (memProvider_New sessions_NewMemProvider ''c1'')\<rparr>"

definition sample_client :: client where
  "sample_client = (new_client LOCAL (Some True) (zeroClient\<lparr>ci_ID := ''c1'', ci_NodeID := ''n''\<rparr>)
     (Some sample_message))\<lparr>c_status := Connected, c_subMap := [(''a'', 0)],
       c_session := Some (fst (snd (memProvider_New sessions_NewMemProvider ''c1'')))\<rparr>"

definition sample_cluster :: Cluster where
  "sample_cluster = \<lparr>sysDir = ''/s'', clusterDir = ''/cluster'', nodeDir = ''/s/nodes'', clientDir = ''/s/clients'',
     subscriptionDir = ''/s/subscriptions'', bridgeDir = ''/s/bridges'', userDir = ''/s/users'',
     aclDir = ''/s/acls'', forwardDir = ''/forward'', leader = False\<rparr>"

definition sample_broker :: Broker where
  "sample_broker = \<lparr>b_id = ''n'', b_AclEnable = False, b_BridgeEnable = False, b_NotifyEnable = False,
     b_AuthEnable = False, b_clients = [(''c1'', ClientObj 0)], b_topicsMgr = \<lparr>topics_p = sample_topics\<rparr>,
     b_sessionMgr = sample_session_mgr, b_auth = NewEtcdAuth, b_acl = None, b_notify = False, b_bridgeMQ = None,
     b_cluster = sample_cluster, b_heap = [0 \<mapsto> sample_client], b_next = 1,
     b_subheap = [0 \<mapsto> \<lparr>sub_client = 0, sub_topic = ''a'', sub_qos = 0, sub_share = False, sub_groupName = []\<rparr>],
     b_subnext = 1, b_uuids = 0, b_out = []\<rparr>"

lemma sample_levels: "topic_levels ''a'' = Some [''a'']"
  by (simp add: topic_levels_ref ref_levels_def level_ok_def)

lemma sample_topics_props: "mt_inv sample_topics" "mt_entries sample_topics = {([''a''], 0)}"
  using mem_provider.subscribe_ok [OF NewMemProvider_inv(1) _ sample_levels, of 0 0] NewMemProvider_inv(2)
  by (auto simp: sample_topics_def ValidQos_def)

lemma sample_broker_sel:
  "b_heap sample_broker = [0 \<mapsto> sample_client]" "b_topicsMgr sample_broker = \<lparr>topics_p = sample_topics\<rparr>"
  "b_subheap sample_broker =
     [0 \<mapsto> \<lparr>sub_client = 0, sub_topic = ''a'', sub_qos = 0, sub_share = False, sub_groupName = []\<rparr>]"
  "b_next sample_broker = 1" "b_subnext sample_broker = 1"
  by (simp_all add: sample_broker_def)

lemma sample_in_force: "in_force sample_broker = {([''a''], 0)}"
  by (simp add: in_force_def sample_broker_sel sample_topics_props)

lemma sample_broker_inv: "broker_inv sample_broker"
proof -
  have "client_ok sample_broker 0 sample_client"
    by (auto simp: client_ok_def sample_in_force sample_client_def sample_broker_sel sample_levels split: if_splits)
  moreover have "tree_sound sample_broker"
    by (auto simp: tree_sound_def sample_in_force sample_broker_sel sample_levels sample_client_def)
  ultimately show ?thesis
    by (auto simp: broker_inv_def sample_topics_props(1) sample_broker_sel split: if_splits)
qed

lemma sample_online: "online sample_broker = {0}"
  by (auto simp: online_def sample_broker_def sample_client_def split: if_splits)

section \<open>Properties\<close>

text \<open>
  C3. Closing a client always returns and cleans up after it: in every state in which the topic tree
  agrees with the clients' subscription maps, and whatever wills are published on the way and
  whichever clients without a connection that closes in turn (a number of nested closings above
  the number of connected clients is enough), the client ends up disconnected without a
  connection, its identifier is no longer registered, none of its subscriptions is left in the
  topic tree, the cluster store is asked to delete the client and each of its subscriptions, the
  tree still agrees with the maps, and closing it again changes nothing.
\<close>

theorem Close_returns_and_cleans:
  assumes "broker_inv b" "b_heap b p = Some c" "c_status c \<noteq> Disconnected" "card (online b) < n"
  shows "\<exists>b'. Close n e now p b = Some b' \<and> broker_inv b' \<and>
    (\<exists>c'. b_heap b' p = Some c' \<and> c_status c' = Disconnected \<and> c_conn c' = None) \<and>
    closed_up e p c b b' \<and> Close n e now p b' = Some b'"
proof -
  have "p \<in> online b" using assms(2,3) by (auto simp: online_def)
  with Close_ok [of e n now] assms obtain b' where b': "Close n e now p b = Some b'" "settles b b'"
    "p \<notin> online b'" "closed_up e p c b b'"
    unfolding close_ok_def by blast
  obtain c' where c': "b_heap b' p = Some c'" "calmer_client c c'"
    using calmer_get [OF _ assms(2)] b'(2) unfolding settles_def by blast
  then have d: "c_status c' = Disconnected" "c_conn c' = None"
    using b'(3) assms(3) by (auto simp: online_def calmer_client_def)
  then have "Close n e now p b' = Some b'"
    using c'(1) assms(4) by (cases n) (auto simp: Close_with_def)
  with b' c'(1) d settles_inv show ?thesis by blast
qed

theorem Close_returns_and_cleans_witness:
  "\<exists>b'. Close 2 sample_env 5 0 sample_broker = Some b' \<and> broker_inv b' \<and>
    closed_up sample_env 0 sample_client sample_broker b' \<and> Close 2 sample_env 5 0 b' = Some b'"
proof -
  have "b_heap sample_broker 0 = Some sample_client" "c_status sample_client \<noteq> Disconnected"
    by (simp_all add: sample_broker_def sample_client_def)
  from Close_returns_and_cleans [OF sample_broker_inv this, of 2 sample_env 5] show ?thesis
    by (auto simp: sample_online)
qed

end
