(* ===== verification/BrokerClient.thy ===== *)
theory BrokerClient
  imports BrokerClose
begin

text \<open>
  The packet handlers of a connected client (\<open>src/broker/client.go\<close>, \<open>src/broker/comm.go\<close>): validation of
  a packet's strings, \<open>ProcessMessage\<close> with the handlers of each packet type, delivery to
  subscribers, QoS 1 and 2 bookkeeping and retries, subscriptions of remote clients.

  \<open>n\<close> bounds nested closings as in \<open>Close\<close>; \<open>e\<close> is the outside world and \<open>now\<close> the time.
\<close>

section \<open>Validation of packet fields\<close>

text \<open>\<open>utf8.ValidString\<close> on the bytes of a string.\<close>

definition utf8_cont :: "nat \<Rightarrow> bool" where
  "utf8_cont x \<longleftrightarrow> 0x80 \<le> x \<and> x \<le> 0xBF"

fun utf8_valid :: "nat list \<Rightarrow> bool" where
  "utf8_valid [] = True"
| "utf8_valid (a # r) =
     (if a < 0x80 then utf8_valid r
      else if 0xC2 \<le> a \<and> a \<le> 0xDF then (case r of x # r' \<Rightarrow> utf8_cont x \<and> utf8_valid r' | _ \<Rightarrow> False)
      else if 0xE0 \<le> a \<and> a \<le> 0xEF then
        (case r of x # y # r' \<Rightarrow>
             (if a = 0xE0 then 0xA0 else 0x80) \<le> x \<and> x \<le> (if a = 0xED then 0x9F else 0xBF) \<and>
             utf8_cont y \<and> utf8_valid r'
         | _ \<Rightarrow> False)
      else if 0xF0 \<le> a \<and> a \<le> 0xF4 then
        (case r of x # y # z # r' \<Rightarrow>
             (if a = 0xF0 then 0x90 else 0x80) \<le> x \<and> x \<le> (if a = 0xF4 then 0x8F else 0xBF) \<and>
             utf8_cont y \<and> utf8_cont z \<and> utf8_valid r'
         | _ \<Rightarrow> False)
      else False)"

declare utf8_valid.simps(2) [simp del]

definition utf8_ValidString :: "string \<Rightarrow> bool" where
  "utf8_ValidString s = utf8_valid (map of_char s)"

fun extractPacketFields :: "ControlPacket \<Rightarrow> string list" where
  "extractPacketFields (CP_Publish packet) = [TopicName packet]"
| "extractPacketFields (CP_Unsubscribe packet) = Topics packet"
| "extractPacketFields _ = []"

fun validate_fields :: "string list \<Rightarrow> bool" where
  "validate_fields [] = True"
| "validate_fields (field # rest) =
     (if \<not> utf8_ValidString field then False
      else if CHR 0x00 \<in> set field then False
      else validate_fields rest)"

definition validatePacketFields :: "ControlPacket \<Rightarrow> bool" where
  "validatePacketFields msgPacket = validate_fields (extractPacketFields msgPacket)"

section \<open>Topics with a prefix\<close>

text \<open>
  The submatches of \<open>^\$share/([0-9a-zA-Z_-]+)/(.*)$\<close> and \<open>^\$queue/(.*)$\<close>. A dot does not match a
  newline and \<open>$\<close> only matches at the end.
\<close>

definition group_char :: "char \<Rightarrow> bool" where
  "group_char c \<longleftrightarrow> (let n = of_char c :: nat in 48 \<le> n \<and> n \<le> 57 \<or> 65 \<le> n \<and> n \<le> 90 \<or> 97 \<le> n \<and> n \<le> 122 \<or> n = 95 \<or> n = 45)"

definition newline :: char where "newline = CHR 0x0A"

definition groupCompile :: "string \<Rightarrow> (string \<times> string) option" where
  "groupCompile topic =
     (if \<not> go_hasPrefix topic ''$share/'' then None
      else let rest = drop 7 topic; g = takeWhile group_char rest; r = dropWhile group_char rest in
        if g \<noteq> [] \<and> r \<noteq> [] \<and> hd r = CHR ''/'' \<and> newline \<notin> set (tl r) then Some (g, tl r) else None)"

definition queueCompile :: "string \<Rightarrow> string option" where
  "queueCompile topic =
     (if go_hasPrefix topic ''$queue/'' \<and> newline \<notin> set (drop 7 topic) then Some (drop 7 topic) else None)"

section \<open>Acknowledgements\<close>

definition puback :: "uint16 \<Rightarrow> ControlPacket" where
  "puback mid = CP_Puback ((new_MidPacket (zeroHeader Puback 0))\<lparr>MessageID := mid\<rparr>)"
definition pubrec :: "uint16 \<Rightarrow> ControlPacket" where
  "pubrec mid = CP_Pubrec ((new_MidPacket (zeroHeader Pubrec 0))\<lparr>MessageID := mid\<rparr>)"
definition pubrel :: "uint16 \<Rightarrow> ControlPacket" where
  "pubrel mid = CP_Pubrel ((new_MidPacket (zeroHeader Pubrel 1))\<lparr>MessageID := mid\<rparr>)"
definition pubcomp :: "uint16 \<Rightarrow> ControlPacket" where
  "pubcomp mid = CP_Pubcomp ((new_MidPacket (zeroHeader Pubcomp 0))\<lparr>MessageID := mid\<rparr>)"
definition unsuback :: "uint16 \<Rightarrow> ControlPacket" where
  "unsuback mid = CP_Unsuback ((new_MidPacket (zeroHeader Unsuback 0))\<lparr>MessageID := mid\<rparr>)"
definition suback :: "uint16 \<Rightarrow> bytes \<Rightarrow> ControlPacket" where
  "suback mid codes = CP_Suback ((new_SubackPacket (zeroHeader Suback 0))\<lparr>MessageID := mid, ReturnCodes := codes\<rparr>)"

section \<open>QoS 2: packets awaiting release\<close>

definition isAwaitingFull :: "client \<Rightarrow> bool" where
  "isAwaitingFull c =
     (if c_maxAwaitingRel c = 0 then False
      else if int (length (c_awaitingRel c)) < c_maxAwaitingRel c then False
      else True)"

definition registerPublishPacketId ::
  "int \<Rightarrow> client_ptr \<Rightarrow> uint16 \<Rightarrow> Broker \<Rightarrow> (Broker \<times> go_error option) option" where
  "registerPublishPacketId now p packetId b =
     do { c \<leftarrow> b_heap b p;
          if isAwaitingFull c then Some (b, Some (Errorf ''DROPPED_QOS2_PACKET_FOR_TOO_MANY_AWAITING_REL''))
          else (case gm_get (c_awaitingRel c) packetId of
                  Some _ \<Rightarrow> Some (b, Some (Errorf ''RC_PACKET_IDENTIFIER_IN_USE''))
                | None \<Rightarrow>
                    Some (emit (ExpireTimer p awaitRelTimeout)
                            (set_client p (c\<lparr>c_awaitingRel := gm_put packetId now (c_awaitingRel c)\<rparr>) b), None)) }"

definition expireAwaitingRel :: "int \<Rightarrow> client_ptr \<Rightarrow> Broker \<Rightarrow> Broker option" where
  "expireAwaitingRel now p b =
     do { c \<leftarrow> b_heap b p;
          if length (c_awaitingRel c) = 0 then Some b
          else Some (set_client p (c\<lparr>c_awaitingRel :=
                 filter (\<lambda>(i, ts). \<not> (now - ts \<ge> awaitRelTimeout)) (c_awaitingRel c)\<rparr>) b) }"

definition pubRel :: "client_ptr \<Rightarrow> uint16 \<Rightarrow> Broker \<Rightarrow> (Broker \<times> go_error option) option" where
  "pubRel p packetId b =
     do { c \<leftarrow> b_heap b p;
          (case gm_get (c_awaitingRel c) packetId of
             Some _ \<Rightarrow> Some (set_client p (c\<lparr>c_awaitingRel := gm_del packetId (c_awaitingRel c)\<rparr>) b, None)
           | None \<Rightarrow> Some (b, Some (Errorf ''RC_PACKET_IDENTIFIER_NOT_FOUND''))) }"

section \<open>Delivery\<close>

text \<open>The variadic argument is at most one interval here.\<close>

definition ensureRetryTimer :: "int option \<Rightarrow> client \<Rightarrow> client" where
  "ensureRetryTimer interval c =
     (if c_retryTimer c \<noteq> None then c
      else c\<lparr>c_retryTimer := Some (case interval of None \<Rightarrow> retryInterval | Some i \<Rightarrow> i)\<rparr>)"

definition resetRetryTimer :: "client \<Rightarrow> client" where
  "resetRetryTimer c = (if c_retryTimer c = None then c else c\<lparr>c_retryTimer := None\<rparr>)"

definition on_client :: "(client \<Rightarrow> client) \<Rightarrow> client_ptr \<Rightarrow> Broker \<Rightarrow> Broker option" where
  "on_client f p b = do { c \<leftarrow> b_heap b p; Some (set_client p (f c) b) }"

definition put_inflight :: "int \<Rightarrow> PublishPacket \<Rightarrow> client \<Rightarrow> client" where
  "put_inflight now packet c =
     c\<lparr>c_inflight := gm_put (MessageID packet)
         \<lparr>ie_status = InflightPublish, ie_packet = packet, ie_timestamp = now\<rparr> (c_inflight c)\<rparr>"

definition publishFoward ::
  "nat \<Rightarrow> env \<Rightarrow> int \<Rightarrow> client_ptr \<Rightarrow> PublishPacket \<Rightarrow> Broker \<Rightarrow> Broker option" where
  "publishFoward n e now p packet b =
     (if Qos packet = QosAtMostOnce then
        do { (b, _) \<leftarrow> WriterPacket n e now p (CP_Publish packet) b; Some b }
      else if Qos packet = QosAtLeastOnce \<or> Qos packet = QosExactlyOnce then
        do { b \<leftarrow> on_client (put_inflight now packet) p b;
             (b, _) \<leftarrow> WriterPacket n e now p (CP_Publish packet) b;
             on_client (ensureRetryTimer None) p b }
      else Some b)"

definition publish ::
  "nat \<Rightarrow> env \<Rightarrow> int \<Rightarrow> sub_ptr \<Rightarrow> PublishPacket \<Rightarrow> Broker \<Rightarrow> Broker option" where
  "publish n e now a packet b =
     do { sub \<leftarrow> b_subheap b a;
          let p = sub_client sub;
          c \<leftarrow> b_heap b p;
          let fwd = \<lparr>fw_ClientID = ci_ID (c_info c), fw_Packet = packet, fw_Timestamp = now\<rparr>;
          if Qos packet = QosAtMostOnce then
            (if c_typ c = LOCAL then do { (b, _) \<leftarrow> WriterPacket n e now p (CP_Publish packet) b; Some b }
             else Some (etcdRouter_Forward e (ci_NodeID (c_info c)) fwd b))
          else if Qos packet = QosAtLeastOnce \<or> Qos packet = QosExactlyOnce then
            do { b \<leftarrow> on_client (put_inflight now packet) p b;
                 if c_typ c = LOCAL then
                   do { (b, _) \<leftarrow> WriterPacket n e now p (CP_Publish packet) b;
                        on_client (ensureRetryTimer None) p b }
                 else Some (etcdRouter_Forward e (ci_NodeID (c_info c)) fwd b) }
          else Some b }"

text \<open>
  The loop over the subscribers: ordinary ones get the message at once, those of a shared
  subscription are collected by group, as indices into the list.
\<close>

type_synonym groups = "(string, nat list) gomap"

definition add_to_group :: "string \<Rightarrow> nat \<Rightarrow> groups \<Rightarrow> groups" where
  "add_to_group g i qsub =
     (case gm_get qsub g of
        Some is \<Rightarrow> gm_put g (is @ [i]) qsub
      | None \<Rightarrow> gm_put g [i] qsub)"

definition deliver_one ::
  "nat \<Rightarrow> env \<Rightarrow> int \<Rightarrow> PublishPacket \<Rightarrow> nat \<times> iface \<Rightarrow> Broker \<times> groups \<Rightarrow> (Broker \<times> groups) option" where
  "deliver_one n e now packet is acc =
     (case (is, acc) of
        ((i, IfPtr a), (b, qsub)) \<Rightarrow>
          do { sub \<leftarrow> b_subheap b a;
               if sub_share sub then Some (b, add_to_group (sub_groupName sub) i qsub)
               else do { b \<leftarrow> publish n e now a packet b; Some (b, qsub) } }
      | (_, _) \<Rightarrow> Some acc)"

definition deliver_group ::
  "nat \<Rightarrow> env \<Rightarrow> int \<Rightarrow> iface list \<Rightarrow> PublishPacket \<Rightarrow> string \<times> nat list \<Rightarrow> Broker \<Rightarrow> Broker option" where
  "deliver_group n e now ss packet g b =
     (if length (snd g) > 0 then
        do { i \<leftarrow> nth_opt (snd g) (env_Intn e (fst g) (length (snd g)));
             s \<leftarrow> nth_opt ss i;
             (case s of IfPtr a \<Rightarrow> publish n e now a packet b | _ \<Rightarrow> None) }
      else Some b)"

definition Broker_Bridge :: "env \<Rightarrow> unit Elements \<Rightarrow> Broker \<Rightarrow> Broker" where
  "Broker_Bridge e el b =
     (case b_bridgeMQ b of
        None \<Rightarrow> b
      | Some k \<Rightarrow> emit (Produced (fst (kafka_Publish (\<lambda>_. Inr []) (env_accepts e) k el))) b)"

definition ProcessPublishMessage ::
  "nat \<Rightarrow> env \<Rightarrow> int \<Rightarrow> client_ptr \<Rightarrow> PublishPacket \<Rightarrow> bool \<Rightarrow> Broker \<Rightarrow> Broker option" where
  "ProcessPublishMessage n e now p packet forward b =
     do { c \<leftarrow> b_heap b p;
          if b_BridgeEnable b \<and> go_hasPrefix (TopicName packet) ''$queue/'' then
            (case queueCompile (TopicName packet) of
               None \<Rightarrow> Some b
             | Some topic \<Rightarrow>
                 Some (Broker_Bridge e \<lparr>El_ClientID = ci_ID (c_info c), El_Username = ci_UserName (c_info c),
                   El_Topic = topic, El_Payload = BytesPayload (Payload packet), El_Timestamp = now\<rparr> b))
          else do {
            b \<leftarrow> (if Retain packet
                  then do { (m, _) \<leftarrow> topics_Manager_Retain (b_topicsMgr b) packet; Some (b\<lparr>b_topicsMgr := m\<rparr>) }
                  else Some b);
            if forward then publishFoward n e now p packet b
            else do {
              ((ss, qs), err) \<leftarrow> topics_Manager_Subscribers (b_topicsMgr b) (TopicName packet) (Qos packet)
                                 (c_subs c, c_qoss c);
              let b = set_client p (c\<lparr>c_subs := ss, c_qoss := qs\<rparr>) b;
              if err \<noteq> None then Some b
              else if length ss = 0 then Some b
              else do {
                (b, qsub) \<leftarrow> fold_opt (deliver_one n e now packet) (List.enumerate 0 ss) (b, []);
                fold_opt (deliver_group n e now ss packet) qsub b } } } }"

definition ProcessPublish ::
  "nat \<Rightarrow> env \<Rightarrow> int \<Rightarrow> client_ptr \<Rightarrow> PublishPacket \<Rightarrow> bool \<Rightarrow> Broker \<Rightarrow> Broker option" where
  "ProcessPublish n e now p packet forward b =
     do { c \<leftarrow> b_heap b p;
          let info = c_info c;
          let denied = (b_AclEnable b \<and> (case b_acl b of None \<Rightarrow> False
             | Some acl \<Rightarrow> \<not> etcdAcl_CheckAcl acl ''pub'' (ci_ID info) (ci_UserName info) (ci_ConnectIP info) (TopicName packet)));
          if denied then Some b
          else if Qos packet = QosAtMostOnce then ProcessPublishMessage n e now p packet forward b
          else if Qos packet = QosAtLeastOnce then
            do { (b, err) \<leftarrow> WriterPacket n e now p (puback (MessageID packet)) b;
                 if err \<noteq> None then Some b else ProcessPublishMessage n e now p packet forward b }
          else if Qos packet = QosExactlyOnce then
            do { (b, err) \<leftarrow> registerPublishPacketId now p (MessageID packet) b;
                 if err \<noteq> None then Some b
                 else do { (b, err) \<leftarrow> WriterPacket n e now p (pubrec (MessageID packet)) b;
                           if err \<noteq> None then Some b else ProcessPublishMessage n e now p packet forward b } }
          else Some b }"

section \<open>Subscriptions\<close>

text \<open>Replacing the client's subscription under the name \<open>t\<close>.\<close>

definition drop_old ::
  "client_ptr \<Rightarrow> string \<Rightarrow> Broker \<Rightarrow> Broker option" where
  "drop_old p t b =
     do { c \<leftarrow> b_heap b p;
          (case gm_get (c_subMap c) t of
             None \<Rightarrow> Some b
           | Some a \<Rightarrow>
               do { old \<leftarrow> b_subheap b a;
                    (m, _) \<leftarrow> topics_Manager_Unsubscribe (b_topicsMgr b) (sub_topic old) (Some (IfPtr a));
                    Some (set_client p (c\<lparr>c_subMap := gm_del t (c_subMap c)\<rparr>) (b\<lparr>b_topicsMgr := m\<rparr>)) }) }"

definition new_sub :: "subscription \<Rightarrow> Broker \<Rightarrow> sub_ptr \<times> Broker" where
  "new_sub sub b =
     (b_subnext b, b\<lparr>b_subheap := (b_subheap b)(b_subnext b \<mapsto> sub), b_subnext := b_subnext b + 1\<rparr>)"

definition processRemoteSubscribe :: "client_ptr \<Rightarrow> Subscription \<Rightarrow> Broker \<Rightarrow> Broker option" where
  "processRemoteSubscribe p obj b =
     do { c \<leftarrow> b_heap b p;
          if c_status c = Disconnected then Some b
          else
            let t = sd_Topic obj;
                parsed = (if go_hasPrefix t ''$share/''
                          then map_option (\<lambda>(g, r). (True, g, r)) (groupCompile t)
                          else Some (False, [], t))
            in case parsed of
                 None \<Rightarrow> Some b
               | Some (share, grp, topic) \<Rightarrow>
                   do { b \<leftarrow> drop_old p t b;
                        let (a, b) = new_sub \<lparr>sub_client = p, sub_topic = topic, sub_qos = word_of_nat (sd_Qos obj),
                              sub_share = share, sub_groupName = grp\<rparr> b;
                        (m, _, err) \<leftarrow> topics_Manager_Subscribe (b_topicsMgr b) topic (word_of_nat (sd_Qos obj)) (Some (IfPtr a));
                        let b = b\<lparr>b_topicsMgr := m\<rparr>;
                        if err \<noteq> None then Some b
                        else on_client (\<lambda>c. c\<lparr>c_subMap := gm_put t a (c_subMap c)\<rparr>) p b } }"

text \<open>A call of a method of the client's session; a nil session panics.\<close>

definition on_client_session ::
  "(Session \<Rightarrow> Session \<times> go_error option) \<Rightarrow> client_ptr \<Rightarrow> Broker \<Rightarrow> Broker option" where
  "on_client_session f p b =
     do { c \<leftarrow> b_heap b p;
          s \<leftarrow> c_session c;
          (m, _) \<leftarrow> on_session f s (b_sessionMgr b);
          Some (b\<lparr>b_sessionMgr := m\<rparr>) }"

definition subscribe_topic ::
  "env \<Rightarrow> int \<Rightarrow> client_ptr \<Rightarrow> bytes \<Rightarrow> nat \<times> string \<Rightarrow> Broker \<times> bytes \<Rightarrow> (Broker \<times> bytes) option" where
  "subscribe_topic e now p qoss it acc =
     (case (it, acc) of ((i, t), (b, retcodes)) \<Rightarrow>
        do { c \<leftarrow> b_heap b p;
             let info = c_info c;
             let denied = (b_AclEnable b \<and> (case b_acl b of None \<Rightarrow> False
               | Some acl \<Rightarrow> \<not> etcdAcl_CheckAcl acl ''sub'' (ci_ID info) (ci_UserName info) (ci_ConnectIP info) t));
             if denied then Some (b, retcodes @ [QosFailure])
             else
               let parsed = (if go_hasPrefix t ''$share/''
                             then map_option (\<lambda>(g, r). (True, g, r)) (groupCompile t)
                             else Some (False, [], t))
               in case parsed of
                    None \<Rightarrow> Some (b, retcodes @ [QosFailure])
                  | Some (share, grp, topic) \<Rightarrow>
                      do { b \<leftarrow> drop_old p t b;
                           q \<leftarrow> nth_opt qoss i;
                           let (a, b) = new_sub \<lparr>sub_client = p, sub_topic = topic, sub_qos = q,
                                 sub_share = share, sub_groupName = grp\<rparr> b;
                           (m, rqos, err) \<leftarrow> topics_Manager_Subscribe (b_topicsMgr b) topic q (Some (IfPtr a));
                           let b = b\<lparr>b_topicsMgr := m\<rparr>;
                           if err \<noteq> None then Some (b, retcodes @ [QosFailure])
                           else do {
                             b \<leftarrow> on_client (\<lambda>c. c\<lparr>c_subMap := gm_put t a (c_subMap c)\<rparr>) p b;
                             b \<leftarrow> on_client_session (\<lambda>s. Session_AddTopic s t q) p b;
                             c \<leftarrow> b_heap b p;
                             (rmsgs, _) \<leftarrow> topics_Manager_Retained (b_topicsMgr b) topic (c_rmsgs c);
                             let b = set_client p (c\<lparr>c_rmsgs := rmsgs\<rparr>) b;
                             let (subData, b) = StoreAddORUpdateSubscription e \<lparr>sd_ID = [], sd_ClientID = ci_ID info,
                                   sd_NodeID = b_id b, sd_Topic = t, sd_Qos = unat q, sd_Timestamp = now\<rparr> b;
                             let b = (if notifying b then
                                        let b = emit (Notified (OnSubscribe subData)) b in
                                        if t = ''agents/'' @ ci_ID info then emit (Notified (OnAgentConnect info)) b else b
                                      else b);
                             Some (b, retcodes @ [rqos]) } } })"

definition send_retained :: "nat \<Rightarrow> env \<Rightarrow> int \<Rightarrow> client_ptr \<Rightarrow> PublishPacket \<Rightarrow> Broker \<Rightarrow> Broker option" where
  "send_retained n e now p rm b = do { (b, _) \<leftarrow> WriterPacket n e now p (CP_Publish rm) b; Some b }"

definition ProcessSubscribe ::
  "nat \<Rightarrow> env \<Rightarrow> int \<Rightarrow> client_ptr \<Rightarrow> SubscribePacket \<Rightarrow> Broker \<Rightarrow> Broker option" where
  "ProcessSubscribe n e now p packet b =
     do { c \<leftarrow> b_heap b p;
          if c_status c = Disconnected then Some b
          else do {
            (b, retcodes) \<leftarrow> fold_opt (subscribe_topic e now p (Qoss packet)) (List.enumerate 0 (Topics packet)) (b, []);
            (b, err) \<leftarrow> WriterPacket n e now p (suback (MessageID packet) retcodes) b;
            if err \<noteq> None then Some b
            else do { c \<leftarrow> b_heap b p; fold_opt (send_retained n e now p) (c_rmsgs c) b } } }"

definition unsubscribe_topic :: "env \<Rightarrow> int \<Rightarrow> client_ptr \<Rightarrow> string \<Rightarrow> Broker \<Rightarrow> Broker option" where
  "unsubscribe_topic e now p topic b =
     do { c \<leftarrow> b_heap b p;
          let info = c_info c;
          let sub = gm_get (c_subMap c) topic;
          b \<leftarrow> (case sub of
                 None \<Rightarrow> Some b
               | Some a \<Rightarrow>
                   do { s \<leftarrow> b_subheap b a;
                        (m, _) \<leftarrow> topics_Manager_Unsubscribe (b_topicsMgr b) (sub_topic s) (Some (IfPtr a));
                        b \<leftarrow> on_client_session (\<lambda>s. Session_RemoveTopic s topic) p (b\<lparr>b_topicsMgr := m\<rparr>);
                        on_client (\<lambda>c. c\<lparr>c_subMap := gm_del topic (c_subMap c)\<rparr>) p b });
          let b = StoreRemoveSubscription e topic (ci_ID info) b;
          if notifying b then
            do { a \<leftarrow> sub;
                 s \<leftarrow> b_subheap b a;
                 let b = emit (Notified (OnUnSubscribe (ci_ID info) (ci_NodeID info) topic (sub_qos s) now)) b;
                 if topic = ''agents/'' @ ci_ID info then
                   do { b \<leftarrow> on_client (\<lambda>c. c\<lparr>c_info := info\<lparr>ci_Timestamp := now\<rparr>\<rparr>) p b;
                        Some (emit (Notified (OnAgentDisconnected (info\<lparr>ci_Timestamp := now\<rparr>))) b) }
                 else Some b }
          else Some b }"

definition ProcessUnSubscribe ::
  "nat \<Rightarrow> env \<Rightarrow> int \<Rightarrow> client_ptr \<Rightarrow> UnsubscribePacket \<Rightarrow> Broker \<Rightarrow> Broker option" where
  "ProcessUnSubscribe n e now p packet b =
     do { c \<leftarrow> b_heap b p;
          if c_status c = Disconnected then Some b
          else do {
            b \<leftarrow> fold_opt (unsubscribe_topic e now p) (Topics packet) b;
            (b, _) \<leftarrow> WriterPacket n e now p (unsuback (MessageID packet)) b;
            Some b } }"

definition ProcessPing :: "nat \<Rightarrow> env \<Rightarrow> int \<Rightarrow> client_ptr \<Rightarrow> Broker \<Rightarrow> Broker option" where
  "ProcessPing n e now p b =
     do { c \<leftarrow> b_heap b p;
          if c_status c = Disconnected then Some b
          else do { (b, _) \<leftarrow> WriterPacket n e now p (CP_Pingresp (zeroHeader Pingresp 0)) b; Some b } }"

section \<open>One message of a client\<close>

record Message =
  msg_client :: client_ptr
  msg_packet :: "ControlPacket option"
  msg_forward :: bool

text \<open>The client whose packet has malformed fields: its connection is closed, which panics when it is nil.\<close>

definition drop_malformed :: "client_ptr \<Rightarrow> Broker \<Rightarrow> Broker option" where
  "drop_malformed p b =
     do { c \<leftarrow> b_heap b p;
          (case c_conn c of
             None \<Rightarrow> None
           | Some _ \<Rightarrow>
               Some (set_client p (c\<lparr>c_status := Disconnected, c_info := (c_info c)\<lparr>ci_Status := Disconnected\<rparr>\<rparr>)
                       (emit (ConnClosed p) b))) }"

definition received_pubrec :: "int \<Rightarrow> uint16 \<Rightarrow> client \<Rightarrow> client" where
  "received_pubrec now mid c =
     (case gm_get (c_inflight c) mid of
        None \<Rightarrow> c
      | Some el \<Rightarrow>
          if ie_status el = InflightPublish
          then c\<lparr>c_inflight := gm_put mid (el\<lparr>ie_status := InflightPubrel, ie_timestamp := now\<rparr>) (c_inflight c)\<rparr>
          else c)"

definition ProcessMessage :: "nat \<Rightarrow> env \<Rightarrow> int \<Rightarrow> Message \<Rightarrow> Broker \<Rightarrow> Broker option" where
  "ProcessMessage n e now m b =
     (let p = msg_client m in
      case msg_packet m of
        None \<Rightarrow> Some b
      | Some ca \<Rightarrow>
          if \<not> validatePacketFields ca then drop_malformed p b
          else (case ca of
              CP_Publish packet \<Rightarrow> ProcessPublish n e now p packet (msg_forward m) b
            | CP_Puback packet \<Rightarrow>
                on_client (\<lambda>c. if gm_get (c_inflight c) (MessageID packet) \<noteq> None
                               then c\<lparr>c_inflight := gm_del (MessageID packet) (c_inflight c)\<rparr> else c) p b
            | CP_Pubrec packet \<Rightarrow>
                do { b \<leftarrow> on_client (received_pubrec now (MessageID packet)) p b;
                     (b, _) \<leftarrow> WriterPacket n e now p (pubrel (MessageID packet)) b; Some b }
            | CP_Pubrel packet \<Rightarrow>
                do { (b, _) \<leftarrow> pubRel p (MessageID packet) b;
                     (b, _) \<leftarrow> WriterPacket n e now p (pubcomp (MessageID packet)) b; Some b }
            | CP_Pubcomp packet \<Rightarrow>
                on_client (\<lambda>c. c\<lparr>c_inflight := gm_del (MessageID packet) (c_inflight c)\<rparr>) p b
            | CP_Subscribe packet \<Rightarrow> ProcessSubscribe n e now p packet b
            | CP_Unsubscribe packet \<Rightarrow> ProcessUnSubscribe n e now p packet b
            | CP_Pingreq _ \<Rightarrow> ProcessPing n e now p b
            | CP_Disconnect _ \<Rightarrow> Close n e now p b
            | _ \<Rightarrow> Some b))"

section \<open>Retries\<close>

definition retry_one ::
  "nat \<Rightarrow> env \<Rightarrow> int \<Rightarrow> client_ptr \<Rightarrow> uint16 \<times> inflightElem \<Rightarrow> Broker \<Rightarrow> Broker option" where
  "retry_one n e now p ie b =
     (let age = now - ie_timestamp (snd ie);
          touch = on_client (\<lambda>c. c\<lparr>c_inflight := gm_put (fst ie) ((snd ie)\<lparr>ie_timestamp := now\<rparr>) (c_inflight c)\<rparr>) p
      in
      if age \<ge> retryInterval then
        (case ie_status (snd ie) of
           InflightPublish \<Rightarrow>
             do { (b, _) \<leftarrow> WriterPacket n e now p (CP_Publish (ie_packet (snd ie))) b; touch b }
         | InflightPubrel \<Rightarrow>
             do { (b, _) \<leftarrow> WriterPacket n e now p (pubrel (MessageID (ie_packet (snd ie)))) b; touch b })
      else on_client (ensureRetryTimer (Some (retryInterval - (if age < 0 then 0 else age)))) p b)"

definition retryDelivery :: "nat \<Rightarrow> env \<Rightarrow> int \<Rightarrow> client_ptr \<Rightarrow> Broker \<Rightarrow> Broker option" where
  "retryDelivery n e now p b =
     do { b \<leftarrow> on_client resetRetryTimer p b;
          c \<leftarrow> b_heap b p;
          if c_conn c = None \<or> length (c_inflight c) = 0 then Some b
          else do {
            b \<leftarrow> fold_opt (retry_one n e now p) (c_inflight c) b;
            on_client (ensureRetryTimer None) p b } }"

end
