(* ===== verification/BrokerInv.thy ===== *)
theory BrokerInv
  imports BrokerClient
begin

text \<open>
  Every handler of a client returns and keeps the agreement between the topic tree and the
  clients' subscription maps, except in the two situations in which the code panics.
\<close>

section \<open>States in which a handler may run\<close>

text \<open>
  The session store is well-formed, clients of this node have a session in it and clients of other nodes
  have none; registered clients exist.
\<close>

definition sess_ok :: "Broker \<Rightarrow> bool" where
  "sess_ok b \<longleftrightarrow> sess_wf (sessions_p (b_sessionMgr b)) \<and> (\<forall>p c. b_heap b p = Some c \<longrightarrow> c_typ c = LOCAL \<longrightarrow>
     (\<exists>s. c_session c = Some s \<and> gm_get (sess_heap (sessions_p (b_sessionMgr b))) s \<noteq> None)) \<and>
     (\<forall>p c. b_heap b p = Some c \<longrightarrow> c_typ c = REMOTE \<longrightarrow> c_session c = None)"

definition reg_ok :: "Broker \<Rightarrow> bool" where
  "reg_ok b \<longleftrightarrow> (\<forall>i p. registry b i = Some (ClientObj p) \<longrightarrow> b_heap b p \<noteq> None)"

definition ready :: "nat \<Rightarrow> Broker \<Rightarrow> bool" where
  "ready n b \<longleftrightarrow> broker_inv b \<and> card (online b) < n \<and> sess_ok b \<and> reg_ok b \<and> rroot (topics_p (b_topicsMgr b)) \<noteq> None"

lemma reg_ok_mono:
  assumes "reg_ok b" "registry b' \<subseteq>\<^sub>m registry b" "\<And>p. b_heap b p \<noteq> None \<Longrightarrow> b_heap b' p \<noteq> None"
  shows "reg_ok b'"
  using assms unfolding reg_ok_def map_le_def by (metis domI)

lemma registry_simps [simp]:
  "registry (b\<lparr>b_topicsMgr := m\<rparr>) = registry b" "registry (b\<lparr>b_sessionMgr := sm\<rparr>) = registry b"
  "registry (emit x b) = registry b"
  by (simp_all add: registry_def emit_def)

text \<open>
  How a handler changes the state: it stays ready, clients stay what they are (and stay
  disconnected), and subscriptions once allocated stay as they are.
\<close>

definition kept_client :: "client \<Rightarrow> client \<Rightarrow> bool" where
  "kept_client c c' \<longleftrightarrow> c_typ c' = c_typ c \<and> c_session c' = c_session c \<and> ci_ID (c_info c') = ci_ID (c_info c) \<and>
     (c_status c = Disconnected \<longrightarrow> c_status c' = Disconnected)"

definition steps :: "nat \<Rightarrow> Broker \<Rightarrow> Broker \<Rightarrow> bool" where
  "steps n b b' \<longleftrightarrow> ready n b' \<and> (\<forall>p. rel_option kept_client (b_heap b p) (b_heap b' p)) \<and>
     b_subheap b \<subseteq>\<^sub>m b_subheap b' \<and> notifying b' = notifying b \<and> registry b' \<subseteq>\<^sub>m registry b"

lemma kept_client_refl [simp]: "kept_client c c"
  by (simp add: kept_client_def)

lemma kept_client_trans: "kept_client a b \<Longrightarrow> kept_client b c \<Longrightarrow> kept_client a c"
  by (auto simp: kept_client_def)

lemma steps_refl: "ready n b \<Longrightarrow> steps n b b"
  by (simp add: steps_def option.rel_refl)

lemma steps_ready: "steps n b b' \<Longrightarrow> ready n b'"
  by (simp add: steps_def)

lemma steps_trans:
  assumes "steps n a b" "steps n b c"
  shows "steps n a c"
proof -
  have "rel_option kept_client (b_heap a p) (b_heap c p)" for p
  proof -
    have "rel_option kept_client (b_heap a p) (b_heap b p)" "rel_option kept_client (b_heap b p) (b_heap c p)"
      using assms by (simp_all add: steps_def)
    then show ?thesis
      by (cases "b_heap a p"; cases "b_heap b p"; cases "b_heap c p") (auto intro: kept_client_trans)
  qed
  then show ?thesis using assms unfolding steps_def by (auto intro: map_le_trans)
qed

lemma steps_get:
  assumes "steps n b b'" "b_heap b p = Some c"
  obtains c' where "b_heap b' p = Some c'" "kept_client c c'"
  using assms unfolding steps_def by (metis option_rel_Some1)

lemma steps_heap: "steps n b b' \<Longrightarrow> b_heap b p \<noteq> None \<Longrightarrow> b_heap b' p \<noteq> None"
  by (auto elim: steps_get)

lemma calmer_kept: "calmer_client c c' \<Longrightarrow> kept_client c c'"
  by (auto simp: calmer_client_def kept_client_def)

lemma calmer_sess_ok:
  assumes "calmer b b'" "sess_ok b"
  shows "sess_ok b'"
proof -
  have "\<exists>s. c_session c' = Some s \<and> gm_get (sess_heap (sessions_p (b_sessionMgr b'))) s \<noteq> None"
    if c': "b_heap b' p = Some c'" "c_typ c' = LOCAL" for p c'
  proof -
    obtain c where "b_heap b p = Some c" "calmer_client c c'" by (rule calmer_get_back [OF assms(1) c'(1)])
    with assms c'(2) show ?thesis unfolding sess_ok_def calmer_client_def calmer_def by metis
  qed
  moreover have "c_session c' = None" if c': "b_heap b' p = Some c'" "c_typ c' = REMOTE" for p c'
  proof -
    obtain c where "b_heap b p = Some c" "calmer_client c c'" by (rule calmer_get_back [OF assms(1) c'(1)])
    with assms(2) c'(2) show ?thesis unfolding sess_ok_def calmer_client_def by metis
  qed
  moreover have "b_sessionMgr b' = b_sessionMgr b" using assms(1) by (simp add: calmer_def)
  ultimately show ?thesis using assms(2) by (simp add: sess_ok_def)
qed

lemma settles_steps:
  assumes "settles b b'" "ready n b"
  shows "steps n b b'"
proof -
  have c: "calmer b b'" "broker_inv b'" using assms(1) by (simp_all add: settles_def)
  have "rel_option kept_client (b_heap b p) (b_heap b' p)" for p
  proof -
    have "rel_option calmer_client (b_heap b p) (b_heap b' p)" using c(1) by (simp add: calmer_def)
    then show ?thesis by (rule option.rel_mono_strong) (rule calmer_kept)
  qed
  moreover have "registry b' \<subseteq>\<^sub>m registry b" using c(1) by (simp add: calmer_def)
  moreover from this have "reg_ok b'"
    using assms(2) reg_ok_mono calmer_heap [OF c(1)] unfolding ready_def by blast
  moreover have "card (online b') < n" "rroot (topics_p (b_topicsMgr b')) \<noteq> None" "b_subheap b' = b_subheap b"
    "notifying b' = notifying b"
    using assms settles_card [OF _ assms(1)] by (auto simp: ready_def calmer_def settles_def notifying_def)
  ultimately show ?thesis
    using c assms(2) calmer_sess_ok by (simp add: steps_def ready_def)
qed

lemma core_steps: "same_core b b' \<Longrightarrow> ready n b \<Longrightarrow> steps n b b'"
  using settles_core settles_steps ready_def by blast

section \<open>Elementary steps\<close>

definition harmless :: "client \<Rightarrow> client \<Rightarrow> bool" where
  "harmless c c' \<longleftrightarrow> same_subs c c' \<and> kept_client c c'"

lemma steps_set_client:
  assumes "ready n b" "b_heap b p = Some c" "harmless c c'"
  shows "steps n b (set_client p c' b)"
proof -
  let ?b = "set_client p c' b"
  have "broker_inv ?b"
    using assms broker_inv_set_client unfolding ready_def harmless_def by blast
  moreover have "online ?b \<subseteq> online b"
    using assms(2,3) by (auto simp: online_def harmless_def same_subs_def split: if_splits)
  then have "card (online ?b) < n"
    using assms(1) online_finite [of b] card_mono [of "online b" "online ?b"] by (auto simp: ready_def)
  moreover have "sess_ok ?b"
    using assms unfolding sess_ok_def ready_def harmless_def kept_client_def by auto
  moreover have "reg_ok ?b" using assms(1) by (auto simp: ready_def intro: reg_ok_mono)
  ultimately show ?thesis
    using assms by (auto simp: steps_def ready_def harmless_def notifying_def option.rel_refl)
qed

lemma steps_on_client:
  assumes "ready n b" "b_heap b p \<noteq> None" "\<And>c. b_heap b p = Some c \<Longrightarrow> harmless c (f c)"
  shows "\<exists>b'. on_client f p b = Some b' \<and> steps n b b'"
  using assms steps_set_client by (auto simp: on_client_def)

lemma steps_WriterPacket:
  assumes "ready n b" "b_heap b p \<noteq> None"
  shows "\<exists>b' err. WriterPacket n e now p packet b = Some (b', err) \<and> steps n b b'"
proof -
  obtain b' err where "WriterPacket n e now p packet b = Some (b', err)" "settles b b'"
    using WriterPacket_ok [of b p n e now packet] assms unfolding ready_def by blast
  with settles_steps assms(1) show ?thesis by blast
qed

lemma steps_Close:
  assumes "ready n b" "b_heap b p \<noteq> None"
  shows "\<exists>b'. Close n e now p b = Some b' \<and> steps n b b'"
  using Close_ok [of e n now] assms settles_steps unfolding close_ok_def ready_def by blast

lemma steps_topicsMgr:
  assumes "ready n b" "mt_inv (topics_p m)" "mt_entries (topics_p m) = in_force b" "rroot (topics_p m) \<noteq> None"
  shows "steps n b (b\<lparr>b_topicsMgr := m\<rparr>)"
proof -
  have "broker_inv (b\<lparr>b_topicsMgr := m\<rparr>)"
    using assms by (intro broker_inv_shrink) (auto simp: ready_def)
  then show ?thesis
    using assms by (simp add: steps_def ready_def online_def sess_ok_def reg_ok_def notifying_def option.rel_refl)
qed

lemma harmless_simps [simp]:
  "harmless c (put_inflight now packet c)" "harmless c (ensureRetryTimer i c)" "harmless c (resetRetryTimer c)"
  "harmless c (received_pubrec now mid c)"
  "harmless c (c\<lparr>c_inflight := il\<rparr>)" "harmless c (c\<lparr>c_awaitingRel := ar\<rparr>)"
  "harmless c (c\<lparr>c_subs := ss, c_qoss := qs\<rparr>)" "harmless c (c\<lparr>c_rmsgs := rs\<rparr>)" "harmless c c"
  "harmless c (c\<lparr>c_status := Disconnected, c_info := (c_info c)\<lparr>ci_Status := Disconnected\<rparr>\<rparr>)"
  "harmless c (c\<lparr>c_info := (c_info c)\<lparr>ci_Timestamp := now\<rparr>\<rparr>)"
  by (auto simp: harmless_def same_subs_def kept_client_def put_inflight_def ensureRetryTimer_def
      resetRetryTimer_def received_pubrec_def split: option.split)

section \<open>Delivery\<close>

definition valid_sub :: "Broker \<Rightarrow> sub_ptr \<Rightarrow> bool" where
  "valid_sub b a \<longleftrightarrow> (\<exists>sub. b_subheap b a = Some sub \<and> b_heap b (sub_client sub) \<noteq> None)"

lemma steps_valid_sub:
  assumes "steps n b b'" "valid_sub b a"
  shows "valid_sub b' a"
proof -
  obtain sub where "b_subheap b a = Some sub" "b_heap b (sub_client sub) \<noteq> None"
    using assms(2) by (auto simp: valid_sub_def)
  moreover have "b_subheap b \<subseteq>\<^sub>m b_subheap b'" using assms(1) by (simp add: steps_def)
  ultimately show ?thesis
    using steps_heap [OF assms(1)] unfolding valid_sub_def map_le_def by (metis domI)
qed

lemma in_force_valid_sub: "broker_inv b \<Longrightarrow> (ls, a) \<in> in_force b \<Longrightarrow> valid_sub b a"
  unfolding broker_inv_def tree_sound_def valid_sub_def by fastforce

lemma steps_send:
  assumes "ready n b" "b_heap b p \<noteq> None"
  shows "\<exists>b'. do { (b, _) \<leftarrow> WriterPacket n e now p packet b; Some b } = Some b' \<and> steps n b b'"
  using steps_WriterPacket [OF assms, of e now packet] by auto

lemma steps_store_send:
  assumes "ready n b" "b_heap b p \<noteq> None"
  shows "\<exists>b'. do { b \<leftarrow> on_client (put_inflight now packet) p b;
                   (b, _) \<leftarrow> WriterPacket n e now p cp b; on_client (ensureRetryTimer None) p b } = Some b' \<and> steps n b b'"
proof -
  obtain b1 where b1: "on_client (put_inflight now packet) p b = Some b1" "steps n b b1"
    using steps_on_client [OF assms, of "put_inflight now packet"] by auto
  obtain b2 err where b2: "WriterPacket n e now p cp b1 = Some (b2, err)" "steps n b1 b2"
    using steps_WriterPacket [OF steps_ready [OF b1(2)] steps_heap [OF b1(2) assms(2)], of e now cp] by blast
  obtain b3 where b3: "on_client (ensureRetryTimer None) p b2 = Some b3" "steps n b2 b3"
    using steps_on_client [OF steps_ready [OF b2(2)] steps_heap [OF b2(2) steps_heap [OF b1(2) assms(2)]],
        of "ensureRetryTimer None"] by auto
  have "steps n b b3" using b1(2) b2(2) b3(2) steps_trans by blast
  with b1 b2 b3 show ?thesis by simp
qed

lemma steps_publishFoward:
  assumes "ready n b" "b_heap b p \<noteq> None"
  shows "\<exists>b'. publishFoward n e now p packet b = Some b' \<and> steps n b b'"
  using steps_send [OF assms, of e now "CP_Publish packet"] steps_refl [OF assms(1)]
    steps_store_send [OF assms, of now packet e "CP_Publish packet"]
  by (auto simp: publishFoward_def)

lemma steps_publish:
  assumes "ready n b" "valid_sub b a"
  shows "\<exists>b'. publish n e now a packet b = Some b' \<and> steps n b b'"
proof -
  obtain sub c where s: "b_subheap b a = Some sub" "b_heap b (sub_client sub) = Some c"
    using assms(2) by (auto simp: valid_sub_def)
  let ?fwd = "\<lparr>fw_ClientID = ci_ID (c_info c), fw_Packet = packet, fw_Timestamp = now\<rparr>"
  let ?p = "sub_client sub"
  have h: "b_heap b ?p \<noteq> None" using s(2) by simp
  obtain b1 where b1: "on_client (put_inflight now packet) ?p b = Some b1" "steps n b b1"
    using steps_on_client [OF assms(1) h, of "put_inflight now packet"] by auto
  have fwd: "steps n b' (etcdRouter_Forward e node ?fwd b')" if "ready n b'" for b' node
    using core_steps [OF _ that] by simp
  show ?thesis
    using s steps_send [OF assms(1) h, of e now "CP_Publish packet"] steps_refl [OF assms(1)]
      steps_store_send [OF assms(1) h, of now packet e "CP_Publish packet"] b1
      fwd [OF assms(1)] steps_trans [OF b1(2) fwd [OF steps_ready [OF b1(2)]]]
    by (auto simp: publish_def Let_def)
qed

text \<open>The random choice is within its bound.\<close>

definition env_ok :: "env \<Rightarrow> bool" where
  "env_ok e \<longleftrightarrow> (\<forall>g k. 0 < k \<longrightarrow> env_Intn e g k < k)"

definition groups_within :: "nat \<Rightarrow> groups \<Rightarrow> bool" where
  "groups_within k qsub \<longleftrightarrow> (\<forall>(g, is) \<in> set qsub. \<forall>i \<in> set is. i < k)"

lemma set_update_subset: "set (AList.update k v m) \<subseteq> insert (k, v) (set m)"
  by (induction m) auto

lemma groups_within_add:
  assumes "groups_within k qsub" "i < k"
  shows "groups_within k (add_to_group g i qsub)"
proof -
  have put: "groups_within k (gm_put g l qsub)" if "\<forall>i \<in> set l. i < k" for l
    using assms(1) set_update_subset [of g l qsub] that unfolding groups_within_def by fastforce
  have "\<forall>i \<in> set l. i < k" if "gm_get qsub g = Some l" for l
    using assms(1) map_of_SomeD [OF that] unfolding groups_within_def by fastforce
  with put assms(2) show ?thesis by (auto simp: add_to_group_def split: option.split)
qed

lemma steps_deliver_one:
  assumes "ready n b" "valid_sub b a"
  shows "\<exists>b' qsub'. deliver_one n e now packet (i, IfPtr a) (b, qsub) = Some (b', qsub') \<and> steps n b b' \<and>
    (qsub' = qsub \<or> (\<exists>g. qsub' = add_to_group g i qsub))"
proof -
  obtain sub where "b_subheap b a = Some sub" using assms(2) by (auto simp: valid_sub_def)
  then show ?thesis
    using steps_publish [OF assms, of e now packet] steps_refl [OF assms(1)] by (auto simp: deliver_one_def)
qed

lemma steps_deliver_all:
  assumes "ready n b" "\<forall>x \<in> set ss. \<exists>a. x = IfPtr a \<and> valid_sub b a"
  shows "\<exists>b' qsub. fold_opt (deliver_one n e now packet) (List.enumerate 0 ss) (b, []) = Some (b', qsub) \<and>
    steps n b b' \<and> groups_within (length ss) qsub"
proof -
  have "\<exists>r. fold_opt (deliver_one n e now packet) (List.enumerate 0 ss) (b, []) = Some r \<and>
      steps n b (fst r) \<and> groups_within (length ss) (snd r)"
  proof (rule fold_opt_inv)
    fix x r assume x: "x \<in> set (List.enumerate 0 ss)" and r: "steps n b (fst r) \<and> groups_within (length ss) (snd r)"
    have "fst x < length ss" "ss ! fst x = snd x" using x unfolding in_set_enumerate_eq by simp_all
    then obtain i y where y: "x = (i, y)" "i < length ss" "y = ss ! i" by (cases x) simp
    then obtain a where a: "y = IfPtr a" "valid_sub b a" using assms(2) nth_mem by blast
    obtain b1 qsub where b1: "r = (b1, qsub)" by fastforce
    with r have "ready n b1" "valid_sub b1 a" using steps_ready steps_valid_sub a(2) by auto
    from steps_deliver_one [OF this, of e now packet i qsub] obtain b2 q2 where
      "deliver_one n e now packet x r = Some (b2, q2)" "steps n b1 b2" "q2 = qsub \<or> (\<exists>g. q2 = add_to_group g i qsub)"
      using y a b1 by auto
    moreover from this r b1 y have "groups_within (length ss) q2" using groups_within_add by auto
    ultimately show "\<exists>r'. deliver_one n e now packet x r = Some r' \<and> steps n b (fst r') \<and>
        groups_within (length ss) (snd r')"
      using r b1 steps_trans by auto
  qed (use assms in \<open>simp add: steps_refl groups_within_def\<close>)
  then show ?thesis by auto
qed

lemma steps_deliver_groups:
  assumes "ready n b" "env_ok e" "\<forall>x \<in> set ss. \<exists>a. x = IfPtr a \<and> valid_sub b a" "groups_within (length ss) qsub"
  shows "\<exists>b'. fold_opt (deliver_group n e now ss packet) qsub b = Some b' \<and> steps n b b'"
proof (rule fold_opt_inv)
  fix g b1 assume g: "g \<in> set qsub" and b1: "steps n b b1"
  show "\<exists>b2. deliver_group n e now ss packet g b1 = Some b2 \<and> steps n b b2"
  proof (cases "snd g")
    case Nil
    then show ?thesis using b1 by (simp add: deliver_group_def)
  next
    case (Cons i0 is0)
    define k where "k = env_Intn e (fst g) (length (snd g))"
    have k: "k < length (snd g)" "0 < length (snd g)" using assms(2) Cons by (simp_all add: env_ok_def k_def)
    then have "snd g ! k < length ss" using assms(4) g nth_mem unfolding groups_within_def by fastforce
    moreover from this obtain a where "ss ! (snd g ! k) = IfPtr a" "valid_sub b a" using assms(3) nth_mem by blast
    ultimately have "deliver_group n e now ss packet g b1 = publish n e now a packet b1"
      using k by (simp add: deliver_group_def nth_opt_def flip: k_def)
    then show ?thesis
      using steps_publish [OF steps_ready [OF b1] steps_valid_sub [OF b1 \<open>valid_sub b a\<close>], of e now packet]
        steps_trans [OF b1] by auto
  qed
qed (use assms in \<open>simp add: steps_refl\<close>)

lemma Manager_Retain:
  assumes "ready n b"
  obtains m r where "topics_Manager_Retain (b_topicsMgr b) packet = Some (m, r)"
    "sroot (topics_p m) = sroot (topics_p (b_topicsMgr b))" "rroot (topics_p m) \<noteq> None"
proof -
  obtain tree where "rroot (topics_p (b_topicsMgr b)) = Some tree" using assms by (auto simp: ready_def)
  moreover obtain tree' r where "(if Payload packet = [] then rremove tree (TopicName packet)
      else rinsertOrUpdate tree (TopicName packet) packet) = (tree', r)" by fastforce
  ultimately show ?thesis using that by (auto simp: topics_Manager_Retain_def memTopics_Retain_def)
qed

lemma steps_Retain:
  assumes "ready n b"
  shows "\<exists>m r. topics_Manager_Retain (b_topicsMgr b) packet = Some (m, r) \<and> steps n b (b\<lparr>b_topicsMgr := m\<rparr>)"
proof -
  obtain m r where m: "topics_Manager_Retain (b_topicsMgr b) packet = Some (m, r)"
      "sroot (topics_p m) = sroot (topics_p (b_topicsMgr b))" "rroot (topics_p m) \<noteq> None"
    by (rule Manager_Retain [OF assms])
  have "steps n b (b\<lparr>b_topicsMgr := m\<rparr>)"
    by (rule steps_topicsMgr [OF assms])
      (use assms m in \<open>auto simp: ready_def broker_inv_def mt_inv_def mt_entries_def in_force_def\<close>)
  with m(1) show ?thesis by blast
qed

lemma steps_Bridge: "ready n b \<Longrightarrow> steps n b (Broker_Bridge e el b)"
  by (auto simp: Broker_Bridge_def steps_refl intro: core_steps split: option.split)

lemma steps_ProcessPublishMessage:
  assumes "ready n b" "b_heap b p \<noteq> None" "env_ok e"
  shows "\<exists>b'. ProcessPublishMessage n e now p packet forward b = Some b' \<and> steps n b b'"
proof -
  obtain c where c: "b_heap b p = Some c" using assms(2) by auto
  define b1opt where "b1opt = (if Retain packet
      then do { (m, _) \<leftarrow> topics_Manager_Retain (b_topicsMgr b) packet; Some (b\<lparr>b_topicsMgr := m\<rparr>) } else Some b)"
  obtain b1 where b1: "b1opt = Some b1" "steps n b b1" "b_heap b1 = b_heap b"
    using steps_Retain [OF assms(1), of packet] steps_refl [OF assms(1)]
    by (cases "Retain packet") (auto simp: b1opt_def)
  then have r1: "ready n b1" "b_heap b1 p = Some c" using steps_ready c by auto
  then obtain ss qs err where sub: "topics_Manager_Subscribers (b_topicsMgr b1) (TopicName packet) (Qos packet)
      (c_subs c, c_qoss c) = Some ((ss, qs), err)" "err = None \<longrightarrow> set ss \<subseteq> {IfPtr a | a. \<exists>p. (p, a) \<in> in_force b1}"
    using mem_provider.subscribers_total [of "topics_p (b_topicsMgr b1)" "TopicName packet" "Qos packet" "(c_subs c, c_qoss c)"]
    unfolding topics_Manager_Subscribers_def in_force_def ready_def broker_inv_def by blast
  define b2 where "b2 = set_client p (c\<lparr>c_subs := ss, c_qoss := qs\<rparr>) b1"
  have b2: "steps n b1 b2" unfolding b2_def by (rule steps_set_client [OF r1]) simp
  have fwd: "\<exists>b'. publishFoward n e now p packet b1 = Some b' \<and> steps n b b'"
    using steps_publishFoward [OF r1(1), of p e now packet] r1(2) steps_trans [OF b1(2)] by auto
  have del: "\<exists>b'. do { (b, qsub) \<leftarrow> fold_opt (deliver_one n e now packet) (List.enumerate 0 ss) (b2, []);
                fold_opt (deliver_group n e now ss packet) qsub b } = Some b' \<and> steps n b b'" if ok: "err = None"
  proof -
    have v: "\<forall>x \<in> set ss. \<exists>a. x = IfPtr a \<and> valid_sub b2 a"
      using sub(2) ok in_force_valid_sub r1(1) steps_valid_sub [OF b2] unfolding ready_def by blast
    obtain b3 qsub where b3: "fold_opt (deliver_one n e now packet) (List.enumerate 0 ss) (b2, []) = Some (b3, qsub)"
      "steps n b2 b3" "groups_within (length ss) qsub"
      using steps_deliver_all [OF steps_ready [OF b2] v, of e now packet] by blast
    have v3: "\<forall>x \<in> set ss. \<exists>a. x = IfPtr a \<and> valid_sub b3 a" using v steps_valid_sub [OF b3(2)] by blast
    obtain b4 where "fold_opt (deliver_group n e now ss packet) qsub b3 = Some b4" "steps n b3 b4"
      using steps_deliver_groups [OF steps_ready [OF b3(2)] assms(3) v3 b3(3), of now packet] by blast
    with b1(2) b2 b3 show ?thesis using steps_trans by (metis (no_types, lifting) bind.bind_lunit case_prod_conv)
  qed
  show ?thesis
    using c b1(1) r1(2) sub(1) fwd del b2 b1(2) steps_trans [OF b1(2) b2] steps_Bridge [OF assms(1)] steps_refl [OF assms(1)]
    unfolding ProcessPublishMessage_def b1opt_def [symmetric]
    by (auto simp: Let_def b2_def split: option.splits)
qed

section \<open>Subscriptions\<close>

text \<open>A subscription leaves the tree and its client's map together.\<close>

lemma broker_inv_unsub:
  assumes inv: "broker_inv b" and p: "b_heap b p = Some c" and t: "gm_get (c_subMap c) t = Some a"
    and m: "mt_inv (topics_p m)" "mt_entries (topics_p m) = {(ls, x) \<in> in_force b. x \<noteq> a}"
    and c': "c_subMap c' = gm_del t (c_subMap c)" "c_status c' = c_status c"
  shows "broker_inv (set_client p c' (b\<lparr>b_topicsMgr := m\<rparr>))"
proof -
  let ?b = "set_client p c' (b\<lparr>b_topicsMgr := m\<rparr>)"
  have E: "in_force ?b = {(ls, x) \<in> in_force b. x \<noteq> a}" using m(2) by (simp add: in_force_def)
  have ok: "client_ok b q d" if "b_heap b q = Some d" for q d using inv that by (simp add: broker_inv_def)
  obtain sub where sub: "b_subheap b a = Some sub" "sub_client sub = p"
    using ok [OF p] t unfolding client_ok_def by blast
  have "tree_sound ?b" unfolding tree_sound_def E
  proof (intro allI impI)
    fix ls x assume "(ls, x) \<in> {(ls, x) \<in> in_force b. x \<noteq> a}"
    then have x: "(ls, x) \<in> in_force b" "x \<noteq> a" by auto
    then obtain s d u where "b_subheap b x = Some s" "b_heap b (sub_client s) = Some d"
      "gm_get (c_subMap d) u = Some x" "topic_levels (sub_topic s) = Some ls"
      using inv unfolding broker_inv_def tree_sound_def by blast
    moreover from this have "u \<noteq> t" if "sub_client s = p" using that p t x(2) by auto
    ultimately show "\<exists>s d u. b_subheap ?b x = Some s \<and> b_heap ?b (sub_client s) = Some d \<and>
        gm_get (c_subMap d) u = Some x \<and> topic_levels (sub_topic s) = Some ls"
      using c'(1) p by (cases "sub_client s = p") auto
  qed
  moreover have "client_ok ?b q d" if d: "b_heap ?b q = Some d" for q d
  proof (cases "q = p")
    case True
    then have "d = c'" using d by simp
    moreover have "client_ok ?b p c'"
      using ok [OF p] t c' unfolding client_ok_def E by (auto split: if_splits) metis+
    ultimately show ?thesis using True by simp
  next
    case False
    then have "client_ok b q d" using d ok by simp
    then show ?thesis using False sub unfolding client_ok_def E by auto (metis option.inject)
  qed
  ultimately show ?thesis using inv m(1) p unfolding broker_inv_def by auto
qed

lemma unsub_state:
  assumes "ready n b" "b_heap b p = Some c" "gm_get (c_subMap c) t = Some a"
  obtains sub m err where "b_subheap b a = Some sub"
    "topics_Manager_Unsubscribe (b_topicsMgr b) (sub_topic sub) (Some (IfPtr a)) = Some (m, err)"
    "steps n b (set_client p (c\<lparr>c_subMap := gm_del t (c_subMap c)\<rparr>) (b\<lparr>b_topicsMgr := m\<rparr>))"
proof -
  have inv: "broker_inv b" using assms(1) by (simp add: ready_def)
  obtain sub where sub: "b_subheap b a = Some sub" "sub_client sub = p"
    using inv assms(2,3) unfolding broker_inv_def client_ok_def by blast
  have mt: "mt_inv (topics_p (b_topicsMgr b))" using inv by (simp add: broker_inv_def)
  obtain m err where m: "topics_Manager_Unsubscribe (b_topicsMgr b) (sub_topic sub) (Some (IfPtr a)) = Some (m, err)"
    "mt_inv (topics_p m)" "mt_entries (topics_p m) =
       (case topic_levels (sub_topic sub) of Some ls \<Rightarrow> in_force b - {(ls, a)} | None \<Rightarrow> in_force b)"
    "rroot (topics_p m) = rroot (topics_p (b_topicsMgr b))"
    by (rule Manager_Unsubscribe [OF mt, folded in_force_def]) (rule that)
  have "topic_levels (sub_topic sub) = Some ls" if "(ls, a) \<in> in_force b" for ls
    using inv that sub unfolding broker_inv_def tree_sound_def by fastforce
  then have E: "mt_entries (topics_p m) = {(ls, x) \<in> in_force b. x \<noteq> a}"
    using m(3) by (auto split: option.splits)
  let ?c = "c\<lparr>c_subMap := gm_del t (c_subMap c)\<rparr>" and ?b = "b\<lparr>b_topicsMgr := m\<rparr>"
  have "broker_inv (set_client p ?c ?b)" using broker_inv_unsub [OF inv assms(2,3) m(2) E] by simp
  moreover have "online (set_client p ?c ?b) = online b" using assms(2) by (auto simp: online_def)
  moreover have "sess_ok (set_client p ?c ?b)" using assms(1,2) unfolding ready_def sess_ok_def by auto
  moreover have "reg_ok (set_client p ?c ?b)" using assms(1) by (auto simp: ready_def intro: reg_ok_mono)
  ultimately have "steps n b (set_client p ?c ?b)"
    using assms(1,2) m(4) by (auto simp: steps_def ready_def notifying_def option.rel_refl kept_client_def)
  with sub(1) m(1) show ?thesis by (rule that)
qed

text \<open>A change of a client's subscriptions only, with the access rules as they were.\<close>

definition resubscribed :: "client_ptr \<Rightarrow> Broker \<Rightarrow> Broker \<Rightarrow> bool" where
  "resubscribed p b b' \<longleftrightarrow> b_AclEnable b' = b_AclEnable b \<and> b_acl b' = b_acl b \<and>
     (\<forall>c. b_heap b p = Some c \<longrightarrow> (\<exists>c'. b_heap b' p = Some c' \<and> c_info c' = c_info c \<and> c_status c' = c_status c \<and>
        c_conn c' = c_conn c))"

lemma resubscribed_refl [simp]: "resubscribed p b b"
  by (simp add: resubscribed_def)

lemma resubscribed_trans: "resubscribed p a b \<Longrightarrow> resubscribed p b c \<Longrightarrow> resubscribed p a c"
  unfolding resubscribed_def by metis

definition sub_at :: "Broker \<Rightarrow> client_ptr \<Rightarrow> string \<Rightarrow> sub_ptr option" where
  "sub_at b p t = do { c \<leftarrow> b_heap b p; gm_get (c_subMap c) t }"

lemma steps_drop_old:
  assumes "ready n b" "b_heap b p \<noteq> None"
  shows "\<exists>b'. drop_old p t b = Some b' \<and> steps n b b' \<and> resubscribed p b b' \<and>
    sub_at b' p = (sub_at b p)(t := None)"
proof -
  obtain c where c: "b_heap b p = Some c" using assms(2) by auto
  show ?thesis
  proof (cases "gm_get (c_subMap c) t")
    case None
    then show ?thesis using c steps_refl [OF assms(1)] by (auto simp: drop_old_def sub_at_def fun_eq_iff)
  next
    case (Some a)
    obtain sub m err where u: "b_subheap b a = Some sub"
      "topics_Manager_Unsubscribe (b_topicsMgr b) (sub_topic sub) (Some (IfPtr a)) = Some (m, err)"
      "steps n b (set_client p (c\<lparr>c_subMap := gm_del t (c_subMap c)\<rparr>) (b\<lparr>b_topicsMgr := m\<rparr>))"
      by (rule unsub_state [OF assms(1) c Some])
    let ?b = "set_client p (c\<lparr>c_subMap := gm_del t (c_subMap c)\<rparr>) (b\<lparr>b_topicsMgr := m\<rparr>)"
    have "drop_old p t b = Some ?b" using c Some u by (simp add: drop_old_def)
    moreover have "resubscribed p b ?b" "sub_at ?b p = (sub_at b p)(t := None)"
      using c by (auto simp: resubscribed_def sub_at_def set_client_def fun_eq_iff)
    ultimately show ?thesis using u(3) by blast
  qed
qed

lemma steps_session:
  assumes "ready n b" "b_heap b p = Some c" "c_typ c = LOCAL"
  shows "\<exists>m. on_client_session f p b = Some (b\<lparr>b_sessionMgr := m\<rparr>) \<and> steps n b (b\<lparr>b_sessionMgr := m\<rparr>)"
proof -
  obtain a s where a: "c_session c = Some a" "gm_get (sess_heap (sessions_p (b_sessionMgr b))) a = Some s"
    using assms unfolding ready_def sess_ok_def by fastforce
  obtain s' r where f: "f s = (s', r)" by fastforce
  define m where "m = (b_sessionMgr b)\<lparr>sessions_p := (sessions_p (b_sessionMgr b))\<lparr>sess_heap :=
    gm_put a s' (sess_heap (sessions_p (b_sessionMgr b)))\<rparr>\<rparr>"
  have "on_client_session f p b = Some (b\<lparr>b_sessionMgr := m\<rparr>)"
    using assms(2) a f by (simp add: on_client_session_def on_session_def m_def)
  moreover have "broker_inv (b\<lparr>b_sessionMgr := m\<rparr>)" "online (b\<lparr>b_sessionMgr := m\<rparr>) = online b"
    using assms(1) by (simp_all add: ready_def broker_inv_def tree_sound_def client_ok_def in_force_def online_def)
  moreover have "sess_ok (b\<lparr>b_sessionMgr := m\<rparr>)"
    using assms(1) a(2) unfolding ready_def sess_ok_def sess_wf_def by (auto simp: m_def) metis+
  moreover have "reg_ok (b\<lparr>b_sessionMgr := m\<rparr>)" using assms(1) by (simp add: ready_def reg_ok_def)
  ultimately show ?thesis
    using assms(1) by (auto simp: steps_def ready_def notifying_def option.rel_refl)
qed

text \<open>A new subscription enters the heap, the tree and its client's map.\<close>

lemma new_sub_simps [simp]:
  "fst (new_sub sub b) = b_subnext b" "b_heap (snd (new_sub sub b)) = b_heap b"
  "b_topicsMgr (snd (new_sub sub b)) = b_topicsMgr b" "b_sessionMgr (snd (new_sub sub b)) = b_sessionMgr b"
  "b_subheap (snd (new_sub sub b)) = (b_subheap b)(b_subnext b \<mapsto> sub)" "b_next (snd (new_sub sub b)) = b_next b"
  "notifying (snd (new_sub sub b)) = notifying b" "b_subnext (snd (new_sub sub b)) = Suc (b_subnext b)"
  by (simp_all add: new_sub_def notifying_def)

lemma steps_new_sub:
  assumes "ready n b"
  shows "steps n b (snd (new_sub sub b))"
proof -
  let ?b = "snd (new_sub sub b)"
  have inv: "broker_inv b" using assms by (simp add: ready_def)
  have a: "b_subheap b (b_subnext b) = None" using inv by (simp add: broker_inv_def)
  have E: "in_force ?b = in_force b" "online ?b = online b" by (simp_all add: in_force_def online_def)
  have old: "b_subheap ?b x = b_subheap b x" if "b_subheap b x \<noteq> None" for x using that a by auto
  have "tree_sound ?b" using inv old unfolding tree_sound_def broker_inv_def E by (metis new_sub_simps(2) option.distinct(1))
  moreover have "client_ok ?b p c" if "b_heap b p = Some c" for p c
  proof -
    have "client_ok b p c" using inv that by (simp add: broker_inv_def)
    then show ?thesis using old unfolding client_ok_def E by (metis option.distinct(1))
  qed
  ultimately have "broker_inv ?b" using inv by (simp add: broker_inv_def)
  moreover have "sess_ok ?b" using assms by (simp add: ready_def sess_ok_def)
  moreover have reg: "registry ?b = registry b" by (simp add: registry_def new_sub_def)
  moreover have "reg_ok ?b" using assms reg by (simp add: ready_def reg_ok_def)
  ultimately show ?thesis
    using assms a by (auto simp: steps_def ready_def E option.rel_refl map_le_def)
qed

lemma broker_inv_add_sub:
  assumes inv: "broker_inv b" and p: "b_heap b p = Some c"
    and free: "gm_get (c_subMap c) t = None" "\<forall>t. gm_get (c_subMap c) t \<noteq> Some a"
    and sub: "b_subheap b a = Some sub" "sub_client sub = p" "topic_levels (sub_topic sub) = Some ls"
    and m: "mt_inv (topics_p m)" "mt_entries (topics_p m) = insert (ls, a) (in_force b)"
  shows "broker_inv (set_client p (c\<lparr>c_subMap := gm_put t a (c_subMap c)\<rparr>) (b\<lparr>b_topicsMgr := m\<rparr>))"
proof -
  let ?c = "c\<lparr>c_subMap := gm_put t a (c_subMap c)\<rparr>"
  let ?b = "set_client p ?c (b\<lparr>b_topicsMgr := m\<rparr>)"
  have E: "in_force ?b = insert (ls, a) (in_force b)" using m(2) by (simp add: in_force_def)
  have ok: "client_ok b q d" if "b_heap b q = Some d" for q d using inv that by (simp add: broker_inv_def)
  have "tree_sound ?b" unfolding tree_sound_def E
  proof (intro allI impI)
    fix ls' x assume "(ls', x) \<in> insert (ls, a) (in_force b)"
    then consider "ls' = ls" "x = a" | "(ls', x) \<in> in_force b" by auto
    then show "\<exists>s d u. b_subheap ?b x = Some s \<and> b_heap ?b (sub_client s) = Some d \<and>
        gm_get (c_subMap d) u = Some x \<and> topic_levels (sub_topic s) = Some ls'"
    proof cases
      case 1
      then show ?thesis using sub by auto
    next
      case 2
      then obtain s d u where "b_subheap b x = Some s" "b_heap b (sub_client s) = Some d"
        "gm_get (c_subMap d) u = Some x" "topic_levels (sub_topic s) = Some ls'"
        using inv unfolding broker_inv_def tree_sound_def by blast
      moreover from this have "u \<noteq> t" if "sub_client s = p" using that p free by auto
      ultimately show ?thesis using p by (cases "sub_client s = p") auto
    qed
  qed
  moreover have "client_ok ?b q d" if d: "b_heap ?b q = Some d" for q d
  proof (cases "q = p")
    case True
    then have "d = ?c" using d by simp
    moreover have "client_ok ?b p ?c"
      using ok [OF p] free sub unfolding client_ok_def E by (auto split: if_splits) metis+
    ultimately show ?thesis using True by simp
  next
    case False
    then have "client_ok b q d" using d ok by simp
    then show ?thesis unfolding client_ok_def E by auto metis
  qed
  ultimately show ?thesis using inv m(1) p unfolding broker_inv_def by auto
qed

lemma Manager_Subscribe:
  assumes "mt_inv (topics_p m)"
  obtains m' where "topics_Manager_Subscribe m t q (Some (IfPtr a)) = Some (m', q, None)" "ValidQos q"
      "mt_inv (topics_p m')" "rroot (topics_p m') = rroot (topics_p m)"
      "\<exists>ls. topic_levels t = Some ls \<and> mt_entries (topics_p m') = insert (ls, a) (mt_entries (topics_p m))"
  | m' err where "topics_Manager_Subscribe m t q (Some (IfPtr a)) = Some (m', QosFailure, Some err)"
      "\<not> ValidQos q \<or> topic_levels t = None" "mt_inv (topics_p m')" "rroot (topics_p m') = rroot (topics_p m)"
      "mt_entries (topics_p m') = mt_entries (topics_p m)"
proof -
  have root: "rroot s' = rroot (topics_p m)" if "memTopics_Subscribe (topics_p m) t q (Some (IfPtr a)) = Some (s', r)" for s' r
    using that by (auto simp: memTopics_Subscribe_def nil_node_def Let_def split: option.splits if_splits sum.splits prod.splits)
  show ?thesis
  proof (cases "\<not> ValidQos q \<or> topic_levels t = None")
    case True
    from mem_provider.subscribe_err [OF assms True, of a] obtain s' err where
      "memTopics_Subscribe (topics_p m) t q (Some (IfPtr a)) = Some (s', QosFailure, Some err)" "mt_inv s'"
      "mt_entries s' = mt_entries (topics_p m)" by blast
    with root True show ?thesis by (intro that(2) [of "m\<lparr>topics_p := s'\<rparr>" err]) (auto simp: topics_Manager_Subscribe_def)
  next
    case False
    then obtain ls where ls: "topic_levels t = Some ls" "ValidQos q" by auto
    from mem_provider.subscribe_ok [OF assms ls(2,1), of a] obtain s' where
      "memTopics_Subscribe (topics_p m) t q (Some (IfPtr a)) = Some (s', q, None)" "mt_inv s'"
      "mt_entries s' = insert (ls, a) (mt_entries (topics_p m))" by blast
    with root ls show ?thesis by (intro that(1) [of "m\<lparr>topics_p := s'\<rparr>"]) (auto simp: topics_Manager_Subscribe_def)
  qed
qed

lemma steps_add_sub:
  assumes "ready n b" "b_heap b p = Some c" "gm_get (c_subMap c) t = None" "sub_client sub = p"
  defines "b1 \<equiv> snd (new_sub sub b)"
  obtains m where
      "topics_Manager_Subscribe (b_topicsMgr b1) (sub_topic sub) q (Some (IfPtr (b_subnext b))) = Some (m, q, None)"
      "ValidQos q" "topic_levels (sub_topic sub) \<noteq> None"
      "steps n b (set_client p (c\<lparr>c_subMap := gm_put t (b_subnext b) (c_subMap c)\<rparr>) (b1\<lparr>b_topicsMgr := m\<rparr>))"
  | m err where
      "topics_Manager_Subscribe (b_topicsMgr b1) (sub_topic sub) q (Some (IfPtr (b_subnext b))) = Some (m, QosFailure, Some err)"
      "\<not> ValidQos q \<or> topic_levels (sub_topic sub) = None" "steps n b (b1\<lparr>b_topicsMgr := m\<rparr>)"
proof -
  have s1: "steps n b b1" unfolding b1_def by (rule steps_new_sub [OF assms(1)])
  then have r1: "ready n b1" by (rule steps_ready)
  then have mt: "mt_inv (topics_p (b_topicsMgr b1))" by (simp add: ready_def broker_inv_def)
  have c: "b_heap b1 p = Some c" "b_subheap b1 (b_subnext b) = Some sub" using assms(2) by (simp_all add: b1_def)
  have "b_subheap b (b_subnext b) = None" "client_ok b p c" using assms(1,2) by (simp_all add: ready_def broker_inv_def)
  then have free: "\<forall>t. gm_get (c_subMap c) t \<noteq> Some (b_subnext b)" unfolding client_ok_def by fastforce
  show ?thesis
  proof (rule Manager_Subscribe [OF mt, folded in_force_def, of "sub_topic sub" q "b_subnext b"])
    fix m assume m: "topics_Manager_Subscribe (b_topicsMgr b1) (sub_topic sub) q (Some (IfPtr (b_subnext b))) = Some (m, q, None)"
      "ValidQos q" "mt_inv (topics_p m)" "rroot (topics_p m) = rroot (topics_p (b_topicsMgr b1))"
      "\<exists>ls. topic_levels (sub_topic sub) = Some ls \<and> mt_entries (topics_p m) = insert (ls, b_subnext b) (in_force b1)"
    then obtain ls where ls: "topic_levels (sub_topic sub) = Some ls"
      "mt_entries (topics_p m) = insert (ls, b_subnext b) (in_force b1)" by blast
    let ?c = "c\<lparr>c_subMap := gm_put t (b_subnext b) (c_subMap c)\<rparr>"
    let ?b = "set_client p ?c (b1\<lparr>b_topicsMgr := m\<rparr>)"
    have "broker_inv ?b"
      using r1 c assms(3,4) free ls m(3) by (intro broker_inv_add_sub) (auto simp: ready_def)
    moreover have "online ?b = online b1" using c(1) by (auto simp: online_def)
    moreover have "sess_ok ?b" using r1 c(1) unfolding ready_def sess_ok_def by auto
    moreover have "reg_ok ?b" using r1 by (auto simp: ready_def intro: reg_ok_mono)
    ultimately have "steps n b1 ?b"
      using r1 c(1) m(4) by (auto simp: steps_def ready_def notifying_def option.rel_refl kept_client_def)
    with s1 have "steps n b ?b" by (rule steps_trans)
    with m(1,2) ls(1) show ?thesis by (intro that(1)) auto
  next
    fix m err assume m: "topics_Manager_Subscribe (b_topicsMgr b1) (sub_topic sub) q (Some (IfPtr (b_subnext b))) = Some (m, QosFailure, Some err)"
      "\<not> ValidQos q \<or> topic_levels (sub_topic sub) = None" "mt_inv (topics_p m)"
      "rroot (topics_p m) = rroot (topics_p (b_topicsMgr b1))" "mt_entries (topics_p m) = in_force b1"
    then have "steps n b1 (b1\<lparr>b_topicsMgr := m\<rparr>)"
      using r1 by (intro steps_topicsMgr) (auto simp: ready_def)
    with s1 have "steps n b (b1\<lparr>b_topicsMgr := m\<rparr>)" by (rule steps_trans)
    with m(1,2) show ?thesis by (rule that(2))
  qed
qed

lemma steps_Retained:
  assumes "ready n b"
  shows "\<exists>rmsgs err. topics_Manager_Retained (b_topicsMgr b) topic msgs = Some (rmsgs, err)"
  using assms by (auto simp: ready_def topics_Manager_Retained_def memTopics_Retained_def)

text \<open>What a subscription leads to after it was accepted.\<close>

lemma steps_announce:
  assumes "ready n b"
  shows "steps n b (snd (StoreAddORUpdateSubscription e s b))" "steps n b (emit x b)"
  using core_steps [OF _ assms] same_core_simps(2) by (auto simp: StoreAddORUpdateSubscription_def Let_def)

lemma steps_emit2: "ready n b \<Longrightarrow> steps n b (emit y (emit x b))"
  using steps_announce(2) steps_ready steps_trans by blast

text \<open>The answer to one topic of a SUBSCRIBE packet.\<close>

definition denied :: "Broker \<Rightarrow> string \<Rightarrow> Client \<Rightarrow> string \<Rightarrow> bool" where
  "denied b act info t \<longleftrightarrow> b_AclEnable b \<and> (case b_acl b of None \<Rightarrow> False
     | Some acl \<Rightarrow> \<not> etcdAcl_CheckAcl acl act (ci_ID info) (ci_UserName info) (ci_ConnectIP info) t)"

definition shared_parts :: "string \<Rightarrow> (bool \<times> string \<times> string) option" where
  "shared_parts t = (if go_hasPrefix t ''$share/'' then map_option (\<lambda>(g, r). (True, g, r)) (groupCompile t)
     else Some (False, [], t))"

definition granted :: "Broker \<Rightarrow> Client \<Rightarrow> string \<Rightarrow> byte \<Rightarrow> byte" where
  "granted b info t q =
     (if denied b ''sub'' info t then QosFailure
      else case shared_parts t of
        None \<Rightarrow> QosFailure
      | Some (_, _, topic) \<Rightarrow> if ValidQos q \<and> topic_levels topic \<noteq> None then q else QosFailure)"

lemma granted_same:
  "resubscribed p b b' \<Longrightarrow> granted b' info t q = granted b info t q"
  by (simp add: granted_def denied_def resubscribed_def)

definition announced :: "env \<Rightarrow> int \<Rightarrow> client_ptr \<Rightarrow> Client \<Rightarrow> string \<Rightarrow> byte \<Rightarrow> PublishPacket list \<Rightarrow> Broker \<Rightarrow> Broker option" where
  "announced e now p info t q rmsgs b =
     do { c \<leftarrow> b_heap b p;
          let b = set_client p (c\<lparr>c_rmsgs := rmsgs\<rparr>) b;
          let (subData, b) = StoreAddORUpdateSubscription e \<lparr>sd_ID = [], sd_ClientID = ci_ID info,
                sd_NodeID = b_id b, sd_Topic = t, sd_Qos = unat q, sd_Timestamp = now\<rparr> b;
          let b = (if notifying b then
                     let b = emit (Notified (OnSubscribe subData)) b in
                     if t = ''agents/'' @ ci_ID info then emit (Notified (OnAgentConnect info)) b else b
                   else b);
          Some b }"

lemma emit_simps [simp]:
  "b_heap (emit x b) = b_heap b" "b_AclEnable (emit x b) = b_AclEnable b" "b_acl (emit x b) = b_acl b"
  "b_subheap (emit x b) = b_subheap b"
  by (simp_all add: emit_def)

lemma resubscribed_same:
  "b_heap b' = b_heap b \<Longrightarrow> b_AclEnable b' = b_AclEnable b \<Longrightarrow> b_acl b' = b_acl b \<Longrightarrow> resubscribed p b b'"
  by (simp add: resubscribed_def)

lemma steps_announced:
  assumes "ready n b" "b_heap b p \<noteq> None"
  shows "\<exists>b'. announced e now p info t q rmsgs b = Some b' \<and> steps n b b' \<and> resubscribed p b b' \<and>
    sub_at b' p = sub_at b p"
proof -
  obtain c where c: "b_heap b p = Some c" using assms(2) by auto
  define b1 where "b1 = set_client p (c\<lparr>c_rmsgs := rmsgs\<rparr>) b"
  have b1: "steps n b b1" unfolding b1_def by (rule steps_set_client [OF assms(1) c]) simp
  define sd where "sd = \<lparr>sd_ID = [], sd_ClientID = ci_ID info, sd_NodeID = b_id b1, sd_Topic = t, sd_Qos = unat q, sd_Timestamp = now\<rparr>"
  define r where "r = StoreAddORUpdateSubscription e sd b1"
  have b2: "steps n b1 (snd r)" unfolding r_def by (rule steps_announce [OF steps_ready [OF b1]])
  define b3 where "b3 = (if notifying (snd r) then
                     let b = emit (Notified (OnSubscribe (fst r))) (snd r) in
                     if t = ''agents/'' @ ci_ID info then emit (Notified (OnAgentConnect info)) b else b
                   else snd r)"
  have 3: "steps n (snd r) b3"
    unfolding b3_def Let_def using steps_ready [OF b2] by (simp add: steps_refl steps_announce steps_emit2)
  have eq: "announced e now p info t q rmsgs b = Some b3"
    using c by (simp add: announced_def b3_def r_def sd_def b1_def split_beta Let_def)
  have same: "b_heap b3 = b_heap b1" "b_AclEnable b3 = b_AclEnable b" "b_acl b3 = b_acl b"
    by (simp_all add: b3_def r_def StoreAddORUpdateSubscription_def Let_def b1_def set_client_def)
  then have "resubscribed p b b3" "sub_at b3 p = sub_at b p"
    using c by (auto simp: resubscribed_def sub_at_def b1_def fun_eq_iff)
  with eq b1 b2 3 show ?thesis using steps_trans by blast
qed

lemma subscribe_topic_eq:
  "subscribe_topic e now p qoss (i, t) (b, codes) =
     do { c \<leftarrow> b_heap b p;
          let info = c_info c;
          if denied b ''sub'' info t then Some (b, codes @ [QosFailure])
          else case shared_parts t of
            None \<Rightarrow> Some (b, codes @ [QosFailure])
          | Some (share, grp, topic) \<Rightarrow>
              do { b \<leftarrow> drop_old p t b;
                   q \<leftarrow> nth_opt qoss i;
                   let sub = \<lparr>sub_client = p, sub_topic = topic, sub_qos = q, sub_share = share, sub_groupName = grp\<rparr>;
                   let a = b_subnext b;
                   let b = snd (new_sub sub b);
                   (m, rqos, err) \<leftarrow> topics_Manager_Subscribe (b_topicsMgr b) topic q (Some (IfPtr a));
                   let b = b\<lparr>b_topicsMgr := m\<rparr>;
                   if err \<noteq> None then Some (b, codes @ [QosFailure])
                   else do {
                     b \<leftarrow> on_client (\<lambda>c. c\<lparr>c_subMap := gm_put t a (c_subMap c)\<rparr>) p b;
                     b \<leftarrow> on_client_session (\<lambda>s. Session_AddTopic s t q) p b;
                     c \<leftarrow> b_heap b p;
                     (rmsgs, _) \<leftarrow> topics_Manager_Retained (b_topicsMgr b) topic (c_rmsgs c);
                     b \<leftarrow> announced e now p info t q rmsgs b;
                     Some (b, codes @ [rqos]) } } }"
  by (simp add: subscribe_topic_def denied_def shared_parts_def announced_def new_sub_def Let_def split_beta
      cong: Option.bind_cong option.case_cong if_cong)

text \<open>The end of an accepted subscription.\<close>

definition accept ::
  "env \<Rightarrow> int \<Rightarrow> client_ptr \<Rightarrow> Client \<Rightarrow> string \<Rightarrow> string \<Rightarrow> byte \<Rightarrow> sub_ptr \<Rightarrow> Broker \<Rightarrow> Broker option" where
  "accept e now p info t topic q a b =
     do { b \<leftarrow> on_client (\<lambda>c. c\<lparr>c_subMap := gm_put t a (c_subMap c)\<rparr>) p b;
          b \<leftarrow> on_client_session (\<lambda>s. Session_AddTopic s t q) p b;
          c \<leftarrow> b_heap b p;
          (rmsgs, _) \<leftarrow> topics_Manager_Retained (b_topicsMgr b) topic (c_rmsgs c);
          announced e now p info t q rmsgs b }"

lemma steps_accept:
  assumes c: "b_heap b p = Some c" "c_typ c = LOCAL"
    and b3: "steps n b0 (set_client p (c\<lparr>c_subMap := gm_put t a (c_subMap c)\<rparr>) b)"
  shows "\<exists>b'. accept e now p info t topic q a b = Some b' \<and> steps n b0 b' \<and> resubscribed p b b' \<and>
    sub_at b' p = (sub_at b p)(t \<mapsto> a) \<and> b_subheap b \<subseteq>\<^sub>m b_subheap b'"
proof -
  define c2 where "c2 = c\<lparr>c_subMap := gm_put t a (c_subMap c)\<rparr>"
  define b3 where "b3 = set_client p c2 b"
  have b3: "steps n b0 b3" "b_heap b3 p = Some c2" "c_typ c2 = LOCAL"
    using b3 c(2) by (simp_all add: b3_def c2_def)
  obtain sm where sm: "on_client_session (\<lambda>s. Session_AddTopic s t q) p b3 = Some (b3\<lparr>b_sessionMgr := sm\<rparr>)"
    "steps n b3 (b3\<lparr>b_sessionMgr := sm\<rparr>)"
    using steps_session [OF steps_ready [OF b3(1)] b3(2,3)] by blast
  define b4 where "b4 = b3\<lparr>b_sessionMgr := sm\<rparr>"
  have b4: "ready n b4" "b_heap b4 p = Some c2" using steps_ready [OF sm(2)] b3(2) by (simp_all add: b4_def)
  obtain rmsgs err where rm: "topics_Manager_Retained (b_topicsMgr b4) topic (c_rmsgs c2) = Some (rmsgs, err)"
    using steps_Retained [OF b4(1)] by blast
  obtain b5 where b5: "announced e now p info t q rmsgs b4 = Some b5" "steps n b4 b5" "resubscribed p b4 b5"
    "sub_at b5 p = sub_at b4 p"
    using steps_announced [OF b4(1), of p e now info t q rmsgs] b4(2) by auto
  have "on_client (\<lambda>c. c\<lparr>c_subMap := gm_put t a (c_subMap c)\<rparr>) p b = Some b3"
    using c(1) by (simp add: on_client_def b3_def c2_def)
  then have "accept e now p info t topic q a b = Some b5"
    using sm(1) rm b5(1) b4(2) by (simp add: accept_def b4_def)
  moreover have r: "resubscribed p b b4"
    using c(1) by (auto simp: resubscribed_def b4_def b3_def c2_def set_client_def)
  have "resubscribed p b b5" by (rule resubscribed_trans [OF r b5(3)])
  moreover have s5: "steps n b3 b5" using sm(2) b5(2) steps_trans unfolding b4_def by blast
  moreover have "sub_at b5 p = (sub_at b p)(t \<mapsto> a)"
    using c(1) by (simp add: b5(4) sub_at_def b4_def b3_def c2_def fun_eq_iff)
  moreover have "b_subheap b \<subseteq>\<^sub>m b_subheap b5" using s5 by (simp add: steps_def b3_def)
  ultimately show ?thesis using steps_trans [OF b3(1)] by blast
qed

definition subscribed :: "Broker \<Rightarrow> client_ptr \<Rightarrow> string \<Rightarrow> byte \<Rightarrow> bool" where
  "subscribed b p t q \<longleftrightarrow> (\<exists>a sub. sub_at b p t = Some a \<and> b_subheap b a = Some sub \<and> sub_client sub = p \<and>
     sub_qos sub = q \<and> shared_parts t = Some (sub_share sub, sub_groupName sub, sub_topic sub))"

lemma steps_subscribe_topic:
  assumes "ready n b" "b_heap b p = Some c" "c_typ c = LOCAL" "i < length qoss"
  shows "\<exists>b'. subscribe_topic e now p qoss (i, t) (b, codes) = Some (b', codes @ [granted b (c_info c) t (qoss ! i)]) \<and>
    steps n b b' \<and> resubscribed p b b' \<and>
    (granted b (c_info c) t (qoss ! i) \<noteq> QosFailure \<longrightarrow> subscribed b' p t (qoss ! i)) \<and>
    (\<forall>t'. t' \<noteq> t \<longrightarrow> sub_at b' p t' = sub_at b p t')"
proof (cases "denied b ''sub'' (c_info c) t \<or> shared_parts t = None")
  case True
  then show ?thesis
    using assms(2) steps_refl [OF assms(1)] by (auto simp: subscribe_topic_eq granted_def split: option.split)
next
  case False
  then obtain share grp topic where parts: "shared_parts t = Some (share, grp, topic)" "\<not> denied b ''sub'' (c_info c) t" by auto
  let ?q = "qoss ! i"
  obtain b1 where b1: "drop_old p t b = Some b1" "steps n b b1" "resubscribed p b b1" "sub_at b1 p = (sub_at b p)(t := None)"
    using steps_drop_old [OF assms(1), of p t] assms(2) by auto
  obtain c1 where c1: "b_heap b1 p = Some c1" "kept_client c c1" by (rule steps_get [OF b1(2) assms(2)])
  then have t1: "gm_get (c_subMap c1) t = None" "c_typ c1 = LOCAL"
    using b1(4) assms(3) by (auto simp: sub_at_def fun_eq_iff kept_client_def dest: spec [of _ t])
  define sub where "sub = \<lparr>sub_client = p, sub_topic = topic, sub_qos = ?q, sub_share = share, sub_groupName = grp\<rparr>"
  define a where "a = b_subnext b1"
  define b2 where "b2 = snd (new_sub sub b1)"
  have sub: "sub_client sub = p" "sub_topic sub = topic" by (simp_all add: sub_def)
  have b2: "resubscribed p b (b2\<lparr>b_topicsMgr := m\<rparr>)" for m
    using b1(3) by (simp add: resubscribed_def b2_def new_sub_def)
  have at: "sub_at (b2\<lparr>b_topicsMgr := m\<rparr>) p = (sub_at b p)(t := None)" for m
    using b1(4) by (simp add: sub_at_def b2_def fun_eq_iff)
  show ?thesis
  proof (rule steps_add_sub [OF steps_ready [OF b1(2)] c1(1) t1(1) sub(1), of ?q, folded b2_def a_def, unfolded sub(2)])
    fix m err assume m: "topics_Manager_Subscribe (b_topicsMgr b2) topic ?q (Some (IfPtr a)) = Some (m, QosFailure, Some err)"
      "\<not> ValidQos ?q \<or> topic_levels topic = None" "steps n b1 (b2\<lparr>b_topicsMgr := m\<rparr>)"
    then have "granted b (c_info c) t ?q = QosFailure" using parts by (auto simp: granted_def)
    moreover have "subscribe_topic e now p qoss (i, t) (b, codes) = Some (b2\<lparr>b_topicsMgr := m\<rparr>, codes @ [QosFailure])"
      using assms(2,4) parts b1(1) m(1) by (simp add: subscribe_topic_eq nth_opt_def sub_def a_def b2_def Let_def)
    ultimately show ?thesis using b2 [of m] at [of m] steps_trans [OF b1(2) m(3)] by simp
  next
    fix m assume m: "topics_Manager_Subscribe (b_topicsMgr b2) topic ?q (Some (IfPtr a)) = Some (m, ?q, None)"
      "ValidQos ?q" "topic_levels topic \<noteq> None"
      "steps n b1 (set_client p (c1\<lparr>c_subMap := gm_put t a (c_subMap c1)\<rparr>) (b2\<lparr>b_topicsMgr := m\<rparr>))"
    have h: "b_heap (b2\<lparr>b_topicsMgr := m\<rparr>) p = Some c1" using c1(1) by (simp add: b2_def)
    obtain b5 where b5: "accept e now p (c_info c) t topic ?q a (b2\<lparr>b_topicsMgr := m\<rparr>) = Some b5" "steps n b1 b5"
      "resubscribed p (b2\<lparr>b_topicsMgr := m\<rparr>) b5" "sub_at b5 p = (sub_at (b2\<lparr>b_topicsMgr := m\<rparr>) p)(t \<mapsto> a)"
      "b_subheap (b2\<lparr>b_topicsMgr := m\<rparr>) \<subseteq>\<^sub>m b_subheap b5"
      using steps_accept [OF h t1(2) m(4), of e now "c_info c" topic ?q] by blast
    have "subscribe_topic e now p qoss (i, t) (b, codes) = Some (b5, codes @ [?q])"
      using assms(2,4) parts b1(1) m(1) b5(1)
      by (auto simp: subscribe_topic_eq nth_opt_def sub_def a_def b2_def Let_def accept_def bind_eq_Some_conv split_beta)
    moreover have "granted b (c_info c) t ?q = ?q" using parts m(2,3) by (simp add: granted_def)
    moreover have "sub_at b5 p = (sub_at b p)(t \<mapsto> a)" by (simp add: b5(4) at)
    moreover have "b_subheap (b2\<lparr>b_topicsMgr := m\<rparr>) a = Some sub" by (simp add: b2_def a_def)
    then have "b_subheap b5 a = Some sub" using b5(5) unfolding map_le_def by (metis domI)
    ultimately show ?thesis
      using steps_trans [OF b1(2) b5(2)] resubscribed_trans [OF b2 b5(3)] parts(1)
      by (auto simp: sub_def subscribed_def)
  qed
qed

end
