(* ===== verification/BrokerHandlers.thy ===== *)
theory BrokerHandlers
  imports BrokerInv
begin

text \<open>
  Every handler of a client returns and keeps the agreement between the topic tree and the clients'
  subscription maps, except in the two situations in which the code panics, which are shown too; and
  what the handlers promise: the answer to a SUBSCRIBE, exactly-once bookkeeping, delivery.
\<close>

section \<open>Subscribing and unsubscribing\<close>

lemma subscribed_mono:
  assumes "subscribed b p t q" "sub_at b' p t = sub_at b p t" "b_subheap b \<subseteq>\<^sub>m b_subheap b'"
  shows "subscribed b' p t q"
  using assms unfolding subscribed_def map_le_def by (metis domI)

lemma steps_subheap: "steps n b b' \<Longrightarrow> b_subheap b \<subseteq>\<^sub>m b_subheap b'"
  by (simp add: steps_def)

lemma steps_subscribe_all:
  assumes "ready n b" "b_heap b p = Some c" "c_typ c = LOCAL" "length ts0 \<le> length qoss"
  shows "\<exists>b'. fold_opt (subscribe_topic e now p qoss) (List.enumerate 0 ts0) (b, []) =
      Some (b', map2 (granted b (c_info c)) ts0 qoss) \<and> steps n b b' \<and> resubscribed p b b' \<and>
    (distinct ts0 \<longrightarrow> (\<forall>i < length ts0. granted b (c_info c) (ts0 ! i) (qoss ! i) \<noteq> QosFailure \<longrightarrow>
       subscribed b' p (ts0 ! i) (qoss ! i)))"
  using assms(4)
proof (induction ts0 rule: rev_induct)
  case Nil
  then show ?case using steps_refl [OF assms(1)] by simp
next
  case (snoc t ts0)
  let ?codes = "map2 (granted b (c_info c)) ts0 qoss" and ?g = "granted b (c_info c)" and ?q = "qoss ! length ts0"
  obtain b1 where b1: "fold_opt (subscribe_topic e now p qoss) (List.enumerate 0 ts0) (b, []) = Some (b1, ?codes)"
    "steps n b b1" "resubscribed p b b1" "distinct ts0 \<longrightarrow> (\<forall>i < length ts0. ?g (ts0 ! i) (qoss ! i) \<noteq> QosFailure \<longrightarrow>
       subscribed b1 p (ts0 ! i) (qoss ! i))" using snoc by auto
  obtain c1 where c1: "b_heap b1 p = Some c1" "kept_client c c1" by (rule steps_get [OF b1(2) assms(2)])
  have i: "c_info c1 = c_info c" using b1(3) assms(2) c1(1) by (auto simp: resubscribed_def)
  have lo: "c_typ c1 = LOCAL" using c1(2) assms(3) by (simp add: kept_client_def)
  have l: "length ts0 < length qoss" using snoc by simp
  obtain b2 where b2: "subscribe_topic e now p qoss (length ts0, t) (b1, ?codes) = Some (b2, ?codes @ [?g t ?q])"
    "steps n b1 b2" "resubscribed p b1 b2" "?g t ?q \<noteq> QosFailure \<longrightarrow> subscribed b2 p t ?q"
    "\<forall>t'. t' \<noteq> t \<longrightarrow> sub_at b2 p t' = sub_at b1 p t'"
    using steps_subscribe_topic [OF steps_ready [OF b1(2)] c1(1) lo l, of e now t ?codes]
    unfolding i granted_same [OF b1(3)] by auto
  have "map2 ?g (ts0 @ [t]) qoss = ?codes @ [?g t ?q]"
    using l by (intro nth_equalityI) (auto simp: nth_append less_Suc_eq min_def)
  moreover have "fold_opt (subscribe_topic e now p qoss) (List.enumerate 0 (ts0 @ [t])) (b, []) = Some (b2, ?codes @ [?g t ?q])"
    using b1(1) b2(1) by (simp add: enumerate_append_eq fold_opt_append)
  moreover have "subscribed b2 p ((ts0 @ [t]) ! j) (qoss ! j)"
    if "distinct (ts0 @ [t])" "j < length (ts0 @ [t])" "?g ((ts0 @ [t]) ! j) (qoss ! j) \<noteq> QosFailure" for j
  proof (cases "j < length ts0")
    case True
    then have "ts0 ! j \<noteq> t" using that(1) nth_mem by fastforce
    then show ?thesis
      using True that b1(4) b2(5) subscribed_mono [OF _ _ steps_subheap [OF b2(2)]] by (simp add: nth_append)
  qed (use that b2(4) in \<open>auto simp: nth_append less_Suc_eq\<close>)
  ultimately show ?case
    using steps_trans [OF b1(2) b2(2)] resubscribed_trans [OF b1(3) b2(3)] by simp
qed

lemma steps_send_retained:
  assumes "ready n b" "b_heap b p \<noteq> None"
  shows "\<exists>b'. fold_opt (send_retained n e now p) rms b = Some b' \<and> steps n b b'"
proof (rule fold_opt_inv)
  fix rm b1 assume b1: "steps n b b1"
  obtain b2 where "send_retained n e now p rm b1 = Some b2" "steps n b1 b2"
    using steps_send [OF steps_ready [OF b1] steps_heap [OF b1 assms(2)], of e now "CP_Publish rm"]
    unfolding send_retained_def by blast
  then show "\<exists>b2. send_retained n e now p rm b1 = Some b2 \<and> steps n b b2" using steps_trans [OF b1] by blast
qed (simp add: steps_refl assms(1))

lemma steps_ProcessSubscribe:
  assumes "ready n b" "b_heap b p = Some c" "c_typ c = LOCAL" "length (Topics packet) \<le> length (Qoss packet)"
  shows "\<exists>b'. ProcessSubscribe n e now p packet b = Some b' \<and> steps n b b'"
proof (cases "c_status c = Disconnected")
  case True
  then show ?thesis using assms(2) steps_refl [OF assms(1)] by (simp add: ProcessSubscribe_def)
next
  case False
  let ?codes = "map2 (granted b (c_info c)) (Topics packet) (Qoss packet)"
  obtain b1 where b1: "fold_opt (subscribe_topic e now p (Qoss packet)) (List.enumerate 0 (Topics packet)) (b, []) =
      Some (b1, ?codes)" "steps n b b1" using steps_subscribe_all [OF assms, of e now] by blast
  have h1: "b_heap b1 p \<noteq> None" using steps_heap [OF b1(2)] assms(2) by simp
  obtain b2 err where b2: "WriterPacket n e now p (suback (MessageID packet) ?codes) b1 = Some (b2, err)" "steps n b1 b2"
    using steps_WriterPacket [OF steps_ready [OF b1(2)] h1] by blast
  obtain c2 where c2: "b_heap b2 p = Some c2" using steps_heap [OF b2(2) h1] by auto
  obtain b3 where b3: "fold_opt (send_retained n e now p) (c_rmsgs c2) b2 = Some b3" "steps n b2 b3"
    using steps_send_retained [OF steps_ready [OF b2(2)], of p e now "c_rmsgs c2"] c2 by auto
  have "ProcessSubscribe n e now p packet b = Some (if err \<noteq> None then b2 else b3)"
    using assms(2) False b1(1) b2(1) c2 b3(1) by (simp add: ProcessSubscribe_def)
  moreover have "steps n b b2" by (rule steps_trans [OF b1(2) b2(2)])
  ultimately show ?thesis using steps_trans [OF _ b3(2)] by auto
qed

text \<open>Unsubscribing needs the subscription when the change is to be notified: the code reads its QoS.\<close>

definition gone :: "env \<Rightarrow> int \<Rightarrow> client_ptr \<Rightarrow> Client \<Rightarrow> string \<Rightarrow> sub_ptr option \<Rightarrow> Broker \<Rightarrow> Broker option" where
  "gone e now p info topic sub b =
     (let b = StoreRemoveSubscription e topic (ci_ID info) b in
      if notifying b then
        do { a \<leftarrow> sub;
             s \<leftarrow> b_subheap b a;
             let b = emit (Notified (OnUnSubscribe (ci_ID info) (ci_NodeID info) topic (sub_qos s) now)) b;
             if topic = ''agents/'' @ ci_ID info then
               do { b \<leftarrow> on_client (\<lambda>c. c\<lparr>c_info := info\<lparr>ci_Timestamp := now\<rparr>\<rparr>) p b;
                    Some (emit (Notified (OnAgentDisconnected (info\<lparr>ci_Timestamp := now\<rparr>))) b) }
             else Some b }
      else Some b)"

lemma sub_at_simps [simp]:
  "sub_at (emit x b) p = sub_at b p" "sub_at (StoreRemoveSubscription e t i b) p = sub_at b p"
  "sub_at (b\<lparr>b_sessionMgr := sm\<rparr>) p = sub_at b p" "sub_at (b\<lparr>b_topicsMgr := m\<rparr>) p = sub_at b p"
  by (auto simp: sub_at_def StoreRemoveSubscription_def fun_eq_iff)

lemma StoreRemoveSubscription_simps [simp]:
  "b_heap (StoreRemoveSubscription e t i b) = b_heap b" "b_subheap (StoreRemoveSubscription e t i b) = b_subheap b"
  "notifying (StoreRemoveSubscription e t i b) = notifying b" "notifying (emit x b) = notifying b"
  by (simp_all add: StoreRemoveSubscription_def notifying_def emit_def)

lemma steps_gone:
  assumes r: "ready n b" and c: "b_heap b p = Some c" "ci_ID info = ci_ID (c_info c)"
    and sub: "notifying b \<Longrightarrow> \<exists>a s. sub = Some a \<and> b_subheap b a = Some s"
  shows "\<exists>b'. gone e now p info topic sub b = Some b' \<and> steps n b b' \<and> sub_at b' p = sub_at b p"
proof -
  define b1 where "b1 = StoreRemoveSubscription e topic (ci_ID info) b"
  have b1: "steps n b b1" unfolding b1_def using core_steps [OF _ r] same_core_simps by blast
  have same: "b_heap b1 = b_heap b" "b_subheap b1 = b_subheap b" "notifying b1 = notifying b" "sub_at b1 p = sub_at b p"
    by (simp_all add: b1_def)
  show ?thesis
  proof (cases "notifying b")
    case False
    then show ?thesis using b1 same by (simp add: gone_def b1_def [symmetric])
  next
    case True
    then obtain a s where s: "sub = Some a" "b_subheap b a = Some s" using sub by blast
    define x where "x = Notified (OnUnSubscribe (ci_ID info) (ci_NodeID info) topic (sub_qos s) now)"
    define y where "y = Notified (OnAgentDisconnected (info\<lparr>ci_Timestamp := now\<rparr>))"
    have b2: "steps n b (emit x b1)" using steps_trans [OF b1] steps_announce(2) [OF steps_ready [OF b1]] by blast
    let ?c = "c\<lparr>c_info := info\<lparr>ci_Timestamp := now\<rparr>\<rparr>"
    have h2: "b_heap (emit x b1) p = Some c" using c(1) same by simp
    have "steps n (emit x b1) (set_client p ?c (emit x b1))"
      by (rule steps_set_client [OF steps_ready [OF b2] h2]) (use c(2) in \<open>simp add: harmless_def same_subs_def kept_client_def\<close>)
    then have b3: "steps n b (set_client p ?c (emit x b1))" by (rule steps_trans [OF b2])
    then have b4: "steps n b (emit y (set_client p ?c (emit x b1)))"
      using steps_announce(2) [OF steps_ready [OF b3]] by (rule steps_trans)
    have "sub_at (set_client p ?c (emit x b1)) p = sub_at b p" using h2 c(1) by (auto simp: sub_at_def fun_eq_iff)
    moreover have "gone e now p info topic sub b =
        Some (if topic = ''agents/'' @ ci_ID info then emit y (set_client p ?c (emit x b1)) else emit x b1)"
      using s True same h2 unfolding gone_def b1_def [symmetric] Let_def x_def y_def by (simp add: on_client_def)
    ultimately show ?thesis using b2 b4 same(4) by simp
  qed
qed

lemma unsubscribe_topic_eq:
  "unsubscribe_topic e now p topic b =
     do { c \<leftarrow> b_heap b p;
          let sub = gm_get (c_subMap c) topic;
          b \<leftarrow> (case sub of
                 None \<Rightarrow> Some b
               | Some a \<Rightarrow>
                   do { s \<leftarrow> b_subheap b a;
                        (m, _) \<leftarrow> topics_Manager_Unsubscribe (b_topicsMgr b) (sub_topic s) (Some (IfPtr a));
                        b \<leftarrow> on_client_session (\<lambda>s. Session_RemoveTopic s topic) p (b\<lparr>b_topicsMgr := m\<rparr>);
                        on_client (\<lambda>c. c\<lparr>c_subMap := gm_del topic (c_subMap c)\<rparr>) p b });
          gone e now p (c_info c) topic sub b }"
  by (simp add: unsubscribe_topic_def gone_def Let_def cong: Option.bind_cong option.case_cong if_cong)

text \<open>Taking a subscription of a local client out of the tree, the session and the client's map.\<close>

lemma steps_remove_sub:
  assumes "ready n b" "b_heap b p = Some c" "c_typ c = LOCAL" "gm_get (c_subMap c) topic = Some a"
  obtains sub m err b' where "b_subheap b a = Some sub"
    "topics_Manager_Unsubscribe (b_topicsMgr b) (sub_topic sub) (Some (IfPtr a)) = Some (m, err)"
    "do { b \<leftarrow> on_client_session (\<lambda>s. Session_RemoveTopic s topic) p (b\<lparr>b_topicsMgr := m\<rparr>);
          on_client (\<lambda>c. c\<lparr>c_subMap := gm_del topic (c_subMap c)\<rparr>) p b } = Some b'"
    "steps n b b'" "b_heap b' p = Some (c\<lparr>c_subMap := gm_del topic (c_subMap c)\<rparr>)" "b_subheap b' a = Some sub"
    "sub_at b' p = (sub_at b p)(topic := None)"
proof -
  let ?c = "c\<lparr>c_subMap := gm_del topic (c_subMap c)\<rparr>"
  obtain sub m err where u: "b_subheap b a = Some sub"
    "topics_Manager_Unsubscribe (b_topicsMgr b) (sub_topic sub) (Some (IfPtr a)) = Some (m, err)"
    "steps n b (set_client p ?c (b\<lparr>b_topicsMgr := m\<rparr>))"
    by (rule unsub_state [OF assms(1,2,4)])
  let ?b1 = "set_client p ?c (b\<lparr>b_topicsMgr := m\<rparr>)"
  have h1: "b_heap ?b1 p = Some ?c" "c_typ ?c = LOCAL" using assms(3) by simp_all
  obtain sm where sm: "on_client_session (\<lambda>s. Session_RemoveTopic s topic) p ?b1 = Some (?b1\<lparr>b_sessionMgr := sm\<rparr>)"
    "steps n ?b1 (?b1\<lparr>b_sessionMgr := sm\<rparr>)"
    using steps_session [OF steps_ready [OF u(3)] h1] by blast
  then have sm': "on_client_session (\<lambda>s. Session_RemoveTopic s topic) p (b\<lparr>b_topicsMgr := m\<rparr>) =
      Some (b\<lparr>b_topicsMgr := m, b_sessionMgr := sm\<rparr>)"
    using assms(2) by (auto simp: on_client_session_def set_client_def bind_eq_Some_conv split: prod.splits
        dest: arg_cong [of _ _ b_sessionMgr])
  define b2 where "b2 = ?b1\<lparr>b_sessionMgr := sm\<rparr>"
  have "on_client (\<lambda>c. c\<lparr>c_subMap := gm_del topic (c_subMap c)\<rparr>) p (b\<lparr>b_topicsMgr := m, b_sessionMgr := sm\<rparr>) = Some b2"
    "steps n b b2" "b_heap b2 p = Some ?c" "b_subheap b2 a = Some sub" "sub_at b2 p = (sub_at b p)(topic := None)"
    using assms(2) u(1) steps_trans [OF u(3) sm(2)]
    by (auto simp: on_client_def b2_def set_client_def sub_at_def fun_eq_iff)
  with u(1,2) sm' show ?thesis by (intro that) auto
qed

lemma steps_unsubscribe_topic:
  assumes "ready n b" "b_heap b p = Some c" "c_typ c = LOCAL" "notifying b \<Longrightarrow> sub_at b p topic \<noteq> None"
  shows "\<exists>b'. unsubscribe_topic e now p topic b = Some b' \<and> steps n b b' \<and> sub_at b' p = (sub_at b p)(topic := None)"
proof (cases "gm_get (c_subMap c) topic")
  case None
  then have "\<not> notifying b" using assms(2,4) by (auto simp: sub_at_def)
  with steps_gone [OF assms(1,2), of "c_info c" None e now topic] None assms(2) show ?thesis
    by (auto simp: unsubscribe_topic_eq sub_at_def fun_eq_iff)
next
  case (Some a)
  obtain sub m err b2 where b2: "b_subheap b a = Some sub"
    "topics_Manager_Unsubscribe (b_topicsMgr b) (sub_topic sub) (Some (IfPtr a)) = Some (m, err)"
    "do { b \<leftarrow> on_client_session (\<lambda>s. Session_RemoveTopic s topic) p (b\<lparr>b_topicsMgr := m\<rparr>);
          on_client (\<lambda>c. c\<lparr>c_subMap := gm_del topic (c_subMap c)\<rparr>) p b } = Some b2"
    "steps n b b2" "b_heap b2 p = Some (c\<lparr>c_subMap := gm_del topic (c_subMap c)\<rparr>)" "b_subheap b2 a = Some sub"
    "sub_at b2 p = (sub_at b p)(topic := None)"
    by (rule steps_remove_sub [OF assms(1-3) Some])
  obtain b3 where "gone e now p (c_info c) topic (Some a) b2 = Some b3" "steps n b2 b3" "sub_at b3 p = sub_at b2 p"
    using steps_gone [OF steps_ready [OF b2(4)] b2(5), of "c_info c" "Some a" e now topic] b2(6) by auto
  then show ?thesis
    using Some assms(2) b2 steps_trans [OF b2(4)] by (simp add: unsubscribe_topic_eq)
qed

lemma steps_notifying: "steps n b b' \<Longrightarrow> notifying b' = notifying b"
  by (simp add: steps_def)

lemma steps_unsubscribe_all:
  assumes "ready n b" "b_heap b p = Some c" "c_typ c = LOCAL"
    "notifying b \<Longrightarrow> distinct us \<and> (\<forall>t \<in> set us. sub_at b p t \<noteq> None)"
  shows "\<exists>b'. fold_opt (unsubscribe_topic e now p) us b = Some b' \<and> steps n b b' \<and>
    sub_at b' p = (\<lambda>t. if t \<in> set us then None else sub_at b p t)"
  using assms(4)
proof (induction us rule: rev_induct)
  case Nil
  then show ?case using steps_refl [OF assms(1)] by simp
next
  case (snoc t us)
  then obtain b1 where b1: "fold_opt (unsubscribe_topic e now p) us b = Some b1" "steps n b b1"
    "sub_at b1 p = (\<lambda>t. if t \<in> set us then None else sub_at b p t)" by auto
  obtain c1 where c1: "b_heap b1 p = Some c1" "kept_client c c1" by (rule steps_get [OF b1(2) assms(2)])
  have lo: "c_typ c1 = LOCAL" using c1(2) assms(3) by (simp add: kept_client_def)
  have t: "sub_at b1 p t \<noteq> None" if "notifying b1"
    using that snoc(2) steps_notifying [OF b1(2)] b1(3) by auto
  obtain b2 where "unsubscribe_topic e now p t b1 = Some b2" "steps n b1 b2" "sub_at b2 p = (sub_at b1 p)(t := None)"
    using steps_unsubscribe_topic [OF steps_ready [OF b1(2)] c1(1) lo t, of e now] by blast
  then show ?case using b1 steps_trans [OF b1(2)] by (auto simp: fold_opt_append fun_eq_iff)
qed

lemma steps_ProcessUnSubscribe:
  assumes "ready n b" "b_heap b p = Some c" "c_typ c = LOCAL"
    "notifying b \<Longrightarrow> distinct (Topics packet) \<and> (\<forall>t \<in> set (Topics packet). sub_at b p t \<noteq> None)"
  shows "\<exists>b'. ProcessUnSubscribe n e now p packet b = Some b' \<and> steps n b b'"
proof (cases "c_status c = Disconnected")
  case True
  then show ?thesis using assms(2) steps_refl [OF assms(1)] by (simp add: ProcessUnSubscribe_def)
next
  case False
  obtain b1 where b1: "fold_opt (unsubscribe_topic e now p) (Topics packet) b = Some b1" "steps n b b1"
    using steps_unsubscribe_all [OF assms, of e now] by blast
  have "b_heap b1 p \<noteq> None" using steps_heap [OF b1(2)] assms(2) by simp
  from steps_WriterPacket [OF steps_ready [OF b1(2)] this, of e now "unsuback (MessageID packet)"]
  show ?thesis using False assms(2) b1 steps_trans [OF b1(2)] by (auto simp: ProcessUnSubscribe_def)
qed

section \<open>Publishing\<close>

lemma steps_registerPublishPacketId:
  assumes "ready n b" "b_heap b p = Some c"
  shows "\<exists>b' err. registerPublishPacketId now p i b = Some (b', err) \<and> steps n b b'"
proof -
  let ?b = "set_client p (c\<lparr>c_awaitingRel := gm_put i now (c_awaitingRel c)\<rparr>) b"
  have "steps n b ?b" by (rule steps_set_client [OF assms]) simp
  then have "steps n b (emit x ?b)" for x using steps_announce(2) steps_ready steps_trans by blast
  then show ?thesis
    using assms steps_refl [OF assms(1)]
    by (auto simp: registerPublishPacketId_def split: option.split)
qed

lemma steps_ProcessPublish:
  assumes "ready n b" "b_heap b p = Some c" "env_ok e"
  shows "\<exists>b'. ProcessPublish n e now p packet forward b = Some b' \<and> steps n b b'"
proof -
  have rest: "\<exists>b''. (if err \<noteq> None then Some b' else ProcessPublishMessage n e now p packet forward b') = Some b'' \<and> steps n b b''"
    if "steps n b b'" for b' and err :: "go_error option"
    using that steps_ProcessPublishMessage [OF steps_ready [OF that] steps_heap [OF that, of p] assms(3), of now packet forward]
      assms(2) steps_trans [OF that] by auto
  have acked: "\<exists>b''. do { (b, err) \<leftarrow> WriterPacket n e now p ack b';
       if err \<noteq> None then Some b else ProcessPublishMessage n e now p packet forward b } = Some b'' \<and> steps n b b''"
    if b': "steps n b b'" for b' ack
  proof -
    obtain b2 err where "WriterPacket n e now p ack b' = Some (b2, err)" "steps n b' b2"
      using steps_WriterPacket [OF steps_ready [OF b'] steps_heap [OF b', of p], of e now ack] assms(2) by auto
    with rest [OF steps_trans [OF b'], of b2 err] show ?thesis by simp
  qed
  obtain b1 err where b1: "registerPublishPacketId now p (MessageID packet) b = Some (b1, err)" "steps n b b1"
    using steps_registerPublishPacketId [OF assms(1,2)] by blast
  show ?thesis
    using assms(2) b1 rest [OF steps_refl [OF assms(1)], of None] acked [OF steps_refl [OF assms(1)], of "puback (MessageID packet)"]
      acked [OF b1(2), of "pubrec (MessageID packet)"] steps_refl [OF assms(1)]
    by (simp add: ProcessPublish_def Let_def)
qed

section \<open>Any message\<close>

lemma steps_answer:
  assumes "steps n b0 b" "b_heap b p \<noteq> None"
  shows "\<exists>b'. do { (b, _) \<leftarrow> WriterPacket n e now p packet b; Some b } = Some b' \<and> steps n b0 b'"
  using steps_send [OF steps_ready [OF assms(1)] assms(2), of e now packet] steps_trans [OF assms(1)] by blast

lemma steps_answer_after:
  assumes "ready n b" "b_heap b p = Some c" "\<And>c. harmless c (f c)"
  shows "\<exists>b'. do { b \<leftarrow> on_client f p b; (b, _) \<leftarrow> WriterPacket n e now p packet b; Some b } = Some b' \<and> steps n b b'"
proof -
  obtain b1 where b1: "on_client f p b = Some b1" "steps n b b1"
    using steps_on_client [OF assms(1), of p f] assms(2,3) by auto
  with steps_answer [OF b1(2), of p e now packet] steps_heap [OF b1(2), of p] assms(2) show ?thesis by simp
qed

lemma steps_pubRel:
  assumes "ready n b" "b_heap b p = Some c"
  shows "\<exists>b'. do { (b, _) \<leftarrow> pubRel p i b; (b, _) \<leftarrow> WriterPacket n e now p packet b; Some b } = Some b' \<and> steps n b b'"
proof -
  have "steps n b (set_client p (c\<lparr>c_awaitingRel := gm_del i (c_awaitingRel c)\<rparr>) b)"
    by (rule steps_set_client [OF assms]) simp
  with steps_refl [OF assms(1)] obtain b1 err where b1: "pubRel p i b = Some (b1, err)" "steps n b b1"
    using assms(2) by (cases "gm_get (c_awaitingRel c) i") (simp_all add: pubRel_def)
  with steps_answer [OF b1(2), of p e now packet] steps_heap [OF b1(2), of p] assms(2) show ?thesis by simp
qed

text \<open>The situations in which a handler does not panic.\<close>

definition safe_message :: "Broker \<Rightarrow> Message \<Rightarrow> bool" where
  "safe_message b m \<longleftrightarrow>
     (case b_heap b (msg_client m) of
        None \<Rightarrow> False
      | Some c \<Rightarrow>
          (case msg_packet m of
             None \<Rightarrow> True
           | Some ca \<Rightarrow>
               if \<not> validatePacketFields ca then c_conn c \<noteq> None
               else (case ca of
                   CP_Subscribe packet \<Rightarrow> c_typ c = LOCAL \<and> length (Topics packet) \<le> length (Qoss packet)
                 | CP_Unsubscribe packet \<Rightarrow> c_typ c = LOCAL \<and> (notifying b \<longrightarrow> distinct (Topics packet) \<and>
                     (\<forall>t \<in> set (Topics packet). gm_get (c_subMap c) t \<noteq> None))
                 | _ \<Rightarrow> True)))"

lemma steps_drop_malformed:
  assumes "ready n b" "b_heap b p = Some c" "c_conn c \<noteq> None"
  shows "\<exists>b'. drop_malformed p b = Some b' \<and> steps n b b'"
proof -
  have r: "steps n b (emit (ConnClosed p) b)" by (rule steps_announce(2) [OF assms(1)])
  have h: "b_heap (emit (ConnClosed p) b) p = Some c" using assms(2) by simp
  have "steps n (emit (ConnClosed p) b)
      (set_client p (c\<lparr>c_status := Disconnected, c_info := (c_info c)\<lparr>ci_Status := Disconnected\<rparr>\<rparr>) (emit (ConnClosed p) b))"
    by (rule steps_set_client [OF steps_ready [OF r] h]) simp
  then show ?thesis using assms(2,3) steps_trans [OF r] by (auto simp: drop_malformed_def)
qed

lemma steps_ProcessMessage:
  assumes r: "ready n b" and m: "safe_message b m" and e: "env_ok e"
  shows "\<exists>b'. ProcessMessage n e now m b = Some b' \<and> steps n b b'"
proof -
  let ?p = "msg_client m"
  obtain c where c: "b_heap b ?p = Some c" using m by (auto simp: safe_message_def split: option.splits)
  then have h: "b_heap b ?p \<noteq> None" by simp
  show ?thesis
  proof (cases "msg_packet m")
    case None
    then show ?thesis using steps_refl [OF r] by (simp add: ProcessMessage_def)
  next
    case (Some ca)
    note pm = ProcessMessage_def safe_message_def Some c Let_def
    show ?thesis
    proof (cases "validatePacketFields ca")
      case False
      then show ?thesis using steps_drop_malformed [OF r c] m by (simp add: pm)
    next
      case True
      show ?thesis
      proof (cases ca)
        case (CP_Publish packet)
        then show ?thesis using True steps_ProcessPublish [OF r c e] by (simp add: pm)
      next
        case (CP_Puback packet)
        then show ?thesis using True steps_on_client [OF r h] by (simp add: pm)
      next
        case (CP_Pubrec packet)
        then show ?thesis using True steps_answer_after [OF r c, of "received_pubrec now (MessageID packet)"]
          by (simp add: pm)
      next
        case (CP_Pubrel packet)
        then show ?thesis using True steps_pubRel [OF r c] by (simp add: pm)
      next
        case (CP_Pubcomp packet)
        then show ?thesis using True steps_on_client [OF r h] by (simp add: pm)
      next
        case (CP_Subscribe packet)
        then show ?thesis using True m steps_ProcessSubscribe [OF r c] by (simp add: pm)
      next
        case (CP_Unsubscribe packet)
        then show ?thesis using True m steps_ProcessUnSubscribe [OF r c, of packet] by (simp add: pm sub_at_def)
      next
        case (CP_Pingreq packet)
        then show ?thesis
          using True steps_answer [OF steps_refl [OF r] h] steps_refl [OF r] by (simp add: pm ProcessPing_def)
      next
        case (CP_Disconnect packet)
        then show ?thesis using True steps_Close [OF r h] by (simp add: pm)
      qed (use True steps_refl [OF r] in \<open>simp_all add: pm\<close>)
    qed
  qed
qed

end
