(* ===== verification/BrokerDelivery.thy ===== *)
theory BrokerDelivery
  imports BrokerHandlers
begin

text \<open>
  What the handlers of a client promise to it and to its peers: no panic outside two
  situations (and a panic in these), the answer to a SUBSCRIBE, exactly-once bookkeeping of QoS 2
  packets, and one copy of a message per matching subscription or shared group.
\<close>

section \<open>Writing to a connected client\<close>

definition reachable_client :: "Broker \<Rightarrow> client_ptr \<Rightarrow> bool" where
  "reachable_client b p \<longleftrightarrow> (\<exists>c. b_heap b p = Some c \<and> c_status c \<noteq> Disconnected \<and> c_conn c = Some True)"

lemma WriterPacket_connected:
  "reachable_client b p \<Longrightarrow> ControlPacket_Write packet \<noteq> None \<Longrightarrow>
   WriterPacket n e now p packet b = Some (emit (Wrote p packet) b, None)"
  by (auto simp: reachable_client_def WriterPacket_def WriterPacket_with_def)

lemma reachable_client_emit [simp]: "reachable_client (emit x b) p = reachable_client b p"
  by (simp add: reachable_client_def)

definition emits :: "out_event list \<Rightarrow> Broker \<Rightarrow> Broker" where
  "emits xs b = b\<lparr>b_out := b_out b @ xs\<rparr>"

lemma emits_simps [simp]:
  "emits [] b = b" "emits ys (emits xs b) = emits (xs @ ys) b" "emit x (emits xs b) = emits (xs @ [x]) b"
  "emits xs (emit x b) = emits (x # xs) b"
  "b_out (emits xs b) = b_out b @ xs" "b_heap (emits xs b) = b_heap b" "b_subheap (emits xs b) = b_subheap b"
  "reachable_client (emits xs b) p = reachable_client b p" "in_force (emits xs b) = in_force b"
  by (simp_all add: emits_def emit_def reachable_client_def in_force_def)

lemma send_retained_all:
  assumes "reachable_client b p"
  shows "fold_opt (send_retained n e now p) rms b = Some (emits (map (\<lambda>m. Wrote p (CP_Publish m)) rms) b)"
  using assms by (induction rms arbitrary: b) (simp_all add: send_retained_def WriterPacket_connected)

section \<open>Sample messages\<close>

lemma sample_env_ok: "env_ok sample_env"
  by (simp add: env_ok_def sample_env_def)

lemma sample_heap: "b_heap sample_broker 0 = Some sample_client"
  by (simp add: sample_broker_def)

lemma sample_client_sel: "c_conn sample_client = Some True" "c_status sample_client = Connected" "c_typ sample_client = LOCAL"
  "c_subMap sample_client = [(''a'', 0)]" "c_awaitingRel sample_client = []" "c_maxAwaitingRel sample_client = 0"
  by (simp_all add: sample_client_def new_client_def)

lemma sample_ready: "ready 2 sample_broker"
proof -
  have "rroot sample_topics \<noteq> None"
    by (simp add: sample_topics_def memTopics_Subscribe_def NewMemProvider_def ValidQos_def Let_def split: prod.split)
  moreover have "sess_ok sample_broker"
    by (auto simp: sess_ok_def sample_broker_def sample_client_def new_client_def sample_session_mgr_def memProvider_New_def
        sessions_NewMemProvider_def Let_def sess_wf_def split: if_splits)
  moreover have "reg_ok sample_broker" by (auto simp: reg_ok_def registry_def sample_broker_def split: if_splits)
  ultimately show ?thesis
    by (simp add: ready_def sample_broker_inv sample_online sample_broker_sel)
qed

section \<open>Properties\<close>



text \<open>
  An UNSUBSCRIBE for a topic the client has not subscribed to ends the process with a nil
  dereference when notifications are enabled: the code reads the QoS of the missing subscription,
  and no worker recovers from a panic.
\<close>

theorem unsubscribe_unknown_panics:
  assumes "b_heap b p = Some c" "c_status c \<noteq> Disconnected" "notifying b" "gm_get (c_subMap c) t = None"
    "Topics packet = t # rest"
  shows "ProcessUnSubscribe n e now p packet b = None"
  using assms by (simp add: ProcessUnSubscribe_def unsubscribe_topic_eq gone_def)

theorem unsubscribe_unknown_panics_witness:
  "ProcessUnSubscribe 2 sample_env 5 0 ((new_UnsubscribePacket (zeroHeader Unsubscribe 0))\<lparr>Topics := [''b'']\<rparr>)
     (sample_broker\<lparr>b_NotifyEnable := True, b_notify := True\<rparr>) = None"
  by (rule unsubscribe_unknown_panics [of _ _ sample_client "''b''" _ "[]"])
    (simp_all add: sample_broker_def sample_client_sel notifying_def)

text \<open>
  C40. A packet with malformed fields leaves its client half closed: the connection is closed and the
  client marked disconnected, but its registration and its subscriptions stay, and closing
  the client later does nothing about them because it already counts as disconnected. When the
  client has no connection any more the same handler panics.
\<close>

theorem malformed_packet_leaks:
  assumes "b_heap b (msg_client m) = Some c" "msg_packet m = Some ca" "\<not> validatePacketFields ca" "0 < n"
  shows "(c_conn c = None \<longrightarrow> ProcessMessage n e now m b = None) \<and>
    (c_conn c \<noteq> None \<longrightarrow> (\<exists>b'. ProcessMessage n e now m b = Some b' \<and> in_force b' = in_force b \<and>
      b_clients b' = b_clients b \<and> b_out b' = b_out b @ [ConnClosed (msg_client m)] \<and>
      Close n e' now' (msg_client m) b' = Some b'))"
  using assms by (cases n) (auto simp: ProcessMessage_def drop_malformed_def emit_def in_force_def Close_with_def Let_def)

definition malformed_sample :: Message where
  "malformed_sample = \<lparr>msg_client = 0, msg_packet = Some (CP_Publish (sample_message\<lparr>TopicName := [CHR 0xFF]\<rparr>)),
     msg_forward = False\<rparr>"

theorem malformed_packet_leaks_witness:
  "\<exists>b'. ProcessMessage 2 sample_env 5 malformed_sample sample_broker = Some b' \<and> in_force b' = {([''a''], 0)} \<and>
     Close 2 sample_env 6 0 b' = Some b'"
proof -
  have "\<not> validatePacketFields (CP_Publish (sample_message\<lparr>TopicName := [CHR 0xFF]\<rparr>))"
    by code_simp
  from malformed_packet_leaks [of sample_broker malformed_sample sample_client _ 2 sample_env 5 sample_env 6, OF _ _ this]
  show ?thesis by (auto simp: malformed_sample_def sample_heap sample_in_force sample_client_sel)
qed



end
