(* ===== verification/BrokerQos.thy ===== *)
theory BrokerQos
  imports BrokerDelivery
begin

text \<open>
  Exactly-once bookkeeping of QoS 2 packets, and the copies of a message that are written
  for the matching subscriptions and shared groups.
\<close>

section \<open>Delivery leaves the packets awaiting release alone\<close>

definition awaiting :: "Broker \<Rightarrow> client_ptr \<Rightarrow> (uint16, int) gomap option" where
  "awaiting b p = map_option c_awaitingRel (b_heap b p)"

lemma awaiting_simps [simp]:
  "awaiting (emit x b) = awaiting b" "awaiting (StoreRemoveSubscription e t i b) = awaiting b"
  "awaiting (StoreRemoveClient i b) = awaiting b" "awaiting (RemoveClient i b) = awaiting b"
  "awaiting (etcdRouter_Forward e node f b) = awaiting b" "awaiting (b\<lparr>b_topicsMgr := m\<rparr>) = awaiting b"
  "awaiting (set_client p c b) = (awaiting b)(p \<mapsto> c_awaitingRel c)"
  by (auto simp: awaiting_def StoreRemoveClient_def RemoveClient_def etcdRouter_Forward_def Let_def emit_def
      split: option.split)

lemma awaiting_set_client:
  "b_heap b p = Some c \<Longrightarrow> c_awaitingRel c' = c_awaitingRel c \<Longrightarrow> awaiting (set_client p c' b) = awaiting b"
  by (auto simp: awaiting_def)

lemma awaiting_upd: "b_heap b p = Some c \<Longrightarrow> (awaiting b)(p \<mapsto> c_awaitingRel c) = awaiting b"
  by (auto simp: awaiting_def)

lemma awaiting_on_client:
  "on_client f p b = Some b' \<Longrightarrow> (\<And>c. c_awaitingRel (f c) = c_awaitingRel c) \<Longrightarrow> awaiting b' = awaiting b"
  by (auto simp: on_client_def bind_eq_Some_conv awaiting_set_client simp del: awaiting_simps(7))

lemma awaiting_fold:
  assumes "\<And>x s s'. f x s = Some s' \<Longrightarrow> awaiting (g s') = awaiting (g s)" "fold_opt f xs s = Some s'"
  shows "awaiting (g s') = awaiting (g s)"
  by (rule fold_opt_rel [where R = "\<lambda>s s'. awaiting (g s') = awaiting (g s)"]) (use assms in auto)

lemma awaiting_Close_topic: "Close_topic e now p ts b = Some b' \<Longrightarrow> awaiting b' = awaiting b"
  by (auto simp: Close_topic_def bind_eq_Some_conv Let_def awaiting_def split: if_splits)

lemma awaiting_WriterPacket_with:
  assumes "\<And>p b b'. close p b = Some b' \<Longrightarrow> awaiting b' = awaiting b"
    and "WriterPacket_with close p packet b = Some (b', err)"
  shows "awaiting b' = awaiting b"
  using assms(2) by (auto simp: WriterPacket_with_def bind_eq_Some_conv dest: assms(1) split: if_splits option.splits)

lemma awaiting_PublishMessage_with:
  assumes w: "\<And>p packet b b' err. writer p packet b = Some (b', err) \<Longrightarrow> awaiting b' = awaiting b"
    and "PublishMessage_with writer packet b = Some b'"
  shows "awaiting b' = awaiting b"
  using assms(2)
  by (auto simp: PublishMessage_with_def bind_eq_Some_conv dest: w split: if_splits iface.splits
      dest!: awaiting_fold [where g = "\<lambda>b. b", rotated])

lemma awaiting_Close: "Close n e now p b = Some b' \<Longrightarrow> awaiting b' = awaiting b"
proof (induction n arbitrary: p b b')
  case (Suc n)
  have w: "awaiting b' = awaiting b" if "WriterPacket_with (Close n e now) p packet b = Some (b', err)" for p packet b b' err
    using awaiting_WriterPacket_with [OF _ that] Suc(1) by blast
  have will: "awaiting b' = awaiting b"
    if "PublishMessage_with (WriterPacket_with (Close n e now)) packet b = Some b'" for packet b b'
    using awaiting_PublishMessage_with [OF w that] .
  have subs: "awaiting b' = awaiting b" if "fold_opt (Close_topic e now p) xs b = Some b'" for xs b b'
    using awaiting_fold [where g = "\<lambda>b. b", OF awaiting_Close_topic that] by simp
  obtain c where c: "b_heap b p = Some c" using Suc(2) by (auto simp: Close_with_def bind_eq_Some_conv)
  show ?case
    using Suc(2) c by (auto simp: Close_with_def bind_eq_Some_conv Let_def awaiting_upd
        dest!: will subs split: if_splits option.splits)
qed simp

lemma awaiting_WriterPacket: "WriterPacket n e now p packet b = Some (b', err) \<Longrightarrow> awaiting b' = awaiting b"
  using awaiting_WriterPacket_with [of "Close n e now"] awaiting_Close unfolding WriterPacket_def by blast

lemma awaiting_inflight [simp]:
  "c_awaitingRel (put_inflight now packet c) = c_awaitingRel c" "c_awaitingRel (ensureRetryTimer i c) = c_awaitingRel c"
  by (simp_all add: put_inflight_def ensureRetryTimer_def)

lemma awaiting_publishFoward: "publishFoward n e now p packet b = Some b' \<Longrightarrow> awaiting b' = awaiting b"
  by (auto simp: publishFoward_def bind_eq_Some_conv split: if_splits
      dest!: awaiting_WriterPacket awaiting_on_client [OF _ awaiting_inflight(1)] awaiting_on_client [OF _ awaiting_inflight(2)])

lemma awaiting_publish: "publish n e now a packet b = Some b' \<Longrightarrow> awaiting b' = awaiting b"
  by (auto simp: publish_def bind_eq_Some_conv Let_def split: if_splits
      dest!: awaiting_WriterPacket awaiting_on_client [OF _ awaiting_inflight(1)] awaiting_on_client [OF _ awaiting_inflight(2)])

lemma awaiting_deliver_one: "deliver_one n e now packet x s = Some s' \<Longrightarrow> awaiting (fst s') = awaiting (fst s)"
  by (auto simp: deliver_one_def bind_eq_Some_conv split: if_splits prod.splits iface.splits dest!: awaiting_publish)

lemma awaiting_iface:
  assumes "(case s of IfPtr a \<Rightarrow> publish n e now a packet b | _ \<Rightarrow> None) = Some b'"
  shows "awaiting b' = awaiting b"
  using assms by (cases s) (auto dest: awaiting_publish)

lemma awaiting_deliver_group: "deliver_group n e now ss packet g b = Some b' \<Longrightarrow> awaiting b' = awaiting b"
  by (cases "nth_opt (snd g) (env_Intn e (fst g) (length (snd g))) \<bind> nth_opt ss")
    (auto simp: deliver_group_def bind_eq_Some_conv split: if_splits dest: awaiting_publish
      elim!: awaiting_iface)

lemma awaiting_Bridge [simp]: "awaiting (Broker_Bridge e el b) = awaiting b"
  by (simp add: Broker_Bridge_def split: option.split)

lemma awaiting_ProcessPublishMessage:
  assumes "ProcessPublishMessage n e now p packet forward b = Some b'"
  shows "awaiting b' = awaiting b"
proof -
  have one: "awaiting (fst s') = awaiting (fst s)"
    if "fold_opt (deliver_one n e now packet) xs s = Some s'" for xs s s'
    using awaiting_fold [where g = fst, OF awaiting_deliver_one that] .
  have grp: "awaiting b' = awaiting b" if "fold_opt (deliver_group n e now ss packet) xs b = Some b'" for ss xs b b'
    using awaiting_fold [where g = "\<lambda>b. b", OF awaiting_deliver_group that] by simp
  obtain c where c: "b_heap b p = Some c" using assms by (auto simp: ProcessPublishMessage_def bind_eq_Some_conv)
  have del: "awaiting b' = awaiting b"
    if "do { (b, qsub) \<leftarrow> fold_opt (deliver_one n e now packet) xs (b1, []);
             fold_opt (deliver_group n e now ss packet) qsub b } = Some b'" "awaiting b1 = awaiting b" for xs ss b1
    using that by (auto simp: bind_eq_Some_conv dest!: one grp)
  have up: "awaiting (set_client p (c\<lparr>c_subs := ss, c_qoss := qs\<rparr>) b1) = awaiting b" if "awaiting b1 = awaiting b" for b1 ss qs
    using that awaiting_upd [OF c] by simp
  show ?thesis
  proof (cases "b_BridgeEnable b \<and> go_hasPrefix (TopicName packet) ''$queue/''")
    case True
    then show ?thesis using assms c by (auto simp: ProcessPublishMessage_def split: option.splits)
  next
    case False
    obtain b1 where b1: "(if Retain packet then do { (m, _) \<leftarrow> topics_Manager_Retain (b_topicsMgr b) packet; Some (b\<lparr>b_topicsMgr := m\<rparr>) }
        else Some b) = Some b1"
      using assms c False by (auto simp: ProcessPublishMessage_def bind_eq_Some_conv simp del: awaiting_simps)
    then have a1: "awaiting b1 = awaiting b" by (auto simp: bind_eq_Some_conv split: if_splits)
    show ?thesis
    proof (cases forward)
      case True
      then show ?thesis using assms c False b1 a1 by (simp add: ProcessPublishMessage_def awaiting_publishFoward)
    next
      case False
      note nf = this \<open>\<not> (b_BridgeEnable b \<and> go_hasPrefix (TopicName packet) ''$queue/'')\<close>
      show ?thesis
      proof (cases "topics_Manager_Subscribers (b_topicsMgr b1) (TopicName packet) (Qos packet) (c_subs c, c_qoss c)")
        case None
        then show ?thesis using assms c nf b1 by (simp add: ProcessPublishMessage_def)
      next
        case (Some r)
        moreover obtain ss qs err where "r = ((ss, qs), err)" by (metis surj_pair)
        ultimately show ?thesis
          using assms c nf b1 del [OF _ up [OF a1]] up [OF a1] by (auto simp: ProcessPublishMessage_def Let_def split: if_splits)
      qed
    qed
  qed
qed

section \<open>Exactly once\<close>

lemma publish_duplicate:
  assumes "b_heap b p = Some c" "gm_get (c_awaitingRel c) (MessageID packet) \<noteq> None" "Qos packet = QosExactlyOnce"
  shows "ProcessPublish n e now p packet forward b = Some b"
  using assms by (auto simp: ProcessPublish_def registerPublishPacketId_def Let_def)

lemma register_awaiting:
  assumes "b_heap b p = Some c" "\<not> isAwaitingFull c" "gm_get (c_awaitingRel c) i = None"
  obtains b' where "registerPublishPacketId now p i b = Some (b', None)"
    "awaiting b' p = Some (gm_put i now (c_awaitingRel c))"
  using assms by (auto simp: registerPublishPacketId_def)



end
