(* ===== verification/BrokerCopies.thy ===== *)
theory BrokerCopies
  imports BrokerQos
begin

text \<open>
  The copies of a QoS 0 message: one for every matching subscription that is not shared, and one for
  every group of matching shared subscriptions.
\<close>

section \<open>The loops of the delivery, without the state\<close>

definition the_sub :: "Broker \<Rightarrow> sub_ptr \<Rightarrow> subscription" where
  "the_sub b a = the (b_subheap b a)"

definition copy :: "Broker \<Rightarrow> PublishPacket \<Rightarrow> sub_ptr \<Rightarrow> out_event" where
  "copy b packet a = Wrote (sub_client (the_sub b a)) (CP_Publish packet)"

text \<open>The client of a subscription can be written to directly.\<close>

definition direct :: "Broker \<Rightarrow> sub_ptr \<Rightarrow> bool" where
  "direct b a \<longleftrightarrow> (\<exists>sub c. b_subheap b a = Some sub \<and> b_heap b (sub_client sub) = Some c \<and> c_typ c = LOCAL \<and>
     c_status c \<noteq> Disconnected \<and> c_conn c = Some True)"

definition collect :: "Broker \<Rightarrow> nat \<times> sub_ptr \<Rightarrow> groups \<Rightarrow> groups" where
  "collect b x q = (if sub_share (the_sub b (snd x)) then add_to_group (sub_groupName (the_sub b (snd x))) (fst x) q else q)"

lemma emits_sel [simp]: "the_sub (emits xs b) = the_sub b" "direct (emits xs b) = direct b"
  "copy (emits xs b) = copy b" "collect (emits xs b) = collect b"
  by (simp_all add: the_sub_def direct_def copy_def collect_def fun_eq_iff)

lemma publish_direct:
  assumes "direct b a" "Qos packet = QosAtMostOnce"
  shows "publish n e now a packet b = Some (emits [copy b packet a] b)"
proof -
  obtain sub c where "b_subheap b a = Some sub" "b_heap b (sub_client sub) = Some c" "c_typ c = LOCAL"
    "reachable_client b (sub_client sub)"
    using assms(1) by (auto simp: direct_def reachable_client_def)
  then show ?thesis
    using assms(2) emits_simps(3) [of _ "[]" b]
    by (simp add: publish_def WriterPacket_connected copy_def the_sub_def)
qed

lemma deliver_one_direct:
  assumes "direct b a" "Qos packet = QosAtMostOnce"
  shows "deliver_one n e now packet (i, IfPtr a) (b, q) =
    Some (emits (if sub_share (the_sub b a) then [] else [copy b packet a]) b, collect b (i, a) q)"
proof -
  obtain sub where "b_subheap b a = Some sub" using assms(1) by (auto simp: direct_def)
  then show ?thesis
    by (simp add: deliver_one_def publish_direct [OF assms] collect_def the_sub_def)
qed

lemma deliver_all_direct:
  assumes "\<forall>a \<in> set as. direct b a" "Qos packet = QosAtMostOnce"
  shows "fold_opt (deliver_one n e now packet) (List.enumerate k (map IfPtr as)) (b, q) =
    Some (emits (map (copy b packet) (filter (\<lambda>a. \<not> sub_share (the_sub b a)) as)) b,
          fold (collect b) (List.enumerate k as) q)"
  using assms(1)
proof (induction as arbitrary: b k q)
  case (Cons a as)
  let ?xs = "if sub_share (the_sub b a) then [] else [copy b packet a]"
  have "fold_opt (deliver_one n e now packet) (List.enumerate (Suc k) (map IfPtr as)) (emits ?xs b, collect b (k, a) q) =
    Some (emits (map (copy (emits ?xs b) packet) (filter (\<lambda>a. \<not> sub_share (the_sub (emits ?xs b) a)) as)) (emits ?xs b),
          fold (collect (emits ?xs b)) (List.enumerate (Suc k) as) (collect b (k, a) q))"
    using Cons(2) by (intro Cons(1)) simp
  then show ?case
    using Cons(2) deliver_one_direct [OF _ assms(2), of b a n e now k q] by simp
qed simp

text \<open>The groups: names of shared subscriptions, each with the indices of its members.\<close>

definition group_ok :: "Broker \<Rightarrow> sub_ptr list \<Rightarrow> string \<times> nat list \<Rightarrow> bool" where
  "group_ok b as x \<longleftrightarrow> snd x \<noteq> [] \<and> (\<forall>i \<in> set (snd x). i < length as \<and> sub_share (the_sub b (as ! i)) \<and>
     sub_groupName (the_sub b (as ! i)) = fst x)"

definition groups_of :: "Broker \<Rightarrow> sub_ptr list \<Rightarrow> groups \<Rightarrow> bool" where
  "groups_of b as q \<longleftrightarrow> gm_wf q \<and>
     fst ` set q = (\<lambda>a. sub_groupName (the_sub b a)) ` {a \<in> set as. sub_share (the_sub b a)} \<and>
     (\<forall>x \<in> set q. group_ok b as x)"

lemma group_ok_snoc: "group_ok b as x \<Longrightarrow> group_ok b (as @ [a]) x"
  by (auto simp: group_ok_def nth_append)

lemma fst_set_update: "fst ` set (AList.update k v m) = insert k (fst ` set m)"
  by (induction m) auto

lemma groups_of_add:
  assumes q: "groups_of b as q" and a: "sub_share (the_sub b a)"
  defines "g \<equiv> sub_groupName (the_sub b a)"
  shows "groups_of b (as @ [a]) (add_to_group g (length as) q)"
proof -
  have put: "groups_of b (as @ [a]) (gm_put g l q)"
    if l: "group_ok b (as @ [a]) (g, l)" for l
  proof -
    have "\<forall>x \<in> insert (g, l) (set q). group_ok b (as @ [a]) x"
      using q l group_ok_snoc by (auto simp: groups_of_def)
    then have "\<forall>x \<in> set (gm_put g l q). group_ok b (as @ [a]) x"
      using set_update_subset [of g l q] by (meson subsetD)
    moreover have "fst ` set (gm_put g l q) = (\<lambda>a. sub_groupName (the_sub b a)) ` {x \<in> set (as @ [a]). sub_share (the_sub b x)}"
      using q a by (auto simp: fst_set_update groups_of_def g_def)
    ultimately show ?thesis using q by (simp add: groups_of_def)
  qed
  show ?thesis
  proof (cases "gm_get q g")
    case None
    then show ?thesis using put [of "[length as]"] a by (simp add: add_to_group_def group_ok_def g_def)
  next
    case (Some l)
    then have "group_ok b (as @ [a]) (g, l)" using q map_of_SomeD group_ok_snoc by (fastforce simp: groups_of_def)
    then have "group_ok b (as @ [a]) (g, l @ [length as])" using a by (auto simp: group_ok_def g_def)
    then show ?thesis using Some put by (simp add: add_to_group_def)
  qed
qed

lemma groups_of_skip: "groups_of b as q \<Longrightarrow> \<not> sub_share (the_sub b a) \<Longrightarrow> groups_of b (as @ [a]) q"
  by (auto simp: groups_of_def group_ok_snoc)

lemma groups_of_collect: "groups_of b as (fold (collect b) (List.enumerate 0 as) [])"
proof (induction as rule: rev_induct)
  case (snoc a as)
  then show ?case
    using groups_of_add [OF snoc, of a] groups_of_skip [OF snoc, of a] by (simp add: enumerate_append_eq collect_def)
qed (simp add: groups_of_def)

lemma deliver_group_direct:
  assumes "group_ok b as x" "\<forall>a \<in> set as. direct b a" "env_ok e" "Qos packet = QosAtMostOnce"
  shows "\<exists>a \<in> set as. sub_share (the_sub b a) \<and> sub_groupName (the_sub b a) = fst x \<and>
    deliver_group n e now (map IfPtr as) packet x b = Some (emits [copy b packet a] b)"
proof -
  define k where "k = env_Intn e (fst x) (length (snd x))"
  have k: "k < length (snd x)" using assms(1,3) by (auto simp: env_ok_def group_ok_def k_def)
  let ?i = "snd x ! k"
  have i: "?i < length as" "sub_share (the_sub b (as ! ?i))" "sub_groupName (the_sub b (as ! ?i)) = fst x"
    using assms(1) nth_mem [OF k] by (auto simp: group_ok_def)
  then have "direct b (as ! ?i)" using assms(2) by simp
  from publish_direct [OF this assms(4), of n e now] have
    "deliver_group n e now (map IfPtr as) packet x b = Some (emits [copy b packet (as ! ?i)] b)"
    using k i(1) by (auto simp: deliver_group_def nth_opt_def simp flip: k_def)
  with i show ?thesis using nth_mem by blast
qed

lemma deliver_groups_direct:
  assumes "\<forall>x \<in> set q. group_ok b as x" "\<forall>a \<in> set as. direct b a" "env_ok e" "Qos packet = QosAtMostOnce"
  shows "\<exists>cs. map (\<lambda>a. sub_groupName (the_sub b a)) cs = map fst q \<and> set cs \<subseteq> {a \<in> set as. sub_share (the_sub b a)} \<and>
    fold_opt (deliver_group n e now (map IfPtr as) packet) q b = Some (emits (map (copy b packet) cs) b)"
  using assms(1,2)
proof (induction q arbitrary: b)
  case Nil
  then show ?case by simp
next
  case (Cons x q)
  obtain a where a: "a \<in> set as" "sub_share (the_sub b a)" "sub_groupName (the_sub b a) = fst x"
    "deliver_group n e now (map IfPtr as) packet x b = Some (emits [copy b packet a] b)"
    using deliver_group_direct [OF _ Cons(3) assms(3,4), of x n now] Cons(2) by auto
  have "\<forall>x \<in> set q. group_ok (emits [copy b packet a] b) as x" using Cons(2) by (simp add: group_ok_def)
  from Cons(1) [OF this] Cons(3) obtain cs where
    "map (\<lambda>a. sub_groupName (the_sub b a)) cs = map fst q" "set cs \<subseteq> {a \<in> set as. sub_share (the_sub b a)}"
    "fold_opt (deliver_group n e now (map IfPtr as) packet) q (emits [copy b packet a] b) =
       Some (emits (map (copy b packet) cs) (emits [copy b packet a] b))" by auto
  with a show ?case by (intro exI [of _ "a # cs"]) simp
qed

lemma count_IfPtr: "count (mset (map IfPtr as)) (IfPtr a) = count (mset as) a"
  by (induction as) auto

text \<open>The matching subscriptions, as the provider lists them.\<close>

lemma matching_list:
  assumes inv: "mt_inv s" and lev: "topic_levels t = Some ls" and q: "ValidQos q"
  obtains as where "memTopics_Subscribers s t q acc = Some ((map IfPtr as, replicate (length as) q), None)"
    "\<And>a. count (mset as) a = card {f. (f, a) \<in> mt_entries s \<and> sub_match f ls}"
    "\<And>a. a \<in> set as \<longleftrightarrow> (\<exists>f. (f, a) \<in> mt_entries s \<and> sub_match f ls)"
proof -
  obtain rs where rs: "memTopics_Subscribers s t q acc = Some ((rs, replicate (length rs) q), None)" "set rs \<subseteq> range IfPtr"
    "\<forall>a. count (mset rs) (IfPtr a) = card {f. (f, a) \<in> mt_entries s \<and> sub_match f ls}"
    using mem_provider.subscribers_ok [OF inv q lev, of acc] by blast
  obtain as where as: "rs = map IfPtr as" using rs(2) by (metis ex_map_conv rangeE subsetD)
  have cnt: "count (mset as) a = card {f. (f, a) \<in> mt_entries s \<and> sub_match f ls}" for a
    using rs(3) by (simp add: as count_IfPtr del: mset_map)
  have "a \<in> set as \<longleftrightarrow> (\<exists>f. (f, a) \<in> mt_entries s \<and> sub_match f ls)" for a
  proof -
    have "finite {f. (f, a) \<in> mt_entries s \<and> sub_match f ls}"
      using mem_provider.finite_entries [OF inv] finite_subset [of "{f. (f, a) \<in> mt_entries s \<and> sub_match f ls}" "fst ` mt_entries s"]
      by force
    then show ?thesis using cnt [of a] count_mset_0_iff by (metis (no_types, lifting) Collect_empty_eq card_eq_0_iff)
  qed
  with rs(1) cnt show ?thesis using that by (simp add: as)
qed

lemma direct_set_client:
  assumes "b_heap b p = Some c" "c_typ c' = c_typ c" "c_status c' = c_status c" "c_conn c' = c_conn c"
  shows "direct (set_client p c' (b\<lparr>b_topicsMgr := m\<rparr>)) a = direct b a"
  using assms by (cases "b_subheap b a") (auto simp: direct_def)

section \<open>Property\<close>

text \<open>
  C4. Who gets a QoS 0 message: when every matching subscriber is a connected client of this node,
  publishing returns and writes, after everything written before, one copy for every matching
  subscription that is not shared (as often as the topic tree holds it under filters that
  match), and then exactly one copy for each group of matching shared subscriptions, to a member of
  that group; nothing else is written to anybody, stored or notified.
\<close>

theorem qos0_copies:
  assumes "ready n b" "env_ok e" "b_heap b p \<noteq> None" "Qos packet = QosAtMostOnce"
    "\<not> (b_BridgeEnable b \<and> go_hasPrefix (TopicName packet) ''$queue/'')"
    "topic_levels (TopicName packet) = Some ls"
    "\<forall>f a. (f, a) \<in> in_force b \<and> sub_match f ls \<longrightarrow> direct b a"
  shows "\<exists>b' ds cs. ProcessPublishMessage n e now p packet False b = Some b' \<and>
    b_out b' = b_out b @ map (copy b packet) (ds @ cs) \<and>
    (\<forall>a. count (mset ds) a =
       (if sub_share (the_sub b a) then 0 else card {f. (f, a) \<in> in_force b \<and> sub_match f ls})) \<and>
    distinct (map (\<lambda>a. sub_groupName (the_sub b a)) cs) \<and>
    (\<forall>a \<in> set cs. sub_share (the_sub b a) \<and> (\<exists>f. (f, a) \<in> in_force b \<and> sub_match f ls)) \<and>
    (\<forall>f a. (f, a) \<in> in_force b \<and> sub_match f ls \<and> sub_share (the_sub b a) \<longrightarrow>
       sub_groupName (the_sub b a) \<in> (\<lambda>a. sub_groupName (the_sub b a)) ` set cs)"
proof -
  obtain c where c: "b_heap b p = Some c" using assms(3) by auto
  define b1opt where "b1opt = (if Retain packet
      then do { (m, _) \<leftarrow> topics_Manager_Retain (b_topicsMgr b) packet; Some (b\<lparr>b_topicsMgr := m\<rparr>) } else Some b)"
  obtain m where m: "b1opt = Some (b\<lparr>b_topicsMgr := m\<rparr>)" "sroot (topics_p m) = sroot (topics_p (b_topicsMgr b))"
  proof (cases "Retain packet")
    case True
    then show ?thesis using that by (auto simp: b1opt_def intro: Manager_Retain [OF assms(1), of packet])
  next
    case False
    then show ?thesis using that [of "b_topicsMgr b"] by (simp add: b1opt_def)
  qed
  have inv: "mt_inv (topics_p m)" and E: "mt_entries (topics_p m) = in_force b"
    using assms(1) m(2) by (simp_all add: ready_def broker_inv_def mt_inv_def mt_entries_def in_force_def)
  have "ValidQos (Qos packet)" using assms(4) by (simp add: ValidQos_def)
  from matching_list [OF inv assms(6) this, of "(c_subs c, c_qoss c)"] obtain as where
    as: "memTopics_Subscribers (topics_p m) (TopicName packet) (Qos packet) (c_subs c, c_qoss c) =
      Some ((map IfPtr as, replicate (length as) (Qos packet)), None)"
    and cnt: "\<And>a. count (mset as) a = card {f. (f, a) \<in> in_force b \<and> sub_match f ls}"
    and mem: "\<And>a. a \<in> set as \<longleftrightarrow> (\<exists>f. (f, a) \<in> in_force b \<and> sub_match f ls)" unfolding E by blast
  define b2 where "b2 = set_client p (c\<lparr>c_subs := map IfPtr as, c_qoss := replicate (length as) (Qos packet)\<rparr>)
    (b\<lparr>b_topicsMgr := m\<rparr>)"
  have b2: "the_sub b2 = the_sub b" "copy b2 = copy b" "b_out b2 = b_out b" "\<forall>a \<in> set as. direct b2 a"
    using assms(7) mem c by (auto simp: b2_def the_sub_def copy_def fun_eq_iff direct_set_client)
  define q where "q = fold (collect b2) (List.enumerate 0 as) []"
  define ds where "ds = filter (\<lambda>a. \<not> sub_share (the_sub b a)) as"
  define b3 where "b3 = emits (map (copy b packet) ds) b2"
  have q: "groups_of b as q" using groups_of_collect [of b2 as] b2(1) by (simp add: q_def groups_of_def group_ok_def)
  have 3: "fold_opt (deliver_one n e now packet) (List.enumerate 0 (map IfPtr as)) (b2, []) = Some (b3, q)"
    using deliver_all_direct [OF b2(4) assms(4), of n e now 0 "[]"] b2 by (simp add: q_def b3_def ds_def)
  have "\<forall>x \<in> set q. group_ok b3 as x" "\<forall>a \<in> set as. direct b3 a" using q b2 by (simp_all add: b3_def groups_of_def group_ok_def)
  from deliver_groups_direct [OF this assms(2,4), of n now] b2 obtain cs where
    cs: "map (\<lambda>a. sub_groupName (the_sub b a)) cs = map fst q" "set cs \<subseteq> {a \<in> set as. sub_share (the_sub b a)}"
    "fold_opt (deliver_group n e now (map IfPtr as) packet) q b3 = Some (emits (map (copy b packet) cs) b3)"
    by (auto simp: b3_def)
  have "ProcessPublishMessage n e now p packet False b = Some (emits (map (copy b packet) (ds @ cs)) b2)"
  proof (cases "as = []")
    case True
    then have "ds = []" "cs = []" using cs(2) by (simp_all add: ds_def)
    then show ?thesis
      using c assms(5) m(1) as True unfolding ProcessPublishMessage_def b1opt_def [symmetric]
      by (auto simp: topics_Manager_Subscribers_def b2_def)
  next
    case False
    then show ?thesis
      using c assms(5) m(1) as 3 cs(3) unfolding ProcessPublishMessage_def b1opt_def [symmetric] b2_def
      by (auto simp: topics_Manager_Subscribers_def b3_def b2_def)
  qed
  moreover have "distinct (map (\<lambda>a. sub_groupName (the_sub b a)) cs)" using q unfolding cs(1) groups_of_def by blast
  moreover have "(\<lambda>a. sub_groupName (the_sub b a)) ` set cs = fst ` set q" using cs(1) by (metis list.set_map)
  moreover have "count (mset ds) a = (if sub_share (the_sub b a) then 0 else count (mset as) a)" for a
    by (simp add: ds_def mset_filter)
  ultimately show ?thesis
    using cs(2) mem q cnt b2(3) unfolding groups_of_def
    by (intro exI [of _ "emits (map (copy b packet) (ds @ cs)) b2"] exI [of _ ds] exI [of _ cs]) auto
qed

theorem qos0_copies_witness:
  "\<exists>b' ds cs. ProcessPublishMessage 2 sample_env 5 0 sample_message False sample_broker = Some b' \<and>
    b_out b' = map (copy sample_broker sample_message) (ds @ cs) \<and> count (mset ds) 0 = 1"
proof -
  have "direct sample_broker 0"
    by (simp add: direct_def sample_broker_sel sample_client_sel)
  moreover have "{f. (f, 0) \<in> in_force sample_broker \<and> sub_match f [''a'']} = {[''a'']}"
    by (auto simp: sample_in_force)
  moreover have "Qos sample_message = QosAtMostOnce" "TopicName sample_message = ''a''" "\<not> sub_share (the_sub sample_broker 0)"
    "b_out sample_broker = []" "\<not> b_BridgeEnable sample_broker"
    by (simp_all add: sample_message_def new_PublishPacket_def zeroHeader_def the_sub_def sample_broker_sel sample_broker_def)
  ultimately obtain b' ds cs where "ProcessPublishMessage 2 sample_env 5 0 sample_message False sample_broker = Some b'"
    "b_out b' = map (copy sample_broker sample_message) (ds @ cs)"
    "count (mset ds) 0 = card {f. (f, 0) \<in> in_force sample_broker \<and> sub_match f [''a'']}"
    using qos0_copies [OF sample_ready sample_env_ok, of 0 sample_message "[''a'']" 5]
    by (auto simp: sample_heap sample_levels sample_in_force)
  with \<open>{f. (f, 0) \<in> in_force sample_broker \<and> sub_match f [''a'']} = {[''a'']}\<close> show ?thesis by auto
qed

end
