(* ===== verification/BrokerConnect.thy ===== *)
theory BrokerConnect
  imports BrokerCopies PacketCodec
begin

text \<open>
  Connections: the CONNECT handshake of \<open>src/broker/broker.go\<close>, the read loop of a client
  (\<open>src/broker/client.go\<close>) and the worker pool that runs the handlers (\<open>src/pool/fixpool.go\<close>).

  A connection is named by the pointer its client gets. \<open>ok\<close> says whether writing to it succeeds, \<open>ip\<close> is the
  host part of its remote address, \<open>rnd\<close> the random bytes a new session identifier is made of, and
  \<open>input\<close> the bytes that arrive on it.
\<close>

section \<open>The handshake\<close>

definition CheckConnectAuth :: "env \<Rightarrow> Broker \<Rightarrow> string \<Rightarrow> string \<Rightarrow> string \<Rightarrow> bool" where
  "CheckConnectAuth e b clientID username password =
     etcdAuth_CheckConnect (env_compare e) (b_auth b) clientID username password"

text \<open>Writing CONNACK and closing the connection.\<close>

definition refuse :: "bool \<Rightarrow> client_ptr \<Rightarrow> ConnackPacket \<Rightarrow> Broker \<Rightarrow> Broker" where
  "refuse ok p connack b = emit (ConnClosed p) (if ok then emit (Wrote p (CP_Connack connack)) b else b)"

definition will_of :: "ConnectPacket \<Rightarrow> PublishPacket option" where
  "will_of msg =
     (if WillFlag msg
      then Some ((new_PublishPacket (zeroHeader Publish 0))\<lparr>Qos := WillQos msg, TopicName := WillTopic msg,
             Retain := WillRetain msg, Payload := WillMessage msg, Dup := Dup msg\<rparr>)
      else None)"

definition info_of :: "Broker \<Rightarrow> ConnectPacket \<Rightarrow> Client" where
  "info_of b msg = zeroClient\<lparr>ci_ID := ClientIdentifier msg, ci_NodeID := b_id b, ci_UserName := Username msg,
     ci_KeepAlive := Keepalive msg, ci_ProtoName := ProtocolName msg, ci_ProtoVer := unat (ProtocolVersion msg),
     ci_CleanStart := CleanSession msg\<rparr>"

text \<open>The information sent in the extra field overwrites these; JSON null leaves a nil pointer.\<close>

definition client_info :: "env \<Rightarrow> Broker \<Rightarrow> ConnectPacket \<Rightarrow> Client option" where
  "client_info e b msg = (case Other msg of None \<Rightarrow> Some (info_of b msg) | Some js \<Rightarrow> fst (env_client_info e js (info_of b msg)))"

text \<open>The client takes the place of the one registered under its identifier, which is closed.\<close>

definition register :: "nat \<Rightarrow> env \<Rightarrow> int \<Rightarrow> client_ptr \<Rightarrow> Client \<Rightarrow> Broker \<Rightarrow> Broker option" where
  "register n e now p info b =
     do { b \<leftarrow> (case gm_get (b_clients b) (ci_ID info) of
                  Some (ClientObj old) \<Rightarrow> Close n e now old b
                | _ \<Rightarrow> Some b);
          let b = b\<lparr>b_clients := gm_put (ci_ID info) (ClientObj p) (b_clients b)\<rparr>;
          let b = StoreAddORUpdateClient info b;
          Some (if notifying b then emit (Notified (OnClientConnect info)) b else b) }"

definition accept_connection ::
  "nat \<Rightarrow> env \<Rightarrow> int \<Rightarrow> string \<Rightarrow> bytes option \<Rightarrow> bool \<Rightarrow> client_typ \<Rightarrow> ConnectPacket \<Rightarrow> ConnackPacket \<Rightarrow> Broker \<Rightarrow>
   (Broker \<times> client_ptr option) option" where
  "accept_connection n e now ip rnd ok typ msg connack b =
     (let p = b_next b;
          b = emit (Wrote p (CP_Connack connack)) b
      in do {
        info \<leftarrow> client_info e b msg;
        let c = client_init now ip (new_client typ (Some ok) info (will_of msg));
        r \<leftarrow> getSession (b_sessionMgr b) rnd (c_session c) msg connack;
        let c = c\<lparr>c_session := gs_session r\<rparr>;
        let b = (set_client p c b)\<lparr>b_next := b_next b + 1, b_sessionMgr := gs_mgr r\<rparr>;
        if gs_err r \<noteq> None then Some (b, None)
        else if typ = LOCAL then do { b \<leftarrow> register n e now p (c_info c) b; Some (b, Some p) }
        else Some (b, Some p) })"

definition handleConnection ::
  "nat \<Rightarrow> env \<Rightarrow> int \<Rightarrow> string \<Rightarrow> bytes option \<Rightarrow> bool \<Rightarrow> client_typ \<Rightarrow> bytes \<Rightarrow> Broker \<Rightarrow>
   (Broker \<times> (client_ptr \<times> bytes) option) option" where
  "handleConnection n e now ip rnd ok typ input b =
     (case ReadPacket input of
        (Some (CP_Connect msg), None, rest) \<Rightarrow>
          (let connack = (new_ConnackPacket (zeroHeader Connack 0))\<lparr>SessionPresent := CleanSession msg,
                 ReturnCode := ConnectPacket_Validate msg\<rparr>
           in
           if ReturnCode connack \<noteq> Accepted then Some (refuse ok (b_next b) connack b, None)
           else if typ = LOCAL \<and> b_AuthEnable b \<and>
                   \<not> CheckConnectAuth e b (ClientIdentifier msg) (Username msg) (string_of_bytes (Password msg))
             then Some (refuse ok (b_next b) (connack\<lparr>ReturnCode := ErrRefusedNotAuthorised\<rparr>) b, None)
           else if \<not> ok then Some (b, None)
           else do { (b, p) \<leftarrow> accept_connection n e now ip rnd ok typ msg connack b;
                     Some (b, map_option (\<lambda>p. (p, rest)) p) })
      | _ \<Rightarrow> Some (b, None))"

definition DisConnClientByClientId :: "nat \<Rightarrow> env \<Rightarrow> int \<Rightarrow> string \<Rightarrow> Broker \<Rightarrow> Broker option" where
  "DisConnClientByClientId n e now clientId b =
     (case gm_get (b_clients b) clientId of
        None \<Rightarrow> Some b
      | Some r \<Rightarrow>
          let b = b\<lparr>b_clients := gm_del clientId (b_clients b)\<rparr> in
          (case r of ClientObj p \<Rightarrow> Close n e now p b | ClusterObj \<Rightarrow> Some b))"

section \<open>The read loop\<close>

definition DisconnectedPacket :: ControlPacket where
  "DisconnectedPacket = CP_Disconnect (zeroHeader Disconnect 0)"

definition submitted :: "client_ptr \<Rightarrow> ControlPacket \<Rightarrow> Message" where
  "submitted p packet = \<lparr>msg_client = p, msg_packet = Some packet, msg_forward = False\<rparr>"

text \<open>
  One turn of the loop: what it submits, and the rest of the input when the loop goes on. \<open>deadline\<close> says
  whether the read deadline could be set. A DISCONNECT clears the will and cancels the client's
  context, which ends the loop at the next turn.
\<close>

definition readLoop_turn ::
  "client_ptr \<Rightarrow> bool \<Rightarrow> bytes \<Rightarrow> Broker \<Rightarrow> (Broker \<times> Message list \<times> bytes option) option" where
  "readLoop_turn p deadline input b =
     do { c \<leftarrow> b_heap b p;
          if c_cancelled c then Some (b, [], None)
          else if ci_KeepAlive (c_info c) > 0 \<and> \<not> deadline then Some (b, [submitted p DisconnectedPacket], None)
          else (case ReadPacket input of
              (Some packet, None, rest) \<Rightarrow>
                let b = (case packet of
                    CP_Disconnect _ \<Rightarrow> set_client p (c\<lparr>c_willMsg := None, c_cancelled := True\<rparr>) b
                  | _ \<Rightarrow> b)
                in Some (b, [submitted p packet], Some rest)
            | _ \<Rightarrow> Some (b, [submitted p DisconnectedPacket], None)) }"

fun readLoop_fuel :: "nat \<Rightarrow> client_ptr \<Rightarrow> bool \<Rightarrow> bytes \<Rightarrow> Broker \<Rightarrow> (Broker \<times> Message list) option" where
  "readLoop_fuel 0 p deadline input b = None"
| "readLoop_fuel (Suc k) p deadline input b =
     do { (b, ms, more) \<leftarrow> readLoop_turn p deadline input b;
          (case more of
             None \<Rightarrow> Some (b, ms)
           | Some rest \<Rightarrow> do { (b, ms') \<leftarrow> readLoop_fuel k p deadline rest b; Some (b, ms @ ms') }) }"

text \<open>Every packet takes bytes from the input, so the number of bytes bounds the number of turns.\<close>

definition readLoop :: "client_ptr \<Rightarrow> bool \<Rightarrow> bytes \<Rightarrow> Broker \<Rightarrow> (Broker \<times> Message list) option" where
  "readLoop p deadline input b =
     do { c \<leftarrow> b_heap b p;
          if c_conn c = None then Some (b, []) else readLoop_fuel (length input + 2) p deadline input b }"

lemma readLoop_fuel_total:
  assumes "b_heap b p \<noteq> None" "length input < k"
  shows "\<exists>b' ms. readLoop_fuel k p deadline input b = Some (b', ms) \<and> b_heap b' p \<noteq> None"
  using assms
proof (induction k arbitrary: input b)
  case (Suc k)
  obtain c where c: "b_heap b p = Some c" using Suc(2) by auto
  show ?case
  proof (cases "c_cancelled c \<or> ci_KeepAlive (c_info c) > 0 \<and> \<not> deadline")
    case True
    then show ?thesis using c by (auto simp: readLoop_turn_def)
  next
    case False
    obtain packet err rest where r: "ReadPacket input = (packet, err, rest)" by (metis prod_cases3)
    show ?thesis
    proof (cases "packet = None \<or> err \<noteq> None")
      case True
      then show ?thesis using c False r by (auto simp: readLoop_turn_def split: option.splits)
    next
      case ok: False
      then obtain pk where pk: "packet = Some pk" "err = None" by auto
      have "length rest < length input" using ReadPacket_progress [of input pk None rest] r pk by auto
      define b1 where "b1 = (case pk of CP_Disconnect _ \<Rightarrow> set_client p (c\<lparr>c_willMsg := None, c_cancelled := True\<rparr>) b | _ \<Rightarrow> b)"
      have "b_heap b1 p \<noteq> None" using c by (auto simp: b1_def split: ControlPacket.split)
      from Suc(1) [OF this, of rest] \<open>length rest < length input\<close> Suc(3) obtain b' ms where
        "readLoop_fuel k p deadline rest b1 = Some (b', ms)" "b_heap b' p \<noteq> None" by auto
      moreover have "readLoop_turn p deadline input b = Some (b1, [submitted p pk], Some rest)"
        using c False r pk by (auto simp: readLoop_turn_def b1_def)
      ultimately show ?thesis by simp
    qed
  qed
qed simp

text \<open>Packets written one after the other.\<close>

fun written :: "ControlPacket list \<Rightarrow> bytes" where
  "written [] = []"
| "written (x # xs) = (case ControlPacket_Write x of None \<Rightarrow> [] | Some (_, bs) \<Rightarrow> bs) @ written xs"

definition received :: "ControlPacket \<Rightarrow> ControlPacket" where
  "received x = (case ControlPacket_Write x of None \<Rightarrow> x | Some (y, _) \<Rightarrow> as_read y)"

lemma ReadPacket_written_one:
  assumes "packet_wf x"
  shows "ReadPacket (written (x # xs) @ rest) = (Some (received x), None, written xs @ rest)"
  using packet_written [OF assms, of "written xs @ rest"] by (auto simp: received_def)

definition is_disconnect :: "ControlPacket \<Rightarrow> bool" where
  "is_disconnect x = (case x of CP_Disconnect _ \<Rightarrow> True | _ \<Rightarrow> False)"

lemma received_disconnect: "packet_wf x \<Longrightarrow> is_disconnect (received x) = is_disconnect x"
  by (cases x) (auto simp: received_def is_disconnect_def map_prod_def split: option.splits prod.splits)

lemma readLoop_packets:
  assumes "b_heap b p = Some c" "\<not> c_cancelled c" "\<forall>x \<in> set xs. packet_wf x \<and> \<not> is_disconnect x"
  shows "readLoop_fuel (length xs + k) p True (written xs @ rest) b =
    map_option (\<lambda>(b', ms). (b', map (\<lambda>x. submitted p (received x)) xs @ ms)) (readLoop_fuel k p True rest b)"
  using assms(3)
proof (induction xs)
  case Nil
  then show ?case by (simp add: option.map_ident split_beta)
next
  case (Cons x xs)
  have x: "packet_wf x" "\<not> is_disconnect (received x)" using Cons(2) received_disconnect by auto
  then have "readLoop_turn p True (written (x # xs) @ rest) b = Some (b, [submitted p (received x)], Some (written xs @ rest))"
    using assms(1,2) ReadPacket_written_one [OF x(1), of xs rest]
    by (cases "received x") (auto simp: readLoop_turn_def is_disconnect_def simp del: written.simps)
  then show ?case using Cons by (cases "readLoop_fuel k p True rest b") auto
qed

lemma readLoop_fuel_mono:
  "readLoop_fuel k p deadline input b = Some r \<Longrightarrow> k \<le> k' \<Longrightarrow> readLoop_fuel k' p deadline input b = Some r"
proof (induction k arbitrary: k' input b r)
  case (Suc k)
  obtain j where j: "k' = Suc j" "k \<le> j" using Suc(3) by (cases k') auto
  obtain b1 ms more where t: "readLoop_turn p deadline input b = Some (b1, ms, more)"
    using Suc(2) by (cases "readLoop_turn p deadline input b") auto
  show ?case
  proof (cases more)
    case None
    then show ?thesis using Suc(2) t j(1) by simp
  next
    case (Some rest)
    then obtain r1 where "readLoop_fuel k p deadline rest b1 = Some r1"
      using Suc(2) t by (cases "readLoop_fuel k p deadline rest b1") auto
    with Suc(1) [OF this j(2)] show ?thesis using Suc(2) t j(1) Some by simp
  qed
qed simp

lemma readLoop_eq:
  assumes "b_heap b p = Some c" "c_conn c \<noteq> None" "readLoop_fuel k p deadline input b = Some r"
  shows "readLoop p deadline input b = Some r"
proof -
  obtain r' where r': "readLoop_fuel (length input + 2) p deadline input b = Some r'"
    using readLoop_fuel_total [of b p input "length input + 2" deadline] assms(1) by auto
  have "r' = r"
    using readLoop_fuel_mono [OF r', of "max k (length input + 2)"] readLoop_fuel_mono [OF assms(3), of "max k (length input + 2)"] by simp
  with r' assms(1,2) show ?thesis unfolding readLoop_def by auto
qed

section \<open>Properties of the read loop\<close>

text \<open>
  C13. What a client sends is what its handlers get: the read loop returns on every input, and on a
  connection that carries well-formed packets one after the other it submits exactly these
  packets, in order. When the stream just ends it submits a DISCONNECT of its own, and the client's
  will stays; when the client sends DISCONNECT the loop stops there whatever follows, with
  the will cleared and the client's context cancelled.
\<close>

theorem readLoop_stream:
  assumes "b_heap b p = Some c" "\<not> c_cancelled c" "c_conn c \<noteq> None"
    "\<forall>x \<in> set xs. packet_wf x \<and> \<not> is_disconnect x" "packet_wf d" "is_disconnect d"
  shows "(\<forall>input. \<exists>r. readLoop p True input b = Some r) \<and>
    readLoop p True (written xs) b =
      Some (b, map (\<lambda>x. submitted p (received x)) xs @ [submitted p DisconnectedPacket]) \<and>
    readLoop p True (written xs @ written [d] @ rest) b =
      Some (set_client p (c\<lparr>c_willMsg := None, c_cancelled := True\<rparr>) b, map (\<lambda>x. submitted p (received x)) (xs @ [d]))"
proof (intro conjI allI)
  fix input
  show "\<exists>r. readLoop p True input b = Some r"
    using readLoop_fuel_total [of b p input "length input + 2" True] assms(1,3) by (auto simp: readLoop_def)
next
  have "readLoop_fuel 1 p True [] b = Some (b, [submitted p DisconnectedPacket])"
    using assms(1,2) by (simp add: readLoop_turn_def ReadPacket_def io_ReadFull_def)
  with readLoop_packets [OF assms(1,2,4), of 1 "[]"] show "readLoop p True (written xs) b =
      Some (b, map (\<lambda>x. submitted p (received x)) xs @ [submitted p DisconnectedPacket])"
    by (intro readLoop_eq [OF assms(1,3), of "length xs + 1"]) simp
next
  let ?b = "set_client p (c\<lparr>c_willMsg := None, c_cancelled := True\<rparr>) b"
  have "is_disconnect (received d)" using assms(5,6) received_disconnect by blast
  then have "readLoop_turn p True (written [d] @ rest) b = Some (?b, [submitted p (received d)], Some rest)"
    using assms(1,2) ReadPacket_written_one [OF assms(5), of "[]" rest]
    by (cases "received d") (auto simp: readLoop_turn_def is_disconnect_def simp del: written.simps(2))
  moreover have "readLoop_turn p True rest ?b = Some (?b, [], None)" by (simp add: readLoop_turn_def)
  ultimately have "readLoop_fuel 2 p True (written [d] @ rest) b = Some (?b, [submitted p (received d)])"
    by (simp add: numeral_2_eq_2)
  with readLoop_packets [OF assms(1,2,4), of 2 "written [d] @ rest"]
  show "readLoop p True (written xs @ written [d] @ rest) b = Some (?b, map (\<lambda>x. submitted p (received x)) (xs @ [d]))"
    by (intro readLoop_eq [OF assms(1,3), of "length xs + 2"]) simp
qed

theorem readLoop_stream_witness:
  "readLoop 0 True (written [CP_Publish sample_publish]) sample_broker =
     Some (sample_broker, [submitted 0 (received (CP_Publish sample_publish)), submitted 0 DisconnectedPacket])"
proof -
  have "packet_wf (CP_Publish sample_publish)" "\<not> is_disconnect (CP_Publish sample_publish)"
    "packet_wf (CP_Disconnect (zeroHeader Disconnect 0))" "is_disconnect (CP_Disconnect (zeroHeader Disconnect 0))"
    "\<not> c_cancelled sample_client" "c_conn sample_client \<noteq> None"
    by (simp_all add: sample_publish_def new_PublishPacket_def zeroHeader_def is_disconnect_def sample_client_def new_client_def)
  with readLoop_stream [OF sample_heap, of "[CP_Publish sample_publish]" "CP_Disconnect (zeroHeader Disconnect 0)"]
  show ?thesis by simp
qed

section \<open>Closing a client leaves the others with a connection alone\<close>

definition kept_conn :: "client_ptr \<Rightarrow> Broker \<Rightarrow> Broker \<Rightarrow> bool" where
  "kept_conn q b b' \<longleftrightarrow> (\<forall>c. b_heap b q = Some c \<longrightarrow> c_conn c \<noteq> None \<longrightarrow> b_heap b' q = Some c)"

lemma kept_conn_refl [simp]: "kept_conn q b b"
  by (simp add: kept_conn_def)

lemma kept_conn_trans: "kept_conn q a b \<Longrightarrow> kept_conn q b c \<Longrightarrow> kept_conn q a c"
  by (simp add: kept_conn_def)

lemma kept_conn_same: "b_heap b' q = b_heap b q \<Longrightarrow> kept_conn q b b'"
  by (simp add: kept_conn_def)

lemma kept_conn_fold:
  assumes "\<And>x b b'. f x b = Some b' \<Longrightarrow> kept_conn q b b'" "fold_opt f xs b = Some b'"
  shows "kept_conn q b b'"
  by (rule fold_opt_rel [OF _ kept_conn_refl kept_conn_trans assms(2)]) (use assms(1) in auto)

lemma kept_conn_Close_topic: "p \<noteq> q \<Longrightarrow> Close_topic e now p ts b = Some b' \<Longrightarrow> kept_conn q b b'"
  by (rule kept_conn_same) (auto simp: Close_topic_def bind_eq_Some_conv Let_def split: if_splits)

lemma kept_conn_WriterPacket_with:
  assumes "\<And>p b b'. p \<noteq> q \<Longrightarrow> close p b = Some b' \<Longrightarrow> kept_conn q b b'"
    and "WriterPacket_with close p packet b = Some (b', err)"
  shows "kept_conn q b b'"
proof -
  obtain c where c: "b_heap b p = Some c" using assms(2) by (auto simp: WriterPacket_with_def bind_eq_Some_conv)
  show ?thesis
  proof (cases "c_status c = Disconnected \<or> c_conn c \<noteq> None")
    case True
    then show ?thesis
      using assms(2) c by (auto simp: WriterPacket_with_def kept_conn_def split: if_splits option.splits)
  next
    case False
    then obtain b1 where b1: "close p b = Some b1" "b' = b1"
      using assms(2) c by (auto simp: WriterPacket_with_def bind_eq_Some_conv)
    show ?thesis
    proof (cases "p = q")
      case True
      then show ?thesis using c False by (auto simp: kept_conn_def)
    qed (use assms(1) b1 in blast)
  qed
qed

lemma kept_conn_PublishMessage_with:
  assumes w: "\<And>p packet b b' err. writer p packet b = Some (b', err) \<Longrightarrow> kept_conn q b b'"
    and m: "PublishMessage_with writer packet b = Some b'"
  shows "kept_conn q b b'"
proof -
  let ?f = "\<lambda>s b. case s of
     IfPtr a \<Rightarrow> do { sub \<leftarrow> b_subheap b a; (b', _) \<leftarrow> writer (sub_client sub) (CP_Publish packet) b; Some b' } | _ \<Rightarrow> Some b"
  have "kept_conn q b b'" if "?f s b = Some b'" for s b b'
    using that by (cases s) (auto simp: bind_eq_Some_conv dest: w)
  then have "kept_conn q b b'" if "fold_opt ?f ss b = Some b'" for ss
    using that by (rule kept_conn_fold)
  then show ?thesis using m by (auto simp: PublishMessage_with_def bind_eq_Some_conv split: if_splits)
qed

lemma kept_conn_Close: "p \<noteq> q \<Longrightarrow> Close n e now p b = Some b' \<Longrightarrow> kept_conn q b b'"
proof (induction n arbitrary: p b b')
  case (Suc n)
  have w: "kept_conn q b b'" if "WriterPacket_with (Close n e now) p packet b = Some (b', err)" for p packet b b' err
    using kept_conn_WriterPacket_with [OF _ that] Suc(1) by blast
  obtain c where c: "b_heap b p = Some c" using Suc(3) by (auto simp: Close_with_def bind_eq_Some_conv)
  show ?case
  proof (cases "c_status c = Disconnected")
    case True
    then show ?thesis using Suc(3) c by (simp add: Close_with_def)
  next
    case False
    define b2 where "b2 = StoreRemoveClient (ci_ID (c_info (marked c))) (RemoveClient (ci_ID (c_info (marked c)))
      (set_client p (marked c) (if c_conn c = None then b else emit (ConnClosed p) b)))"
    have 2: "kept_conn q b b2"
      using Suc(2) by (intro kept_conn_same) (auto simp: b2_def StoreRemoveClient_def RemoveClient_def split: option.split)
    obtain b3 where b3: "fold_opt (Close_topic e now p) (c_subMap (marked c)) b2 = Some b3"
      using Suc(3) c False by (cases "fold_opt (Close_topic e now p) (c_subMap (marked c)) b2")
        (auto simp: Close_with_def b2_def marked_def Let_def)
    have 3: "kept_conn q b2 b3" using kept_conn_fold [OF kept_conn_Close_topic [OF Suc(2)] b3] .
    obtain c3 where c3: "b_heap b3 p = Some c3"
      using Suc(3) c False b3 by (auto simp: Close_with_def b2_def marked_def Let_def bind_eq_Some_conv)
    define b4 where "b4 = (if notifying b3 then emit (Notified (OnClientDisconnected (c_info c3))) b3 else b3)"
    have 4: "kept_conn q b3 b4" by (rule kept_conn_same) (simp add: b4_def)
    have "(case c_willMsg c3 of None \<Rightarrow> Some b4 | Some x \<Rightarrow> PublishMessage_with (WriterPacket_with (Close n e now)) x b4) = Some b'"
      using Suc(3) c False b3 c3 unfolding b4_def by (simp add: Close_with_def b2_def marked_def Let_def)
    then have "kept_conn q b4 b'" using kept_conn_PublishMessage_with [OF w] by (auto split: option.splits)
    with 2 3 4 show ?thesis using kept_conn_trans by blast
  qed
qed simp

section \<open>A new client\<close>

lemma sess_wf_on_session:
  "on_session f a m = Some (m', r) \<Longrightarrow> sess_wf (sessions_p m) \<Longrightarrow> sess_wf (sessions_p m')"
  by (auto simp: on_session_def sess_wf_def split: option.splits prod.splits if_splits)

lemma getSession_total:
  assumes "sess_wf (sessions_p mgr)"
  obtains r a where "getSession mgr rnd None req resp = Some r" "gs_err r = None" "gs_session r = Some a"
    "sess_wf (sessions_p (gs_mgr r))" "gm_get (sess_heap (sessions_p (gs_mgr r))) a \<noteq> None"
    "\<forall>x. gm_get (sess_heap (sessions_p mgr)) x \<noteq> None \<longrightarrow> gm_get (sess_heap (sessions_p (gs_mgr r))) x \<noteq> None"
proof (cases "CleanSession (effective_req req) \<or> gm_get (st (sessions_p mgr)) (ClientIdentifier req) = None")
  case True
  from getSession_fresh [OF assms this, of rnd resp] show ?thesis by (fastforce intro: that)
next
  case False
  then obtain a where a: "gm_get (st (sessions_p mgr)) (ClientIdentifier req) = Some a" by auto
  obtain r s where r: "getSession mgr rnd None req resp = Some r" "gs_err r = None" "gs_session r = Some a"
    "gm_get (sess_heap (sessions_p (gs_mgr r))) = (gm_get (sess_heap (sessions_p mgr)))(a \<mapsto> s\<lparr>cmsg := Some req\<rparr>)"
    "st (sessions_p (gs_mgr r)) = st (sessions_p mgr)"
    using getSession_resume [OF assms _ a, of rnd None resp] False by auto
  have "sess_wf (sessions_p (gs_mgr r))"
    using r(1) False a assms sess_wf_on_session
    by (auto simp: getSession_def effective_req_def sessions_Manager_Get_def memProvider_Get_def Let_def
        split: if_splits option.splits)
  with r show ?thesis by (intro that) auto
qed

text \<open>The state after a client was allocated.\<close>

definition with_client :: "client \<Rightarrow> SessionManager \<Rightarrow> Broker \<Rightarrow> Broker" where
  "with_client c sm b = (set_client (b_next b) c b)\<lparr>b_next := b_next b + 1, b_sessionMgr := sm\<rparr>"

lemma with_client_simps [simp]:
  "b_heap (with_client c sm b) = (b_heap b)(b_next b \<mapsto> c)" "b_subheap (with_client c sm b) = b_subheap b"
  "in_force (with_client c sm b) = in_force b" "registry (with_client c sm b) = registry b"
  "b_topicsMgr (with_client c sm b) = b_topicsMgr b" "b_sessionMgr (with_client c sm b) = sm"
  "b_out (with_client c sm b) = b_out b" "b_next (with_client c sm b) = Suc (b_next b)"
  "b_subnext (with_client c sm b) = b_subnext b" "notifying (with_client c sm b) = notifying b"
  by (simp_all add: with_client_def in_force_def registry_def set_client_def notifying_def)

lemma with_client_inv:
  assumes "broker_inv b" "c_subMap c = []"
  shows "broker_inv (with_client c sm b)"
proof -
  have fresh: "b_heap b (b_next b) = None" using assms(1) by (simp add: broker_inv_def)
  have "tree_sound (with_client c sm b)"
    unfolding tree_sound_def
  proof (intro allI impI)
    fix ls a assume "(ls, a) \<in> in_force (with_client c sm b)"
    then have "(ls, a) \<in> in_force b" by simp
    then obtain sub d t where "b_subheap b a = Some sub" "b_heap b (sub_client sub) = Some d"
      "gm_get (c_subMap d) t = Some a" "topic_levels (sub_topic sub) = Some ls"
      using assms(1) unfolding broker_inv_def tree_sound_def by blast
    moreover from this fresh have "sub_client sub \<noteq> b_next b" by auto
    ultimately show "\<exists>sub d t. b_subheap (with_client c sm b) a = Some sub \<and>
        b_heap (with_client c sm b) (sub_client sub) = Some d \<and> gm_get (c_subMap d) t = Some a \<and>
        topic_levels (sub_topic sub) = Some ls" by auto
  qed
  moreover have "client_ok (with_client c sm b) p d" if "b_heap (with_client c sm b) p = Some d" for p d
    using that assms unfolding broker_inv_def client_ok_def by (auto split: if_splits)
  ultimately show ?thesis using assms(1) by (auto simp: broker_inv_def)
qed

lemma with_client_ready:
  assumes "ready n b" "c_subMap c = []" "sess_wf (sessions_p sm)"
    "\<And>x. gm_get (sess_heap (sessions_p (b_sessionMgr b))) x \<noteq> None \<Longrightarrow> gm_get (sess_heap (sessions_p sm)) x \<noteq> None"
    "c_typ c = LOCAL \<longrightarrow> (\<exists>a. c_session c = Some a \<and> gm_get (sess_heap (sessions_p sm)) a \<noteq> None)"
    "c_typ c = REMOTE \<longrightarrow> c_session c = None"
    "Suc (card (online b)) < n"
  shows "ready n (with_client c sm b)"
proof -
  let ?b = "with_client c sm b"
  have inv: "broker_inv b" using assms(1) by (simp add: ready_def)
  have "online ?b \<subseteq> insert (b_next b) (online b)" by (auto simp: online_def)
  then have "card (online ?b) \<le> card (insert (b_next b) (online b))"
    using online_finite [OF inv] by (intro card_mono) auto
  also have "\<dots> \<le> Suc (card (online b))" by (simp add: card_insert_if online_finite [OF inv])
  finally have "card (online ?b) < n" using assms(7) by simp
  moreover have "sess_ok ?b"
    using assms(1,3-6) unfolding ready_def sess_ok_def by (auto split: if_splits) metis+
  moreover have "reg_ok ?b" using assms(1) unfolding ready_def reg_ok_def by auto
  ultimately show ?thesis using with_client_inv [OF inv assms(2)] assms(1) by (simp add: ready_def)
qed

text \<open>Registration, after the client that had the identifier was closed.\<close>

definition registered_at :: "client_ptr \<Rightarrow> Client \<Rightarrow> Broker \<Rightarrow> Broker" where
  "registered_at p info b =
     (let b = StoreAddORUpdateClient info (b\<lparr>b_clients := gm_put (ci_ID info) (ClientObj p) (b_clients b)\<rparr>) in
      if notifying b then emit (Notified (OnClientConnect info)) b else b)"

lemma registered_at_simps [simp]:
  "b_heap (registered_at p info b) = b_heap b" "online (registered_at p info b) = online b"
  "registry (registered_at p info b) = (registry b)(ci_ID info \<mapsto> ClientObj p)"
  "in_force (registered_at p info b) = in_force b" "b_subheap (registered_at p info b) = b_subheap b"
  "b_topicsMgr (registered_at p info b) = b_topicsMgr b" "b_sessionMgr (registered_at p info b) = b_sessionMgr b"
  "b_next (registered_at p info b) = b_next b" "b_subnext (registered_at p info b) = b_subnext b"
  by (auto simp: registered_at_def StoreAddORUpdateClient_def emit_def Let_def online_def registry_def in_force_def)

lemma registered_at_ready:
  assumes "ready n b" "b_heap b p \<noteq> None"
  shows "ready n (registered_at p info b)"
proof -
  have "broker_inv (registered_at p info b)"
    using assms(1) by (simp add: ready_def broker_inv_def tree_sound_def client_ok_def)
  then show ?thesis using assms by (auto simp: ready_def sess_ok_def reg_ok_def)
qed

lemma registered_at_out: "\<exists>xs. b_out (registered_at p info b) = b_out b @ xs"
  by (auto simp: registered_at_def StoreAddORUpdateClient_def emit_def Let_def)

lemma register_ok:
  assumes r: "ready n b" and c: "b_heap b p = Some c" "c_conn c \<noteq> None"
    and p: "registry b (ci_ID info) \<noteq> Some (ClientObj p)"
  shows "\<exists>b'. register n e now p info b = Some (registered_at p info b') \<and> steps n b b' \<and> b_heap b' p = Some c \<and>
    (\<exists>xs. b_out b' = b_out b @ xs) \<and>
    (\<forall>q. registry b (ci_ID info) = Some (ClientObj q) \<longrightarrow> q \<notin> online b')"
proof (cases "\<exists>q. registry b (ci_ID info) = Some (ClientObj q)")
  case True
  then obtain q where q: "gm_get (b_clients b) (ci_ID info) = Some (ClientObj q)" by (auto simp: registry_def)
  have "b_heap b q \<noteq> None" using r q by (auto simp: ready_def reg_ok_def registry_def)
  then obtain d where d: "b_heap b q = Some d" by auto
  obtain b' where b': "Close n e now q b = Some b'" "settles b b'" "q \<notin> online b'"
    using Close_ok [of e n now] r d unfolding close_ok_def ready_def by blast
  have "q \<noteq> p" using p q by (auto simp: registry_def)
  from kept_conn_Close [OF this b'(1)] c have "b_heap b' p = Some c" by (simp add: kept_conn_def)
  moreover have "register n e now p info b = Some (registered_at p info b')"
    using q b'(1) by (simp add: register_def registered_at_def Let_def)
  moreover have "\<exists>xs. b_out b' = b_out b @ xs" using b'(2) by (simp add: settles_def calmer_def)
  ultimately show ?thesis using settles_steps [OF b'(2) r] b'(3) q by (auto simp: registry_def)
next
  case False
  then have "register n e now p info b = Some (registered_at p info b)"
    by (auto simp: register_def registered_at_def registry_def Let_def split: option.split registered.split)
  then show ?thesis using c False steps_refl [OF r] by auto
qed

section \<open>Properties of the handshake\<close>

text \<open>Whether a CONNECT is accepted, and the answer to it.\<close>

definition admitted :: "env \<Rightarrow> Broker \<Rightarrow> ConnectPacket \<Rightarrow> bool" where
  "admitted e b msg \<longleftrightarrow> ConnectPacket_Validate msg = Accepted \<and> (b_AuthEnable b \<longrightarrow>
     CheckConnectAuth e b (ClientIdentifier msg) (Username msg) (string_of_bytes (Password msg)))"

definition answer :: "ConnectPacket \<Rightarrow> byte \<Rightarrow> ConnackPacket" where
  "answer msg code = (new_ConnackPacket (zeroHeader Connack 0))\<lparr>SessionPresent := CleanSession msg, ReturnCode := code\<rparr>"

lemma refuse_emits: "refuse True p connack b = emits [Wrote p (CP_Connack connack), ConnClosed p] b"
  by (simp add: refuse_def emits_def emit_def)

lemma handleConnection_refused:
  assumes "ReadPacket input = (Some (CP_Connect msg), None, rest)" "\<not> admitted e b msg"
  shows "\<exists>code. code \<noteq> Accepted \<and> handleConnection n e now ip rnd True LOCAL input b =
    Some (emits [Wrote (b_next b) (CP_Connack (answer msg code)), ConnClosed (b_next b)] b, None)"
proof (cases "ConnectPacket_Validate msg = Accepted")
  case True
  then have "handleConnection n e now ip rnd True LOCAL input b =
      Some (emits [Wrote (b_next b) (CP_Connack (answer msg ErrRefusedNotAuthorised)), ConnClosed (b_next b)] b, None)"
    using assms by (simp add: handleConnection_def admitted_def answer_def refuse_emits Let_def)
  then show ?thesis by (intro exI [of _ ErrRefusedNotAuthorised]) simp
next
  case False
  then have "handleConnection n e now ip rnd True LOCAL input b =
      Some (emits [Wrote (b_next b) (CP_Connack (answer msg (ConnectPacket_Validate msg))), ConnClosed (b_next b)] b, None)"
    using assms by (simp add: handleConnection_def answer_def refuse_emits Let_def)
  then show ?thesis using False by blast
qed

lemma handleConnection_admitted:
  assumes "ReadPacket input = (Some (CP_Connect msg), None, rest)" "admitted e b msg"
  shows "handleConnection n e now ip rnd True LOCAL input b =
    do { (b, p) \<leftarrow> accept_connection n e now ip rnd True LOCAL msg (answer msg Accepted) b;
         Some (b, map_option (\<lambda>p. (p, rest)) p) }"
  using assms by (auto simp: handleConnection_def admitted_def answer_def Let_def)

lemma client_info_emit [simp]: "client_info e (emit x b) msg = client_info e b msg"
  by (cases "Other msg") (simp_all add: client_info_def info_of_def emit_def)

lemma accept_connection_ok:
  assumes r: "ready n b" "Suc (card (online b)) < n" and i: "client_info e b msg = Some info"
  shows "\<exists>b' c. accept_connection n e now ip rnd True LOCAL msg connack b = Some (b', Some (b_next b)) \<and> ready n b' \<and>
    b_heap b' (b_next b) = Some c \<and> c_typ c = LOCAL \<and> c_status c = Connected \<and> c_conn c = Some True \<and>
    c_subMap c = [] \<and> c_willMsg c = will_of msg \<and>
    c_info c = info\<lparr>ci_Status := Connected, ci_Timestamp := now, ci_ConnectIP := ip\<rparr> \<and>
    registry b' (ci_ID info) = Some (ClientObj (b_next b)) \<and>
    (\<forall>q. registry b (ci_ID info) = Some (ClientObj q) \<longrightarrow> q \<notin> online b') \<and>
    (\<exists>xs. b_out b' = b_out b @ Wrote (b_next b) (CP_Connack connack) # xs) \<and>
    (\<forall>q d. b_heap b q = Some d \<longrightarrow> (\<exists>d'. b_heap b' q = Some d' \<and> kept_client d d'))"
proof -
  let ?p = "b_next b"
  define b1 where "b1 = emit (Wrote ?p (CP_Connack connack)) b"
  have b1: "ready n b1" "b_next b1 = ?p" "online b1 = online b" "registry b1 = registry b" "b_sessionMgr b1 = b_sessionMgr b"
    using steps_ready [OF steps_announce(2) [OF r(1)]] by (simp_all add: b1_def emit_def online_def registry_def)
  have i1: "client_info e b1 msg = Some info" using i by (simp add: b1_def)
  define c0 where "c0 = client_init now ip (new_client LOCAL (Some True) info (will_of msg))"
  have c0: "c_session c0 = None" "c_info c0 = info\<lparr>ci_Status := Connected, ci_Timestamp := now, ci_ConnectIP := ip\<rparr>"
    by (auto simp: c0_def client_init_def new_client_def Let_def)
  have wf: "sess_wf (sessions_p (b_sessionMgr b1))" using b1(1) by (simp add: ready_def sess_ok_def)
  obtain gr a where gr: "getSession (b_sessionMgr b1) rnd None msg connack = Some gr" "gs_err gr = None"
    "gs_session gr = Some a" "sess_wf (sessions_p (gs_mgr gr))" "gm_get (sess_heap (sessions_p (gs_mgr gr))) a \<noteq> None"
    "\<forall>x. gm_get (sess_heap (sessions_p (b_sessionMgr b1))) x \<noteq> None \<longrightarrow> gm_get (sess_heap (sessions_p (gs_mgr gr))) x \<noteq> None"
    by (rule getSession_total [OF wf, of rnd msg connack])
  define c where "c = c0\<lparr>c_session := Some a\<rparr>"
  have c: "c_typ c = LOCAL" "c_status c = Connected" "c_conn c = Some True" "c_subMap c = []" "c_willMsg c = will_of msg"
    "c_info c = info\<lparr>ci_Status := Connected, ci_Timestamp := now, ci_ConnectIP := ip\<rparr>" "c_session c = Some a"
    by (auto simp: c_def c0_def client_init_def new_client_def Let_def)
  define b2 where "b2 = with_client c (gs_mgr gr) b1"
  have b2: "ready n b2" unfolding b2_def
    by (rule with_client_ready [OF b1(1)]) (use c gr r(2) b1(3) in auto)
  have h2: "b_heap b2 ?p = Some c" "registry b2 = registry b" by (simp_all add: b2_def b1)
  have new: "b_heap b ?p = None" using r(1) by (simp add: ready_def broker_inv_def)
  then have fresh: "registry b2 (ci_ID (c_info c)) \<noteq> Some (ClientObj ?p)"
    using r(1) unfolding h2(2) ready_def reg_ok_def by blast
  have conn: "c_conn c \<noteq> None" using c(3) by simp
  obtain b3 where b3: "register n e now ?p (c_info c) b2 = Some (registered_at ?p (c_info c) b3)" "steps n b2 b3"
    "b_heap b3 ?p = Some c" "\<exists>xs. b_out b3 = b_out b2 @ xs"
    "\<forall>q. registry b2 (ci_ID (c_info c)) = Some (ClientObj q) \<longrightarrow> q \<notin> online b3"
    using register_ok [OF b2 h2(1) conn fresh, of e now] by blast
  have eq: "accept_connection n e now ip rnd True LOCAL msg connack b = Some (registered_at ?p (c_info c) b3, Some ?p)"
    using i1 gr(1-3) b3(1) c0 unfolding accept_connection_def Let_def b1_def [symmetric]
    by (simp add: b1(2) c0_def [symmetric] c_def b2_def with_client_def)
  have "ready n (registered_at ?p (c_info c) b3)"
    by (rule registered_at_ready [OF steps_ready [OF b3(2)]]) (simp add: b3(3))
  moreover have "\<exists>xs. b_out (registered_at ?p (c_info c) b3) = b_out b @ Wrote ?p (CP_Connack connack) # xs"
    using b3(4) registered_at_out [of ?p "c_info c" b3] by (auto simp: b2_def b1_def emit_def)
  moreover have "\<exists>d'. b_heap (registered_at ?p (c_info c) b3) q = Some d' \<and> kept_client d d'" if d: "b_heap b q = Some d" for q d
  proof -
    have "b_heap b2 q = Some d" using d new by (auto simp: b2_def b1_def b1(2) emit_def)
    then obtain d' where "b_heap b3 q = Some d'" "kept_client d d'" by (rule steps_get [OF b3(2)])
    then show ?thesis by simp
  qed
  ultimately show ?thesis using eq c b3(3,5) h2(2) by auto
qed


text \<open>A CONNECT of version 3.1.1 for the client \<open>c1\<close>, which is already connected.\<close>

definition hello :: ConnectPacket where
  "hello = (new_ConnectPacket (zeroHeader Connect 0))\<lparr>ProtocolName := ''MQTT'', ProtocolVersion := 4,
     CleanSession := True, ClientIdentifier := ''c1''\<rparr>"


end
