(* ===== verification/WorkerPool.thy ===== *)
theory WorkerPool
  imports Prelude
begin

text \<open>
  The worker pool (\<open>src/pool/fixpool.go\<close>): a fixed number of workers, each with a buffered channel of tasks;
  a task is sent to the channel its identifier hashes to. The FNV-1a hash is a parameter. A
  task is kept with the identifier it was submitted under.
\<close>

abbreviation taskBuffer :: nat where "taskBuffer \<equiv> 1024"

record 't WorkerPool =
  maxWorkers :: nat
  taskQueue :: "(string \<times> 't) list list"

text \<open>\<open>New\<close> with \<open>dispatch\<close>: at least one worker, all channels empty.\<close>

definition pool_New :: "int \<Rightarrow> 't WorkerPool" where
  "pool_New n =
     (let m = (if n < 1 then 1 else nat n) in \<lparr>maxWorkers = m, taskQueue = replicate m []\<rparr>)"

definition pool_index :: "(string \<Rightarrow> 64 word) \<Rightarrow> 't WorkerPool \<Rightarrow> string \<Rightarrow> nat" where
  "pool_index h p uid = unat (h uid mod word_of_nat (maxWorkers p))"

text \<open>Sending to a full channel blocks: None. A nil task is not sent.\<close>

definition pool_Submit :: "(string \<Rightarrow> 64 word) \<Rightarrow> string \<Rightarrow> 't option \<Rightarrow> 't WorkerPool \<Rightarrow> 't WorkerPool option" where
  "pool_Submit h uid task p =
     (case task of
        None \<Rightarrow> Some p
      | Some t \<Rightarrow>
          let i = pool_index h p uid in
          if length (taskQueue p ! i) < taskBuffer
          then Some (p\<lparr>taskQueue := (taskQueue p)[i := taskQueue p ! i @ [(uid, t)]]\<rparr>)
          else None)"

text \<open>A turn of worker \<open>i\<close>: it takes the oldest task of its channel and runs it; None when there is none.\<close>

definition startWorker_turn :: "nat \<Rightarrow> 't WorkerPool \<Rightarrow> ((string \<times> 't) \<times> 't WorkerPool) option" where
  "startWorker_turn i p =
     (if i < length (taskQueue p) then
        (case taskQueue p ! i of
           [] \<Rightarrow> None
         | x # xs \<Rightarrow> Some (x, p\<lparr>taskQueue := (taskQueue p)[i := xs]\<rparr>))
      else None)"

section \<open>Histories\<close>

datatype 't pool_event = Submitted string 't | Ran nat string 't

inductive pool_step :: "(string \<Rightarrow> 64 word) \<Rightarrow> 't WorkerPool \<Rightarrow> 't pool_event \<Rightarrow> 't WorkerPool \<Rightarrow> bool" for h where
  submit: "pool_Submit h uid (Some t) p = Some p' \<Longrightarrow> pool_step h p (Submitted uid t) p'"
| run: "startWorker_turn i p = Some ((uid, t), p') \<Longrightarrow> pool_step h p (Ran i uid t) p'"

inductive pool_trace :: "(string \<Rightarrow> 64 word) \<Rightarrow> 't WorkerPool \<Rightarrow> 't pool_event list \<Rightarrow> 't WorkerPool \<Rightarrow> bool" for h where
  start: "pool_trace h p [] p"
| more: "pool_trace h p es p' \<Longrightarrow> pool_step h p' ev p'' \<Longrightarrow> pool_trace h p (es @ [ev]) p''"

fun sent :: "string \<Rightarrow> 't pool_event list \<Rightarrow> 't list" where
  "sent u [] = []"
| "sent u (Submitted v t # es) = (if v = u then [t] else []) @ sent u es"
| "sent u (Ran i v t # es) = sent u es"

fun executed :: "string \<Rightarrow> 't pool_event list \<Rightarrow> 't list" where
  "executed u [] = []"
| "executed u (Submitted v t # es) = executed u es"
| "executed u (Ran i v t # es) = (if v = u then [t] else []) @ executed u es"

lemma history_append [simp]:
  "sent u (es @ es') = sent u es @ sent u es'" "executed u (es @ es') = executed u es @ executed u es'"
  by (induction u es rule: sent.induct) auto

definition waiting :: "string \<Rightarrow> (string \<times> 't) list \<Rightarrow> 't list" where
  "waiting u q = map snd (filter (\<lambda>x. fst x = u) q)"

lemma waiting_simps [simp]:
  "waiting u [] = []" "waiting u (x # q) = (if fst x = u then [snd x] else []) @ waiting u q"
  "waiting u (q @ q') = waiting u q @ waiting u q'"
  by (simp_all add: waiting_def)

section \<open>Well-formed pools\<close>

text \<open>Every task waits in the channel of its identifier, and no channel exceeds its buffer.\<close>

definition pool_ok :: "(string \<Rightarrow> 64 word) \<Rightarrow> 't WorkerPool \<Rightarrow> bool" where
  "pool_ok h p \<longleftrightarrow> 0 < maxWorkers p \<and> maxWorkers p < 2 ^ 64 \<and> length (taskQueue p) = maxWorkers p \<and>
     (\<forall>i < maxWorkers p. length (taskQueue p ! i) \<le> taskBuffer \<and>
        (\<forall>x \<in> set (taskQueue p ! i). pool_index h p (fst x) = i))"

lemma pool_index_less:
  assumes "0 < maxWorkers p" "maxWorkers p < 2 ^ 64"
  shows "pool_index h p uid < maxWorkers p"
proof -
  have "unat (word_of_nat (maxWorkers p) :: 64 word) = maxWorkers p"
    using assms(2) by (simp add: unat_of_nat)
  then show ?thesis using assms(1) by (simp add: pool_index_def unat_mod_distrib)
qed

lemma pool_ok_index: "pool_ok h p \<Longrightarrow> pool_index h p uid < maxWorkers p"
  by (rule pool_index_less) (simp_all add: pool_ok_def)

lemma pool_New_ok: "n < 2 ^ 64 \<Longrightarrow> pool_ok h (pool_New n)"
  by (auto simp: pool_ok_def pool_New_def Let_def nat_less_iff)

lemma pool_step_ok:
  assumes "pool_step h p ev p'" "pool_ok h p"
  shows "pool_ok h p' \<and> maxWorkers p' = maxWorkers p"
  using assms
proof (cases rule: pool_step.cases)
  case (submit uid t)
  let ?i = "pool_index h p uid"
  have i: "?i < maxWorkers p" using pool_ok_index [OF assms(2)] assms(2) by (simp add: pool_ok_def)
  have p': "p' = p\<lparr>taskQueue := (taskQueue p)[?i := taskQueue p ! ?i @ [(uid, t)]]\<rparr>" "length (taskQueue p ! ?i) < taskBuffer"
    using submit by (auto simp: pool_Submit_def Let_def split: if_splits)
  then have "pool_index h p' = pool_index h p" by (simp add: pool_index_def fun_eq_iff)
  then show ?thesis using assms(2) i p' by (auto simp: pool_ok_def nth_list_update split: if_splits)
next
  case (run i uid t)
  then obtain xs where xs: "i < length (taskQueue p)" "taskQueue p ! i = (uid, t) # xs" "p' = p\<lparr>taskQueue := (taskQueue p)[i := xs]\<rparr>"
    by (auto simp: startWorker_turn_def split: if_splits list.splits)
  then have "pool_index h p' = pool_index h p" by (simp add: pool_index_def fun_eq_iff)
  then show ?thesis using assms(2) xs by (auto simp: pool_ok_def nth_list_update split: if_splits)
qed

lemma pool_step_order:
  assumes "pool_step h p ev p'" "pool_ok h p"
  shows "executed u [ev] @ waiting u (taskQueue p' ! pool_index h p u) = waiting u (taskQueue p ! pool_index h p u) @ sent u [ev]"
  using assms
proof (cases rule: pool_step.cases)
  case (submit uid t)
  have i: "pool_index h p u < length (taskQueue p)" for u using pool_ok_index [OF assms(2)] assms(2) by (simp add: pool_ok_def)
  have "p' = p\<lparr>taskQueue := (taskQueue p)[pool_index h p uid := taskQueue p ! pool_index h p uid @ [(uid, t)]]\<rparr>"
    using submit by (auto simp: pool_Submit_def Let_def split: if_splits)
  then show ?thesis using submit i by (cases "pool_index h p uid = pool_index h p u") (auto simp: nth_list_update)
next
  case (run i uid t)
  then obtain xs where xs: "i < length (taskQueue p)" "taskQueue p ! i = (uid, t) # xs" "p' = p\<lparr>taskQueue := (taskQueue p)[i := xs]\<rparr>"
    by (auto simp: startWorker_turn_def split: if_splits list.splits)
  have "pool_index h p uid = i" using assms(2) xs by (fastforce simp: pool_ok_def)
  then show ?thesis using run xs by (cases "i = pool_index h p u") (auto simp: nth_list_update)
qed

lemma pool_trace_inv:
  assumes "pool_trace h p es p'" "pool_ok h p"
  shows "pool_ok h p' \<and> maxWorkers p' = maxWorkers p \<and>
    waiting u (taskQueue p ! pool_index h p u) @ sent u es = executed u es @ waiting u (taskQueue p' ! pool_index h p u)"
  using assms
proof (induction rule: pool_trace.induct)
  case (more p es p' ev p'')
  then have IH: "pool_ok h p'" "maxWorkers p' = maxWorkers p"
    "waiting u (taskQueue p ! pool_index h p u) @ sent u es = executed u es @ waiting u (taskQueue p' ! pool_index h p u)"
    by auto
  have "pool_index h p' u = pool_index h p u" using IH(2) by (simp add: pool_index_def)
  with pool_step_order [OF more(2) IH(1), of u] pool_step_ok [OF more(2) IH(1)] IH show ?case by simp
qed simp

section \<open>Property\<close>

text \<open>
  C12. Tasks of one identifier run in the order they were submitted: in every history of a new pool, under
  every interleaving of its workers, the tasks of an identifier that have run, followed by those of
  it that wait in the one channel it hashes to, are exactly the tasks submitted under it; no
  task is lost, run twice or overtaken. No channel ever exceeds its buffer, a waiting task can
  always be run by its worker, and a submission blocks only when its channel is full.
\<close>

theorem per_client_order:
  fixes p :: "'t WorkerPool"
  assumes "n < 2 ^ 64" "pool_trace h (pool_New n) es p"
  shows "sent u es = executed u es @ waiting u (taskQueue p ! pool_index h p u) \<and>
    (\<forall>i < maxWorkers p. length (taskQueue p ! i) \<le> taskBuffer \<and>
       (taskQueue p ! i \<noteq> [] \<longrightarrow> (\<exists>v t p'. pool_step h p (Ran i v t) p'))) \<and>
    (\<forall>v t. pool_Submit h v (Some t) p = None \<longleftrightarrow> length (taskQueue p ! pool_index h p v) = taskBuffer)"
proof -
  have new: "pool_ok h (pool_New n :: 't WorkerPool)" by (rule pool_New_ok [OF assms(1)])
  note inv = pool_trace_inv [OF assms(2) new, of u]
  have ok: "pool_ok h p" using inv by simp
  have i: "pool_index h (pool_New n :: 't WorkerPool) v < maxWorkers (pool_New n :: 't WorkerPool)" for v
    by (rule pool_ok_index [OF new])
  have "pool_index h p u = pool_index h (pool_New n :: 't WorkerPool) u" using inv by (simp add: pool_index_def)
  moreover have "taskQueue (pool_New n :: 't WorkerPool) ! pool_index h (pool_New n :: 't WorkerPool) u = []"
    using i [of u] by (simp add: pool_New_def Let_def split: if_splits)
  ultimately have "sent u es = executed u es @ waiting u (taskQueue p ! pool_index h p u)" using inv by simp
  moreover have "\<exists>v t p'. pool_step h p (Ran i v t) p'" if ne: "i < maxWorkers p" "taskQueue p ! i \<noteq> []" for i
  proof -
    obtain v t xs where "taskQueue p ! i = (v, t) # xs" using ne(2) by (cases "taskQueue p ! i") auto
    then have "startWorker_turn i p = Some ((v, t), p\<lparr>taskQueue := (taskQueue p)[i := xs]\<rparr>)"
      using ne(1) ok by (simp add: startWorker_turn_def pool_ok_def)
    then show ?thesis by (intro exI) (rule pool_step.run)
  qed
  moreover have "length (taskQueue p ! pool_index h p v) \<le> taskBuffer" for v
    using pool_ok_index [OF ok, of v] ok by (simp add: pool_ok_def)
  then have "pool_Submit h v (Some t) p = None \<longleftrightarrow> length (taskQueue p ! pool_index h p v) = taskBuffer" for v t
    by (auto simp: pool_Submit_def Let_def le_less)
  ultimately show ?thesis using ok by (simp add: pool_ok_def)
qed

theorem per_client_order_witness:
  "\<exists>p. pool_trace (\<lambda>u. 0) (pool_New 2) [Submitted ''a'' (1::nat), Submitted ''b'' 2, Submitted ''a'' 3, Ran 0 ''a'' 1] p \<and>
     waiting ''a'' (taskQueue p ! pool_index (\<lambda>u. 0) p ''a'') = [3]"
proof -
  define p1 :: "nat WorkerPool" where "p1 = \<lparr>maxWorkers = 2, taskQueue = [[(''a'', 1)], []]\<rparr>"
  define p2 :: "nat WorkerPool" where "p2 = \<lparr>maxWorkers = 2, taskQueue = [[(''a'', 1), (''b'', 2)], []]\<rparr>"
  define p3 :: "nat WorkerPool" where "p3 = \<lparr>maxWorkers = 2, taskQueue = [[(''a'', 1), (''b'', 2), (''a'', 3)], []]\<rparr>"
  define p4 :: "nat WorkerPool" where "p4 = \<lparr>maxWorkers = 2, taskQueue = [[(''b'', 2), (''a'', 3)], []]\<rparr>"
  have st: "pool_step (\<lambda>u. 0) (pool_New 2) (Submitted ''a'' 1) p1" "pool_step (\<lambda>u. 0) p1 (Submitted ''b'' 2) p2"
    "pool_step (\<lambda>u. 0) p2 (Submitted ''a'' 3) p3"
    by (rule pool_step.submit, simp add: pool_Submit_def pool_New_def pool_index_def p1_def p2_def p3_def eval_nat_numeral)+
  have "pool_step (\<lambda>u. 0) p3 (Ran 0 ''a'' 1) p4"
    by (rule pool_step.run) (simp add: startWorker_turn_def p3_def p4_def)
  then have t: "pool_trace (\<lambda>u. 0) (pool_New 2) [Submitted ''a'' (1::nat), Submitted ''b'' 2, Submitted ''a'' 3, Ran 0 ''a'' 1] p4"
    using st pool_trace.more [where es = "[]"] pool_trace.more [where es = "[_]"] pool_trace.more [where es = "[_, _]"]
      pool_trace.more [where es = "[_, _, _]"] pool_trace.start by (metis append_Cons append_Nil)
  from per_client_order [OF _ t, of "''a''"] t show ?thesis by auto
qed

end
