(* ===== verification/ClusterSync.thy ===== *)
theory ClusterSync
  imports BrokerConnect WorkerPool
begin

text \<open>
  The cluster (\<open>src/broker/cluster*.go\<close>, \<open>src/broker/etcdstore.go\<close>, \<open>src/broker/etcdrouter.go\<close>) and the construction of
  a broker (\<open>NewBroker\<close> in \<open>src/broker/broker.go\<close>): reading the shared tables from the store, following the
  store's events, garbage collection by the leader, and receiving forwarded messages.

  etcd and the JSON decoders are not part of the repository: what etcd answers is an argument (\<open>resp\<close> is the
  answer to a range request, an error or the key-value pairs in the order of the keys), and the decoders
  are the record \<open>codec\<close>. Changes asked of the store are outputs, as in the rest of the broker.
\<close>

record codec =
  dec_client :: "bytes \<Rightarrow> Client option"
  dec_sub :: "bytes \<Rightarrow> Subscription option"
  dec_user :: "bytes \<Rightarrow> User option"
  dec_acl :: "bytes \<Rightarrow> Acl option"
  dec_node :: "bytes \<Rightarrow> Node option"
  dec_forward :: "bytes \<Rightarrow> (string \<times> PublishPacket option) option"
  hash_password :: "string \<Rightarrow> string"

definition zeroSubscription :: Subscription where
  "zeroSubscription = \<lparr>sd_ID = [], sd_ClientID = [], sd_NodeID = [], sd_Topic = [], sd_Qos = 0, sd_Timestamp = 0\<rparr>"

definition zeroAcl :: Acl where
  "zeroAcl = \<lparr>ID = [], Priority = 0, Topic = [], Classify = [], Type = [], Value = [], Action = [], CreateAt = 0\<rparr>"

definition zeroUser :: User where
  "zeroUser = \<lparr>ClientID = [], Name = [], Role = 0, UserPassword = [], UserCreateAt = 0\<rparr>"

section \<open>The store\<close>

type_synonym kv = "string \<times> bytes"
type_synonym resp = "go_error + kv list"

text \<open>An empty answer is a nil interface, without an error.\<close>

definition etcdStore_All :: "resp \<Rightarrow> kv list option \<times> go_error option" where
  "etcdStore_All resp =
     (case resp of
        Inl err \<Rightarrow> (None, Some err)
      | Inr kvs \<Rightarrow> if length kvs = 0 then (None, None) else (Some kvs, None))"

definition etcdStore_Get :: "resp \<Rightarrow> bytes option \<times> go_error option" where
  "etcdStore_Get resp =
     (case resp of
        Inl err \<Rightarrow> (None, Some err)
      | Inr kvs \<Rightarrow> (case kvs of [] \<Rightarrow> (None, None) | x # _ \<Rightarrow> (Some (snd x), None)))"

section \<open>Reading the tables\<close>

text \<open>The loop of the \<open>Get\<close> functions: values that do not decode are skipped.\<close>

definition collect_kvs :: "(bytes \<Rightarrow> 'a option) \<Rightarrow> ('a \<Rightarrow> string) \<Rightarrow> kv list \<Rightarrow> (string, 'a) gomap" where
  "collect_kvs dec key kvs =
     fold (\<lambda>kv m. case dec (snd kv) of None \<Rightarrow> m | Some x \<Rightarrow> gm_put (key x) x m) kvs []"

definition get_table ::
  "(bytes \<Rightarrow> 'a option) \<Rightarrow> ('a \<Rightarrow> string) \<Rightarrow> resp \<Rightarrow> (string, 'a) gomap option \<times> go_error option" where
  "get_table dec key resp =
     (case etcdStore_All resp of
        (None, err) \<Rightarrow> (None, err)
      | (Some kvs, _) \<Rightarrow> (Some (collect_kvs dec key kvs), None))"

definition GetClients :: "codec \<Rightarrow> resp \<Rightarrow> (string, Client) gomap option \<times> go_error option" where
  "GetClients cd = get_table (dec_client cd) ci_ID"

definition GetSubscriptions :: "codec \<Rightarrow> resp \<Rightarrow> (string, Subscription) gomap option \<times> go_error option" where
  "GetSubscriptions cd = get_table (dec_sub cd) sd_ID"

definition GetUsers :: "codec \<Rightarrow> resp \<Rightarrow> (string, User) gomap option \<times> go_error option" where
  "GetUsers cd = get_table (dec_user cd) Name"

definition GetAcls :: "codec \<Rightarrow> resp \<Rightarrow> (string, Acl) gomap option \<times> go_error option" where
  "GetAcls cd = get_table (dec_acl cd) ID"

definition GetNodes :: "codec \<Rightarrow> resp \<Rightarrow> (string, Node) gomap option \<times> go_error option" where
  "GetNodes cd = get_table (dec_node cd) nd_ID"

definition GetBridges :: "resp \<Rightarrow> (string, string) gomap option \<times> go_error option" where
  "GetBridges resp =
     (case etcdStore_All resp of
        (None, err) \<Rightarrow> (None, err)
      | (Some kvs, _) \<Rightarrow>
          (Some (fold (\<lambda>kv m. gm_put (last (go_split (CHR ''/'') (fst kv))) (string_of_bytes (snd kv)) m) kvs []), None))"

text \<open>Reading one record. A missing key gives a nil interface, whose conversion to bytes panics: None.\<close>

definition get_one :: "(bytes \<Rightarrow> 'a option) \<Rightarrow> resp \<Rightarrow> (go_error + 'a) option" where
  "get_one dec resp =
     (case etcdStore_Get resp of
        (_, Some err) \<Rightarrow> Some (Inl err)
      | (None, None) \<Rightarrow> None
      | (Some bs, None) \<Rightarrow>
          (case dec bs of None \<Rightarrow> Some (Inl (Errorf ''unmarshal'')) | Some x \<Rightarrow> Some (Inr x)))"

definition GetClient :: "codec \<Rightarrow> resp \<Rightarrow> (go_error + Client) option" where
  "GetClient cd = get_one (dec_client cd)"

definition GetSubscription :: "codec \<Rightarrow> resp \<Rightarrow> (go_error + Subscription) option" where
  "GetSubscription cd = get_one (dec_sub cd)"

definition GetUser :: "codec \<Rightarrow> resp \<Rightarrow> (go_error + User) option" where
  "GetUser cd = get_one (dec_user cd)"

definition GetAcl :: "codec \<Rightarrow> resp \<Rightarrow> (go_error + Acl) option" where
  "GetAcl cd = get_one (dec_acl cd)"

definition GetNode :: "codec \<Rightarrow> resp \<Rightarrow> (go_error + Node) option" where
  "GetNode cd = get_one (dec_node cd)"

definition GetBridge :: "resp \<Rightarrow> (go_error + string) option" where
  "GetBridge = get_one (\<lambda>bs. Some (string_of_bytes bs))"

section \<open>Requests to the store\<close>

definition StoreAddORUpdateUser :: "User \<Rightarrow> Broker \<Rightarrow> Broker" where
  "StoreAddORUpdateUser obj b = emit (StorePut (userDir (b_cluster b) @ ''/'' @ Name obj) (UserValue obj)) b"

definition StoreRemoveUser :: "string \<Rightarrow> Broker \<Rightarrow> Broker" where
  "StoreRemoveUser user b = emit (StoreDel (userDir (b_cluster b) @ ''/'' @ user)) b"

definition StoreAddORUpdateAcl :: "Acl \<Rightarrow> Broker \<Rightarrow> Broker" where
  "StoreAddORUpdateAcl obj b = emit (StorePut (aclDir (b_cluster b) @ ''/'' @ ID obj) (AclValue obj)) b"

definition StoreRemoveAcl :: "string \<Rightarrow> Broker \<Rightarrow> Broker" where
  "StoreRemoveAcl i b = emit (StoreDel (aclDir (b_cluster b) @ ''/'' @ i)) b"

definition StoreAddORUpdateBridge :: "string \<Rightarrow> string \<Rightarrow> Broker \<Rightarrow> Broker" where
  "StoreAddORUpdateBridge key val b = emit (StorePut (bridgeDir (b_cluster b) @ ''/'' @ key) (BridgeValue val)) b"

definition StoreRemoveBridge :: "string \<Rightarrow> Broker \<Rightarrow> Broker" where
  "StoreRemoveBridge key b = emit (StoreDel (bridgeDir (b_cluster b) @ ''/'' @ key)) b"

definition AddORUpdateNode :: "Node \<Rightarrow> Broker \<Rightarrow> Broker" where
  "AddORUpdateNode node b = emit (StorePut (nodeDir (b_cluster b) @ ''/'' @ nd_ID node) (NodeValue node)) b"

definition RemoveNode :: "string \<Rightarrow> Broker \<Rightarrow> Broker" where
  "RemoveNode i b = emit (StoreDel (nodeDir (b_cluster b) @ ''/'' @ i)) b"

section \<open>The tables of this node\<close>

definition remote_client :: "Client \<Rightarrow> client" where
  "remote_client obj = client_init 0 [] (new_client REMOTE None obj None)"

text \<open>Allocating a remote client and registering something under its identifier.\<close>

definition new_remote :: "Client \<Rightarrow> Broker \<Rightarrow> client_ptr \<times> Broker" where
  "new_remote obj b = (b_next b, (set_client (b_next b) (remote_client obj) b)\<lparr>b_next := b_next b + 1\<rparr>)"

definition AddORUpdateClient :: "Client \<Rightarrow> Broker \<Rightarrow> Broker" where
  "AddORUpdateClient obj b =
     (case new_remote obj b of (p, b) \<Rightarrow> b\<lparr>b_clients := gm_put (ci_ID obj) (ClientObj p) (b_clients b)\<rparr>)"

text \<open>The client built here is not the one stored: the variable \<open>c\<close> is the cluster.\<close>

definition load_client :: "string \<times> Client \<Rightarrow> Broker \<Rightarrow> Broker" where
  "load_client x b =
     (case new_remote (snd x) b of (p, b) \<Rightarrow> b\<lparr>b_clients := gm_put (fst x) ClusterObj (b_clients b)\<rparr>)"

definition LoadClients :: "codec \<Rightarrow> resp \<Rightarrow> Broker \<Rightarrow> Broker" where
  "LoadClients cd resp b =
     (case GetClients cd resp of
        (_, Some _) \<Rightarrow> b
      | (clients, None) \<Rightarrow> fold load_client (case clients of None \<Rightarrow> [] | Some m \<Rightarrow> m) b)"

text \<open>The loop over the subscriptions returns at the first one whose client is not known.\<close>

fun load_subscriptions :: "Subscription list \<Rightarrow> Broker \<Rightarrow> Broker option" where
  "load_subscriptions [] b = Some b"
| "load_subscriptions (obj # objs) b =
     (case gm_get (b_clients b) (sd_ClientID obj) of
        Some (ClientObj p) \<Rightarrow> do { b \<leftarrow> processRemoteSubscribe p obj b; load_subscriptions objs b }
      | _ \<Rightarrow> Some b)"

definition LoadSubscriptions :: "codec \<Rightarrow> resp \<Rightarrow> Broker \<Rightarrow> Broker option" where
  "LoadSubscriptions cd resp b =
     (case GetSubscriptions cd resp of
        (_, Some _) \<Rightarrow> Some b
      | (ss, None) \<Rightarrow> load_subscriptions (map snd (case ss of None \<Rightarrow> [] | Some m \<Rightarrow> m)) b)"

definition AddORUpdateSubscription :: "Subscription \<Rightarrow> Broker \<Rightarrow> Broker option" where
  "AddORUpdateSubscription obj b =
     (case gm_get (b_clients b) (sd_ClientID obj) of
        Some (ClientObj p) \<Rightarrow>
          do { c \<leftarrow> b_heap b p; if c_typ c = REMOTE then processRemoteSubscribe p obj b else Some b }
      | _ \<Rightarrow> Some b)"

definition RemoveSubscription :: "Subscription \<Rightarrow> Broker \<Rightarrow> Broker option" where
  "RemoveSubscription obj b =
     (case gm_get (b_clients b) (sd_ClientID obj) of
        Some (ClientObj p) \<Rightarrow>
          do { c \<leftarrow> b_heap b p;
               (case gm_get (c_subMap c) (sd_Topic obj) of
                  None \<Rightarrow> Some b
                | Some a \<Rightarrow>
                    do { sub \<leftarrow> b_subheap b a;
                         (m, _) \<leftarrow> topics_Manager_Unsubscribe (b_topicsMgr b) (sub_topic sub) (Some (IfPtr a));
                         b \<leftarrow> on_client_session (\<lambda>s. Session_RemoveTopic s (sd_Topic obj)) p (b\<lparr>b_topicsMgr := m\<rparr>);
                         on_client (\<lambda>c. c\<lparr>c_subMap := gm_del (sd_Topic obj) (c_subMap c)\<rparr>) p b }) }
      | _ \<Rightarrow> Some b)"

definition LoadUsers :: "codec \<Rightarrow> int \<Rightarrow> resp \<Rightarrow> Broker \<Rightarrow> Broker" where
  "LoadUsers cd now resp b =
     (case GetUsers cd resp of
        (_, Some _) \<Rightarrow> b
      | (users, None) \<Rightarrow>
          let b = b\<lparr>b_auth := etcdAuth_Load (b_auth b) users\<rparr> in
          if (case users of None \<Rightarrow> None | Some m \<Rightarrow> gm_get m ''admin'') = None
          then StoreAddORUpdateUser \<lparr>ClientID = [], Name = ''admin'', Role = 1,
                 UserPassword = hash_password cd ''admin'', UserCreateAt = now\<rparr> b
          else b)"

definition AddORUpdateUser :: "User \<Rightarrow> Broker \<Rightarrow> Broker" where
  "AddORUpdateUser obj b = b\<lparr>b_auth := etcdAuth_AddOrUpdateUser (b_auth b) obj\<rparr>"

definition RemoveUser :: "User \<Rightarrow> Broker \<Rightarrow> Broker" where
  "RemoveUser obj b = b\<lparr>b_auth := etcdAuth_RemoveUser (b_auth b) obj\<rparr>"

definition LoadAcls :: "codec \<Rightarrow> resp \<Rightarrow> Broker \<Rightarrow> Broker option" where
  "LoadAcls cd resp b =
     (case GetAcls cd resp of
        (_, Some _) \<Rightarrow> Some b
      | (acls, None) \<Rightarrow> do { a \<leftarrow> b_acl b; Some (b\<lparr>b_acl := Some (etcdAcl_Load a acls)\<rparr>) })"

definition AddORUpdateAcl :: "Acl \<Rightarrow> Broker \<Rightarrow> Broker" where
  "AddORUpdateAcl obj b = b\<lparr>b_acl := map_option (\<lambda>a. etcdAcl_AddOrUpdateAcl a obj) (b_acl b)\<rparr>"

definition RemoveAcl :: "string \<Rightarrow> Broker \<Rightarrow> Broker" where
  "RemoveAcl i b = b\<lparr>b_acl := map_option (\<lambda>a. etcdAcl_RemoveAcl a i) (b_acl b)\<rparr>"

definition LoadBridges :: "resp \<Rightarrow> Broker \<Rightarrow> Broker option" where
  "LoadBridges resp b =
     (case GetBridges resp of
        (_, Some _) \<Rightarrow> Some b
      | (objs, None) \<Rightarrow> do { k \<leftarrow> b_bridgeMQ b; Some (b\<lparr>b_bridgeMQ := Some (kafka_Load k objs)\<rparr>) })"

definition AddORUpdateBridge :: "string \<Rightarrow> string \<Rightarrow> Broker \<Rightarrow> Broker" where
  "AddORUpdateBridge key val b = b\<lparr>b_bridgeMQ := map_option (\<lambda>k. kafka_AddOrUpdateObj k key val) (b_bridgeMQ b)\<rparr>"

definition RemoveBridge :: "string \<Rightarrow> Broker \<Rightarrow> Broker" where
  "RemoveBridge key b = b\<lparr>b_bridgeMQ := map_option (\<lambda>k. kafka_RemoveObj k key) (b_bridgeMQ b)\<rparr>"


section \<open>Events of the store\<close>

datatype EvtType = EventTypeNew | EventTypeUpdate | EventTypeDelete

datatype EvtValue =
    EvtClient Client
  | EvtSubscription Subscription
  | EvtBridge string
  | EvtUser User
  | EvtAcl Acl

datatype EvtSrc = EventSrcNode | EventSrcClient | EventSrcSubscription | EventSrcBridge | EventSrcUser | EventSrcAcl

record Evt =
  evt_Src :: EvtSrc
  evt_Type :: EvtType
  evt_Key :: string
  evt_Value :: EvtValue

text \<open>
  An event of a watch. A put has revisions of creation and of modification, which are equal
  exactly when it created the key.
\<close>

datatype mvcc_type = PUT | DELETE

record mvcc_event =
  ev_Type :: mvcc_type
  ev_Key :: string
  ev_Value :: bytes
  ev_CreateRevision :: int
  ev_ModRevision :: int

definition evt_type :: "mvcc_event \<Rightarrow> EvtType" where
  "evt_type ev =
     (case ev_Type ev of
        DELETE \<Rightarrow> EventTypeDelete
      | PUT \<Rightarrow> if ev_CreateRevision ev = ev_ModRevision ev then EventTypeNew else EventTypeUpdate)"

text \<open>\<open>strings.Replace(s, old, "", 1)\<close>.\<close>

fun go_cut :: "string \<Rightarrow> string \<Rightarrow> string" where
  "go_cut old [] = []"
| "go_cut old (c # s) = (if go_hasPrefix (c # s) old then drop (length old) (c # s) else c # go_cut old s)"

text \<open>An empty value leaves the zero structure; a value that does not decode gives no event.\<close>

definition decoded :: "(bytes \<Rightarrow> 'a option) \<Rightarrow> 'a \<Rightarrow> bytes \<Rightarrow> 'a option" where
  "decoded dec zero bs = (if length bs > 0 then dec bs else Some zero)"

definition doWatchWithClient :: "codec \<Rightarrow> Broker \<Rightarrow> mvcc_event \<Rightarrow> Evt option" where
  "doWatchWithClient cd b ev =
     do { value \<leftarrow> decoded (dec_client cd) zeroClient (ev_Value ev);
          if ci_NodeID value = b_id b then None
          else Some \<lparr>evt_Src = EventSrcClient, evt_Type = evt_type ev,
                 evt_Key = go_cut (clientDir (b_cluster b) @ ''/'') (ev_Key ev), evt_Value = EvtClient value\<rparr> }"

definition doWatchWithSubscription :: "codec \<Rightarrow> Broker \<Rightarrow> mvcc_event \<Rightarrow> Evt option" where
  "doWatchWithSubscription cd b ev =
     do { value \<leftarrow> decoded (dec_sub cd) zeroSubscription (ev_Value ev);
          if sd_NodeID value = b_id b then None
          else Some \<lparr>evt_Src = EventSrcSubscription, evt_Type = evt_type ev,
                 evt_Key = go_cut (subscriptionDir (b_cluster b) @ ''/'') (ev_Key ev), evt_Value = EvtSubscription value\<rparr> }"

definition doWatchWithBridge :: "Broker \<Rightarrow> mvcc_event \<Rightarrow> Evt option" where
  "doWatchWithBridge b ev =
     Some \<lparr>evt_Src = EventSrcBridge, evt_Type = evt_type ev,
       evt_Key = go_cut (bridgeDir (b_cluster b) @ ''/'') (ev_Key ev), evt_Value = EvtBridge (string_of_bytes (ev_Value ev))\<rparr>"

definition doWatchWithUser :: "codec \<Rightarrow> Broker \<Rightarrow> mvcc_event \<Rightarrow> Evt option" where
  "doWatchWithUser cd b ev =
     do { value \<leftarrow> decoded (dec_user cd) zeroUser (ev_Value ev);
          Some \<lparr>evt_Src = EventSrcUser, evt_Type = evt_type ev,
            evt_Key = go_cut (userDir (b_cluster b) @ ''/'') (ev_Key ev), evt_Value = EvtUser value\<rparr> }"

definition doWatchWithAcl :: "codec \<Rightarrow> Broker \<Rightarrow> mvcc_event \<Rightarrow> Evt option" where
  "doWatchWithAcl cd b ev =
     do { value \<leftarrow> decoded (dec_acl cd) zeroAcl (ev_Value ev);
          Some \<lparr>evt_Src = EventSrcAcl, evt_Type = evt_type ev,
            evt_Key = go_cut (aclDir (b_cluster b) @ ''/'') (ev_Key ev), evt_Value = EvtAcl value\<rparr> }"

text \<open>One event in the loop of \<open>watch\<close>: what it sends to the channel of events.\<close>

definition watch_event :: "codec \<Rightarrow> Broker \<Rightarrow> mvcc_event \<Rightarrow> Evt option" where
  "watch_event cd b ev =
     (let key = ev_Key ev; c = b_cluster b in
      if go_hasPrefix key (clientDir c) then doWatchWithClient cd b ev
      else if go_hasPrefix key (subscriptionDir c) then doWatchWithSubscription cd b ev
      else if go_hasPrefix key (bridgeDir c) then doWatchWithBridge b ev
      else if go_hasPrefix key (userDir c) then doWatchWithUser cd b ev
      else if go_hasPrefix key (aclDir c) then doWatchWithAcl cd b ev
      else None)"

definition doClientEvent :: "Evt \<Rightarrow> Broker \<Rightarrow> Broker" where
  "doClientEvent evt b =
     (case evt_Value evt of
        EvtClient client \<Rightarrow>
          (if evt_Type evt = EventTypeNew \<or> evt_Type evt = EventTypeUpdate then AddORUpdateClient client b
           else RemoveClient (evt_Key evt) b)
      | _ \<Rightarrow> b)"

definition doSubscriptionEvent :: "Evt \<Rightarrow> Broker \<Rightarrow> Broker option" where
  "doSubscriptionEvent evt b =
     (case evt_Value evt of
        EvtSubscription subscription \<Rightarrow>
          (if evt_Type evt = EventTypeNew \<or> evt_Type evt = EventTypeUpdate then AddORUpdateSubscription subscription b
           else
             (case go_split (CHR '':'') (evt_Key evt) of
                [k0, k1] \<Rightarrow>
                  RemoveSubscription (subscription\<lparr>sd_ID := evt_Key evt, sd_Topic := k0, sd_ClientID := k1\<rparr>) b
              | _ \<Rightarrow> RemoveSubscription subscription b))
      | _ \<Rightarrow> Some b)"

definition doBridgeEvent :: "Evt \<Rightarrow> Broker \<Rightarrow> Broker" where
  "doBridgeEvent evt b =
     (case evt_Value evt of
        EvtBridge bridgeValue \<Rightarrow>
          (if evt_Type evt = EventTypeNew \<or> evt_Type evt = EventTypeUpdate then AddORUpdateBridge (evt_Key evt) bridgeValue b
           else RemoveBridge (evt_Key evt) b)
      | _ \<Rightarrow> b)"

definition doUserEvent :: "Evt \<Rightarrow> Broker \<Rightarrow> Broker" where
  "doUserEvent evt b =
     (case evt_Value evt of
        EvtUser user \<Rightarrow>
          (if evt_Type evt = EventTypeNew \<or> evt_Type evt = EventTypeUpdate then AddORUpdateUser user b
           else RemoveUser (user\<lparr>Name := evt_Key evt\<rparr>) b)
      | _ \<Rightarrow> b)"

definition doAclEvent :: "Evt \<Rightarrow> Broker \<Rightarrow> Broker" where
  "doAclEvent evt b =
     (case evt_Value evt of
        EvtAcl acl \<Rightarrow>
          (if evt_Type evt = EventTypeNew \<or> evt_Type evt = EventTypeUpdate then AddORUpdateAcl acl b
           else RemoveAcl (evt_Key evt) b)
      | _ \<Rightarrow> b)"

text \<open>A turn of \<open>readyToReceiveMethodWatchEvent\<close>.\<close>

definition readyToReceive_turn :: "Evt \<Rightarrow> Broker \<Rightarrow> Broker option" where
  "readyToReceive_turn evt b =
     (case evt_Src evt of
        EventSrcClient \<Rightarrow> Some (doClientEvent evt b)
      | EventSrcSubscription \<Rightarrow> doSubscriptionEvent evt b
      | EventSrcBridge \<Rightarrow> Some (doBridgeEvent evt b)
      | EventSrcUser \<Rightarrow> Some (doUserEvent evt b)
      | EventSrcAcl \<Rightarrow> Some (doAclEvent evt b)
      | EventSrcNode \<Rightarrow> Some b)"

text \<open>An event of the watch, taken from the channel and applied.\<close>

definition cluster_event :: "codec \<Rightarrow> mvcc_event \<Rightarrow> Broker \<Rightarrow> Broker option" where
  "cluster_event cd ev b =
     (case watch_event cd b ev of None \<Rightarrow> Some b | Some evt \<Rightarrow> readyToReceive_turn evt b)"

section \<open>Starting, and collecting garbage\<close>

record start_answers =
  sa_bridges :: resp
  sa_users :: resp
  sa_acls :: resp
  sa_clients :: resp
  sa_subscriptions :: resp

definition Cluster_Start :: "codec \<Rightarrow> int \<Rightarrow> start_answers \<Rightarrow> Broker \<Rightarrow> Broker option" where
  "Cluster_Start cd now a b =
     do { b \<leftarrow> (if b_BridgeEnable b then LoadBridges (sa_bridges a) b else Some b);
          let b = LoadUsers cd now (sa_users a) b;
          b \<leftarrow> (if b_AclEnable b then LoadAcls cd (sa_acls a) b else Some b);
          let b = LoadClients cd (sa_clients a) b;
          LoadSubscriptions cd (sa_subscriptions a) b }"

definition lookup :: "('k, 'v) gomap option \<Rightarrow> 'k \<Rightarrow> 'v option" where
  "lookup m k = (case m of None \<Rightarrow> None | Some m \<Rightarrow> gm_get m k)"

definition entries :: "('k, 'v) gomap option \<Rightarrow> ('k \<times> 'v) list" where
  "entries m = (case m of None \<Rightarrow> [] | Some m \<Rightarrow> m)"

text \<open>
  A round of \<open>manager\<close>. \<open>fails\<close> tells which removals of clients are answered with an error; the clients are
  read again when one was removed.
\<close>

definition remove_lost_client ::
  "(string \<Rightarrow> bool) \<Rightarrow> (string, Node) gomap option \<Rightarrow> string \<times> Client \<Rightarrow> Broker \<times> bool \<Rightarrow> Broker \<times> bool" where
  "remove_lost_client fails nodes cl s =
     (case lookup nodes (ci_NodeID (snd cl)) of
        Some _ \<Rightarrow> s
      | None \<Rightarrow> (StoreRemoveClient (fst cl) (fst s), snd s \<or> \<not> fails (fst cl)))"

definition remove_lost_subscription ::
  "env \<Rightarrow> (string, Client) gomap option \<Rightarrow> string \<times> Subscription \<Rightarrow> Broker \<Rightarrow> Broker" where
  "remove_lost_subscription e clients v b =
     (case lookup clients (sd_ClientID (snd v)) of
        Some _ \<Rightarrow> b
      | None \<Rightarrow> StoreRemoveSubscription e (sd_Topic (snd v)) (sd_ClientID (snd v)) b)"

definition manager_round ::
  "codec \<Rightarrow> env \<Rightarrow> (string \<Rightarrow> bool) \<Rightarrow> resp \<Rightarrow> resp \<Rightarrow> resp \<Rightarrow> resp \<Rightarrow> Broker \<Rightarrow> Broker" where
  "manager_round cd e fails nodes_resp clients_resp again_resp subs_resp b =
     (if \<not> leader (b_cluster b) then b
      else
        let (nodes, err) = GetNodes cd nodes_resp in
        if err \<noteq> None then b
        else
          let (clients, err) = GetClients cd clients_resp in
          if err \<noteq> None then b
          else
            let (b, clientChange) = fold (remove_lost_client fails nodes) (entries clients) (b, False);
                (clients, err) = (if clientChange then GetClients cd again_resp else (clients, None))
            in
            if err \<noteq> None then b
            else
              let (subscriptions, err) = GetSubscriptions cd subs_resp in
              if err \<noteq> None then b
              else fold (remove_lost_subscription e clients) (entries subscriptions) b)"

section \<open>Receiving forwarded messages\<close>

definition forwardWatchDir :: "Broker \<Rightarrow> string" where
  "forwardWatchDir b = forwardDir (b_cluster b) @ ''/'' @ b_id b"

text \<open>
  One event in the loop of \<open>Receive\<close>: the message it submits, with the identifier it is submitted under.
  A client that is not known here leaves the key in the store. A nil packet panics when the message is handled: None.
\<close>

definition Receive_event :: "codec \<Rightarrow> mvcc_event \<Rightarrow> Broker \<Rightarrow> (Broker \<times> (string \<times> Message) option) option" where
  "Receive_event cd ev b =
     (case ev_Type ev of
        DELETE \<Rightarrow> Some (b, None)
      | PUT \<Rightarrow>
          (case decoded (dec_forward cd) ([], None) (ev_Value ev) of
             None \<Rightarrow> Some (b, None)
           | Some (cid, packet) \<Rightarrow>
               (case gm_get (b_clients b) cid of
                  Some (ClientObj p) \<Rightarrow>
                    do { c \<leftarrow> b_heap b p;
                         if c_typ c \<noteq> LOCAL then Some (b, None)
                         else do { pk \<leftarrow> packet;
                                   Some (emit (StoreDel (ev_Key ev)) b,
                                     Some (cid, \<lparr>msg_client = p, msg_packet = Some (CP_Publish pk), msg_forward = True\<rparr>)) } }
                | _ \<Rightarrow> Some (b, None))))"

end
