(* ===== verification/ClusterStore.thy ===== *)
theory ClusterStore
  imports ClusterSync
begin

text \<open>
  The store of the cluster (\<open>broker/etcdstore.go\<close>) over etcd, and what the outputs of a broker do to it.
  The etcd client is the argument \<open>etcd\<close>, one
  operation per call the code makes; \<open>etcd_documented\<close> states what etcd documents of them: a transaction
  that commits a put sets one key, one that commits a deletion with the prefix option removes every
  key that starts with the given one, and reading gives what is stored. About calls that report an
  error nothing is assumed.
\<close>

section \<open>The store\<close>

record 'e etcd =
  et_put :: "string \<Rightarrow> bytes \<Rightarrow> 'e \<Rightarrow> 'e \<times> go_error option"
  et_delete_prefix :: "string \<Rightarrow> 'e \<Rightarrow> 'e \<times> go_error option"
  et_get :: "string \<Rightarrow> 'e \<Rightarrow> resp"
  et_range :: "string \<Rightarrow> 'e \<Rightarrow> resp"

record etcdStore =
  rootPrefix :: string

definition etcdStore_Open :: "etcdStore \<Rightarrow> go_error option" where
  "etcdStore_Open self = None"

definition etcdStore_Put :: "'e etcd \<Rightarrow> string \<Rightarrow> iface \<Rightarrow> 'e \<Rightarrow> 'e \<times> go_error option" where
  "etcdStore_Put K key val e =
     (case val of
        IfString v \<Rightarrow> et_put K key (bytes_of_string v) e
      | _ \<Rightarrow> (e, Some (Errorf ''value data type is not string'')))"

text \<open>\<open>Del\<close> deletes with the option \<open>WithPrefix\<close>.\<close>

definition etcdStore_Del :: "'e etcd \<Rightarrow> string \<Rightarrow> 'e \<Rightarrow> 'e \<times> go_error option" where
  "etcdStore_Del K key e = et_delete_prefix K key e"

definition etcdStore_Reset :: "'e etcd \<Rightarrow> etcdStore \<Rightarrow> 'e \<Rightarrow> 'e \<times> go_error option" where
  "etcdStore_Reset K self e = etcdStore_Del K (rootPrefix self) e"

section \<open>What etcd documents\<close>

definition etcd_documented :: "'e etcd \<Rightarrow> ('e \<Rightarrow> string \<rightharpoonup> bytes) \<Rightarrow> bool" where
  "etcd_documented K view \<longleftrightarrow>
     (\<forall>k v e e'. et_put K k v e = (e', None) \<longrightarrow> view e' = (view e)(k \<mapsto> v)) \<and>
     (\<forall>p e e'. et_delete_prefix K p e = (e', None) \<longrightarrow>
        view e' = (\<lambda>k. if go_hasPrefix k p then None else view e k)) \<and>
     (\<forall>k e kvs. et_get K k e = Inr kvs \<longrightarrow> kvs = (case view e k of None \<Rightarrow> [] | Some v \<Rightarrow> [(k, v)])) \<and>
     (\<forall>p e kvs. et_range K p e = Inr kvs \<longrightarrow> set kvs = {(k, v). view e k = Some v \<and> go_hasPrefix k p})"

text \<open>An output of the broker applied to the store; the code only logs the errors.\<close>

definition apply_store :: "'e etcd \<Rightarrow> (store_value \<Rightarrow> string) \<Rightarrow> out_event \<Rightarrow> 'e \<Rightarrow> 'e \<times> go_error option" where
  "apply_store K marshal x e =
     (case x of
        StorePut key val \<Rightarrow> etcdStore_Put K key (IfString (marshal val)) e
      | StoreDel key \<Rightarrow> etcdStore_Del K key e
      | _ \<Rightarrow> (e, None))"

lemma put_get:
  assumes "etcd_documented K view" "etcdStore_Put K key (IfString v) e = (e', None)" "et_get K key e' = Inr kvs"
  shows "etcdStore_Get (et_get K key e') = (Some (bytes_of_string v), None)"
proof -
  have "view e' = (view e)(key \<mapsto> bytes_of_string v)" using assms by (auto simp: etcdStore_Put_def etcd_documented_def)
  moreover have "kvs = (case view e' key of None \<Rightarrow> [] | Some v \<Rightarrow> [(key, v)])"
    using assms(1,3) unfolding etcd_documented_def by blast
  ultimately show ?thesis using assms(3) by (simp add: etcdStore_Get_def)
qed

lemma go_hasPrefix_append_same: "go_hasPrefix (d @ s) (d @ p) \<longleftrightarrow> go_hasPrefix s p"
  by (simp add: go_hasPrefix_def)

section \<open>Properties\<close>

text \<open>
  C28. Records are deleted by prefix: removing the client \<open>cid\<close> from the store removes the record of every
  client whose identifier starts with \<open>cid\<close>, also of those that are connected, and no other record, so
  that the nodes that read the table no longer find them. A record that was written is read back.
\<close>

theorem removed_client_takes_others:
  assumes "etcd_documented K view" "dir = clientDir (b_cluster b) @ ''/''"
  shows "(\<exists>x. b_out (StoreRemoveClient cid b) = b_out b @ [x] \<and>
      (\<forall>e e'. apply_store K marshal x e = (e', None) \<longrightarrow>
        (\<forall>other. view e' (dir @ other) = (if go_hasPrefix other cid then None else view e (dir @ other))) \<and>
        (\<forall>k. \<not> go_hasPrefix k dir \<longrightarrow> view e' k = view e k) \<and>
        (\<forall>kvs other v. et_range K dir e' = Inr kvs \<longrightarrow> go_hasPrefix other cid \<longrightarrow> (dir @ other, v) \<notin> set kvs))) \<and>
    (\<exists>x. b_out (StoreAddORUpdateClient obj b) = b_out b @ [x] \<and>
      (\<forall>e e' kvs. apply_store K marshal x e = (e', None) \<longrightarrow> et_get K (dir @ ci_ID obj) e' = Inr kvs \<longrightarrow>
        etcdStore_Get (et_get K (dir @ ci_ID obj) e') = (Some (bytes_of_string (marshal (ClientValue obj))), None)))"
proof -
  have del: "view e' = (\<lambda>k. if go_hasPrefix k (dir @ cid) then None else view e k)"
    if "etcdStore_Del K (dir @ cid) e = (e', None)" for e e'
    using assms(1) that by (simp add: etcd_documented_def etcdStore_Del_def)
  have far: "\<not> go_hasPrefix k (dir @ cid)" if "\<not> go_hasPrefix k dir" for k
  proof
    assume "go_hasPrefix k (dir @ cid)"
    then have "take (length dir) (take (length (dir @ cid)) k) = dir" by (simp add: go_hasPrefix_def)
    then show False using that by (simp add: go_hasPrefix_def)
  qed
  have rng: "set kvs = {(k, v). view e k = Some v \<and> go_hasPrefix k dir}" if "et_range K dir e = Inr kvs" for e kvs
    using assms(1) that unfolding etcd_documented_def by blast
  have "b_out (StoreRemoveClient cid b) = b_out b @ [StoreDel (dir @ cid)]"
    by (simp add: StoreRemoveClient_def emit_def assms(2))
  moreover have "view e' (dir @ other) = (if go_hasPrefix other cid then None else view e (dir @ other))"
    "\<not> go_hasPrefix k dir \<Longrightarrow> view e' k = view e k"
    "et_range K dir e' = Inr kvs \<Longrightarrow> go_hasPrefix other cid \<Longrightarrow> (dir @ other, v) \<notin> set kvs"
    if "apply_store K marshal (StoreDel (dir @ cid)) e = (e', None)" for e e' other k kvs v
    using del [of e e'] that far [of k] rng [of e' kvs] by (simp_all add: apply_store_def go_hasPrefix_append_same)
  moreover have "b_out (StoreAddORUpdateClient obj b) = b_out b @ [StorePut (dir @ ci_ID obj) (ClientValue obj)]"
    by (simp add: StoreAddORUpdateClient_def emit_def assms(2))
  moreover have "etcdStore_Get (et_get K (dir @ ci_ID obj) e') = (Some (bytes_of_string (marshal (ClientValue obj))), None)"
    if "apply_store K marshal (StorePut (dir @ ci_ID obj) (ClientValue obj)) e = (e', None)"
      "et_get K (dir @ ci_ID obj) e' = Inr kvs" for e e' kvs
    using put_get [OF assms(1) _ that(2)] that(1) by (simp add: apply_store_def)
  ultimately show ?thesis by blast
qed

text \<open>A store that behaves as documented, as an association list.\<close>

definition list_etcd :: "(string, bytes) gomap etcd" where
  "list_etcd =
     \<lparr>et_put = (\<lambda>k v m. (gm_put k v m, None)),
      et_delete_prefix = (\<lambda>p m. (filter (\<lambda>(k, v). \<not> go_hasPrefix k p) m, None)),
      et_get = (\<lambda>k m. Inr (case gm_get m k of None \<Rightarrow> [] | Some v \<Rightarrow> [(k, v)])),
      et_range = (\<lambda>p m. Inr (filter (\<lambda>(k, v). gm_get m k = Some v \<and> go_hasPrefix k p) m))\<rparr>"

lemma list_etcd_documented: "etcd_documented list_etcd gm_get"
proof -
  have "gm_get (filter (\<lambda>(k, v). \<not> go_hasPrefix k p) m) = (\<lambda>k. if go_hasPrefix k p then None else gm_get m k)"
    for p and m :: "(string, bytes) gomap"
    by (induction m) (auto simp: fun_eq_iff)
  moreover have "gm_get m k = Some v \<Longrightarrow> (k, v) \<in> set m" for m :: "(string, bytes) gomap" and k v
    by (rule map_of_SomeD)
  ultimately show ?thesis by (auto simp: etcd_documented_def list_etcd_def)
qed

theorem removed_client_takes_others_witness:
  "\<exists>x e'. b_out (StoreRemoveClient ''a'' sample_broker) = [x] \<and>
    apply_store list_etcd (\<lambda>_. []) x [(''/s/clients/a'', [1]), (''/s/clients/ab'', [2]), (''/s/clients/c'', [3])] = (e', None) \<and>
    gm_get e' ''/s/clients/ab'' = None \<and> gm_get e' ''/s/clients/c'' = Some [3]"
proof -
  let ?e = "[(''/s/clients/a'', [1]), (''/s/clients/ab'', [2]), (''/s/clients/c'', [3])]"
  have dir: "''/s/clients/'' = clientDir (b_cluster sample_broker) @ ''/''" "b_out sample_broker = []"
    by (simp_all add: sample_broker_def sample_cluster_def)
  from removed_client_takes_others [OF list_etcd_documented dir(1), THEN conjunct1, of "''a''" "\<lambda>_. []"]
  obtain x where x: "b_out (StoreRemoveClient ''a'' sample_broker) = b_out sample_broker @ [x]"
    "\<And>e e' other. apply_store list_etcd (\<lambda>_. []) x e = (e', None) \<Longrightarrow>
      gm_get e' (''/s/clients/'' @ other) =
        (if go_hasPrefix other ''a'' then None else gm_get e (''/s/clients/'' @ other))"
    by metis
  obtain e' where run: "apply_store list_etcd (\<lambda>_. []) x ?e = (e', None)"
    using x(1) by (auto simp: StoreRemoveClient_def emit_def apply_store_def etcdStore_Del_def list_etcd_def)
  have "gm_get e' (''/s/clients/'' @ ''ab'') = None" "gm_get e' (''/s/clients/'' @ ''c'') = Some [3]"
    using x(2) [OF run, of "''ab''"] x(2) [OF run, of "''c''"] by (simp_all add: go_hasPrefix_def)
  then show ?thesis using x(1) run dir(2) by (intro exI [of _ x] exI [of _ e']) simp
qed

end
