(* ===== verification/ClusterInv.thy ===== *)
theory ClusterInv
  imports ClusterSync
begin

text \<open>
  What following the store does to a node: every event keeps it consistent or panics in one known way, remote
  subscriptions are installed, deletions reach too few or too many, a starting node, garbage collection
  by the leader, and the way of a message from one node to another.
\<close>

section \<open>What events of the store do to a consistent broker\<close>

lemma ready_fields [simp]:
  "ready n (b\<lparr>b_auth := x\<rparr>) = ready n b" "ready n (b\<lparr>b_acl := y\<rparr>) = ready n b" "ready n (b\<lparr>b_bridgeMQ := z\<rparr>) = ready n b"
  by (simp_all add: ready_def broker_inv_def tree_sound_def client_ok_def in_force_def online_def sess_ok_def reg_ok_def registry_def)

lemma drop_old_clients: "drop_old p t b = Some b' \<Longrightarrow> b_clients b' = b_clients b"
  by (auto simp: drop_old_def set_client_def bind_eq_Some_conv split: option.splits prod.splits)

lemma steps_processRemoteSubscribe:
  assumes "ready n b" "b_heap b p = Some c"
  shows "\<exists>b'. processRemoteSubscribe p obj b = Some b' \<and> steps n b b' \<and> resubscribed p b b' \<and> b_clients b' = b_clients b \<and>
    (\<forall>share grp topic. c_status c \<noteq> Disconnected \<longrightarrow> shared_parts (sd_Topic obj) = Some (share, grp, topic) \<longrightarrow>
       ValidQos (word_of_nat (sd_Qos obj)) \<longrightarrow> topic_levels topic \<noteq> None \<longrightarrow>
       subscribed b' p (sd_Topic obj) (word_of_nat (sd_Qos obj)))"
proof -
  let ?t = "sd_Topic obj" and ?q = "word_of_nat (sd_Qos obj) :: byte"
  show ?thesis
  proof (cases "c_status c = Disconnected \<or> shared_parts ?t = None")
    case True
    then show ?thesis using assms steps_refl [OF assms(1)]
      by (auto simp: processRemoteSubscribe_def shared_parts_def Let_def split: option.split)
  next
    case False
    then obtain share grp topic where f: "shared_parts ?t = Some (share, grp, topic)" "c_status c \<noteq> Disconnected" by auto
    obtain b1 where b1: "drop_old p ?t b = Some b1" "steps n b b1" "sub_at b1 p = (sub_at b p)(?t := None)" "resubscribed p b b1"
      using steps_drop_old [OF assms(1), of p ?t] assms(2) by auto
    obtain c1 where c1: "b_heap b1 p = Some c1" by (rule steps_get [OF b1(2) assms(2)])
    have none: "gm_get (c_subMap c1) ?t = None" using b1(3) c1 by (auto simp: sub_at_def dest: fun_cong [of _ _ ?t])
    define sub where "sub = \<lparr>sub_client = p, sub_topic = topic, sub_qos = ?q, sub_share = share, sub_groupName = grp\<rparr>"
    have sub: "sub_client sub = p" "sub_topic sub = topic" "sub_qos sub = ?q" by (simp_all add: sub_def)
    obtain b2 where b2: "new_sub sub b1 = (b_subnext b1, b2)" "b2 = snd (new_sub sub b1)" by (simp add: new_sub_def)
    have eq: "processRemoteSubscribe p obj b =
        do { (m, _, err) \<leftarrow> topics_Manager_Subscribe (b_topicsMgr b2) topic ?q (Some (IfPtr (b_subnext b1)));
             if err \<noteq> None then Some (b2\<lparr>b_topicsMgr := m\<rparr>)
             else on_client (\<lambda>c. c\<lparr>c_subMap := gm_put ?t (b_subnext b1) (c_subMap c)\<rparr>) p (b2\<lparr>b_topicsMgr := m\<rparr>) }"
      using f assms(2) b1(1) b2(1) unfolding sub_def shared_parts_def by (simp add: processRemoteSubscribe_def Let_def)
    show ?thesis
    proof (rule steps_add_sub [OF steps_ready [OF b1(2)] c1 none sub(1), of ?q, unfolded sub(2), folded b2(2)])
      fix m assume m: "topics_Manager_Subscribe (b_topicsMgr b2) topic ?q (Some (IfPtr (b_subnext b1))) = Some (m, ?q, None)"
        "steps n b1 (set_client p (c1\<lparr>c_subMap := gm_put ?t (b_subnext b1) (c_subMap c1)\<rparr>) (b2\<lparr>b_topicsMgr := m\<rparr>))"
      let ?b = "set_client p (c1\<lparr>c_subMap := gm_put ?t (b_subnext b1) (c_subMap c1)\<rparr>) (b2\<lparr>b_topicsMgr := m\<rparr>)"
      have "subscribed ?b p ?t ?q" using f(1) by (simp add: subscribed_def sub_at_def b2(2) sub_def)
      moreover have "processRemoteSubscribe p obj b = Some ?b"
        using m(1) c1 unfolding eq by (simp add: on_client_def b2(2))
      moreover have "resubscribed p b1 ?b" "b_clients ?b = b_clients b"
        using c1 drop_old_clients [OF b1(1)] by (simp_all add: resubscribed_def set_client_def b2(2) new_sub_def)
      ultimately show ?thesis using steps_trans [OF b1(2) m(2)] resubscribed_trans [OF b1(4)] by blast
    next
      fix m err assume m: "topics_Manager_Subscribe (b_topicsMgr b2) topic ?q (Some (IfPtr (b_subnext b1))) = Some (m, QosFailure, Some err)"
        "\<not> ValidQos ?q \<or> topic_levels topic = None" "steps n b1 (b2\<lparr>b_topicsMgr := m\<rparr>)"
      then have "processRemoteSubscribe p obj b = Some (b2\<lparr>b_topicsMgr := m\<rparr>)" unfolding eq by simp
      moreover have "resubscribed p b1 (b2\<lparr>b_topicsMgr := m\<rparr>)" "b_clients (b2\<lparr>b_topicsMgr := m\<rparr>) = b_clients b"
        using drop_old_clients [OF b1(1)] by (simp_all add: resubscribed_def b2(2) new_sub_def)
      ultimately show ?thesis using steps_trans [OF b1(2) m(3)] resubscribed_trans [OF b1(4)] m(2) f by auto
    qed
  qed
qed


lemma registered_exists:
  assumes "ready n b" "gm_get (b_clients b) i = Some (ClientObj p)"
  obtains c where "b_heap b p = Some c"
  using assms unfolding ready_def reg_ok_def registry_def by blast

lemma steps_AddORUpdateSubscription:
  assumes "ready n b"
  shows "\<exists>b'. AddORUpdateSubscription obj b = Some b' \<and> steps n b b'"
proof (cases "\<exists>p. registry b (sd_ClientID obj) = Some (ClientObj p)")
  case True
  then obtain p where i: "gm_get (b_clients b) (sd_ClientID obj) = Some (ClientObj p)" by (auto simp: registry_def)
  obtain c where p: "gm_get (b_clients b) (sd_ClientID obj) = Some (ClientObj p)" "b_heap b p = Some c"
    using i registered_exists [OF assms i] by metis
  then show ?thesis
    using steps_processRemoteSubscribe [OF assms p(2), of obj] steps_refl [OF assms]
    by (auto simp: AddORUpdateSubscription_def)
next
  case False
  then show ?thesis using steps_refl [OF assms]
    by (auto simp: AddORUpdateSubscription_def registry_def split: option.split registered.split)
qed

text \<open>A client of this node may lose a subscription; the nil session of a client of another node panics.\<close>

definition remote_sub_at :: "Broker \<Rightarrow> Subscription \<Rightarrow> bool" where
  "remote_sub_at b obj \<longleftrightarrow>
     (case gm_get (b_clients b) (sd_ClientID obj) of
        Some (ClientObj p) \<Rightarrow>
          (case b_heap b p of
             Some c \<Rightarrow> c_typ c = REMOTE \<and> gm_get (c_subMap c) (sd_Topic obj) \<noteq> None
           | None \<Rightarrow> False)
      | _ \<Rightarrow> False)"

lemma RemoveSubscription_cases:
  assumes "ready n b"
  shows "if remote_sub_at b obj then RemoveSubscription obj b = None
    else \<exists>b'. RemoveSubscription obj b = Some b' \<and> steps n b b'"
proof (cases "\<exists>p. gm_get (b_clients b) (sd_ClientID obj) = Some (ClientObj p)")
  case True
  then obtain p where p: "gm_get (b_clients b) (sd_ClientID obj) = Some (ClientObj p)" by blast
  obtain c where c: "b_heap b p = Some c" by (rule registered_exists [OF assms p])
  show ?thesis
  proof (cases "gm_get (c_subMap c) (sd_Topic obj)")
    case None
    then show ?thesis using p c steps_refl [OF assms] by (simp add: RemoveSubscription_def remote_sub_at_def)
  next
    case (Some a)
    show ?thesis
    proof (cases "c_typ c")
      case LOCAL
      show ?thesis
        by (rule steps_remove_sub [OF assms c LOCAL Some])
          (use p c Some LOCAL in \<open>simp add: RemoveSubscription_def remote_sub_at_def\<close>)
    next
      case REMOTE
      then have "c_session c = None" using assms c by (simp add: ready_def sess_ok_def)
      moreover obtain sub m err where "b_subheap b a = Some sub"
        "topics_Manager_Unsubscribe (b_topicsMgr b) (sub_topic sub) (Some (IfPtr a)) = Some (m, err)"
        by (rule unsub_state [OF assms c Some])
      ultimately show ?thesis using p c Some REMOTE
        by (simp add: RemoveSubscription_def remote_sub_at_def on_client_session_def)
    qed
  qed
next
  case False
  then show ?thesis using steps_refl [OF assms]
    by (auto simp: RemoveSubscription_def remote_sub_at_def split: option.split registered.split)
qed

lemma AddORUpdateClient_eq:
  "AddORUpdateClient obj b =
     (with_client (remote_client obj) (b_sessionMgr b) b)\<lparr>b_clients := gm_put (ci_ID obj) (ClientObj (b_next b)) (b_clients b)\<rparr>"
  by (simp add: AddORUpdateClient_def new_remote_def with_client_def set_client_def)

lemma ready_clients:
  assumes "ready n b" "\<And>i p. gm_get m i = Some (ClientObj p) \<Longrightarrow> b_heap b p \<noteq> None"
  shows "ready n (b\<lparr>b_clients := m\<rparr>)"
  using assms by (simp add: ready_def broker_inv_def tree_sound_def client_ok_def in_force_def online_def sess_ok_def reg_ok_def registry_def)

lemma remote_client_simps [simp]:
  "c_typ (remote_client obj) = REMOTE" "c_subMap (remote_client obj) = []" "c_session (remote_client obj) = None"
  "c_info (remote_client obj) = obj" "c_status (remote_client obj) = Connected" "c_conn (remote_client obj) = None"
  by (simp_all add: remote_client_def client_init_def new_client_def Let_def)

lemma ready_with_remote:
  assumes "ready n b" "Suc (card (online b)) < n"
  shows "ready n (with_client (remote_client obj) (b_sessionMgr b) b)"
  by (rule with_client_ready [OF assms(1) _ _ _ _ _ assms(2)]) (use assms(1) in \<open>simp_all add: ready_def sess_ok_def\<close>)

lemma ready_AddORUpdateClient:
  assumes "ready n b" "Suc (card (online b)) < n"
  shows "ready n (AddORUpdateClient obj b)"
  unfolding AddORUpdateClient_eq
  by (rule ready_clients [OF ready_with_remote [OF assms]])
    (use assms(1) in \<open>auto simp: ready_def reg_ok_def registry_def split: if_splits\<close>)

lemma ready_RemoveClient:
  assumes "ready n b"
  shows "ready n (RemoveClient i b)"
proof -
  have "b_heap b p \<noteq> None" if "gm_get (gm_del i (b_clients b)) j = Some (ClientObj p)" for j p
    using that assms by (auto simp: ready_def reg_ok_def registry_def split: if_splits)
  then have "ready n (b\<lparr>b_clients := gm_del i (b_clients b)\<rparr>)" by (rule ready_clients [OF assms])
  then show ?thesis using assms by (auto simp: RemoveClient_def split: option.split)
qed

section \<open>Properties\<close>

text \<open>The event deletes a subscription of a client of another node, under the name of its hash.\<close>

definition deletes_remote :: "codec \<Rightarrow> Broker \<Rightarrow> mvcc_event \<Rightarrow> bool" where
  "deletes_remote cd b ev \<longleftrightarrow>
     (case watch_event cd b ev of
        None \<Rightarrow> False
      | Some evt \<Rightarrow>
          (case evt_Value evt of
             EvtSubscription s \<Rightarrow> evt_Src evt = EventSrcSubscription \<and> evt_Type evt = EventTypeDelete \<and>
               remote_sub_at b (case go_split (CHR '':'') (evt_Key evt) of
                   [k0, k1] \<Rightarrow> s\<lparr>sd_ID := evt_Key evt, sd_Topic := k0, sd_ClientID := k1\<rparr>
                 | _ \<Rightarrow> s)
           | _ \<Rightarrow> False))"

lemma doSubscriptionEvent_cases:
  assumes "ready n b" "evt_Value evt = EvtSubscription s"
  defines "s' \<equiv> (case go_split (CHR '':'') (evt_Key evt) of
      [k0, k1] \<Rightarrow> s\<lparr>sd_ID := evt_Key evt, sd_Topic := k0, sd_ClientID := k1\<rparr> | _ \<Rightarrow> s)"
  shows "if evt_Type evt = EventTypeDelete \<and> remote_sub_at b s' then doSubscriptionEvent evt b = None
    else \<exists>b'. doSubscriptionEvent evt b = Some b' \<and> steps n b b'"
proof (cases "evt_Type evt = EventTypeDelete")
  case True
  then have "doSubscriptionEvent evt b = RemoveSubscription s' b"
    using assms(2) by (auto simp: doSubscriptionEvent_def s'_def split: list.split)
  then show ?thesis using RemoveSubscription_cases [OF assms(1), of s'] True by simp
next
  case False
  then have "evt_Type evt = EventTypeNew \<or> evt_Type evt = EventTypeUpdate" by (cases "evt_Type evt") auto
  then show ?thesis using steps_AddORUpdateSubscription [OF assms(1), of s] assms(2) False
    by (simp add: doSubscriptionEvent_def)
qed

lemma ready_other_events:
  assumes "ready n b" "Suc (card (online b)) < n"
  shows "ready n (doClientEvent evt b)" "ready n (doBridgeEvent evt b)" "ready n (doUserEvent evt b)" "ready n (doAclEvent evt b)"
  using assms ready_AddORUpdateClient ready_RemoveClient
  by (auto simp: doClientEvent_def doBridgeEvent_def doUserEvent_def doAclEvent_def AddORUpdateBridge_def RemoveBridge_def
      AddORUpdateUser_def RemoveUser_def AddORUpdateAcl_def RemoveAcl_def split: EvtValue.split)

text \<open>
  A node that follows the events of the store stays consistent: whatever the event, the node either
  stays in a state in which the topic tree agrees with the clients' maps, or the event deletes a
  subscription that the node has for a client of another node under the hash of its topic, and the
  node panics on the nil session of that client.
\<close>

theorem cluster_event_consistent:
  assumes "ready n b" "Suc (card (online b)) < n"
  shows "if deletes_remote cd b ev then cluster_event cd ev b = None
    else \<exists>b'. cluster_event cd ev b = Some b' \<and> ready n b'"
proof (cases "watch_event cd b ev")
  case None
  then show ?thesis using assms(1) by (simp add: cluster_event_def deletes_remote_def)
next
  case (Some evt)
  show ?thesis
  proof (cases "evt_Src evt = EventSrcSubscription")
    case True
    show ?thesis
    proof (cases "evt_Value evt")
      case (EvtSubscription s)
      from doSubscriptionEvent_cases [OF assms(1) this] Some True EvtSubscription show ?thesis
        by (auto simp: cluster_event_def deletes_remote_def readyToReceive_turn_def dest: steps_ready split: if_splits)
    qed (use Some True assms(1) in \<open>simp_all add: cluster_event_def deletes_remote_def readyToReceive_turn_def doSubscriptionEvent_def\<close>)
  next
    case False
    then show ?thesis using Some ready_other_events [OF assms, of evt] assms(1)
      by (cases "evt_Src evt") (auto simp: cluster_event_def deletes_remote_def readyToReceive_turn_def split: EvtValue.split)
  qed
qed


section \<open>Clients and subscriptions of other nodes\<close>

lemma go_cut_dir: "d \<noteq> [] \<Longrightarrow> go_cut d (d @ s) = s"
  by (cases d) (simp_all add: go_hasPrefix_def)

lemma watch_event_same:
  assumes "b_cluster b' = b_cluster b" "b_id b' = b_id b"
  shows "watch_event cd b' ev = watch_event cd b ev"
  unfolding watch_event_def doWatchWithClient_def doWatchWithSubscription_def doWatchWithBridge_def
    doWatchWithUser_def doWatchWithAcl_def assms by simp

lemma go_hasPrefix_append [simp]: "go_hasPrefix (d @ s) d"
  by (simp add: go_hasPrefix_def)

text \<open>
  C21. A subscription of a client of another node is taken over from the store: when the events of that
  client and of its subscription arrive, the node has a remote client with the other node's name
  under the client's identifier, and the subscription, if its QoS and filter are valid, is in its
  topic tree, so that a message published here at QoS 0 for it is put into the store for
  that node and nothing is written.
\<close>

theorem remote_subscription_installed:
  assumes r: "ready n b" "Suc (card (online b)) < n"
    and c: "watch_event cd b ev1 = Some \<lparr>evt_Src = EventSrcClient, evt_Type = ty1, evt_Key = k1, evt_Value = EvtClient info\<rparr>"
      "ty1 \<noteq> EventTypeDelete"
    and s: "watch_event cd b ev2 = Some \<lparr>evt_Src = EventSrcSubscription, evt_Type = ty2, evt_Key = k2, evt_Value = EvtSubscription obj\<rparr>"
      "ty2 \<noteq> EventTypeDelete" "sd_ClientID obj = ci_ID info"
    and t: "shared_parts (sd_Topic obj) = Some (share, grp, topic)" "topic_levels topic = Some ls"
      "ValidQos (word_of_nat (sd_Qos obj))"
  shows "\<exists>b1 b2 a d. cluster_event cd ev1 b = Some b1 \<and> cluster_event cd ev2 b1 = Some b2 \<and> ready n b2 \<and>
    registry b2 (ci_ID info) = Some (ClientObj (b_next b)) \<and> b_heap b2 (b_next b) = Some d \<and> c_typ d = REMOTE \<and>
    (ls, a) \<in> in_force b2 \<and>
    (\<forall>packet e now. Qos packet = QosAtMostOnce \<longrightarrow>
       publish n e now a packet b2 = Some (etcdRouter_Forward e (ci_NodeID info)
         \<lparr>fw_ClientID = ci_ID info, fw_Packet = packet, fw_Timestamp = now\<rparr> b2))"
proof -
  let ?p = "b_next b"
  define b1 where "b1 = AddORUpdateClient info b"
  have r1: "ready n b1" unfolding b1_def by (rule ready_AddORUpdateClient [OF r])
  have p1: "b_heap b1 ?p = Some (remote_client info)" "gm_get (b_clients b1) (ci_ID info) = Some (ClientObj ?p)"
    "b_cluster b1 = b_cluster b" "b_id b1 = b_id b"
    by (simp_all add: b1_def AddORUpdateClient_eq) (simp_all add: with_client_def set_client_def)
  have e1: "cluster_event cd ev1 b = Some b1"
    using c by (cases ty1) (simp_all add: cluster_event_def readyToReceive_turn_def doClientEvent_def b1_def)
  have w2: "watch_event cd b1 ev2 = watch_event cd b ev2" by (rule watch_event_same [OF p1(3,4)])
  obtain b2 where b2: "processRemoteSubscribe ?p obj b1 = Some b2" "steps n b1 b2"
    "subscribed b2 ?p (sd_Topic obj) (word_of_nat (sd_Qos obj))" "resubscribed ?p b1 b2" "b_clients b2 = b_clients b1"
    using steps_processRemoteSubscribe [OF r1 p1(1), of obj] t by auto
  have e2: "cluster_event cd ev2 b1 = Some b2"
    using s p1 b2(1) w2 by (cases ty2)
      (simp_all add: cluster_event_def readyToReceive_turn_def doSubscriptionEvent_def AddORUpdateSubscription_def)
  obtain d where d: "b_heap b2 ?p = Some d" "kept_client (remote_client info) d" by (rule steps_get [OF b2(2) p1(1)])
  have i: "c_info d = info" "c_status d = Connected" using b2(4) p1(1) d(1) by (auto simp: resubscribed_def)
  obtain a sub where a: "gm_get (c_subMap d) (sd_Topic obj) = Some a" "b_subheap b2 a = Some sub" "sub_client sub = ?p" "sub_topic sub = topic"
    using b2(3) d(1) t(1) by (auto simp: subscribed_def sub_at_def)
  have "client_ok b2 ?p d" using steps_ready [OF b2(2)] d(1) by (simp add: ready_def broker_inv_def)
  then have "(ls, a) \<in> in_force b2" using a i(2) t(2) unfolding client_ok_def by fastforce
  moreover have "registry b2 (ci_ID info) = Some (ClientObj ?p)"
    using b2(5) p1(2) by (simp add: registry_def)
  moreover have "publish n e now a packet b2 = Some (etcdRouter_Forward e (ci_NodeID info)
      \<lparr>fw_ClientID = ci_ID info, fw_Packet = packet, fw_Timestamp = now\<rparr> b2)" if "Qos packet = QosAtMostOnce" for packet e now
    using that a(2,3) d i by (simp add: publish_def kept_client_def)
  ultimately show ?thesis using e1 e2 d steps_ready [OF b2(2)] by (intro exI [of _ b1] exI [of _ b2] exI [of _ a] exI [of _ d])
    (simp add: kept_client_def)
qed


section \<open>Deletions\<close>

text \<open>
  C27. The deletion of a client's record unregisters the client on every node, its own one included: the
  event carries no value, so it is not recognised as one of this node. A client that reconnects
  (its old record is deleted, a new one put) is taken out of the registry when the event of
  the deletion arrives, although it is connected and its subscriptions are in force; from
  then on forwarded messages for it are left in the store and events of the cluster about it are ignored.
\<close>

theorem delete_event_unregisters:
  assumes "b_id b \<noteq> []" "ev_Type ev = DELETE" "ev_Key ev = clientDir (b_cluster b) @ ''/'' @ cid" "ev_Value ev = []"
  shows "\<exists>b'. cluster_event cd ev b = Some b' \<and> registry b' = (registry b)(cid := None) \<and>
    b_heap b' = b_heap b \<and> in_force b' = in_force b \<and> b_out b' = b_out b \<and>
    (\<forall>fev pk. ev_Type fev = PUT \<longrightarrow> decoded (dec_forward cd) ([], None) (ev_Value fev) = Some (cid, pk) \<longrightarrow>
       Receive_event cd fev b' = Some (b', None)) \<and>
    (\<forall>obj. sd_ClientID obj = cid \<longrightarrow> AddORUpdateSubscription obj b' = Some b')"
proof -
  have w: "watch_event cd b ev = Some \<lparr>evt_Src = EventSrcClient, evt_Type = EventTypeDelete, evt_Key = cid, evt_Value = EvtClient zeroClient\<rparr>"
    using assms go_cut_dir [of "clientDir (b_cluster b) @ ''/''" cid]
    by (auto simp: watch_event_def doWatchWithClient_def decoded_def zeroClient_def evt_type_def Let_def)
  have none: "gm_get (b_clients (RemoveClient cid b)) cid = None"
    using registry_RemoveClient [of cid b] by (simp add: registry_def)
  have "cluster_event cd ev b = Some (RemoveClient cid b)"
    using w by (simp add: cluster_event_def readyToReceive_turn_def doClientEvent_def)
  moreover have "Receive_event cd fev (RemoveClient cid b) = Some (RemoveClient cid b, None)"
    if "ev_Type fev = PUT" "decoded (dec_forward cd) ([], None) (ev_Value fev) = Some (cid, pk)" for fev pk
    using that none by (simp add: Receive_event_def)
  moreover have "AddORUpdateSubscription obj (RemoveClient cid b) = Some (RemoveClient cid b)" if "sd_ClientID obj = cid" for obj
    using that none by (simp add: AddORUpdateSubscription_def)
  moreover have "b_heap (RemoveClient cid b) = b_heap b" "in_force (RemoveClient cid b) = in_force b"
    "b_out (RemoveClient cid b) = b_out b"
    by (simp_all add: RemoveClient_def in_force_def split: option.split)
  ultimately show ?thesis using registry_RemoveClient [of cid b] by blast
qed

definition sample_codec :: codec where
  "sample_codec = \<lparr>dec_client = (\<lambda>bs. Some (zeroClient\<lparr>ci_ID := string_of_bytes bs, ci_NodeID := ''m''\<rparr>)),
     dec_sub = (\<lambda>bs. Some (zeroSubscription\<lparr>sd_ClientID := string_of_bytes bs, sd_NodeID := ''m'', sd_Topic := ''b''\<rparr>)),
     dec_user = (\<lambda>bs. None), dec_acl = (\<lambda>bs. None), dec_node = (\<lambda>bs. Some \<lparr>nd_ID = string_of_bytes bs, nd_Name = [], nd_Version = [], nd_Timestamp = 0\<rparr>),
     dec_forward = (\<lambda>bs. Some (''c1'', Some sample_message)), hash_password = (\<lambda>s. s)\<rparr>"

definition deletion :: "string \<Rightarrow> mvcc_event" where
  "deletion key = \<lparr>ev_Type = DELETE, ev_Key = key, ev_Value = [], ev_CreateRevision = 0, ev_ModRevision = 2\<rparr>"

definition insertion :: "string \<Rightarrow> bytes \<Rightarrow> mvcc_event" where
  "insertion key val = \<lparr>ev_Type = PUT, ev_Key = key, ev_Value = val, ev_CreateRevision = 2, ev_ModRevision = 2\<rparr>"

lemma sample_cluster_sel: "b_cluster sample_broker = sample_cluster" "b_id sample_broker = ''n''"
  by (simp_all add: sample_broker_def)

theorem delete_event_unregisters_witness:
  "\<exists>b'. cluster_event sample_codec (deletion ''/s/clients/c1'') sample_broker = Some b' \<and>
     registry b' ''c1'' = None \<and> b_heap b' 0 = Some sample_client"
  using delete_event_unregisters [of sample_broker "deletion ''/s/clients/c1''" "''c1''" sample_codec]
  by (auto simp: deletion_def sample_cluster_sel sample_cluster_def sample_heap)

text \<open>
  The end of a subscription at another node does not reach this one: the deleted key holds the hash
  of the topic, and the node looks for a subscription under the hash itself. Unless the client
  happens to have subscribed to that string, nothing changes, and the subscription stays in the tree.
\<close>

theorem remote_unsubscribe_ignored:
  assumes "b_id b \<noteq> []" "ev_Type ev = DELETE" "ev_Value ev = []"
    and "ev_Key ev = subscriptionDir (b_cluster b) @ ''/'' @ env_md5 e t @ '':'' @ cid"
    and "CHR '':'' \<notin> set (env_md5 e t)" "CHR '':'' \<notin> set cid"
    and "clientDir (b_cluster b) = sysDir (b_cluster b) @ ''/clients''"
    and "subscriptionDir (b_cluster b) = sysDir (b_cluster b) @ ''/subscriptions''"
    and "gm_get (b_clients b) cid = Some (ClientObj p)" "b_heap b p = Some c"
    and "gm_get (c_subMap c) (env_md5 e t) = None"
  shows "cluster_event cd ev b = Some b"
proof -
  have "\<not> go_hasPrefix (ev_Key ev) (clientDir (b_cluster b))" using assms(4,7,8) by (simp add: go_hasPrefix_def)
  moreover have "go_hasPrefix (ev_Key ev) (subscriptionDir (b_cluster b))" using assms(4) by simp
  ultimately have w: "watch_event cd b ev = Some \<lparr>evt_Src = EventSrcSubscription, evt_Type = EventTypeDelete,
      evt_Key = env_md5 e t @ '':'' @ cid, evt_Value = EvtSubscription zeroSubscription\<rparr>"
    using assms(1-4) go_cut_dir [of "subscriptionDir (b_cluster b) @ ''/''" "env_md5 e t @ '':'' @ cid"]
    by (auto simp: watch_event_def doWatchWithSubscription_def decoded_def zeroSubscription_def evt_type_def Let_def)
  have "go_split (CHR '':'') (env_md5 e t @ '':'' @ cid) = [env_md5 e t, cid]"
    using assms(5,6) by (simp add: go_split_append go_split_no_sep)
  then show ?thesis using w assms(9-11)
    by (simp add: cluster_event_def readyToReceive_turn_def doSubscriptionEvent_def RemoveSubscription_def)
qed


definition remote_sample :: Broker where
  "remote_sample = sample_broker\<lparr>b_clients := [(''c1'', ClientObj 0)],
     b_heap := [0 \<mapsto> (remote_client (zeroClient\<lparr>ci_ID := ''c1'', ci_NodeID := ''m''\<rparr>))\<lparr>c_subMap := [(''a'', 0)]\<rparr>]\<rparr>"

theorem remote_unsubscribe_ignored_witness:
  "cluster_event sample_codec (deletion (''/s/subscriptions/'' @ env_md5 (sample_env\<lparr>env_md5 := (\<lambda>t. ''0cc1'')\<rparr>) ''a'' @ '':c1'')) remote_sample =
     Some remote_sample"
proof -
  let ?c = "(remote_client (zeroClient\<lparr>ci_ID := ''c1'', ci_NodeID := ''m''\<rparr>))\<lparr>c_subMap := [(''a'', 0)]\<rparr>"
  have "b_heap remote_sample 0 = Some ?c" by (simp add: remote_sample_def)
  then show ?thesis
    by (intro remote_unsubscribe_ignored [of _ _ "sample_env\<lparr>env_md5 := (\<lambda>t. ''0cc1'')\<rparr>" "''a''" "''c1''" 0 ?c])
      (simp_all add: deletion_def remote_sample_def sample_cluster_sel sample_cluster_def)
qed

section \<open>Starting a node\<close>

lemma load_client_simps [simp]:
  "registry (load_client x b) = (registry b)(fst x \<mapsto> ClusterObj)" "b_topicsMgr (load_client x b) = b_topicsMgr b"
  "b_AclEnable (load_client x b) = b_AclEnable b"
  by (simp_all add: load_client_def new_remote_def set_client_def registry_def fun_eq_iff)

definition no_clients :: "Broker \<Rightarrow> bool" where
  "no_clients b \<longleftrightarrow> (\<forall>i p. registry b i \<noteq> Some (ClientObj p))"

lemma load_clients:
  assumes "no_clients b"
  shows "no_clients (fold load_client cs b)" "b_topicsMgr (fold load_client cs b) = b_topicsMgr b"
    "dom (registry (fold load_client cs b)) = dom (registry b) \<union> fst ` set cs"
  using assms by (induction cs arbitrary: b) (auto simp: no_clients_def)

lemma no_clients_ignores:
  assumes "no_clients b"
  shows "load_subscriptions objs b = Some b" "AddORUpdateSubscription obj b = Some b" "RemoveSubscription obj b = Some b"
proof -
  have k: "gm_get (b_clients b) i \<noteq> Some (ClientObj p)" for i p
    using assms by (simp add: no_clients_def registry_def)
  show "load_subscriptions objs b = Some b" by (cases objs) (auto simp: k split: option.split registered.split)
  show "AddORUpdateSubscription obj b = Some b" "RemoveSubscription obj b = Some b"
    by (auto simp: AddORUpdateSubscription_def RemoveSubscription_def k split: option.split registered.split)
qed

lemma no_clients_fields [simp]:
  "no_clients (b\<lparr>b_auth := x\<rparr>) = no_clients b" "no_clients (b\<lparr>b_acl := y\<rparr>) = no_clients b"
  "no_clients (b\<lparr>b_bridgeMQ := z\<rparr>) = no_clients b" "no_clients (emit o' b) = no_clients b"
  by (simp_all add: no_clients_def registry_def emit_def)

text \<open>
  A node that starts learns no subscription of the clients of other nodes: loading the clients
  registers the cluster object in their place, so loading the subscriptions stops at the first
  one, and later events of subscriptions of these clients are ignored too. The topic tree is that of
  an empty broker, and messages published on this node are not forwarded to them.
\<close>

theorem start_learns_no_subscription:
  assumes "no_clients b" "b_BridgeEnable b \<longrightarrow> b_bridgeMQ b \<noteq> None" "b_AclEnable b \<longrightarrow> b_acl b \<noteq> None"
  shows "\<exists>b'. Cluster_Start cd now a b = Some b' \<and> b_topicsMgr b' = b_topicsMgr b \<and> no_clients b' \<and>
    (\<forall>obj. AddORUpdateSubscription obj b' = Some b') \<and>
    (\<forall>cs. GetClients cd (sa_clients a) = (Some cs, None) \<longrightarrow> fst ` set cs \<subseteq> dom (registry b'))"
proof -
  define b1 where "b1 = (if b_BridgeEnable b then
    (case GetBridges (sa_bridges a) of (_, Some _) \<Rightarrow> b | (objs, None) \<Rightarrow> b\<lparr>b_bridgeMQ := map_option (\<lambda>k. kafka_Load k objs) (b_bridgeMQ b)\<rparr>) else b)"
  define b2 where "b2 = LoadUsers cd now (sa_users a) b1"
  define b3 where "b3 = (if b_AclEnable b2 then
    (case GetAcls cd (sa_acls a) of (_, Some _) \<Rightarrow> b2 | (acls, None) \<Rightarrow> b2\<lparr>b_acl := map_option (\<lambda>x. etcdAcl_Load x acls) (b_acl b2)\<rparr>) else b2)"
  have 1: "no_clients b1" "b_topicsMgr b1 = b_topicsMgr b" "b_AclEnable b1 = b_AclEnable b" "b_acl b1 = b_acl b"
    using assms(1) by (auto simp: b1_def split: option.split prod.split)
  have 2: "no_clients b2" "b_topicsMgr b2 = b_topicsMgr b" "b_AclEnable b2 = b_AclEnable b" "b_acl b2 = b_acl b"
    using 1 by (auto simp: b2_def LoadUsers_def StoreAddORUpdateUser_def emit_def Let_def no_clients_def registry_def split: option.split prod.split)
  have 3: "no_clients b3" "b_topicsMgr b3 = b_topicsMgr b"
    using 2 by (auto simp: b3_def split: option.split prod.split)
  have l1: "(if b_BridgeEnable b then LoadBridges (sa_bridges a) b else Some b) = Some b1"
    using assms(2) by (auto simp: b1_def LoadBridges_def split: option.split prod.split)
  have l3: "(if b_AclEnable b2 then LoadAcls cd (sa_acls a) b2 else Some b2) = Some b3"
    using assms(3) 2(3,4) by (auto simp: b3_def LoadAcls_def split: option.split prod.split)
  define b4 where "b4 = LoadClients cd (sa_clients a) b3"
  have 4: "no_clients b4" "b_topicsMgr b4 = b_topicsMgr b"
    "\<forall>cs. GetClients cd (sa_clients a) = (Some cs, None) \<longrightarrow> fst ` set cs \<subseteq> dom (registry b4)"
    using 3 load_clients [OF 3(1)] by (auto simp: b4_def LoadClients_def split: option.split prod.split)
  have "Cluster_Start cd now a b = LoadSubscriptions cd (sa_subscriptions a) b4"
    unfolding Cluster_Start_def l1 by (simp add: l3 b4_def flip: b2_def)
  also have "\<dots> = Some b4"
    using no_clients_ignores(1) [OF 4(1)] by (auto simp: LoadSubscriptions_def split: option.split prod.split)
  finally show ?thesis using 4 no_clients_ignores(2) [OF 4(1)] by blast
qed


definition sample_answers :: start_answers where
  "sample_answers = \<lparr>sa_bridges = Inr [], sa_users = Inr [], sa_acls = Inr [],
     sa_clients = Inr [(''/s/clients/c9'', bytes_of_string ''c9'')],
     sa_subscriptions = Inr [(''/s/subscriptions/1:c9'', bytes_of_string ''c9'')]\<rparr>"

theorem start_learns_no_subscription_witness:
  "\<exists>b'. Cluster_Start sample_codec 5 sample_answers (sample_broker\<lparr>b_clients := []\<rparr>) = Some b' \<and>
     ''c9'' \<in> dom (registry b') \<and> b_topicsMgr b' = b_topicsMgr sample_broker"
proof -
  have "no_clients (sample_broker\<lparr>b_clients := []\<rparr>)" by (simp add: no_clients_def registry_def)
  moreover have "GetClients sample_codec (sa_clients sample_answers) =
      (Some [(''c9'', zeroClient\<lparr>ci_ID := ''c9'', ci_NodeID := ''m''\<rparr>)], None)"
    by (simp add: GetClients_def get_table_def etcdStore_All_def sample_answers_def sample_codec_def collect_kvs_def)
  ultimately show ?thesis
    using start_learns_no_subscription [of "sample_broker\<lparr>b_clients := []\<rparr>" sample_codec 5 sample_answers]
    by (auto simp: sample_broker_def)
qed

section \<open>Garbage collection\<close>

text \<open>The tables as the manager sees them.\<close>

definition lost_clients :: "(string, Node) gomap option \<Rightarrow> (string, Client) gomap option \<Rightarrow> string list" where
  "lost_clients nodes clients = map fst (filter (\<lambda>x. lookup nodes (ci_NodeID (snd x)) = None) (entries clients))"

definition lost_subscriptions :: "(string, Client) gomap option \<Rightarrow> (string, Subscription) gomap option \<Rightarrow> Subscription list" where
  "lost_subscriptions clients sbs = filter (\<lambda>s. lookup clients (sd_ClientID s) = None) (map snd (entries sbs))"

lemma remove_lost_clients:
  "fold (remove_lost_client fails nodes) cs (b, chg) =
     (emits (map (\<lambda>i. StoreDel (client_key b i)) (map fst (filter (\<lambda>x. lookup nodes (ci_NodeID (snd x)) = None) cs))) b,
      chg \<or> (\<exists>i \<in> set (map fst (filter (\<lambda>x. lookup nodes (ci_NodeID (snd x)) = None) cs)). \<not> fails i))"
proof (induction cs arbitrary: b chg)
  case (Cons x cs)
  have "client_key (emit o' b) = client_key b" for o' by (simp add: client_key_def emit_def fun_eq_iff)
  then show ?case using Cons
    by (auto simp: remove_lost_client_def StoreRemoveClient_def client_key_def emits_def emit_def split: option.split)
qed (simp add: emits_def)

lemma remove_lost_subscriptions:
  "fold (remove_lost_subscription e clients) vs b =
     emits (map (\<lambda>s. StoreDel (sub_key e b (sd_Topic s) (sd_ClientID s)))
       (filter (\<lambda>s. lookup clients (sd_ClientID s) = None) (map snd vs))) b"
proof (induction vs arbitrary: b)
  case (Cons v vs)
  then show ?case
    by (auto simp: remove_lost_subscription_def StoreRemoveSubscription_def sub_key_def emits_def emit_def split: option.split)
qed (simp add: emits_def)

text \<open>
  C26. What the leader collects: when the tables can be read, a round asks the store to delete exactly the
  clients whose node is not registered, then, seeing the clients read again if one was removed, exactly the subscriptions
  whose client is not in the table, and does nothing else; a node that is not the leader does
  nothing. When the table of nodes is empty every client is removed.
\<close>

theorem manager_collects:
  assumes "GetNodes cd rn = (nodes, None)" "GetClients cd rc = (clients, None)"
    "GetClients cd ra = (again, None)" "GetSubscriptions cd rs = (sbs, None)"
  shows "manager_round cd e fails rn rc ra rs b =
    (if leader (b_cluster b)
     then emits (map (\<lambda>i. StoreDel (client_key b i)) (lost_clients nodes clients) @
            map (\<lambda>s. StoreDel (sub_key e b (sd_Topic s) (sd_ClientID s)))
              (lost_subscriptions (if \<exists>i \<in> set (lost_clients nodes clients). \<not> fails i then again else clients) sbs)) b
     else b) \<and>
    (nodes = None \<longrightarrow> set (lost_clients nodes clients) = fst ` set (entries clients))"
proof -
  have k: "sub_key e (emits xs b) = sub_key e b" for xs by (simp add: sub_key_def emits_def fun_eq_iff)
  have "fold (remove_lost_client fails nodes) (entries clients) (b, False) =
      (emits (map (\<lambda>i. StoreDel (client_key b i)) (lost_clients nodes clients)) b,
       \<exists>i \<in> set (lost_clients nodes clients). \<not> fails i)"
    unfolding remove_lost_clients lost_clients_def by simp
  moreover have "fold (remove_lost_subscription e cl) (entries sbs) (emits xs b) =
      emits (xs @ map (\<lambda>s. StoreDel (sub_key e b (sd_Topic s) (sd_ClientID s))) (lost_subscriptions cl sbs)) b" for cl xs
    unfolding remove_lost_subscriptions lost_subscriptions_def k by simp
  ultimately have "manager_round cd e fails rn rc ra rs b =
    (if leader (b_cluster b)
     then emits (map (\<lambda>i. StoreDel (client_key b i)) (lost_clients nodes clients) @
            map (\<lambda>s. StoreDel (sub_key e b (sd_Topic s) (sd_ClientID s)))
              (lost_subscriptions (if \<exists>i \<in> set (lost_clients nodes clients). \<not> fails i then again else clients) sbs)) b
     else b)"
    using assms by (simp add: manager_round_def Let_def)
  then show ?thesis by (auto simp: lost_clients_def lookup_def)
qed

definition leading :: Broker where
  "leading = sample_broker\<lparr>b_cluster := sample_cluster\<lparr>leader := True\<rparr>\<rparr>"

theorem manager_collects_witness:
  "manager_round sample_codec sample_env (\<lambda>i. False) (Inr [(''/s/nodes/x'', bytes_of_string ''x'')])
     (sa_clients sample_answers) (Inr []) (sa_subscriptions sample_answers) leading =
   emits [StoreDel ''/s/clients/c9'', StoreDel (sub_key sample_env leading ''b'' ''c9'')] leading"
proof -
  let ?n = "Inr [(''/s/nodes/x'', bytes_of_string ''x'')]"
  have "GetNodes sample_codec ?n = (Some [(''x'', \<lparr>nd_ID = ''x'', nd_Name = [], nd_Version = [], nd_Timestamp = 0\<rparr>)], None)"
    "GetClients sample_codec (sa_clients sample_answers) = (Some [(''c9'', zeroClient\<lparr>ci_ID := ''c9'', ci_NodeID := ''m''\<rparr>)], None)"
    "GetClients sample_codec (Inr []) = (None, None)"
    "GetSubscriptions sample_codec (sa_subscriptions sample_answers) =
      (Some [([], zeroSubscription\<lparr>sd_ClientID := ''c9'', sd_NodeID := ''m'', sd_Topic := ''b''\<rparr>)], None)"
    by (simp_all add: GetNodes_def GetClients_def GetSubscriptions_def get_table_def etcdStore_All_def sample_answers_def
        sample_codec_def collect_kvs_def zeroSubscription_def)
  from manager_collects [OF this, of sample_env "\<lambda>i. False" leading] show ?thesis
    by (simp add: lost_clients_def lost_subscriptions_def entries_def lookup_def leading_def client_key_def sample_cluster_def
        sub_key_def)
qed

section \<open>A message for a client of another node\<close>

definition put_event :: "string \<Rightarrow> bytes \<Rightarrow> mvcc_event \<Rightarrow> bool" where
  "put_event key val ev \<longleftrightarrow> ev_Type ev = PUT \<and> ev_Key ev = key \<and> ev_Value ev = val"

lemma publishFoward_connected:
  assumes "reachable_client b p" "Qos packet = 0 \<or> Qos packet = 1" "ControlPacket_Write (CP_Publish packet) \<noteq> None"
  shows "\<exists>b'. publishFoward n e now p packet b = Some b' \<and> b_out b' = b_out b @ [Wrote p (CP_Publish packet)]"
proof (cases "Qos packet = 0")
  case True
  then show ?thesis using WriterPacket_connected [OF assms(1,3), of n e now] by (simp add: publishFoward_def emit_def)
next
  case False
  obtain c where c: "b_heap b p = Some c" "c_status c \<noteq> Disconnected" "c_conn c = Some True"
    using assms(1) by (auto simp: reachable_client_def)
  define b1 where "b1 = set_client p (put_inflight now packet c) b"
  have "reachable_client b1 p" using c by (simp add: b1_def reachable_client_def put_inflight_def)
  then have "WriterPacket n e now p (CP_Publish packet) b1 = Some (emit (Wrote p (CP_Publish packet)) b1, None)"
    by (rule WriterPacket_connected [OF _ assms(3)])
  then show ?thesis using False assms(2) c(1)
    by (auto simp: publishFoward_def on_client_def b1_def set_client_def emit_def)
qed

lemma ProcessMessage_forwarded:
  assumes r: "b_heap b p = Some d" "c_status d \<noteq> Disconnected" "c_conn d = Some True"
    and pk: "Qos packet = 0 \<or> Qos packet = 1" "\<not> Retain packet" "validatePacketFields (CP_Publish packet)"
      "ControlPacket_Write (CP_Publish packet) \<noteq> None"
    and "\<not> b_BridgeEnable b"
  shows "\<exists>b'. ProcessMessage n e now \<lparr>msg_client = p, msg_packet = Some (CP_Publish packet), msg_forward = True\<rparr> b = Some b' \<and>
    b_out b' = b_out b @
      (if denied b ''pub'' (c_info d) (TopicName packet) then []
       else if Qos packet = 1 then [Wrote p (puback (MessageID packet)), Wrote p (CP_Publish packet)]
       else [Wrote p (CP_Publish packet)])"
proof -
  have rc: "reachable_client b p" using r by (auto simp: reachable_client_def)
  have w: "WriterPacket n e now p (puback (MessageID packet)) b = Some (emit (Wrote p (puback (MessageID packet))) b, None)"
    by (rule WriterPacket_connected [OF rc]) (simp add: puback_def)
  have fwd: "ProcessPublishMessage n e now p packet True b' = publishFoward n e now p packet b'"
    if "b_heap b' p = Some d" "\<not> b_BridgeEnable b'" for b'
    using that pk(2) by (simp add: ProcessPublishMessage_def)
  have "b_BridgeEnable (emit x b) = b_BridgeEnable b" for x by (simp add: emit_def)
  moreover have "reachable_client (emit (Wrote p (puback (MessageID packet))) b) p" using rc by simp
  note publishFoward_connected [OF this pk(1,4), of n e now]
  ultimately show ?thesis
    using publishFoward_connected [OF rc pk(1,4), of n e now] pk(1,3) r(1) assms(8) w
    by (auto simp: ProcessMessage_def ProcessPublish_def denied_def fwd emit_def Let_def split: option.splits)
qed


text \<open>
  C10. A message crosses the cluster: when a node publishes a QoS 0 or 1 message to a subscriber registered
  for another node, it puts the message under a key that the other node watches; that node, if
  the client is connected to it, submits the message for the client and deletes the key, and
  handling it writes the PUBLISH to the client. The handler treats it as one that the client itself
  had sent: at QoS 1 the subscriber is also sent a PUBACK for a message it never published, and
  when it may not publish to the topic the message is dropped. The decoder is only assumed to invert the
  encoding of this message.
\<close>

theorem forward_end_to_end:
  assumes a: "b_subheap a s = Some sub" "b_heap a (sub_client sub) = Some c" "c_typ c = REMOTE"
    and route: "ci_NodeID (c_info c) = b_id b" "forwardDir (b_cluster a) = forwardDir (b_cluster b)"
    and b: "gm_get (b_clients b) (ci_ID (c_info c)) = Some (ClientObj p)" "b_heap b p = Some d" "c_typ d = LOCAL"
      "c_status d \<noteq> Disconnected" "c_conn d = Some True" "\<not> b_BridgeEnable b"
    and pk: "Qos packet = 0 \<or> Qos packet = 1" "\<not> Retain packet" "validatePacketFields (CP_Publish packet)"
      "ControlPacket_Write (CP_Publish packet) \<noteq> None"
    and enc: "enc \<noteq> []" "dec_forward cd enc = Some (ci_ID (c_info c), Some packet)"
  shows "\<exists>a' key. publish n e now s packet a = Some a' \<and>
    b_out a' = b_out a @ [StorePut key (ForwardValue \<lparr>fw_ClientID = ci_ID (c_info c), fw_Packet = packet, fw_Timestamp = now\<rparr>)] \<and>
    go_hasPrefix key (forwardWatchDir b) \<and>
    (\<forall>ev. put_event key enc ev \<longrightarrow> (\<exists>b1 m b2. Receive_event cd ev b = Some (b1, Some (ci_ID (c_info c), m)) \<and>
       msg_client m = p \<and> ProcessMessage n e' now' m b1 = Some b2 \<and>
       b_out b2 = b_out b @ StoreDel key #
         (if denied b ''pub'' (c_info d) (TopicName packet) then []
          else if Qos packet = 1 then [Wrote p (puback (MessageID packet)), Wrote p (CP_Publish packet)]
          else [Wrote p (CP_Publish packet)])))"
proof -
  let ?fwd = "\<lparr>fw_ClientID = ci_ID (c_info c), fw_Packet = packet, fw_Timestamp = now\<rparr>"
  define key where "key = forwardDir (b_cluster a) @ ''/'' @ b_id b @ ''/'' @ env_uuid e (b_uuids a)"
  have "\<exists>a'. publish n e now s packet a = Some a' \<and> b_out a' = b_out a @ [StorePut key (ForwardValue ?fwd)]"
    using a pk(1) route(1) by (auto simp: publish_def on_client_def etcdRouter_Forward_def emit_def set_client_def key_def Let_def)
  moreover have "go_hasPrefix key (forwardWatchDir b)"
    unfolding key_def forwardWatchDir_def route(2) by (metis append.assoc go_hasPrefix_append)
  moreover have "\<exists>b1 m b2. Receive_event cd ev b = Some (b1, Some (ci_ID (c_info c), m)) \<and>
       msg_client m = p \<and> ProcessMessage n e' now' m b1 = Some b2 \<and>
       b_out b2 = b_out b @ StoreDel key #
         (if denied b ''pub'' (c_info d) (TopicName packet) then []
          else if Qos packet = 1 then [Wrote p (puback (MessageID packet)), Wrote p (CP_Publish packet)]
          else [Wrote p (CP_Publish packet)])" if ev: "put_event key enc ev" for ev
  proof -
    define b1 where "b1 = emit (StoreDel key) b"
    let ?m = "\<lparr>msg_client = p, msg_packet = Some (CP_Publish packet), msg_forward = True\<rparr>"
    have "Receive_event cd ev b = Some (b1, Some (ci_ID (c_info c), ?m))"
      using ev b(1-3) enc by (simp add: Receive_event_def put_event_def decoded_def b1_def)
    moreover have "b_heap b1 p = Some d" "\<not> b_BridgeEnable b1" "b_out b1 = b_out b @ [StoreDel key]"
      "denied b1 = denied b" using b by (simp_all add: b1_def emit_def denied_def fun_eq_iff)
    moreover from ProcessMessage_forwarded [OF this(1) b(4,5) pk this(2), of n e' now'] obtain b2 where
      "ProcessMessage n e' now' ?m b1 = Some b2" "b_out b2 = b_out b1 @
        (if denied b1 ''pub'' (c_info d) (TopicName packet) then []
         else if Qos packet = 1 then [Wrote p (puback (MessageID packet)), Wrote p (CP_Publish packet)]
         else [Wrote p (CP_Publish packet)])" by blast
    ultimately show ?thesis by (intro exI [of _ b1] exI [of _ ?m] exI [of _ b2]) simp
  qed
  ultimately show ?thesis by blast
qed

definition publisher_sample :: Broker where
  "publisher_sample = remote_sample\<lparr>b_heap := [0 \<mapsto> remote_client (zeroClient\<lparr>ci_ID := ''c1'', ci_NodeID := ''n''\<rparr>)]\<rparr>"

theorem forward_end_to_end_witness:
  "\<exists>a' key b1 m b2. publish 2 sample_env 5 0 sample_message publisher_sample = Some a' \<and>
     Receive_event sample_codec (insertion key [1]) sample_broker = Some (b1, Some (''c1'', m)) \<and>
     ProcessMessage 2 sample_env 6 m b1 = Some b2 \<and> b_out b2 = [StoreDel key, Wrote 0 (CP_Publish sample_message)]"
proof -
  have *: "b_subheap publisher_sample 0 = Some \<lparr>sub_client = 0, sub_topic = ''a'', sub_qos = 0, sub_share = False, sub_groupName = []\<rparr>"
    "b_heap publisher_sample 0 = Some (remote_client (zeroClient\<lparr>ci_ID := ''c1'', ci_NodeID := ''n''\<rparr>))"
    "forwardDir (b_cluster publisher_sample) = forwardDir (b_cluster sample_broker)"
    by (simp_all add: publisher_sample_def remote_sample_def sample_broker_def)
  have pk: "Qos sample_message = 0" "\<not> Retain sample_message"
    "validatePacketFields (CP_Publish sample_message)" "ControlPacket_Write (CP_Publish sample_message) \<noteq> None"
    by code_simp+
  have b: "gm_get (b_clients sample_broker) ''c1'' = Some (ClientObj 0)" "\<not> b_BridgeEnable sample_broker" "b_id sample_broker = ''n''"
    "\<not> denied sample_broker ''pub'' (c_info sample_client) (TopicName sample_message)" "b_out sample_broker = []"
    by (simp_all add: sample_broker_def denied_def)
  have cd: "dec_forward sample_codec [1] = Some (''c1'', Some sample_message)" by (simp add: sample_codec_def)
  from forward_end_to_end [OF *(1), of "remote_client (zeroClient\<lparr>ci_ID := ''c1'', ci_NodeID := ''n''\<rparr>)" sample_broker 0
      sample_client sample_message "[1]" sample_codec 2 sample_env 5 sample_env 6] *(2,3) b pk cd
  obtain a' key where k: "publish 2 sample_env 5 0 sample_message publisher_sample = Some a'"
    "\<forall>ev. put_event key [1] ev \<longrightarrow> (\<exists>b1 m b2. Receive_event sample_codec ev sample_broker = Some (b1, Some (''c1'', m)) \<and>
       msg_client m = 0 \<and> ProcessMessage 2 sample_env 6 m b1 = Some b2 \<and> b_out b2 = [StoreDel key, Wrote 0 (CP_Publish sample_message)])"
    by (auto simp: sample_heap sample_client_sel)
  have "put_event key [1] (insertion key [1])" by (simp add: put_event_def insertion_def)
  with k show ?thesis by blast
qed


section \<open>Witnesses for the events of other nodes\<close>

lemma ready_mono: "ready m b \<Longrightarrow> m \<le> n \<Longrightarrow> ready n b"
  by (simp add: ready_def)

lemmas sample_ready3 = ready_mono [OF sample_ready, of 3, simplified]

lemma sample_watch:
  "watch_event sample_codec sample_broker (insertion ''/s/clients/c9'' (bytes_of_string ''c9'')) =
     Some \<lparr>evt_Src = EventSrcClient, evt_Type = EventTypeNew, evt_Key = ''c9'',
       evt_Value = EvtClient (zeroClient\<lparr>ci_ID := ''c9'', ci_NodeID := ''m''\<rparr>)\<rparr>"
  "watch_event sample_codec sample_broker (insertion ''/s/subscriptions/1:c9'' (bytes_of_string ''c9'')) =
     Some \<lparr>evt_Src = EventSrcSubscription, evt_Type = EventTypeNew, evt_Key = ''1:c9'',
       evt_Value = EvtSubscription (zeroSubscription\<lparr>sd_ClientID := ''c9'', sd_NodeID := ''m'', sd_Topic := ''b''\<rparr>)\<rparr>"
  by (simp_all add: watch_event_def doWatchWithClient_def doWatchWithSubscription_def decoded_def evt_type_def insertion_def
      sample_codec_def sample_cluster_sel sample_cluster_def go_hasPrefix_def)

theorem cluster_event_consistent_witness:
  "\<exists>b'. cluster_event sample_codec (insertion ''/s/clients/c9'' (bytes_of_string ''c9'')) sample_broker = Some b' \<and> ready 3 b'"
proof -
  have "\<not> deletes_remote sample_codec sample_broker (insertion ''/s/clients/c9'' (bytes_of_string ''c9''))"
    by (simp add: deletes_remote_def sample_watch)
  with cluster_event_consistent [OF sample_ready3, of sample_codec "insertion ''/s/clients/c9'' (bytes_of_string ''c9'')"]
  show ?thesis by (simp add: sample_online)
qed

theorem remote_subscription_installed_witness:
  "\<exists>b1 b2 a. cluster_event sample_codec (insertion ''/s/clients/c9'' (bytes_of_string ''c9'')) sample_broker = Some b1 \<and>
     cluster_event sample_codec (insertion ''/s/subscriptions/1:c9'' (bytes_of_string ''c9'')) b1 = Some b2 \<and>
     ready 3 b2 \<and> ([''b''], a) \<in> in_force b2"
proof -
  have "shared_parts ''b'' = Some (False, [], ''b'')" "topic_levels ''b'' = Some [''b'']"
    by (simp_all add: shared_parts_def go_hasPrefix_def topic_levels_ref ref_levels_def level_ok_def)
  then show ?thesis
    using remote_subscription_installed [OF sample_ready3 _ sample_watch(1) _ sample_watch(2), of False "[]" "''b''" "[''b'']"]
    by (auto simp: sample_online zeroSubscription_def ValidQos_def)
qed

end
