(* ===== verification/Node.thy ===== *)
theory Node
  imports ClusterInv
begin

text \<open>
  A node as a whole: its construction (\<open>NewBroker\<close>), the queueing of work (\<open>SubmitWork\<close>, both in
  \<open>src/broker/broker.go\<close>), and the steps that the goroutines of the process take: connections being
  accepted and read, workers handling messages, timers, events of the store, forwarded
  messages, the manager. The invariant of the broker holds in every state these steps reach,
  under every interleaving of steps. A step is one whole handler: interleavings inside a handler
  (workers of different clients run in parallel) are not modelled.
\<close>

section \<open>Construction\<close>

record GlobalConfig =
  cf_Cluster :: string
  cf_Broker :: string
  cf_Worker :: int
  cf_Auth_Enable :: bool
  cf_Auth_Type :: string
  cf_Acl_Enable :: bool
  cf_Bridge_Enable :: bool
  cf_Bridge_Type :: string
  cf_Notify_Enable :: bool

definition cluster_dirs :: "string \<Rightarrow> Cluster" where
  "cluster_dirs rootPrefix =
     (let sysPrefix = rootPrefix @ ''/sys'' in
      \<lparr>sysDir = sysPrefix, clusterDir = rootPrefix @ ''/cluster'', nodeDir = sysPrefix @ ''/nodes'',
       clientDir = sysPrefix @ ''/clients'', subscriptionDir = sysPrefix @ ''/subscriptions'',
       bridgeDir = sysPrefix @ ''/bridges'', userDir = sysPrefix @ ''/users'', aclDir = sysPrefix @ ''/acls'',
       forwardDir = rootPrefix @ ''/forward'', leader = False\<rparr>)"

text \<open>\<open>dial\<close> is the error of connecting to etcd. The providers registered by the packages' \<open>init\<close> functions.\<close>

definition NewBroker :: "go_error option \<Rightarrow> GlobalConfig \<Rightarrow> go_error + (Broker \<times> Message WorkerPool)" where
  "NewBroker dial config =
     (case dial of
        Some err \<Rightarrow> Inl err
      | None \<Rightarrow>
          (case topics_NewManager ''mem'' [(''mem'', NewMemProvider)] of
             Inl err \<Rightarrow> Inl err
           | Inr tm \<Rightarrow>
               (case sessions_NewManager ''mem'' [(''mem'', sessions_NewMemProvider)] of
                  Inl err \<Rightarrow> Inl err
                | Inr sm \<Rightarrow>
                    Inr (\<lparr>b_id = cf_Broker config, b_AclEnable = cf_Acl_Enable config,
                          b_BridgeEnable = cf_Bridge_Enable config, b_NotifyEnable = cf_Notify_Enable config,
                          b_AuthEnable = cf_Auth_Enable config, b_clients = [], b_topicsMgr = tm, b_sessionMgr = sm,
                          b_auth = NewAuth (cf_Auth_Type config),
                          b_acl = (if cf_Acl_Enable config then Some (NewAcl ''etcd'') else None),
                          b_notify = cf_Notify_Enable config,
                          b_bridgeMQ = (if cf_Bridge_Enable config then Some (NewBridgeMQ (cf_Bridge_Type config)) else None),
                          b_cluster = cluster_dirs (''/'' @ cf_Cluster config), b_heap = Map.empty, b_next = 0,
                          b_subheap = Map.empty, b_subnext = 0, b_uuids = 0, b_out = []\<rparr>,
                         pool_New (cf_Worker config)))))"

record node =
  nd_broker :: Broker
  nd_wpool :: "Message WorkerPool option"
  nd_Worker :: int

text \<open>None: the channel of the client's worker is full and the caller blocks.\<close>

definition SubmitWork :: "(string \<Rightarrow> 64 word) \<Rightarrow> string \<Rightarrow> Message \<Rightarrow> node \<Rightarrow> node option" where
  "SubmitWork h clientId msg s =
     (let wpool = (case nd_wpool s of None \<Rightarrow> pool_New (nd_Worker s) | Some p \<Rightarrow> p) in
      map_option (\<lambda>p. s\<lparr>nd_wpool := Some p\<rparr>) (pool_Submit h clientId (Some msg) wpool))"

section \<open>Consistent brokers\<close>

definition consistent :: "Broker \<Rightarrow> bool" where
  "consistent b \<longleftrightarrow> ready (Suc (card (online b))) b"

lemma consistent_ready: "consistent b \<Longrightarrow> card (online b) < n \<Longrightarrow> ready n b"
  by (simp add: consistent_def ready_def)

lemma ready_consistent: "ready n b \<Longrightarrow> consistent b"
  by (simp add: consistent_def ready_def)

text \<open>No client is lost, and clients stay local or remote.\<close>

definition keeps :: "Broker \<Rightarrow> Broker \<Rightarrow> bool" where
  "keeps b b' \<longleftrightarrow> (\<forall>p c. b_heap b p = Some c \<longrightarrow> (\<exists>c'. b_heap b' p = Some c' \<and> c_typ c' = c_typ c))"

lemma keeps_refl [simp]: "keeps b b"
  by (simp add: keeps_def)

lemma keeps_trans: "keeps a b \<Longrightarrow> keeps b c \<Longrightarrow> keeps a c"
  unfolding keeps_def by metis

lemma keeps_heap: "b_heap b' = b_heap b \<Longrightarrow> keeps b b'"
  by (simp add: keeps_def)

lemma steps_keeps: "steps n b b' \<Longrightarrow> keeps b b'"
  unfolding keeps_def
proof (intro allI impI)
  fix p c assume "steps n b b'" "b_heap b p = Some c"
  then obtain c' where "b_heap b' p = Some c'" "kept_client c c'" by (rule steps_get)
  then show "\<exists>c'. b_heap b' p = Some c' \<and> c_typ c' = c_typ c" by (simp add: kept_client_def)
qed

lemma NewBroker_consistent:
  assumes "NewBroker dial config = Inr (b, pool)"
  shows "consistent b" "no_clients b" "pool = pool_New (cf_Worker config)"
proof -
  have inv: "mt_inv NewMemProvider" "mt_entries NewMemProvider = {}" "rroot NewMemProvider \<noteq> None"
    using NewMemProvider_inv by (simp_all add: NewMemProvider_def)
  show "consistent b" "no_clients b" "pool = pool_New (cf_Worker config)"
    using assms inv unfolding NewBroker_def
    by (auto simp: topics_NewManager_def sessions_NewManager_def consistent_def ready_def broker_inv_def tree_sound_def
        in_force_def online_def sess_ok_def reg_ok_def registry_def no_clients_def sess_wf_def sessions_NewMemProvider_def
        split: option.splits)
qed


section \<open>Handlers that return\<close>

lemma unsubscribe_topic_partial:
  assumes "ready n b" "b_heap b p = Some c" "c_typ c = LOCAL" "unsubscribe_topic e now p t b = Some b'"
  shows "steps n b b'"
proof (cases "notifying b \<and> sub_at b p t = None")
  case True
  then have "unsubscribe_topic e now p t b = None"
    using assms(2) by (simp add: unsubscribe_topic_eq gone_def sub_at_def)
  then show ?thesis using assms(4) by simp
next
  case False
  then show ?thesis using steps_unsubscribe_topic [OF assms(1-3), of t e now] assms(4) by auto
qed

lemma unsubscribe_all_partial:
  assumes "ready n b" "b_heap b p = Some c" "c_typ c = LOCAL" "fold_opt (unsubscribe_topic e now p) us b = Some b'"
  shows "steps n b b'"
  using assms
proof (induction us arbitrary: b c)
  case Nil
  then show ?case using steps_refl by simp
next
  case (Cons t us)
  obtain b1 where b1: "unsubscribe_topic e now p t b = Some b1" "fold_opt (unsubscribe_topic e now p) us b1 = Some b'"
    using Cons(5) by (auto simp: bind_eq_Some_conv)
  have s: "steps n b b1" by (rule unsubscribe_topic_partial [OF Cons(2-4) b1(1)])
  obtain c1 where c1: "b_heap b1 p = Some c1" "kept_client c c1" by (rule steps_get [OF s Cons(3)])
  then have "c_typ c1 = LOCAL" using Cons(4) by (simp add: kept_client_def)
  from Cons(1) [OF steps_ready [OF s] c1(1) this b1(2)] show ?case by (rule steps_trans [OF s])
qed

lemma ProcessUnSubscribe_partial:
  assumes "ready n b" "b_heap b p = Some c" "c_typ c = LOCAL" "ProcessUnSubscribe n e now p packet b = Some b'"
  shows "steps n b b'"
proof (cases "c_status c = Disconnected")
  case True
  then show ?thesis using assms steps_refl [OF assms(1)] by (simp add: ProcessUnSubscribe_def)
next
  case False
  then obtain b1 where b1: "fold_opt (unsubscribe_topic e now p) (Topics packet) b = Some b1"
    using assms(2,4) by (auto simp: ProcessUnSubscribe_def bind_eq_Some_conv)
  have s: "steps n b b1" by (rule unsubscribe_all_partial [OF assms(1-3) b1])
  have "b_heap b1 p \<noteq> None" using steps_heap [OF s] assms(2) by simp
  from steps_WriterPacket [OF steps_ready [OF s] this, of e now "unsuback (MessageID packet)"]
  show ?thesis using False assms(2,4) b1 steps_trans [OF s] by (auto simp: ProcessUnSubscribe_def)
qed

text \<open>A message that the node queues: of a client of this node, with a QoS for every topic.\<close>

definition queued_ok :: "Broker \<Rightarrow> Message \<Rightarrow> bool" where
  "queued_ok b m \<longleftrightarrow> (\<exists>c. b_heap b (msg_client m) = Some c \<and> c_typ c = LOCAL) \<and>
     (\<forall>packet. msg_packet m = Some (CP_Subscribe packet) \<longrightarrow> length (Topics packet) \<le> length (Qoss packet))"

lemma queued_ok_keeps: "keeps b b' \<Longrightarrow> queued_ok b m \<Longrightarrow> queued_ok b' m"
  unfolding keeps_def queued_ok_def by metis

lemma ProcessMessage_partial:
  assumes "ready n b" "queued_ok b m" "env_ok e" "ProcessMessage n e now m b = Some b'"
  shows "steps n b b'"
proof -
  obtain c where c: "b_heap b (msg_client m) = Some c" "c_typ c = LOCAL" using assms(2) by (auto simp: queued_ok_def)
  show ?thesis
  proof (cases "safe_message b m")
    case True
    from steps_ProcessMessage [OF assms(1) this assms(3), of now] assms(4) show ?thesis by auto
  next
    case False
    then obtain ca where ca: "msg_packet m = Some ca" using c by (auto simp: safe_message_def split: option.splits)
    show ?thesis
    proof (cases "validatePacketFields ca")
      case False
      then have "c_conn c = None" using \<open>\<not> safe_message b m\<close> c ca by (simp add: safe_message_def)
      then show ?thesis using assms(4) ca c False by (simp add: ProcessMessage_def drop_malformed_def Let_def)
    next
      case True
      then obtain packet where "ca = CP_Unsubscribe packet"
        using \<open>\<not> safe_message b m\<close> c ca assms(2) by (cases ca) (auto simp: safe_message_def queued_ok_def)
      then show ?thesis using ProcessUnSubscribe_partial [OF assms(1) c] assms(4) True ca by (simp add: ProcessMessage_def Let_def)
    qed
  qed
qed


lemma retry_one_steps:
  assumes "ready n b" "b_heap b p = Some c"
  shows "\<exists>b'. retry_one n e now p ie b = Some b' \<and> steps n b b'"
proof -
  let ?touch = "\<lambda>c. c\<lparr>c_inflight := gm_put (fst ie) ((snd ie)\<lparr>ie_timestamp := now\<rparr>) (c_inflight c)\<rparr>"
  have h: "b_heap b p \<noteq> None" using assms(2) by simp
  have w: "\<exists>b'. do { (b, _) \<leftarrow> WriterPacket n e now p packet b; on_client ?touch p b } = Some b' \<and> steps n b b'" for packet
  proof -
    obtain b1 err where b1: "WriterPacket n e now p packet b = Some (b1, err)" "steps n b b1"
      using steps_WriterPacket [OF assms(1) h] by blast
    obtain b2 where "on_client ?touch p b1 = Some b2" "steps n b1 b2"
      using steps_on_client [OF steps_ready [OF b1(2)] steps_heap [OF b1(2) h], of ?touch] by auto
    with b1 steps_trans show ?thesis by auto
  qed
  show ?thesis
    using w steps_on_client [OF assms(1) h, of "ensureRetryTimer i" for i]
    by (auto simp: retry_one_def Let_def split: InflightStatus.split)
qed

lemma retry_all_steps:
  assumes "ready n b" "b_heap b p = Some c"
  shows "\<exists>b'. fold_opt (retry_one n e now p) ies b = Some b' \<and> steps n b b'"
proof (rule fold_opt_inv)
  fix ie b1 assume s: "steps n b b1"
  obtain c1 where c1: "b_heap b1 p = Some c1" by (rule steps_get [OF s assms(2)])
  from retry_one_steps [OF steps_ready [OF s] this, of e now ie] steps_trans [OF s]
  show "\<exists>b2. retry_one n e now p ie b1 = Some b2 \<and> steps n b b2" by blast
qed (rule steps_refl [OF assms(1)])

lemma retryDelivery_steps:
  assumes "ready n b" "b_heap b p = Some c"
  shows "\<exists>b'. retryDelivery n e now p b = Some b' \<and> steps n b b'"
proof -
  have h: "b_heap b p \<noteq> None" using assms(2) by simp
  obtain b1 where b1: "on_client resetRetryTimer p b = Some b1" "steps n b b1"
    using steps_on_client [OF assms(1) h, of resetRetryTimer] by auto
  obtain c1 where c1: "b_heap b1 p = Some c1" by (rule steps_get [OF b1(2) assms(2)])
  obtain b2 where b2: "fold_opt (retry_one n e now p) (c_inflight c1) b1 = Some b2" "steps n b1 b2"
    using retry_all_steps [OF steps_ready [OF b1(2)] c1] by blast
  obtain b3 where b3: "on_client (ensureRetryTimer None) p b2 = Some b3" "steps n b2 b3"
    using steps_on_client [OF steps_ready [OF b2(2)] steps_heap [OF b2(2)], of p "ensureRetryTimer None"] c1 by auto
  have "steps n b b3" using b1(2) b2(2) b3(2) steps_trans by blast
  with b1 b2(1) b3(1) c1 show ?thesis by (auto simp: retryDelivery_def)
qed

lemma expireAwaitingRel_steps:
  assumes "ready n b" "b_heap b p = Some c"
  shows "\<exists>b'. expireAwaitingRel now p b = Some b' \<and> steps n b b'"
  using assms steps_refl [OF assms(1)] by (auto simp: expireAwaitingRel_def intro!: steps_set_client)

section \<open>Connections and the read loop\<close>

lemma subscribe_loop_lengths:
  "subscribe_loop k s r = (s', None, r') \<Longrightarrow> length (Topics s) = length (Qoss s) \<Longrightarrow> length (Topics s') = length (Qoss s')"
proof (induction k s r rule: subscribe_loop.induct)
  case (1 k s r)
  then show ?case
    by (subst (asm) subscribe_loop.simps) (auto simp: Let_def split: if_splits prod.splits)
qed

lemma ReadPacket_unpacked:
  assumes "ReadPacket input = (Some cp, None, rest)"
  obtains fh cp0 bs r where "NewControlPacketWithHeader fh = Inr cp0" "ControlPacket_Unpack cp0 bs = (cp, None, r)"
  using assms that unfolding ReadPacket_def by (auto split: prod.splits if_splits sum.splits)

lemma ReadPacket_subscribe:
  assumes "ReadPacket input = (Some (CP_Subscribe packet), None, rest)"
  shows "length (Topics packet) = length (Qoss packet)"
proof -
  obtain fh cp0 bs r where u: "NewControlPacketWithHeader fh = Inr cp0" "ControlPacket_Unpack cp0 bs = (CP_Subscribe packet, None, r)"
    by (rule ReadPacket_unpacked [OF assms])
  then obtain s where s: "cp0 = CP_Subscribe s" "SubscribePacket_Unpack s bs = (packet, None, r)"
    by (cases cp0) (auto simp: map_prod_def split: prod.splits)
  then have "Topics s = []" "Qoss s = []"
    using u(1) by (auto simp: NewControlPacketWithHeader_def new_SubscribePacket_def Let_def split: if_splits)
  then show ?thesis
    using s(2) subscribe_loop_lengths
    by (fastforce simp: SubscribePacket_Unpack_def Let_def split: prod.splits if_splits)
qed

lemma consistent_emit: "consistent b \<Longrightarrow> consistent (emit x b) \<and> keeps b (emit x b)"
  using steps_announce(2) [of "Suc (card (online b))" b x] steps_ready ready_consistent steps_keeps
  unfolding consistent_def [of b] by blast

lemma handleConnection_keeps:
  assumes "consistent b" "Suc (card (online b)) < n" "handleConnection n e now ip rnd ok LOCAL input b = Some (b', r)"
  shows "consistent b' \<and> keeps b b'"
proof -
  have r: "ready n b" using assms(1,2) consistent_ready by simp
  have ref: "consistent (refuse ok p connack b) \<and> keeps b (refuse ok p connack b)" for ok p connack
  proof -
    let ?b = "if ok then emit (Wrote p (CP_Connack connack)) b else b"
    have k: "consistent ?b" "keeps b ?b" using consistent_emit [OF assms(1)] assms(1) by simp_all
    show ?thesis unfolding refuse_def using consistent_emit [OF k(1)] keeps_trans [OF k(2)] by blast
  qed
  have acc: "consistent b1 \<and> keeps b b1"
    if a: "accept_connection n e now ip rnd True LOCAL msg connack b = Some (b1, q)" for msg connack b1 q
  proof -
    have "client_info e b msg \<noteq> None"
    proof
      assume "client_info e b msg = None"
      then show False using a by (simp add: accept_connection_def Let_def)
    qed
    then obtain info where i: "client_info e b msg = Some info" by auto
    obtain b2 c where "accept_connection n e now ip rnd True LOCAL msg connack b = Some (b2, Some (b_next b))" "ready n b2"
      "\<forall>q d. b_heap b q = Some d \<longrightarrow> (\<exists>d'. b_heap b2 q = Some d' \<and> kept_client d d')"
      using accept_connection_ok [OF r assms(2) i, of now ip rnd connack] by blast
    then show ?thesis using a ready_consistent unfolding keeps_def kept_client_def by auto metis
  qed
  show ?thesis
    using assms(1,3) ref acc unfolding handleConnection_def
    by (auto simp: Let_def bind_eq_Some_conv split: prod.splits option.splits ControlPacket.splits if_splits)
qed

lemma readLoop_turn_keeps:
  assumes "consistent b" "b_heap b p = Some c" "c_typ c = LOCAL" "readLoop_turn p deadline input b = Some (b', ms, rest)"
  shows "consistent b' \<and> keeps b b' \<and> (\<forall>m \<in> set ms. queued_ok b' m)"
proof -
  have q: "queued_ok b' (submitted p cp)"
    if "keeps b b'" "\<forall>packet. cp = CP_Subscribe packet \<longrightarrow> length (Topics packet) = length (Qoss packet)" for cp
    using that assms(2,3) unfolding keeps_def queued_ok_def submitted_def by fastforce
  let ?c = "c\<lparr>c_willMsg := None, c_cancelled := True\<rparr>"
  have "steps (Suc (card (online b))) b (set_client p ?c b)"
    using assms(1,2) by (intro steps_set_client) (auto simp: consistent_def harmless_def same_subs_def kept_client_def)
  then have dis: "consistent (set_client p ?c b)" "keeps b (set_client p ?c b)"
    using steps_ready ready_consistent steps_keeps by blast+
  obtain packet err r where rp: "ReadPacket input = (packet, err, r)" by (metis prod_cases3)
  have len: "length (Topics sp) = length (Qoss sp)" if "packet = Some (CP_Subscribe sp)" "err = None" for sp
    using ReadPacket_subscribe rp that by blast
  have b': "b' = b \<or> b' = set_client p ?c b"
    using assms(2,4) rp by (auto simp: readLoop_turn_def Let_def split: if_splits option.splits ControlPacket.splits)
  then have k: "consistent b'" "keeps b b'" using assms(1) dis by auto
  have "ms = [] \<or> (\<exists>cp. ms = [submitted p cp] \<and> (\<forall>sp. cp = CP_Subscribe sp \<longrightarrow> length (Topics sp) = length (Qoss sp)))"
    using assms(2,4) rp len by (auto simp: readLoop_turn_def DisconnectedPacket_def Let_def split: if_splits option.splits)
  then show ?thesis using k q [OF k(2)] by auto
qed

lemma DisConnClientByClientId_keeps:
  assumes "consistent b" "card (online b) < n" "DisConnClientByClientId n e now cid b = Some b'"
  shows "consistent b' \<and> keeps b b'"
proof -
  let ?b = "b\<lparr>b_clients := gm_del cid (b_clients b)\<rparr>"
  have r: "ready n b" using consistent_ready assms(1,2) by blast
  then have rb: "ready n ?b"
    by (rule ready_clients) (use r in \<open>auto simp: ready_def reg_ok_def registry_def split: if_splits\<close>)
  have "keeps b ?b" by (rule keeps_heap) simp
  moreover have "consistent b1 \<and> keeps b b1" if c: "Close n e now p ?b = Some b1" "gm_get (b_clients b) cid = Some (ClientObj p)" for p b1
  proof -
    obtain d where "b_heap b p = Some d" by (rule registered_exists [OF r c(2)])
    then have "b_heap ?b p \<noteq> None" by simp
    from steps_Close [OF rb this, of e now] c(1) have "steps n ?b b1" by auto
    then show ?thesis using steps_ready ready_consistent steps_keeps \<open>keeps b ?b\<close> keeps_trans by blast
  qed
  ultimately show ?thesis
    using assms(1,3) rb ready_consistent by (auto simp: DisConnClientByClientId_def Let_def split: option.splits registered.splits)
qed

section \<open>The cluster\<close>

lemma AddORUpdateClient_keeps: "ready n b \<Longrightarrow> keeps b (AddORUpdateClient obj b)"
  by (auto simp: keeps_def AddORUpdateClient_eq ready_def broker_inv_def)

lemma event_heaps [simp]:
  "b_heap (RemoveClient i b) = b_heap b" "b_heap (doBridgeEvent evt b) = b_heap b" "b_heap (doUserEvent evt b) = b_heap b"
  "b_heap (doAclEvent evt b) = b_heap b"
  by (auto simp: RemoveClient_def doBridgeEvent_def doUserEvent_def doAclEvent_def AddORUpdateBridge_def RemoveBridge_def
      AddORUpdateUser_def RemoveUser_def AddORUpdateAcl_def RemoveAcl_def split: option.split EvtValue.split)

lemma cluster_event_keeps:
  assumes "consistent b" "cluster_event cd ev b = Some b'"
  shows "consistent b' \<and> keeps b b'"
proof -
  define n where "n = Suc (Suc (card (online b)))"
  have r: "ready n b" "Suc (card (online b)) < n" using consistent_ready [OF assms(1), of n] by (simp_all add: n_def)
  have ce: "ready n (doClientEvent evt b) \<and> keeps b (doClientEvent evt b)" for evt
    using ready_other_events(1) [OF r] AddORUpdateClient_keeps [OF r(1)] keeps_heap [OF event_heaps(1)]
    by (auto simp: doClientEvent_def split: EvtValue.split)
  have sub: "consistent b1 \<and> keeps b b1" if "doSubscriptionEvent evt b = Some b1" for evt b1
  proof (cases "evt_Value evt")
    case (EvtSubscription s)
    with doSubscriptionEvent_cases [OF r(1) this] that have "steps n b b1" by (auto split: if_splits)
    then show ?thesis using steps_ready ready_consistent steps_keeps by blast
  qed (use that assms(1) in \<open>auto simp: doSubscriptionEvent_def\<close>)
  note other = ready_consistent [OF ready_other_events(2) [OF r]] ready_consistent [OF ready_other_events(3) [OF r]]
    ready_consistent [OF ready_other_events(4) [OF r]]
  show ?thesis
  proof (cases "watch_event cd b ev")
    case None
    then show ?thesis using assms by (simp add: cluster_event_def)
  next
    case (Some evt)
    then have eq: "readyToReceive_turn evt b = Some b'" using assms(2) by (simp add: cluster_event_def)
    show ?thesis
    proof (cases "evt_Src evt")
      case EventSrcClient
      then show ?thesis using eq ce [of evt] ready_consistent by (auto simp: readyToReceive_turn_def)
    next
      case EventSrcSubscription
      then show ?thesis using eq sub [of evt b'] by (simp add: readyToReceive_turn_def)
    qed (use eq other [of evt] assms(1) in \<open>auto simp: readyToReceive_turn_def intro!: keeps_heap\<close>)
  qed
qed

lemma manager_round_keeps:
  assumes "consistent b"
  shows "consistent (manager_round cd e fails rn rc ra rs b) \<and> keeps b (manager_round cd e fails rn rc ra rs b)"
proof -
  let ?P = "\<lambda>b'. consistent b' \<and> keeps b b'"
  have em: "?P (emit x b')" if "?P b'" for x b' using that consistent_emit keeps_trans by blast
  have 1: "?P (fst (fold (remove_lost_client fails nodes) cs (b, chg)))" for nodes cs chg
    by (rule fold_invariant [where Q = "\<lambda>_. True" and P = "\<lambda>s. ?P (fst s)"])
      (use assms em in \<open>auto simp: remove_lost_client_def StoreRemoveClient_def split: option.split\<close>)
  have 2: "?P (fold (remove_lost_subscription e clients) vs b')" if "?P b'" for clients vs b'
    by (rule fold_invariant [where Q = "\<lambda>_. True" and P = ?P])
      (use that em in \<open>auto simp: remove_lost_subscription_def StoreRemoveSubscription_def split: option.split\<close>)
  obtain nodes err1 where n: "GetNodes cd rn = (nodes, err1)" by fastforce
  obtain clients err2 where c: "GetClients cd rc = (clients, err2)" by fastforce
  obtain b1 chg where f: "fold (remove_lost_client fails nodes) (entries clients) (b, False) = (b1, chg)" by fastforce
  have b1: "?P b1" using 1 [of nodes "entries clients" False] f by simp
  obtain cl2 err3 where c2: "(if chg then GetClients cd ra else (clients, None)) = (cl2, err3)" by fastforce
  obtain ss err4 where s: "GetSubscriptions cd rs = (ss, err4)" by fastforce
  show ?thesis unfolding manager_round_def using assms b1 2 [OF b1] by (simp add: n c f c2 s Let_def)
qed


lemma Receive_event_keeps:
  assumes "consistent b" "Receive_event cd ev b = Some (b', r)"
  shows "consistent b' \<and> keeps b b' \<and> (\<forall>cid m. r = Some (cid, m) \<longrightarrow> queued_ok b' m)"
proof -
  have em: "consistent (emit x b)" "keeps b (emit x b)" for x using consistent_emit [OF assms(1)] by simp_all
  show ?thesis
    using assms em
    by (auto simp: Receive_event_def queued_ok_def bind_eq_Some_conv split: mvcc_type.splits option.splits registered.splits
        if_splits prod.splits)
qed

lemma consistent_fields [simp]:
  "consistent (b\<lparr>b_auth := x\<rparr>) = consistent b" "consistent (b\<lparr>b_acl := y\<rparr>) = consistent b"
  "consistent (b\<lparr>b_bridgeMQ := z\<rparr>) = consistent b"
  by (simp_all add: consistent_def online_def)

lemma load_client_keeps:
  assumes "consistent b"
  shows "consistent (load_client x b) \<and> keeps b (load_client x b)"
proof -
  define n where "n = Suc (Suc (card (online b)))"
  have r: "ready n b" "Suc (card (online b)) < n" using consistent_ready [OF assms, of n] by (simp_all add: n_def)
  let ?w = "with_client (remote_client (snd x)) (b_sessionMgr b) b"
  have eq: "load_client x b = ?w\<lparr>b_clients := gm_put (fst x) ClusterObj (b_clients b)\<rparr>"
    by (simp add: load_client_def new_remote_def with_client_def set_client_def)
  have "ready n (load_client x b)"
    unfolding eq by (rule ready_clients [OF ready_with_remote [OF r]])
      (use r(1) in \<open>auto simp: ready_def reg_ok_def registry_def split: if_splits\<close>)
  moreover have "keeps b (load_client x b)" using r(1) by (auto simp: keeps_def eq ready_def broker_inv_def)
  ultimately show ?thesis using ready_consistent by blast
qed


lemma load_clients_keeps:
  assumes "consistent b"
  shows "consistent (fold load_client cs b) \<and> keeps b (fold load_client cs b)"
  using assms
proof (induction cs arbitrary: b)
  case (Cons x cs)
  from load_client_keeps [OF Cons(2), of x] Cons(1) [of "load_client x b"] keeps_trans show ?case by auto
qed simp

lemma LoadUsers_keeps:
  assumes "consistent b"
  shows "consistent (LoadUsers cd now r b) \<and> keeps b (LoadUsers cd now r b)"
proof -
  have "consistent (StoreAddORUpdateUser u (b\<lparr>b_auth := a\<rparr>)) \<and> keeps b (StoreAddORUpdateUser u (b\<lparr>b_auth := a\<rparr>))" for u a
    using consistent_emit [of "b\<lparr>b_auth := a\<rparr>"] assms by (simp add: StoreAddORUpdateUser_def keeps_def)
  then show ?thesis using assms by (auto simp: LoadUsers_def Let_def keeps_def split: option.split prod.split)
qed

lemma load_subscriptions_keeps:
  "consistent b \<Longrightarrow> load_subscriptions objs b = Some b' \<Longrightarrow> consistent b' \<and> keeps b b'"
proof (induction objs arbitrary: b)
  case (Cons obj objs)
  show ?case
  proof (cases "\<exists>p. gm_get (b_clients b) (sd_ClientID obj) = Some (ClientObj p)")
    case True
    then obtain p where p: "gm_get (b_clients b) (sd_ClientID obj) = Some (ClientObj p)" by blast
    let ?n = "Suc (card (online b))"
    have r: "ready ?n b" using Cons(2) by (simp add: consistent_def)
    obtain c where c: "b_heap b p = Some c" by (rule registered_exists [OF r p])
    obtain b1 where b1: "processRemoteSubscribe p obj b = Some b1" "steps ?n b b1"
      using steps_processRemoteSubscribe [OF r c, of obj] by blast
    then have "load_subscriptions objs b1 = Some b'" using Cons(3) p by simp
    with Cons(1) [OF ready_consistent [OF steps_ready [OF b1(2)]]] steps_keeps [OF b1(2)] keeps_trans show ?thesis by blast
  next
    case False
    then have "b' = b" using Cons(3) by (auto split: option.splits registered.splits)
    then show ?thesis using Cons(2) by simp
  qed
qed simp

lemma Cluster_Start_keeps:
  assumes "consistent b" "Cluster_Start cd now a b = Some b'"
  shows "consistent b' \<and> keeps b b'"
proof -
  obtain b1 where b1: "(if b_BridgeEnable b then LoadBridges (sa_bridges a) b else Some b) = Some b1"
    using assms(2) by (auto simp: Cluster_Start_def bind_eq_Some_conv split: if_splits)
  define b2 where "b2 = LoadUsers cd now (sa_users a) b1"
  obtain b3 where b3: "(if b_AclEnable b2 then LoadAcls cd (sa_acls a) b2 else Some b2) = Some b3"
    using assms(2) unfolding Cluster_Start_def b1
    by (cases "if b_AclEnable b2 then LoadAcls cd (sa_acls a) b2 else Some b2") (simp_all flip: b2_def)
  define b4 where "b4 = LoadClients cd (sa_clients a) b3"
  have last: "LoadSubscriptions cd (sa_subscriptions a) b4 = Some b'"
    using assms(2) unfolding Cluster_Start_def b1 by (simp add: b3 b4_def flip: b2_def)
  have 1: "consistent b1" "keeps b b1"
    using b1 assms(1) by (auto simp: LoadBridges_def keeps_def bind_eq_Some_conv split: if_splits option.splits prod.splits)
  have 2: "consistent b2" "keeps b1 b2" using LoadUsers_keeps [OF 1(1)] by (simp_all add: b2_def)
  have 3: "consistent b3" "keeps b2 b3"
    using b3 2(1) by (auto simp: LoadAcls_def keeps_def bind_eq_Some_conv split: if_splits option.splits prod.splits)
  have 4: "consistent b4" "keeps b3 b4"
    using load_clients_keeps [OF 3(1)] 3(1) by (auto simp: b4_def LoadClients_def split: option.split prod.split)
  have "consistent b' \<and> keeps b4 b'"
    using last 4(1) load_subscriptions_keeps [OF 4(1)]
    by (auto simp: LoadSubscriptions_def split: option.splits prod.splits)
  then show ?thesis using 1 2 3 4 keeps_trans by blast
qed


section \<open>Steps of a node\<close>

text \<open>
  Handing a list of messages to the pool one after the other, each under the identifier of its
  client: blocking is the absence of a step.
\<close>

fun submit_all :: "(string \<Rightarrow> 64 word) \<Rightarrow> (string \<times> Message) list \<Rightarrow> node \<Rightarrow> node option" where
  "submit_all h [] s = Some s"
| "submit_all h (x # xs) s = do { s \<leftarrow> SubmitWork h (fst x) (snd x) s; submit_all h xs s }"

text \<open>
  \<open>n\<close> bounds the depth of nested closings and is any number above the number of clients online, and
  one more where a client may be added.
\<close>

inductive node_step :: "(string \<Rightarrow> 64 word) \<Rightarrow> codec \<Rightarrow> env \<Rightarrow> node \<Rightarrow> node \<Rightarrow> bool" for h cd e where
  start: "Cluster_Start cd now a (nd_broker s) = Some b' \<Longrightarrow> node_step h cd e s (s\<lparr>nd_broker := b'\<rparr>)"
| connect: "Suc (card (online (nd_broker s))) < n \<Longrightarrow>
    handleConnection n e now ip rnd ok LOCAL input (nd_broker s) = Some (b', r) \<Longrightarrow>
    node_step h cd e s (s\<lparr>nd_broker := b'\<rparr>)"
| read: "b_heap (nd_broker s) p = Some c \<Longrightarrow> c_typ c = LOCAL \<Longrightarrow>
    readLoop_turn p deadline input (nd_broker s) = Some (b', ms, rest) \<Longrightarrow>
    submit_all h (map (Pair (ci_ID (c_info c))) ms) (s\<lparr>nd_broker := b'\<rparr>) = Some s' \<Longrightarrow> node_step h cd e s s'"
| work: "card (online (nd_broker s)) < n \<Longrightarrow> nd_wpool s = Some pool \<Longrightarrow>
    startWorker_turn i pool = Some ((cid, m), pool') \<Longrightarrow> ProcessMessage n e now m (nd_broker s) = Some b' \<Longrightarrow>
    node_step h cd e s (s\<lparr>nd_broker := b', nd_wpool := Some pool'\<rparr>)"
| retry: "card (online (nd_broker s)) < n \<Longrightarrow> retryDelivery n e now p (nd_broker s) = Some b' \<Longrightarrow>
    node_step h cd e s (s\<lparr>nd_broker := b'\<rparr>)"
| expire: "expireAwaitingRel now p (nd_broker s) = Some b' \<Longrightarrow> node_step h cd e s (s\<lparr>nd_broker := b'\<rparr>)"
| kick: "card (online (nd_broker s)) < n \<Longrightarrow> DisConnClientByClientId n e now cid (nd_broker s) = Some b' \<Longrightarrow>
    node_step h cd e s (s\<lparr>nd_broker := b'\<rparr>)"
| event: "cluster_event cd ev (nd_broker s) = Some b' \<Longrightarrow> node_step h cd e s (s\<lparr>nd_broker := b'\<rparr>)"
| receive: "Receive_event cd ev (nd_broker s) = Some (b', r) \<Longrightarrow>
    submit_all h (case r of None \<Rightarrow> [] | Some x \<Rightarrow> [x]) (s\<lparr>nd_broker := b'\<rparr>) = Some s' \<Longrightarrow> node_step h cd e s s'"
| manager: "node_step h cd e s (s\<lparr>nd_broker := manager_round cd e fails rn rc ra rs (nd_broker s)\<rparr>)"

inductive node_reaches :: "(string \<Rightarrow> 64 word) \<Rightarrow> codec \<Rightarrow> env \<Rightarrow> node \<Rightarrow> node \<Rightarrow> bool" for h cd e where
  here: "node_reaches h cd e s s"
| further: "node_reaches h cd e s s' \<Longrightarrow> node_step h cd e s' s'' \<Longrightarrow> node_reaches h cd e s s''"

definition all_queued :: "Message WorkerPool \<Rightarrow> Message set" where
  "all_queued pool = snd ` set (concat (taskQueue pool))"

lemma all_queued_update:
  "all_queued (pool\<lparr>taskQueue := (taskQueue pool)[i := q]\<rparr>) \<subseteq> all_queued pool \<union> snd ` set q"
proof -
  have "set ((taskQueue pool)[i := q]) \<subseteq> insert q (set (taskQueue pool))" by (rule set_update_subset_insert)
  then show ?thesis by (fastforce simp: all_queued_def)
qed

lemma all_queued_nth: "i < length (taskQueue pool) \<Longrightarrow> snd ` set (taskQueue pool ! i) \<subseteq> all_queued pool"
  unfolding all_queued_def set_concat by (intro image_mono UN_upper nth_mem)

definition node_ok :: "(string \<Rightarrow> 64 word) \<Rightarrow> node \<Rightarrow> bool" where
  "node_ok h s \<longleftrightarrow> consistent (nd_broker s) \<and>
     (\<exists>pool. nd_wpool s = Some pool \<and> pool_ok h pool \<and> (\<forall>m \<in> all_queued pool. queued_ok (nd_broker s) m))"

lemma node_ok_broker:
  assumes "node_ok h s" "consistent b' \<and> keeps (nd_broker s) b'"
  shows "node_ok h (s\<lparr>nd_broker := b'\<rparr>)"
  using assms queued_ok_keeps unfolding node_ok_def by auto

lemma SubmitWork_ok:
  assumes "node_ok h s" "queued_ok (nd_broker s) m" "SubmitWork h cid m s = Some s'"
  shows "node_ok h s' \<and> nd_broker s' = nd_broker s"
proof -
  obtain pool where pool: "nd_wpool s = Some pool" "pool_ok h pool" "\<forall>m \<in> all_queued pool. queued_ok (nd_broker s) m"
    "consistent (nd_broker s)" using assms(1) by (auto simp: node_ok_def)
  obtain pool' where pool': "pool_Submit h cid (Some m) pool = Some pool'" "s' = s\<lparr>nd_wpool := Some pool'\<rparr>"
    using assms(3) pool(1) by (auto simp: SubmitWork_def)
  have "pool_ok h pool'" using pool_step_ok [OF pool_step.submit [OF pool'(1)] pool(2)] by simp
  moreover have "all_queued pool' \<subseteq> insert m (all_queued pool)"
  proof -
    let ?i = "pool_index h pool cid"
    have i: "?i < length (taskQueue pool)" using pool_ok_index [OF pool(2)] pool(2) by (simp add: pool_ok_def)
    have "pool' = pool\<lparr>taskQueue := (taskQueue pool)[?i := taskQueue pool ! ?i @ [(cid, m)]]\<rparr>"
      using pool'(1) by (auto simp: pool_Submit_def Let_def split: if_splits)
    then show ?thesis
      using all_queued_update [of pool ?i "taskQueue pool ! ?i @ [(cid, m)]"] all_queued_nth [OF i] by auto
  qed
  ultimately show ?thesis using pool pool'(2) assms(2) by (auto simp: node_ok_def)
qed

lemma submit_all_ok:
  assumes "node_ok h s" "\<forall>x \<in> set xs. queued_ok (nd_broker s) (snd x)" "submit_all h xs s = Some s'"
  shows "node_ok h s' \<and> nd_broker s' = nd_broker s"
  using assms
proof (induction xs arbitrary: s)
  case (Cons x xs)
  obtain s1 where s1: "SubmitWork h (fst x) (snd x) s = Some s1" "submit_all h xs s1 = Some s'"
    using Cons(4) by (auto simp: bind_eq_Some_conv)
  have k: "node_ok h s1" "nd_broker s1 = nd_broker s" using SubmitWork_ok [OF Cons(2) _ s1(1)] Cons(3) by auto
  then show ?case using Cons(1) [OF k(1) _ s1(2)] Cons(3) by simp
qed simp


lemma worker_turn_ok:
  assumes "pool_ok h pool" "startWorker_turn i pool = Some ((cid, m), pool')"
  shows "pool_ok h pool'" "m \<in> all_queued pool" "all_queued pool' \<subseteq> all_queued pool"
proof -
  obtain xs where xs: "i < length (taskQueue pool)" "taskQueue pool ! i = (cid, m) # xs"
    "pool' = pool\<lparr>taskQueue := (taskQueue pool)[i := xs]\<rparr>"
    using assms(2) by (auto simp: startWorker_turn_def split: if_splits list.splits)
  show "pool_ok h pool'" using pool_step_ok [OF pool_step.run [OF assms(2)] assms(1)] by simp
  show "m \<in> all_queued pool" "all_queued pool' \<subseteq> all_queued pool"
    using all_queued_update [of pool i xs] all_queued_nth [OF xs(1)] xs(2,3) by auto
qed

lemma steps_node: "steps n b b' \<Longrightarrow> consistent b' \<and> keeps b b'"
  using steps_ready ready_consistent steps_keeps by blast

lemma node_step_ok:
  assumes "node_step h cd e s s'" "env_ok e" "node_ok h s"
  shows "node_ok h s'"
  using assms(1)
proof cases
  case (start now a b')
  then show ?thesis using node_ok_broker [OF assms(3)] Cluster_Start_keeps assms(3) unfolding node_ok_def by blast
next
  case (connect n now ip rnd ok input b' r)
  then show ?thesis using node_ok_broker [OF assms(3)] handleConnection_keeps assms(3) unfolding node_ok_def by blast
next
  case (read p c deadline input b' ms rest)
  have k: "consistent b' \<and> keeps (nd_broker s) b' \<and> (\<forall>m \<in> set ms. queued_ok b' m)"
    using readLoop_turn_keeps [OF _ read(1-3)] assms(3) by (simp add: node_ok_def)
  then have "node_ok h (s\<lparr>nd_broker := b'\<rparr>)" using node_ok_broker [OF assms(3)] by blast
  from submit_all_ok [OF this _ read(4)] k show ?thesis by auto
next
  case (work n pool i cid m pool' now b')
  have ok: "consistent (nd_broker s)" "pool_ok h pool" "\<forall>m \<in> all_queued pool. queued_ok (nd_broker s) m"
    using assms(3) work(3) by (auto simp: node_ok_def)
  note w = worker_turn_ok [OF ok(2) work(4)]
  have "queued_ok (nd_broker s) m" using ok(3) w(2) by blast
  from ProcessMessage_partial [OF consistent_ready [OF ok(1) work(2)] this assms(2) work(5)]
  have "consistent b' \<and> keeps (nd_broker s) b'" by (rule steps_node)
  then show ?thesis using w(1,3) ok(3) queued_ok_keeps unfolding node_ok_def work(1) by auto
next
  case (retry n now p b')
  have "ready n (nd_broker s)" using assms(3) retry(2) consistent_ready by (auto simp: node_ok_def)
  moreover obtain c where "b_heap (nd_broker s) p = Some c"
    using retry(3) by (auto simp: retryDelivery_def on_client_def bind_eq_Some_conv)
  ultimately have "\<exists>b'. retryDelivery n e now p (nd_broker s) = Some b' \<and> steps n (nd_broker s) b'"
    by (rule retryDelivery_steps)
  then have "steps n (nd_broker s) b'" using retry(3) by simp
  then show ?thesis using node_ok_broker [OF assms(3)] steps_node retry(1) by blast
next
  case (expire now p b')
  obtain c where c: "b_heap (nd_broker s) p = Some c" using expire(2) by (auto simp: expireAwaitingRel_def bind_eq_Some_conv)
  have "ready (Suc (card (online (nd_broker s)))) (nd_broker s)" using assms(3) by (simp add: node_ok_def consistent_def)
  from expireAwaitingRel_steps [OF this c, of now] expire(2)
  have "steps (Suc (card (online (nd_broker s)))) (nd_broker s) b'" by simp
  then show ?thesis using node_ok_broker [OF assms(3)] steps_node expire(1) by blast
next
  case (kick n now cid b')
  then show ?thesis using node_ok_broker [OF assms(3)] DisConnClientByClientId_keeps assms(3) unfolding node_ok_def by blast
next
  case (event ev b')
  then show ?thesis using node_ok_broker [OF assms(3)] cluster_event_keeps assms(3) unfolding node_ok_def by blast
next
  case (receive ev b' r)
  have k: "consistent b' \<and> keeps (nd_broker s) b' \<and> (\<forall>cid m. r = Some (cid, m) \<longrightarrow> queued_ok b' m)"
    using Receive_event_keeps [OF _ receive(1)] assms(3) by (simp add: node_ok_def)
  then have "node_ok h (s\<lparr>nd_broker := b'\<rparr>)" using node_ok_broker [OF assms(3)] by blast
  from submit_all_ok [OF this _ receive(2)] k show ?thesis by (auto split: option.splits)
next
  case (manager fails rn rc ra rs)
  then show ?thesis using node_ok_broker [OF assms(3)] manager_round_keeps assms(3) unfolding node_ok_def by blast
qed


lemma node_reaches_ok: "node_reaches h cd e s s' \<Longrightarrow> env_ok e \<Longrightarrow> node_ok h s \<Longrightarrow> node_ok h s'"
  by (induction rule: node_reaches.induct) (auto intro: node_step_ok)

lemma NewBroker_ok:
  assumes "NewBroker None config = Inr (b0, pool0)" "cf_Worker config < 2 ^ 64"
  shows "node_ok h \<lparr>nd_broker = b0, nd_wpool = Some pool0, nd_Worker = cf_Worker config\<rparr>"
proof -
  have "all_queued pool0 = {}" unfolding NewBroker_consistent(3) [OF assms(1)] by (auto simp: all_queued_def pool_New_def Let_def)
  then show ?thesis
    using NewBroker_consistent [OF assms(1)] pool_New_ok [OF assms(2)] by (simp add: node_ok_def)
qed

section \<open>Property\<close>

text \<open>
  C6. A running node never loses its invariant: from the broker \<open>NewBroker\<close> makes, through every sequence of
  steps of its goroutines (loading the tables, connections accepted and read with any bytes on
  them, workers handling messages, retries, expirations, disconnections by identifier, events of the store,
  forwarded messages, the manager), the topic tree agrees with the clients' subscription maps, local
  clients have their sessions, and every queued message is one of an existing local client.
  Whatever message a worker takes next, handling it returns unless it is one of the two that are known to panic.
\<close>

theorem node_stays_consistent:
  assumes "NewBroker None config = Inr (b0, pool0)" "cf_Worker config < 2 ^ 64" "env_ok e"
    "node_reaches h cd e \<lparr>nd_broker = b0, nd_wpool = Some pool0, nd_Worker = cf_Worker config\<rparr> s"
  shows "consistent (nd_broker s) \<and>
    (\<exists>pool. nd_wpool s = Some pool \<and> pool_ok h pool \<and>
      (\<forall>m \<in> all_queued pool. queued_ok (nd_broker s) m) \<and>
      (\<forall>i cid m pool'. startWorker_turn i pool = Some ((cid, m), pool') \<longrightarrow> safe_message (nd_broker s) m \<longrightarrow>
        (\<exists>b'. node_step h cd e s (s\<lparr>nd_broker := b', nd_wpool := Some pool'\<rparr>) \<and> consistent b')))"
proof -
  have ok: "node_ok h s" by (rule node_reaches_ok [OF assms(4,3) NewBroker_ok [OF assms(1,2)]])
  then obtain pool where pool: "nd_wpool s = Some pool" "pool_ok h pool" "\<forall>m \<in> all_queued pool. queued_ok (nd_broker s) m"
    "consistent (nd_broker s)" by (auto simp: node_ok_def)
  have "\<exists>b'. node_step h cd e s (s\<lparr>nd_broker := b', nd_wpool := Some pool'\<rparr>) \<and> consistent b'"
    if t: "startWorker_turn i pool = Some ((cid, m), pool')" and m: "safe_message (nd_broker s) m" for i cid m pool'
  proof -
    let ?n = "Suc (card (online (nd_broker s)))"
    obtain b' where b': "ProcessMessage ?n e 0 m (nd_broker s) = Some b'" "steps ?n (nd_broker s) b'"
      using steps_ProcessMessage [OF _ m assms(3), of ?n 0] pool(4) unfolding consistent_def by blast
    then show ?thesis using node_step.work [OF _ pool(1) t b'(1)] steps_node [OF b'(2)] by blast
  qed
  with pool show ?thesis by blast
qed

definition sample_config :: GlobalConfig where
  "sample_config = \<lparr>cf_Cluster = ''x'', cf_Broker = ''n'', cf_Worker = 2, cf_Auth_Enable = False, cf_Auth_Type = ''etcd'',
     cf_Acl_Enable = True, cf_Bridge_Enable = False, cf_Bridge_Type = ''kafka'', cf_Notify_Enable = False\<rparr>"

theorem node_stays_consistent_witness:
  "\<exists>b0 pool0 b'. NewBroker None sample_config = Inr (b0, pool0) \<and>
     cluster_event sample_codec (insertion ''/x/sys/clients/c9'' (bytes_of_string ''c9'')) b0 = Some b' \<and>
     registry b' ''c9'' = Some (ClientObj 0) \<and> consistent b'"
proof -
  obtain b0 pool0 where b0: "NewBroker None sample_config = Inr (b0, pool0)"
    by (simp add: NewBroker_def topics_NewManager_def sessions_NewManager_def)
  then have "b_cluster b0 = cluster_dirs ''/x''" "b_id b0 = ''n''" "b_next b0 = 0"
    by (auto simp: NewBroker_def topics_NewManager_def sessions_NewManager_def sample_config_def)
  then have ev: "cluster_event sample_codec (insertion ''/x/sys/clients/c9'' (bytes_of_string ''c9'')) b0 =
      Some (AddORUpdateClient (zeroClient\<lparr>ci_ID := ''c9'', ci_NodeID := ''m''\<rparr>) b0)"
    by (simp add: cluster_event_def watch_event_def doWatchWithClient_def decoded_def evt_type_def insertion_def sample_codec_def
        cluster_dirs_def go_hasPrefix_def readyToReceive_turn_def doClientEvent_def)
  let ?s = "\<lparr>nd_broker = b0, nd_wpool = Some pool0, nd_Worker = cf_Worker sample_config\<rparr>"
  let ?b = "AddORUpdateClient (zeroClient\<lparr>ci_ID := ''c9'', ci_NodeID := ''m''\<rparr>) b0"
  have "node_step (\<lambda>u. 0) sample_codec sample_env ?s (?s\<lparr>nd_broker := ?b\<rparr>)"
    by (rule node_step.event [where ev = "insertion ''/x/sys/clients/c9'' (bytes_of_string ''c9'')"]) (simp add: ev)
  then have "node_reaches (\<lambda>u. 0) sample_codec sample_env ?s (?s\<lparr>nd_broker := ?b\<rparr>)"
    by (rule node_reaches.further [OF node_reaches.here])
  from node_stays_consistent [OF b0 _ sample_env_ok this] have "consistent ?b" by (simp add: sample_config_def)
  moreover have "registry ?b ''c9'' = Some (ClientObj 0)"
    using \<open>b_next b0 = 0\<close> by (simp add: AddORUpdateClient_eq registry_def)
  ultimately show ?thesis using b0 ev by blast
qed

end
