(* ===== verification/AdminApi.thy ===== *)
theory AdminApi
  imports Node
begin

text \<open>
  The administration interface: the views of \<open>src/broker/http*.go\<close>, the token check of
  \<open>src/middleware/jwt.go\<close> and the tokens of \<open>src/utils/jwt/\<close>.

  A request is what the router hands to a view: path parameters and the outcome of binding the
  body. The world of one request is the record \<open>call\<close>: the clock, a fresh UUID, what the store answers
  to reads and writes, bcrypt, and the signing and parsing of the JWT library. A view returns a
  response and the broker with the changes it asked of the store; None is a panic, which the HTTP framework
  turns into an internal error.
\<close>

section \<open>Tokens\<close>

record JWTConfig =
  jc_SigningKey :: string
  jc_ExpiresTime :: int
  jc_BufferTime :: int
  jc_Issuer :: string

record JWT =
  jw_SigningKey :: bytes
  jw_ExpiresTime :: int
  jw_BufferTime :: int
  jw_Issuer :: string

record JWTBaseClaims =
  bc_Username :: string
  bc_Role :: nat

record JWTCustomClaims =
  cl_base :: JWTBaseClaims
  cl_BufferTime :: int
  cl_NotBefore :: int
  cl_ExpiresAt :: int
  cl_Issuer :: string

datatype token_error = TokenExpired | TokenNotValidYet | TokenMalformed | TokenInvalid

definition NewJWT :: "JWTConfig \<Rightarrow> JWT" where
  "NewJWT config = \<lparr>jw_SigningKey = bytes_of_string (jc_SigningKey config), jw_ExpiresTime = jc_ExpiresTime config,
     jw_BufferTime = jc_BufferTime config, jw_Issuer = jc_Issuer config\<rparr>"

definition CreateClaims :: "int \<Rightarrow> JWT \<Rightarrow> JWTBaseClaims \<Rightarrow> JWTCustomClaims" where
  "CreateClaims now j base = \<lparr>cl_base = base, cl_BufferTime = jw_BufferTime j, cl_NotBefore = now - 1000,
     cl_ExpiresAt = now + jw_ExpiresTime j, cl_Issuer = jw_Issuer j\<rparr>"

text \<open>
  The outcome of \<open>jwt.ParseWithClaims\<close>: a token (nil or not) with its claims and whether it is valid, and
  an error, which is a validation error with flags or another one.
\<close>

record validation_error =
  ve_Malformed :: bool
  ve_Expired :: bool
  ve_NotValidYet :: bool

datatype parse_error = ValidationError validation_error | OtherError

type_synonym jwt_parse = "(JWTCustomClaims option \<times> bool) option \<times> parse_error option"

definition ParseToken :: "(string \<Rightarrow> bytes \<Rightarrow> jwt_parse) \<Rightarrow> JWT \<Rightarrow> string \<Rightarrow> token_error + JWTCustomClaims" where
  "ParseToken parse j tokenString =
     (let (token, err) = parse tokenString (jw_SigningKey j);
          rest = (case token of
              Some (Some claims, True) \<Rightarrow> Inr claims
            | _ \<Rightarrow> Inl TokenInvalid)
      in case err of
          Some (ValidationError ve) \<Rightarrow>
            (if ve_Malformed ve then Inl TokenMalformed
             else if ve_Expired ve then Inl TokenExpired
             else if ve_NotValidYet ve then Inl TokenNotValidYet
             else Inl TokenInvalid)
        | _ \<Rightarrow> rest)"

section \<open>Requests and responses\<close>

record call =
  ca_now :: int
  ca_uuid :: string
  ca_get :: "string \<Rightarrow> resp"
  ca_all :: "string \<Rightarrow> resp"
  ca_fails :: "string \<Rightarrow> go_error option"
  ca_hash :: "string \<Rightarrow> go_error + string"
  ca_compare :: "string \<Rightarrow> string \<Rightarrow> go_error option"
  ca_sign :: "JWTCustomClaims \<Rightarrow> bytes \<Rightarrow> go_error + string"
  ca_parse :: "string \<Rightarrow> bytes \<Rightarrow> jwt_parse"
  ca_jwt :: JWTConfig
  ca_codec :: codec

record user_row =
  ur_client_id :: string
  ur_name :: string
  ur_role :: nat
  ur_create_at :: int

datatype api_data =
    UsersData "user_row list"
  | UserData user_row
  | AclsData "Acl list"
  | AclData Acl
  | BridgesData "(string \<times> string) list"
  | BridgeData string string
  | ClientsData "Client list"
  | ClientData Client
  | NodesData "Node list"
  | NodeData Node
  | SubscriptionsData "Subscription list"
  | SubscriptionData Subscription
  | TokenData string

datatype response =
    Success
  | SuccessData api_data
  | ErrorResponse
  | ErrorData go_error
  | ErrorMessage string
  | NotFound
  | Unauthorized
  | NotForbidden

type_synonym 'a bound = "go_error + 'a"

text \<open>The answer to a write, and to a read that fails: a missing key panics.\<close>

definition stored :: "call \<Rightarrow> string \<Rightarrow> response" where
  "stored k key = (case ca_fails k key of None \<Rightarrow> Success | Some err \<Rightarrow> ErrorData err)"

section \<open>Users\<close>

record LoginForm =
  lf_Username :: string
  lf_Password :: string

definition user_key :: "Broker \<Rightarrow> string \<Rightarrow> string" where
  "user_key b name = userDir (b_cluster b) @ ''/'' @ name"

definition user_row_of :: "User \<Rightarrow> user_row" where
  "user_row_of u = \<lparr>ur_client_id = ClientID u, ur_name = Name u, ur_role = Role u, ur_create_at = UserCreateAt u\<rparr>"

definition userView_List :: "call \<Rightarrow> Broker \<Rightarrow> (response \<times> Broker) option" where
  "userView_List k b =
     Some (case GetUsers (ca_codec k) (ca_all k (userDir (b_cluster b))) of
        (_, Some err) \<Rightarrow> (ErrorData err, b)
      | (users, None) \<Rightarrow> (SuccessData (UsersData (map (user_row_of \<circ> snd) (entries users))), b))"

definition userView_Retrieve :: "call \<Rightarrow> string \<Rightarrow> Broker \<Rightarrow> (response \<times> Broker) option" where
  "userView_Retrieve k name b =
     do { r \<leftarrow> GetUser (ca_codec k) (ca_get k (user_key b name));
          (case r of
             Inl _ \<Rightarrow> Some (NotFound, b)
           | Inr user \<Rightarrow> Some (SuccessData (UserData (user_row_of user)), b)) }"

definition userView_Create :: "call \<Rightarrow> User bound \<Rightarrow> Broker \<Rightarrow> (response \<times> Broker) option" where
  "userView_Create k body b =
     Some (case body of
        Inl err \<Rightarrow> (ErrorData err, b)
      | Inr user \<Rightarrow>
          if Name user = [] \<or> UserPassword user = [] then (ErrorResponse, b)
          else
            let user = (if UserCreateAt user = 0 then user\<lparr>UserCreateAt := ca_now k\<rparr> else user) in
            (case ca_hash k (UserPassword user) of
               Inl err \<Rightarrow> (ErrorData err, b)
             | Inr pwd \<Rightarrow>
                 let user = user\<lparr>UserPassword := pwd\<rparr> in
                 (stored k (user_key b (Name user)), StoreAddORUpdateUser user b)))"

definition userView_Update :: "call \<Rightarrow> string \<Rightarrow> User bound \<Rightarrow> Broker \<Rightarrow> (response \<times> Broker) option" where
  "userView_Update k name body b =
     (case body of
        Inl err \<Rightarrow> Some (ErrorData err, b)
      | Inr newUser \<Rightarrow>
          do { r \<leftarrow> GetUser (ca_codec k) (ca_get k (user_key b name));
               (case r of
                  Inl err \<Rightarrow> Some (ErrorData err, b)
                | Inr oldUser \<Rightarrow>
                    let oldUser = oldUser\<lparr>Name := Name newUser, ClientID := ClientID newUser, Role := Role newUser,
                          UserCreateAt := UserCreateAt newUser\<rparr> in
                    Some (stored k (user_key b (Name oldUser)), StoreAddORUpdateUser oldUser b)) })"

definition userView_Delete :: "call \<Rightarrow> string \<Rightarrow> Broker \<Rightarrow> (response \<times> Broker) option" where
  "userView_Delete k name b =
     do { r \<leftarrow> GetUser (ca_codec k) (ca_get k (user_key b name));
          (case r of
             Inl _ \<Rightarrow> Some (NotFound, b)
           | Inr _ \<Rightarrow>
               Some ((case ca_fails k (user_key b name) of None \<Rightarrow> Success | Some _ \<Rightarrow> NotFound), StoreRemoveUser name b)) }"

definition userView_Login :: "call \<Rightarrow> LoginForm bound \<Rightarrow> Broker \<Rightarrow> (response \<times> Broker) option" where
  "userView_Login k body b =
     (case body of
        Inl err \<Rightarrow> Some (ErrorData err, b)
      | Inr params \<Rightarrow>
          if lf_Username params = [] \<or> lf_Password params = []
          then Some (ErrorMessage ''username and password cannot be empty'', b)
          else do {
            r \<leftarrow> GetUser (ca_codec k) (ca_get k (user_key b (lf_Username params)));
            (case r of
               Inl err \<Rightarrow> Some (ErrorData err, b)
             | Inr user \<Rightarrow>
                 if \<not> ComparePassword (ca_compare k) (UserPassword user) (lf_Password params)
                 then Some (ErrorMessage ''wrong user name or password'', b)
                 else if Role user \<noteq> 1
                 then Some (ErrorMessage ''insufficient permissions, please contact the administrator'', b)
                 else
                   let j = NewJWT (ca_jwt k) in
                   (case ca_sign k (CreateClaims (ca_now k) j \<lparr>bc_Username = Name user, bc_Role = Role user\<rparr>) (jw_SigningKey j) of
                      Inl err \<Rightarrow> Some (ErrorData err, b)
                    | Inr token \<Rightarrow> Some (SuccessData (TokenData token), b))) })"

definition userView_ChangePassword :: "call \<Rightarrow> LoginForm bound \<Rightarrow> Broker \<Rightarrow> (response \<times> Broker) option" where
  "userView_ChangePassword k body b =
     (case body of
        Inl err \<Rightarrow> Some (ErrorData err, b)
      | Inr params \<Rightarrow>
          if lf_Username params = [] \<or> lf_Password params = []
          then Some (ErrorMessage ''username and password cannot be empty'', b)
          else do {
            r \<leftarrow> GetUser (ca_codec k) (ca_get k (user_key b (lf_Username params)));
            (case r of
               Inl err \<Rightarrow> Some (ErrorData err, b)
             | Inr user \<Rightarrow>
                 (case ca_hash k (lf_Password params) of
                    Inl err \<Rightarrow> Some (ErrorData err, b)
                  | Inr pwd \<Rightarrow>
                      let user = user\<lparr>UserPassword := pwd\<rparr> in
                      Some (stored k (user_key b (Name user)), StoreAddORUpdateUser user b))) })"

section \<open>Access rules\<close>

definition acl_key :: "Broker \<Rightarrow> string \<Rightarrow> string" where
  "acl_key b i = aclDir (b_cluster b) @ ''/'' @ i"

definition aclView_List :: "call \<Rightarrow> Broker \<Rightarrow> (response \<times> Broker) option" where
  "aclView_List k b =
     Some (case GetAcls (ca_codec k) (ca_all k (aclDir (b_cluster b))) of
        (_, Some err) \<Rightarrow> (ErrorData err, b)
      | (acls, None) \<Rightarrow> (SuccessData (AclsData (map snd (entries acls))), b))"

definition aclView_Retrieve :: "call \<Rightarrow> string \<Rightarrow> Broker \<Rightarrow> (response \<times> Broker) option" where
  "aclView_Retrieve k i b =
     do { r \<leftarrow> GetAcl (ca_codec k) (ca_get k (acl_key b i));
          (case r of Inl _ \<Rightarrow> Some (NotFound, b) | Inr acl \<Rightarrow> Some (SuccessData (AclData acl), b)) }"

text \<open>The checks and defaults that creation and update share.\<close>

definition acl_checks :: "Acl \<Rightarrow> bool" where
  "acl_checks acl \<longleftrightarrow> (Classify acl = ''pub'' \<or> Classify acl = ''sub'') \<and>
     (Type acl = ''ip'' \<or> Type acl = ''clientid'' \<or> Type acl = ''username'') \<and>
     (Action acl = ''allow'' \<or> Action acl = ''deny'')"

definition acl_defaults :: "call \<Rightarrow> Acl \<Rightarrow> Acl" where
  "acl_defaults k acl =
     (let acl = (if ID acl = [] then acl\<lparr>ID := ca_uuid k\<rparr> else acl);
          acl = (if Value acl = [] then acl\<lparr>Value := ''*''\<rparr> else acl)
      in if Topic acl = [] then acl\<lparr>Topic := ''#''\<rparr> else acl)"

definition aclView_Create :: "call \<Rightarrow> Acl bound \<Rightarrow> Broker \<Rightarrow> (response \<times> Broker) option" where
  "aclView_Create k body b =
     Some (case body of
        Inl err \<Rightarrow> (ErrorData err, b)
      | Inr acl \<Rightarrow>
          if \<not> acl_checks acl then (ErrorResponse, b)
          else
            let acl = acl_defaults k acl;
                acl = (if CreateAt acl = 0 then acl\<lparr>CreateAt := ca_now k\<rparr> else acl)
            in (stored k (acl_key b (ID acl)), StoreAddORUpdateAcl acl b))"

text \<open>Here the body is bound onto the rule that was read.\<close>

definition aclView_Update :: "call \<Rightarrow> string \<Rightarrow> (Acl \<Rightarrow> Acl bound) \<Rightarrow> Broker \<Rightarrow> (response \<times> Broker) option" where
  "aclView_Update k i body b =
     do { r \<leftarrow> GetAcl (ca_codec k) (ca_get k (acl_key b i));
          (case r of
             Inl _ \<Rightarrow> Some (NotFound, b)
           | Inr acl \<Rightarrow>
               (case body acl of
                  Inl err \<Rightarrow> Some (ErrorData err, b)
                | Inr acl \<Rightarrow>
                    if \<not> acl_checks acl then Some (ErrorResponse, b)
                    else
                      let acl = acl_defaults k acl in
                      Some (stored k (acl_key b (ID acl)), StoreAddORUpdateAcl acl b))) }"

definition aclView_Delete :: "call \<Rightarrow> string \<Rightarrow> Broker \<Rightarrow> (response \<times> Broker) option" where
  "aclView_Delete k i b =
     do { r \<leftarrow> GetAcl (ca_codec k) (ca_get k (acl_key b i));
          (case r of
             Inl _ \<Rightarrow> Some (NotFound, b)
           | Inr _ \<Rightarrow> Some (stored k (acl_key b i), StoreRemoveAcl i b)) }"

section \<open>Bridge rules\<close>

definition bridge_key :: "Broker \<Rightarrow> string \<Rightarrow> string" where
  "bridge_key b t = bridgeDir (b_cluster b) @ ''/'' @ t"

definition bridgeView_List :: "call \<Rightarrow> Broker \<Rightarrow> (response \<times> Broker) option" where
  "bridgeView_List k b =
     Some (case GetBridges (ca_all k (bridgeDir (b_cluster b))) of
        (_, Some err) \<Rightarrow> (ErrorData err, b)
      | (bridges, None) \<Rightarrow> (SuccessData (BridgesData (entries bridges)), b))"

definition bridgeView_Retrieve :: "call \<Rightarrow> string \<Rightarrow> Broker \<Rightarrow> (response \<times> Broker) option" where
  "bridgeView_Retrieve k t b =
     do { r \<leftarrow> GetBridge (ca_get k (bridge_key b t));
          (case r of Inl _ \<Rightarrow> Some (NotFound, b) | Inr data \<Rightarrow> Some (SuccessData (BridgeData t data), b)) }"

definition parse_failed :: response where
  "parse_failed = ErrorMessage ''failed to parse data''"

definition bridgeView_Create :: "call \<Rightarrow> (string, string) gomap bound \<Rightarrow> Broker \<Rightarrow> (response \<times> Broker) option" where
  "bridgeView_Create k body b =
     Some (case body of
        Inl err \<Rightarrow> (ErrorData err, b)
      | Inr m \<Rightarrow>
          (case (gm_get m ''topic'', gm_get m ''queue'') of
             (Some topic, Some queue) \<Rightarrow>
               if topic = [] \<or> queue = [] then (parse_failed, b)
               else (stored k (bridge_key b topic), StoreAddORUpdateBridge topic queue b)
           | _ \<Rightarrow> (parse_failed, b)))"

definition bridgeView_Update :: "call \<Rightarrow> string \<Rightarrow> (string, string) gomap bound \<Rightarrow> Broker \<Rightarrow> (response \<times> Broker) option" where
  "bridgeView_Update k t body b =
     do { r \<leftarrow> GetBridge (ca_get k (bridge_key b t));
          (case r of
             Inl _ \<Rightarrow> Some (NotFound, b)
           | Inr _ \<Rightarrow>
               (case body of
                  Inl err \<Rightarrow> Some (ErrorData err, b)
                | Inr m \<Rightarrow>
                    (case gm_get m ''queue'' of
                       None \<Rightarrow> Some (parse_failed, b)
                     | Some queue \<Rightarrow>
                         if queue = [] then Some (parse_failed, b)
                         else Some (stored k (bridge_key b t), StoreAddORUpdateBridge t queue b)))) }"

definition bridgeView_Delete :: "call \<Rightarrow> string \<Rightarrow> Broker \<Rightarrow> (response \<times> Broker) option" where
  "bridgeView_Delete k t b =
     do { r \<leftarrow> GetBridge (ca_get k (bridge_key b t));
          (case r of
             Inl _ \<Rightarrow> Some (NotFound, b)
           | Inr _ \<Rightarrow> Some (stored k (bridge_key b t), StoreRemoveBridge t b)) }"

section \<open>Clients, nodes and subscriptions\<close>

definition clientView_List :: "call \<Rightarrow> Broker \<Rightarrow> (response \<times> Broker) option" where
  "clientView_List k b =
     Some (case GetClients (ca_codec k) (ca_all k (clientDir (b_cluster b))) of
        (_, Some err) \<Rightarrow> (ErrorData err, b)
      | (clients, None) \<Rightarrow> (SuccessData (ClientsData (map snd (entries clients))), b))"

definition clientView_Retrieve :: "call \<Rightarrow> string \<Rightarrow> Broker \<Rightarrow> (response \<times> Broker) option" where
  "clientView_Retrieve k i b =
     do { r \<leftarrow> GetClient (ca_codec k) (ca_get k (clientDir (b_cluster b) @ ''/'' @ i));
          (case r of Inl _ \<Rightarrow> Some (NotFound, b) | Inr c \<Rightarrow> Some (SuccessData (ClientData c), b)) }"

definition nodeView_List :: "call \<Rightarrow> Broker \<Rightarrow> (response \<times> Broker) option" where
  "nodeView_List k b =
     Some (case GetNodes (ca_codec k) (ca_all k (nodeDir (b_cluster b))) of
        (_, Some err) \<Rightarrow> (ErrorData err, b)
      | (nodes, None) \<Rightarrow> (SuccessData (NodesData (map snd (entries nodes))), b))"

definition nodeView_Retrieve :: "call \<Rightarrow> string \<Rightarrow> Broker \<Rightarrow> (response \<times> Broker) option" where
  "nodeView_Retrieve k i b =
     do { r \<leftarrow> GetNode (ca_codec k) (ca_get k (nodeDir (b_cluster b) @ ''/'' @ i));
          (case r of Inl _ \<Rightarrow> Some (NotFound, b) | Inr nd \<Rightarrow> Some (SuccessData (NodeData nd), b)) }"

definition subscriptionView_List :: "call \<Rightarrow> Broker \<Rightarrow> (response \<times> Broker) option" where
  "subscriptionView_List k b =
     Some (case GetSubscriptions (ca_codec k) (ca_all k (subscriptionDir (b_cluster b))) of
        (_, Some err) \<Rightarrow> (ErrorData err, b)
      | (ss, None) \<Rightarrow> (SuccessData (SubscriptionsData (map snd (entries ss))), b))"

definition subscriptionView_Retrieve :: "call \<Rightarrow> string \<Rightarrow> Broker \<Rightarrow> (response \<times> Broker) option" where
  "subscriptionView_Retrieve k i b =
     do { r \<leftarrow> GetSubscription (ca_codec k) (ca_get k (subscriptionDir (b_cluster b) @ ''/'' @ i));
          (case r of Inl _ \<Rightarrow> Some (NotFound, b) | Inr sb \<Rightarrow> Some (SuccessData (SubscriptionData sb), b)) }"

section \<open>Routes\<close>

datatype api_request =
    PostLogin "LoginForm bound"
  | PostChangePassword "LoginForm bound"
  | GetUserList
  | GetUserName string
  | PostUser "User bound"
  | PutUser string "User bound"
  | DeleteUser string
  | GetNodeList
  | GetNodeID string
  | GetClientList
  | GetClientID string
  | GetSubscriptionList
  | GetSubscriptionID string
  | GetBridgeList
  | GetBridgeTopic string
  | PostBridge "(string, string) gomap bound"
  | PutBridge string "(string, string) gomap bound"
  | DeleteBridge string
  | GetAclList
  | GetAclID string
  | PostAcl "Acl bound"
  | PutAcl string "Acl \<Rightarrow> Acl bound"
  | DeleteAcl string

fun api_view :: "call \<Rightarrow> api_request \<Rightarrow> Broker \<Rightarrow> (response \<times> Broker) option" where
  "api_view k (PostLogin body) b = userView_Login k body b"
| "api_view k (PostChangePassword body) b = userView_ChangePassword k body b"
| "api_view k GetUserList b = userView_List k b"
| "api_view k (GetUserName name) b = userView_Retrieve k name b"
| "api_view k (PostUser body) b = userView_Create k body b"
| "api_view k (PutUser name body) b = userView_Update k name body b"
| "api_view k (DeleteUser name) b = userView_Delete k name b"
| "api_view k GetNodeList b = nodeView_List k b"
| "api_view k (GetNodeID i) b = nodeView_Retrieve k i b"
| "api_view k GetClientList b = clientView_List k b"
| "api_view k (GetClientID i) b = clientView_Retrieve k i b"
| "api_view k GetSubscriptionList b = subscriptionView_List k b"
| "api_view k (GetSubscriptionID i) b = subscriptionView_Retrieve k i b"
| "api_view k GetBridgeList b = bridgeView_List k b"
| "api_view k (GetBridgeTopic t) b = bridgeView_Retrieve k t b"
| "api_view k (PostBridge body) b = bridgeView_Create k body b"
| "api_view k (PutBridge t body) b = bridgeView_Update k t body b"
| "api_view k (DeleteBridge t) b = bridgeView_Delete k t b"
| "api_view k GetAclList b = aclView_List k b"
| "api_view k (GetAclID i) b = aclView_Retrieve k i b"
| "api_view k (PostAcl body) b = aclView_Create k body b"
| "api_view k (PutAcl i body) b = aclView_Update k i body b"
| "api_view k (DeleteAcl i) b = aclView_Delete k i b"

text \<open>The token check: the response that ends the request, or the claims.\<close>

definition JWTAuth :: "call \<Rightarrow> string \<Rightarrow> response + JWTCustomClaims" where
  "JWTAuth k token =
     (if token = [] then Inl Unauthorized
      else (case ParseToken (ca_parse k) (NewJWT (ca_jwt k)) token of
              Inl err \<Rightarrow> if err = TokenExpired then Inl NotForbidden else Inl NotForbidden
            | Inr claims \<Rightarrow> Inr claims))"

text \<open>The routes of \<open>InitHTTPMoniter\<close>: all but the login go through the token check. \<open>token\<close> is the header \<open>x-token\<close>.\<close>

definition api_serve :: "call \<Rightarrow> string \<Rightarrow> api_request \<Rightarrow> Broker \<Rightarrow> (response \<times> Broker) option" where
  "api_serve k token req b =
     (case req of
        PostLogin _ \<Rightarrow> api_view k req b
      | _ \<Rightarrow> (case JWTAuth k token of Inl r \<Rightarrow> Some (r, b) | Inr _ \<Rightarrow> api_view k req b))"

end
