(* ===== verification/AdminInv.thy ===== *)
theory AdminInv
  imports AdminApi
begin

text \<open>
  What the administration interface guarantees: it changes the store only for requests with a valid token and never the
  broker's own tables, whom it lets in, what rules it stores, and how a new user reaches
  the nodes.
\<close>

lemma emit_emits: "emit x b = emits [x] b"
  by (simp add: emit_def emits_def)

text \<open>A view asks the store for at most one change.\<close>

definition store_change :: "out_event \<Rightarrow> bool" where
  "store_change x \<longleftrightarrow> (case x of StorePut _ _ \<Rightarrow> True | StoreDel _ \<Rightarrow> True | _ \<Rightarrow> False)"

definition one_change :: "Broker \<Rightarrow> Broker \<Rightarrow> bool" where
  "one_change b b' \<longleftrightarrow> b' = b \<or> (\<exists>x. store_change x \<and> b' = emits [x] b)"

lemma one_change_emit: "store_change x \<Longrightarrow> one_change b (emit x b)"
  unfolding one_change_def emit_emits by blast

lemma one_change_intros [simp, intro]:
  "one_change b b" "one_change b (StoreAddORUpdateUser u b)" "one_change b (StoreRemoveUser n b)"
  "one_change b (StoreAddORUpdateAcl a b)" "one_change b (StoreRemoveAcl i b)"
  "one_change b (StoreAddORUpdateBridge t q b)" "one_change b (StoreRemoveBridge t b)"
  unfolding StoreAddORUpdateUser_def StoreRemoveUser_def StoreAddORUpdateAcl_def StoreRemoveAcl_def
    StoreAddORUpdateBridge_def StoreRemoveBridge_def
  by (simp add: one_change_def, (rule one_change_emit, simp add: store_change_def)+)

lemmas view_defs = userView_List_def userView_Retrieve_def userView_Create_def userView_Update_def userView_Delete_def
  userView_Login_def userView_ChangePassword_def aclView_List_def aclView_Retrieve_def aclView_Create_def aclView_Update_def
  aclView_Delete_def bridgeView_List_def bridgeView_Retrieve_def bridgeView_Create_def bridgeView_Update_def bridgeView_Delete_def
  clientView_List_def clientView_Retrieve_def nodeView_List_def nodeView_Retrieve_def subscriptionView_List_def
  subscriptionView_Retrieve_def

lemma view_one_change: "api_view k req b = Some (r, b') \<Longrightarrow> one_change b b'"
  by (cases req) (auto simp: view_defs Let_def split: Option.bind_split_asm sum.splits if_splits prod.splits option.splits)

lemma login_unchanged: "userView_Login k body b = Some (r, b') \<Longrightarrow> b' = b"
  by (auto simp: userView_Login_def Let_def split: Option.bind_split_asm sum.splits if_splits)

text \<open>
  C22. The administration interface is guarded: whatever the request, it asks the store for at most one
  change and leaves the broker's own state as it is, and it asks for a change only when the request is not the
  login and carries a token that parses as valid; without one the answer is a refusal.
\<close>

theorem api_changes_need_token:
  assumes "api_serve k token req b = Some (r, b')"
  shows "(b' = b \<or> (\<exists>x claims. store_change x \<and> b' = emits [x] b \<and> JWTAuth k token = Inr claims \<and> (\<forall>f. req \<noteq> PostLogin f))) \<and>
    ((\<forall>f. req \<noteq> PostLogin f) \<longrightarrow> (\<forall>e. JWTAuth k token = Inl e \<longrightarrow> r = e \<and> (e = Unauthorized \<or> e = NotForbidden)))"
proof (cases "\<exists>f. req = PostLogin f")
  case True
  then show ?thesis using assms login_unchanged by (auto simp: api_serve_def)
next
  case False
  then have eq: "api_serve k token req b = (case JWTAuth k token of Inl r \<Rightarrow> Some (r, b) | Inr _ \<Rightarrow> api_view k req b)"
    by (cases req) (auto simp: api_serve_def)
  show ?thesis
  proof (cases "JWTAuth k token")
    case (Inl e)
    then have "e = Unauthorized \<or> e = NotForbidden" by (auto simp: JWTAuth_def split: if_splits sum.splits)
    with Inl show ?thesis using assms eq by simp
  next
    case (Inr claims)
    then have "one_change b b'" using assms eq view_one_change by simp
    with Inr False show ?thesis by (auto simp: one_change_def)
  qed
qed

text \<open>
  C24. Who gets a token: the login succeeds exactly for a stored user of the administrator role whose password
  compares with the given one, when the library signs the claims; and the token it returns is accepted by
  the check of every other route, given that the library parses as valid what it signed with the same key.
\<close>

theorem login_token:
  assumes "lf_Username p \<noteq> []" "lf_Password p \<noteq> []"
    "GetUser (ca_codec k) (ca_get k (user_key b (lf_Username p))) = Some (Inr u)"
    "ca_sign k (CreateClaims (ca_now k) (NewJWT (ca_jwt k)) \<lparr>bc_Username = Name u, bc_Role = Role u\<rparr>)
       (jw_SigningKey (NewJWT (ca_jwt k))) = Inr t" "t \<noteq> []"
    "ca_parse k' t (jw_SigningKey (NewJWT (ca_jwt k))) =
       (Some (Some (CreateClaims (ca_now k) (NewJWT (ca_jwt k)) \<lparr>bc_Username = Name u, bc_Role = Role u\<rparr>), True), None)"
    "ca_jwt k' = ca_jwt k"
  shows "(api_serve k token (PostLogin (Inr p)) b = Some (SuccessData (TokenData t), b)) =
      (ca_compare k (UserPassword u) (lf_Password p) = None \<and> Role u = 1) \<and>
    (\<forall>req. (\<forall>f. req \<noteq> PostLogin f) \<longrightarrow> api_serve k' t req b'' = api_view k' req b'')"
proof
  show "(api_serve k token (PostLogin (Inr p)) b = Some (SuccessData (TokenData t), b)) =
      (ca_compare k (UserPassword u) (lf_Password p) = None \<and> Role u = 1)"
    using assms(1-4) by (auto simp: api_serve_def userView_Login_def ComparePassword_def Let_def)
  have auth: "JWTAuth k' t = Inr (CreateClaims (ca_now k) (NewJWT (ca_jwt k)) \<lparr>bc_Username = Name u, bc_Role = Role u\<rparr>)"
    using assms(5-7) by (simp add: JWTAuth_def ParseToken_def)
  show "\<forall>req. (\<forall>f. req \<noteq> PostLogin f) \<longrightarrow> api_serve k' t req b'' = api_view k' req b''"
  proof (intro allI impI)
    fix req assume "\<forall>f. req \<noteq> PostLogin f"
    then show "api_serve k' t req b'' = api_view k' req b''" by (cases req) (auto simp: api_serve_def auth)
  qed
qed

text \<open>
  C25. The rules that creation and update store are well-formed, whatever the body: direction, kind and action
  are among the known ones, value and topic are not empty, and the key is that of the rule's
  identifier.
\<close>

theorem stored_rules_wellformed:
  assumes "api_serve k token req b = Some (r, emits [StorePut key (AclValue acl)] b)"
  shows "acl_checks acl \<and> Value acl \<noteq> [] \<and> Topic acl \<noteq> [] \<and> key = acl_key b (ID acl) \<and>
    (ca_uuid k \<noteq> [] \<longrightarrow> ID acl \<noteq> []) \<and>
    ((\<exists>body. req = PostAcl body) \<or> (\<exists>i body. req = PutAcl i body))"
proof -
  have d: "acl_checks (acl_defaults k x) = acl_checks x" "acl_checks (x\<lparr>CreateAt := c\<rparr>) = acl_checks x" for x c
    by (auto simp: acl_checks_def acl_defaults_def Let_def)
  have e: "emits [StorePut key (AclValue acl)] b \<noteq> b" by (metis append_self_conv emits_simps(5) not_Cons_self2)
  have f: "emits [x] b = emits [y] b \<longleftrightarrow> x = y" for x y by (metis append1_eq_conv emits_simps(5))
  have dd: "Value (acl_defaults k x) \<noteq> []" "Topic (acl_defaults k x) \<noteq> []" "ca_uuid k \<noteq> [] \<longrightarrow> ID (acl_defaults k x) \<noteq> []" for x
    by (auto simp: acl_defaults_def Let_def)
  have "\<exists>claims. JWTAuth k token = Inr claims" "\<forall>f. req \<noteq> PostLogin f"
    using assms e login_unchanged by (auto simp: api_serve_def split: api_request.splits sum.splits)
  then have v: "api_view k req b = Some (r, emits [StorePut key (AclValue acl)] b)"
    using assms by (auto simp: api_serve_def split: api_request.splits)
  show ?thesis
  proof (cases req)
    case (PostAcl body)
    then show ?thesis using v e dd d
      by (auto simp: aclView_Create_def StoreAddORUpdateAcl_def emit_emits f acl_key_def Let_def split: sum.splits if_splits)
  next
    case (PutAcl i body)
    then show ?thesis using v e dd d
      by (auto simp: aclView_Update_def StoreAddORUpdateAcl_def emit_emits f acl_key_def Let_def split: Option.bind_split_asm sum.splits if_splits)
  qed (use v e in \<open>auto simp: view_defs StoreAddORUpdateUser_def StoreRemoveUser_def StoreRemoveAcl_def StoreAddORUpdateBridge_def
      StoreRemoveBridge_def emit_emits f Let_def split: Option.bind_split_asm sum.splits if_splits prod.splits option.splits\<close>)
qed


section \<open>From the interface to the nodes\<close>

lemma watch_dirs:
  assumes "b_cluster b = cluster_dirs r"
  shows "ev_Key ev = user_key b name \<Longrightarrow> watch_event cd b ev = doWatchWithUser cd b ev"
    "ev_Key ev = bridge_key b t \<Longrightarrow> watch_event cd b ev = doWatchWithBridge b ev"
  using assms by (auto simp: watch_event_def user_key_def bridge_key_def cluster_dirs_def go_hasPrefix_def Let_def)

definition created_user :: "call \<Rightarrow> User \<Rightarrow> string \<Rightarrow> User" where
  "created_user k u h = (if UserCreateAt u = 0 then u\<lparr>UserCreateAt := ca_now k\<rparr> else u)\<lparr>UserPassword := h\<rparr>"

text \<open>
  C23. A user created through the interface can connect at every node: the record put into the store has
  the hash in place of the password; when its event reaches a node, that node accepts exactly the
  password given, for the client identifier of the user or any if it has none. The decoder is assumed to
  invert the encoding of this record, and bcrypt to accept the hash it made.
\<close>

theorem created_user_connects:
  assumes "JWTAuth k token = Inr claims" "Name u \<noteq> []" "UserPassword u \<noteq> []" "ca_hash k (UserPassword u) = Inr h"
    "ca_fails k (user_key b (Name u)) = None"
    and "b_cluster b = cluster_dirs r" "b_cluster b2 = cluster_dirs r"
    and "enc \<noteq> []" "dec_user cd enc = Some (created_user k u h)" "env_compare e h (UserPassword u) = None"
  shows "\<exists>b'. api_serve k token (PostUser (Inr u)) b = Some (Success, b') \<and>
    b_out b' = b_out b @ [StorePut (user_key b2 (Name u)) (UserValue (created_user k u h))] \<and>
    (\<forall>ev. put_event (user_key b2 (Name u)) enc ev \<longrightarrow>
      (\<exists>b3. cluster_event cd ev b2 = Some b3 \<and>
        (\<forall>cid pw. CheckConnectAuth e b3 cid (Name u) pw \<longleftrightarrow>
           (ClientID u = [] \<or> ClientID u = cid) \<and> env_compare e h pw = None) \<and>
        (\<forall>cid. ClientID u = [] \<or> ClientID u = cid \<longrightarrow> CheckConnectAuth e b3 cid (Name u) (UserPassword u))))"
proof -
  have key: "user_key b2 (Name u) = user_key b (Name u)" using assms(6,7) by (simp add: user_key_def)
  have "api_serve k token (PostUser (Inr u)) b = Some (Success, StoreAddORUpdateUser (created_user k u h) b)"
    using assms(1-5) by (simp add: api_serve_def userView_Create_def stored_def created_user_def Let_def)
  moreover have "b_out (StoreAddORUpdateUser (created_user k u h) b) =
      b_out b @ [StorePut (user_key b2 (Name u)) (UserValue (created_user k u h))]"
    unfolding key by (simp add: StoreAddORUpdateUser_def emit_def user_key_def created_user_def)
  moreover have "\<exists>b3. cluster_event cd ev b2 = Some b3 \<and>
        (\<forall>cid pw. CheckConnectAuth e b3 cid (Name u) pw \<longleftrightarrow>
           (ClientID u = [] \<or> ClientID u = cid) \<and> env_compare e h pw = None)" if ev: "put_event (user_key b2 (Name u)) enc ev" for ev
  proof -
    have w: "watch_event cd b2 ev = doWatchWithUser cd b2 ev"
      using watch_dirs(1) [OF assms(7)] ev by (simp add: put_event_def)
    have "evt_type ev = EventTypeNew \<or> evt_type ev = EventTypeUpdate" using ev by (simp add: evt_type_def put_event_def)
    then have "cluster_event cd ev b2 = Some (AddORUpdateUser (created_user k u h) b2)"
      using w ev assms(8,9)
      by (auto simp: cluster_event_def doWatchWithUser_def decoded_def put_event_def readyToReceive_turn_def doUserEvent_def)
    then show ?thesis
      by (auto simp: AddORUpdateUser_def CheckConnectAuth_def etcdAuth_CheckConnect_def etcdAuth_GetUser_def
          etcdAuth_AddOrUpdateUser_def ComparePassword_def created_user_def)
  qed
  ultimately show ?thesis using assms(10) by blast
qed

lemma go_split_append_sep: "go_split c (s @ c # t) = go_split c s @ go_split c t"
proof (induction s)
  case (Cons x s)
  then show ?case using go_split_ne [of c s] by (cases "go_split c s") auto
qed simp

lemma last_segment: "c \<notin> set u \<Longrightarrow> last (go_split c (s @ c # u)) = u"
  by (simp add: go_split_append_sep go_split_no_sep)

text \<open>
  A bridge rule for a topic with several levels changes its meaning when a node restarts: the event of
  the store registers it under the whole topic, but loading the table takes only what follows the last separator
  of the key.
\<close>

theorem bridge_rule_reload:
  assumes "b_cluster b = cluster_dirs r" "b_bridgeMQ b = Some kb" "put_event (bridge_key b (t @ ''/'' @ u)) val ev" "CHR ''/'' \<notin> set u"
  shows "(\<exists>b' kb'. cluster_event cd ev b = Some b' \<and> b_bridgeMQ b' = Some kb' \<and>
      kafka_GetObj kb' (t @ ''/'' @ u) = Some (string_of_bytes val)) \<and>
    GetBridges (Inr [(bridge_key b (t @ ''/'' @ u), val)]) = (Some [(u, string_of_bytes val)], None)"
proof
  have w: "watch_event cd b ev = doWatchWithBridge b ev"
    using watch_dirs(2) [OF assms(1)] assms(3) by (simp add: put_event_def)
  have "evt_type ev = EventTypeNew \<or> evt_type ev = EventTypeUpdate" using assms(3) by (simp add: evt_type_def put_event_def)
  then have "cluster_event cd ev b = Some (AddORUpdateBridge (t @ ''/'' @ u) (string_of_bytes val) b)"
    using w assms(3) go_cut_dir [of "bridgeDir (b_cluster b) @ ''/''" "t @ ''/'' @ u"]
    by (auto simp: cluster_event_def doWatchWithBridge_def put_event_def bridge_key_def readyToReceive_turn_def doBridgeEvent_def)
  then show "\<exists>b' kb'. cluster_event cd ev b = Some b' \<and> b_bridgeMQ b' = Some kb' \<and>
      kafka_GetObj kb' (t @ ''/'' @ u) = Some (string_of_bytes val)"
    using assms(2) by (simp add: AddORUpdateBridge_def kafka_GetObj_def kafka_AddOrUpdateObj_def)
  have "last (go_split (CHR ''/'') (bridge_key b (t @ ''/'' @ u))) = u"
    using last_segment [OF assms(4), of "bridgeDir (b_cluster b) @ ''/'' @ t"] by (simp add: bridge_key_def)
  then show "GetBridges (Inr [(bridge_key b (t @ ''/'' @ u), val)]) = (Some [(u, string_of_bytes val)], None)"
    by (simp add: GetBridges_def etcdStore_All_def)
qed

section \<open>Witnesses\<close>

definition sample_call :: call where
  "sample_call = \<lparr>ca_now = 7, ca_uuid = ''u1'', ca_get = (\<lambda>key. Inr [(key, [1])]), ca_all = (\<lambda>key. Inr []), ca_fails = (\<lambda>key. None),
     ca_hash = (\<lambda>s. Inr (''#'' @ s)), ca_compare = (\<lambda>h s. if h = ''#'' @ s then None else Some (Errorf ''mismatch'')),
     ca_sign = (\<lambda>c key. Inr (''t:'' @ bc_Username (cl_base c))),
     ca_parse = (\<lambda>t key. if t = ''t:root'' then (Some (Some (CreateClaims 7 (NewJWT \<lparr>jc_SigningKey = ''k'', jc_ExpiresTime = 9, jc_BufferTime = 0,
          jc_Issuer = ''i''\<rparr>) \<lparr>bc_Username = ''root'', bc_Role = 1\<rparr>), True), None) else (None, Some OtherError)),
     ca_jwt = \<lparr>jc_SigningKey = ''k'', jc_ExpiresTime = 9, jc_BufferTime = 0, jc_Issuer = ''i''\<rparr>,
     ca_codec = sample_codec\<lparr>dec_user := (\<lambda>bs. Some \<lparr>ClientID = [], Name = ''root'', Role = 1, UserPassword = ''#pw'', UserCreateAt = 3\<rparr>)\<rparr>\<rparr>"

definition sample_node :: Broker where
  "sample_node = sample_broker\<lparr>b_cluster := cluster_dirs ''/x'', b_bridgeMQ := Some \<lparr>deliverMap = []\<rparr>\<rparr>"

lemma sample_token: "JWTAuth sample_call ''t:root'' = Inr (CreateClaims 7 (NewJWT (ca_jwt sample_call)) \<lparr>bc_Username = ''root'', bc_Role = 1\<rparr>)"
  by (simp add: JWTAuth_def ParseToken_def sample_call_def)

definition new_rule :: Acl where
  "new_rule = \<lparr>ID = [], Priority = 1, Topic = [], Classify = ''pub'', Type = ''ip'', Value = [], Action = ''deny'', CreateAt = 0\<rparr>"

lemma sample_create_rule:
  "api_serve sample_call ''t:root'' (PostAcl (Inr new_rule)) sample_node =
     Some (Success, emits [StorePut (acl_key sample_node ''u1'')
       (AclValue (new_rule\<lparr>ID := ''u1'', Value := ''*'', Topic := ''#'', CreateAt := 7\<rparr>))] sample_node)"
  by (simp add: api_serve_def sample_token aclView_Create_def acl_checks_def acl_defaults_def new_rule_def stored_def
      StoreAddORUpdateAcl_def emit_emits acl_key_def) (simp add: sample_call_def)

theorem api_changes_need_token_witness:
  "\<exists>x. store_change x \<and> api_serve sample_call ''t:root'' (PostAcl (Inr new_rule)) sample_node = Some (Success, emits [x] sample_node)"
proof -
  let ?x = "StorePut (acl_key sample_node ''u1'') (AclValue (new_rule\<lparr>ID := ''u1'', Value := ''*'', Topic := ''#'', CreateAt := 7\<rparr>))"
  have "emits [?x] sample_node \<noteq> sample_node" by (metis append_self_conv emits_simps(5) not_Cons_self2)
  with api_changes_need_token [OF sample_create_rule] sample_create_rule show ?thesis by auto
qed

theorem login_token_witness:
  "api_serve sample_call [] (PostLogin (Inr \<lparr>lf_Username = ''root'', lf_Password = ''pw''\<rparr>)) sample_node =
     Some (SuccessData (TokenData ''t:root''), sample_node) \<and>
   api_serve sample_call ''t:root'' GetUserList sample_node = api_view sample_call GetUserList sample_node"
proof -
  let ?p = "\<lparr>lf_Username = ''root'', lf_Password = ''pw''\<rparr>"
  let ?u = "\<lparr>ClientID = [], Name = ''root'', Role = 1, UserPassword = ''#pw'', UserCreateAt = 3\<rparr>"
  have "GetUser (ca_codec sample_call) (ca_get sample_call (user_key sample_node ''root'')) = Some (Inr ?u)"
    "ca_sign sample_call (CreateClaims (ca_now sample_call) (NewJWT (ca_jwt sample_call)) \<lparr>bc_Username = Name ?u, bc_Role = Role ?u\<rparr>)
       (jw_SigningKey (NewJWT (ca_jwt sample_call))) = Inr ''t:root''"
    "ca_parse sample_call ''t:root'' (jw_SigningKey (NewJWT (ca_jwt sample_call))) =
       (Some (Some (CreateClaims (ca_now sample_call) (NewJWT (ca_jwt sample_call)) \<lparr>bc_Username = Name ?u, bc_Role = Role ?u\<rparr>), True), None)"
    "ca_compare sample_call (UserPassword ?u) (lf_Password ?p) = None"
    by (simp_all add: sample_call_def GetUser_def get_one_def etcdStore_Get_def CreateClaims_def)
  with login_token [of ?p sample_call sample_node ?u "''t:root''" sample_call "[]" sample_node] show ?thesis by simp
qed

theorem stored_rules_wellformed_witness:
  "acl_checks (new_rule\<lparr>ID := ''u1'', Value := ''*'', Topic := ''#'', CreateAt := 7\<rparr>) \<and>
   api_serve sample_call ''t:root'' (PostAcl (Inr new_rule)) sample_node \<noteq> None"
  using stored_rules_wellformed [OF sample_create_rule] sample_create_rule by simp

definition new_user :: User where
  "new_user = \<lparr>ClientID = [], Name = ''eve'', Role = 0, UserPassword = ''s'', UserCreateAt = 0\<rparr>"

theorem created_user_connects_witness:
  "\<exists>b3. cluster_event (sample_codec\<lparr>dec_user := (\<lambda>bs. Some (created_user sample_call new_user ''#s''))\<rparr>)
     (insertion (user_key sample_node ''eve'') [1]) sample_node = Some b3 \<and>
   CheckConnectAuth (sample_env\<lparr>env_compare := ca_compare sample_call\<rparr>) b3 ''c7'' ''eve'' ''s''"
proof -
  let ?cd = "sample_codec\<lparr>dec_user := (\<lambda>bs. Some (created_user sample_call new_user ''#s''))\<rparr>"
  let ?e = "sample_env\<lparr>env_compare := ca_compare sample_call\<rparr>"
  have u: "Name new_user = ''eve''" "UserPassword new_user = ''s''" "ClientID new_user = []" by (simp_all add: new_user_def)
  have "ca_hash sample_call (UserPassword new_user) = Inr ''#s''" "ca_fails sample_call (user_key sample_node (Name new_user)) = None"
    "b_cluster sample_node = cluster_dirs ''/x''" "env_compare ?e ''#s'' (UserPassword new_user) = None"
    by (simp_all add: sample_call_def sample_node_def u)
  moreover have "put_event (user_key sample_node ''eve'') [1] (insertion (user_key sample_node ''eve'') [1])"
    by (simp add: put_event_def insertion_def)
  ultimately show ?thesis
    using created_user_connects [OF sample_token, of new_user "''#s''" sample_node "''/x''" sample_node "[1]" ?cd ?e] u by auto
qed

theorem bridge_rule_reload_witness:
  "GetBridges (Inr [(bridge_key sample_node ''a/b'', [113])]) = (Some [(''b'', string_of_bytes [113])], None)"
  using bridge_rule_reload [of sample_node "''/x''" "\<lparr>deliverMap = []\<rparr>" "''a''" "''b''" "[113]" "insertion (bridge_key sample_node ''a/b'') [113]"]
  by (simp add: put_event_def insertion_def sample_node_def)

end
