(* ===== verification/MqttOptions.thy ===== *)
theory MqttOptions
  imports Wire
begin

text \<open>
  The options of the MQTT client (\<open>mqtt/options.go\<close>) and their reader (\<open>mqtt/options_reader.go\<close>). The
  settings of TLS, websockets, the dialer and the callbacks for connection changes are left out.
\<close>

section \<open>Options\<close>

type_synonym duration = int

abbreviation Second :: duration where "Second \<equiv> 1000000000"
abbreviation Minute :: duration where "Minute \<equiv> 60 * Second"

text \<open>An \<open>int64\<close> result reduced to its 64 bits.\<close>

definition int64 :: "int \<Rightarrow> int" where
  "int64 n = signed_take_bit 63 n"

text \<open>The parts of a \<open>url.URL\<close> the client reads: the host and the user with an optional password.\<close>

record url =
  url_Host :: string
  url_User :: "(string \<times> string option) option"

text \<open>The credentials provider may answer differently on each attempt.\<close>

record 'h ClientOptions =
  o_Servers :: "url list"
  o_ClientID :: string
  o_Username :: string
  o_Password :: string
  o_CredentialsProvider :: "(nat \<Rightarrow> string \<times> string) option"
  o_CleanSession :: bool
  o_Order :: bool
  o_WillEnabled :: bool
  o_WillTopic :: string
  o_WillPayload :: bytes
  o_WillQos :: byte
  o_WillRetained :: bool
  o_ProtocolVersion :: nat
  o_protocolVersionExplicit :: bool
  o_KeepAlive :: int
  o_PingTimeout :: duration
  o_ConnectTimeout :: duration
  o_MaxReconnectInterval :: duration
  o_AutoReconnect :: bool
  o_ConnectRetryInterval :: duration
  o_ConnectRetry :: bool
  o_DefaultPublishHandler :: "'h option"
  o_WriteTimeout :: duration
  o_ResumeSubs :: bool
  o_MaxResumePubInFlight :: int
  o_ClientInfo :: "bytes option"

definition NewClientOptions :: "'h ClientOptions" where
  "NewClientOptions =
     \<lparr>o_Servers = [], o_ClientID = [], o_Username = [], o_Password = [], o_CredentialsProvider = None,
      o_CleanSession = True, o_Order = True, o_WillEnabled = False, o_WillTopic = [], o_WillPayload = [],
      o_WillQos = 0, o_WillRetained = False, o_ProtocolVersion = 0, o_protocolVersionExplicit = False,
      o_KeepAlive = 30, o_PingTimeout = 10 * Second, o_ConnectTimeout = 30 * Second,
      o_MaxReconnectInterval = 10 * Minute, o_AutoReconnect = True,
      o_ConnectRetryInterval = 30 * Second, o_ConnectRetry = False, o_DefaultPublishHandler = None,
      o_WriteTimeout = 0, o_ResumeSubs = False, o_MaxResumePubInFlight = 0, o_ClientInfo = None\<rparr>"

text \<open>\<open>strings.Contains\<close>.\<close>

fun go_contains :: "string \<Rightarrow> string \<Rightarrow> bool" where
  "go_contains [] p = (p = [])"
| "go_contains (x # xs) p = (go_hasPrefix (x # xs) p \<or> go_contains xs p)"

text \<open>\<open>url.Parse\<close> is the argument \<open>parse\<close>.\<close>

definition AddBroker :: "(string \<Rightarrow> url option) \<Rightarrow> 'h ClientOptions \<Rightarrow> string \<Rightarrow> 'h ClientOptions" where
  "AddBroker parse opt server =
     (let s1 = (if length server > 0 \<and> server ! 0 = CHR '':'' then ''127.0.0.1'' @ server else server);
          s2 = (if \<not> go_contains s1 ''://'' then ''tcp://'' @ s1 else s1)
      in case parse s2 of
           None \<Rightarrow> opt
         | Some brokerURI \<Rightarrow> opt\<lparr>o_Servers := o_Servers opt @ [brokerURI]\<rparr>)"

definition SetKeepAlive :: "'h ClientOptions \<Rightarrow> duration \<Rightarrow> 'h ClientOptions" where
  "SetKeepAlive opt k = opt\<lparr>o_KeepAlive := k sdiv Second\<rparr>"

definition SetProtocolVersion :: "'h ClientOptions \<Rightarrow> nat \<Rightarrow> 'h ClientOptions" where
  "SetProtocolVersion opt pv =
     (if (pv \<ge> 3 \<and> pv \<le> 4) \<or> pv > 0x80
      then opt\<lparr>o_ProtocolVersion := pv, o_protocolVersionExplicit := True\<rparr> else opt)"

definition UnsetWill :: "'h ClientOptions \<Rightarrow> 'h ClientOptions" where
  "UnsetWill opt = opt\<lparr>o_WillEnabled := False\<rparr>"

definition SetBinaryWill ::
  "'h ClientOptions \<Rightarrow> string \<Rightarrow> bytes \<Rightarrow> byte \<Rightarrow> bool \<Rightarrow> 'h ClientOptions" where
  "SetBinaryWill opt topic payload qos retained =
     opt\<lparr>o_WillEnabled := True, o_WillTopic := topic, o_WillPayload := payload, o_WillQos := qos,
         o_WillRetained := retained\<rparr>"

definition SetWill ::
  "'h ClientOptions \<Rightarrow> string \<Rightarrow> string \<Rightarrow> byte \<Rightarrow> bool \<Rightarrow> 'h ClientOptions" where
  "SetWill opt topic payload qos retained =
     SetBinaryWill opt topic (bytes_of_string payload) qos retained"

section \<open>Setters\<close>

definition SetResumeSubs :: "'h ClientOptions \<Rightarrow> bool \<Rightarrow> 'h ClientOptions" where
  "SetResumeSubs opt v = opt\<lparr>o_ResumeSubs := v\<rparr>"

definition SetClientID :: "'h ClientOptions \<Rightarrow> string \<Rightarrow> 'h ClientOptions" where
  "SetClientID opt v = opt\<lparr>o_ClientID := v\<rparr>"

definition SetUsername :: "'h ClientOptions \<Rightarrow> string \<Rightarrow> 'h ClientOptions" where
  "SetUsername opt v = opt\<lparr>o_Username := v\<rparr>"

definition SetPassword :: "'h ClientOptions \<Rightarrow> string \<Rightarrow> 'h ClientOptions" where
  "SetPassword opt v = opt\<lparr>o_Password := v\<rparr>"

definition SetCredentialsProvider :: "'h ClientOptions \<Rightarrow> (nat \<Rightarrow> string \<times> string) option \<Rightarrow> 'h ClientOptions" where
  "SetCredentialsProvider opt v = opt\<lparr>o_CredentialsProvider := v\<rparr>"

definition SetCleanSession :: "'h ClientOptions \<Rightarrow> bool \<Rightarrow> 'h ClientOptions" where
  "SetCleanSession opt v = opt\<lparr>o_CleanSession := v\<rparr>"

definition SetOrderMatters :: "'h ClientOptions \<Rightarrow> bool \<Rightarrow> 'h ClientOptions" where
  "SetOrderMatters opt v = opt\<lparr>o_Order := v\<rparr>"

definition SetPingTimeout :: "'h ClientOptions \<Rightarrow> duration \<Rightarrow> 'h ClientOptions" where
  "SetPingTimeout opt v = opt\<lparr>o_PingTimeout := v\<rparr>"

definition SetDefaultPublishHandler :: "'h ClientOptions \<Rightarrow> 'h option \<Rightarrow> 'h ClientOptions" where
  "SetDefaultPublishHandler opt v = opt\<lparr>o_DefaultPublishHandler := v\<rparr>"

definition SetWriteTimeout :: "'h ClientOptions \<Rightarrow> duration \<Rightarrow> 'h ClientOptions" where
  "SetWriteTimeout opt v = opt\<lparr>o_WriteTimeout := v\<rparr>"

definition SetMaxReconnectInterval :: "'h ClientOptions \<Rightarrow> duration \<Rightarrow> 'h ClientOptions" where
  "SetMaxReconnectInterval opt v = opt\<lparr>o_MaxReconnectInterval := v\<rparr>"

definition SetAutoReconnect :: "'h ClientOptions \<Rightarrow> bool \<Rightarrow> 'h ClientOptions" where
  "SetAutoReconnect opt v = opt\<lparr>o_AutoReconnect := v\<rparr>"

definition SetConnectRetryInterval :: "'h ClientOptions \<Rightarrow> duration \<Rightarrow> 'h ClientOptions" where
  "SetConnectRetryInterval opt v = opt\<lparr>o_ConnectRetryInterval := v\<rparr>"

definition SetConnectRetry :: "'h ClientOptions \<Rightarrow> bool \<Rightarrow> 'h ClientOptions" where
  "SetConnectRetry opt v = opt\<lparr>o_ConnectRetry := v\<rparr>"

definition SetMaxResumePubInFlight :: "'h ClientOptions \<Rightarrow> int \<Rightarrow> 'h ClientOptions" where
  "SetMaxResumePubInFlight opt v = opt\<lparr>o_MaxResumePubInFlight := v\<rparr>"

definition SetClientInfo :: "'h ClientOptions \<Rightarrow> bytes option \<Rightarrow> 'h ClientOptions" where
  "SetClientInfo opt v = opt\<lparr>o_ClientInfo := v\<rparr>"

section \<open>The reader\<close>

text \<open>The reader gives every setting as it is, copies of the addresses, and the keepalive time as a duration again.\<close>

definition Reader_Servers :: "'h ClientOptions \<Rightarrow> url list" where
  "Reader_Servers opt = map (\<lambda>u. u) (o_Servers opt)"

definition Reader_KeepAlive :: "'h ClientOptions \<Rightarrow> duration" where
  "Reader_KeepAlive opt = int64 (o_KeepAlive opt * Second)"

definition Reader_ResumeSubs :: "'h ClientOptions \<Rightarrow> bool" where
  "Reader_ResumeSubs opt = o_ResumeSubs opt"

definition Reader_ClientID :: "'h ClientOptions \<Rightarrow> string" where
  "Reader_ClientID opt = o_ClientID opt"

definition Reader_Username :: "'h ClientOptions \<Rightarrow> string" where
  "Reader_Username opt = o_Username opt"

definition Reader_Password :: "'h ClientOptions \<Rightarrow> string" where
  "Reader_Password opt = o_Password opt"

definition Reader_CleanSession :: "'h ClientOptions \<Rightarrow> bool" where
  "Reader_CleanSession opt = o_CleanSession opt"

definition Reader_Order :: "'h ClientOptions \<Rightarrow> bool" where
  "Reader_Order opt = o_Order opt"

definition Reader_WillEnabled :: "'h ClientOptions \<Rightarrow> bool" where
  "Reader_WillEnabled opt = o_WillEnabled opt"

definition Reader_WillTopic :: "'h ClientOptions \<Rightarrow> string" where
  "Reader_WillTopic opt = o_WillTopic opt"

definition Reader_WillPayload :: "'h ClientOptions \<Rightarrow> bytes" where
  "Reader_WillPayload opt = o_WillPayload opt"

definition Reader_WillQos :: "'h ClientOptions \<Rightarrow> byte" where
  "Reader_WillQos opt = o_WillQos opt"

definition Reader_WillRetained :: "'h ClientOptions \<Rightarrow> bool" where
  "Reader_WillRetained opt = o_WillRetained opt"

definition Reader_ProtocolVersion :: "'h ClientOptions \<Rightarrow> nat" where
  "Reader_ProtocolVersion opt = o_ProtocolVersion opt"

definition Reader_PingTimeout :: "'h ClientOptions \<Rightarrow> duration" where
  "Reader_PingTimeout opt = o_PingTimeout opt"

definition Reader_ConnectTimeout :: "'h ClientOptions \<Rightarrow> duration" where
  "Reader_ConnectTimeout opt = o_ConnectTimeout opt"

definition Reader_MaxReconnectInterval :: "'h ClientOptions \<Rightarrow> duration" where
  "Reader_MaxReconnectInterval opt = o_MaxReconnectInterval opt"

definition Reader_AutoReconnect :: "'h ClientOptions \<Rightarrow> bool" where
  "Reader_AutoReconnect opt = o_AutoReconnect opt"

definition Reader_ConnectRetryInterval :: "'h ClientOptions \<Rightarrow> duration" where
  "Reader_ConnectRetryInterval opt = o_ConnectRetryInterval opt"

definition Reader_ConnectRetry :: "'h ClientOptions \<Rightarrow> bool" where
  "Reader_ConnectRetry opt = o_ConnectRetry opt"

definition Reader_WriteTimeout :: "'h ClientOptions \<Rightarrow> duration" where
  "Reader_WriteTimeout opt = o_WriteTimeout opt"

text \<open>The keepalive time is kept in whole seconds and reads back without overflow.\<close>

lemma Reader_SetKeepAlive:
  assumes "- (2 ^ 63) \<le> k" "k < 2 ^ 63"
  shows "Reader_KeepAlive (SetKeepAlive opt k) = (k sdiv Second) * Second"
    "\<bar>k - Reader_KeepAlive (SetKeepAlive opt k)\<bar> < Second"
proof -
  have q: "k sdiv Second = sgn k * (\<bar>k\<bar> div Second)" by (simp add: signed_divide_int_def)
  have "(\<bar>k\<bar> div Second) * Second \<le> \<bar>k\<bar>" "\<bar>k\<bar> < (\<bar>k\<bar> div Second) * Second + Second"
    by linarith+
  then have *: "\<bar>k - (k sdiv Second) * Second\<bar> < Second"
    "if 0 \<le> k then 0 \<le> (k sdiv Second) * Second \<and> (k sdiv Second) * Second \<le> k
     else k \<le> (k sdiv Second) * Second \<and> (k sdiv Second) * Second \<le> 0"
    unfolding q by (cases "k < 0"; simp add: sgn_if abs_if)+
  then have "- (2 ^ 63) \<le> (k sdiv Second) * Second" "(k sdiv Second) * Second < 2 ^ 63"
    using assms by (auto split: if_splits)
  then show "Reader_KeepAlive (SetKeepAlive opt k) = (k sdiv Second) * Second"
    by (simp add: Reader_KeepAlive_def SetKeepAlive_def int64_def signed_take_bit_int_eq_self)
  with * show "\<bar>k - Reader_KeepAlive (SetKeepAlive opt k)\<bar> < Second" by simp
qed

end
