(* ===== verification/MqttClient.thy ===== *)
theory MqttClient
  imports MessageIds Router MqttOptions
begin

text \<open>
  The client of the MQTT library: the CONNECT message built from its options (\<open>mqtt/message.go\<close>), the handshake and the comms routines (\<open>mqtt/net.go\<close>), the keepalive
  routine (\<open>mqtt/ping.go\<close>) and the operations of \<open>mqtt/client.go\<close>.

  \<^item> A call into the message store goes through the interface \<open>Store\<close>, a record of operations; a
    panic of the store is \<^const>\<open>None\<close>. The state of the store is the client's \<open>persist\<close>.
  \<^item> Tokens are shared with the caller and live in the heap of \<^typ>\<open>messageIds\<close>; a nil token is
    \<^const>\<open>None\<close>.
  \<^item> The goroutines the client starts are its \<open>jobs\<close>, each with the point of the code it has
    reached; a caller blocked on one of the outbound channels is one of its \<open>senders\<close>, with the time it blocked at. What the
    comms routines have taken off a channel and not yet written is a queue.
  \<^item> Opening connections is the parameter \<open>net\<close>: what the \<open>i\<close>-th attempt gives, either an error or
    a connection with the error of writing to it and the bytes that can be read from it. A
    connection is named by the number of its attempt. \<open>time.Now()\<close> is the argument \<open>now\<close>, in
    nanoseconds.
  \<^item> Logging, the callbacks for connection changes, TLS and websocket settings are left out.
\<close>

section \<open>The CONNECT handshake\<close>

definition newConnectMsgFromOptions :: "'h ClientOptions \<Rightarrow> nat \<Rightarrow> url \<Rightarrow> ConnectPacket" where
  "newConnectMsgFromOptions opt i broker =
     (let m0 = (new_ConnectPacket (zeroHeader Connect 0))
            \<lparr>CleanSession := o_CleanSession opt, WillFlag := o_WillEnabled opt,
             WillRetain := o_WillRetained opt, ClientIdentifier := o_ClientID opt\<rparr>;
          m1 = (if o_WillEnabled opt
                then m0\<lparr>WillQos := o_WillQos opt, WillTopic := o_WillTopic opt, WillMessage := o_WillPayload opt\<rparr>
                else m0);
          (username, password) =
            (case url_User broker of
               None \<Rightarrow> (o_Username opt, o_Password opt)
             | Some (u, pw) \<Rightarrow> (u, case pw of None \<Rightarrow> o_Password opt | Some pwd \<Rightarrow> pwd));
          (username, password) =
            (case o_CredentialsProvider opt of None \<Rightarrow> (username, password) | Some f \<Rightarrow> f i);
          m2 = (if username \<noteq> [] then
                  (let m = m1\<lparr>UsernameFlag := True, Username := username\<rparr> in
                   if password \<noteq> [] then m\<lparr>PasswordFlag := True, Password := bytes_of_string password\<rparr> else m)
                else m1);
          m3 = (case o_ClientInfo opt of
                  None \<Rightarrow> m2
                | Some info \<Rightarrow> if length info > 0 then m2\<lparr>Other := Some info\<rparr> else m2)
      in m3\<lparr>Keepalive := word_of_int (o_KeepAlive opt)\<rparr>)"

text \<open>A connection that was opened: the error of writing to it and the bytes it gives.\<close>

record dialed =
  write_err :: "go_error option"
  input :: bytes

type_synonym net = "nat \<Rightarrow> go_error + dialed"
type_synonym conn = nat

definition verifyCONNACK :: "bytes \<Rightarrow> byte \<times> bool \<times> go_error option" where
  "verifyCONNACK r =
     (case ReadPacket r of (ca, err, _) \<Rightarrow>
      if err \<noteq> None then (ErrNetworkError, False, err)
      else case ca of
        None \<Rightarrow> (ErrNetworkError, False, Some (Errorf ''nil CONNACK packet''))
      | Some (CP_Connack msg) \<Rightarrow> (ReturnCode msg, SessionPresent msg, None)
      | Some _ \<Rightarrow> (ErrNetworkError, False, Some (Errorf ''non-CONNACK first packet received'')))"

definition with_protocol :: "nat \<Rightarrow> ConnectPacket \<Rightarrow> ConnectPacket" where
  "with_protocol pv cm =
     (if pv = 3 then cm\<lparr>ProtocolName := ''MQIsdp'', ProtocolVersion := 3\<rparr>
      else if pv = 0x83 then cm\<lparr>ProtocolName := ''MQIsdp'', ProtocolVersion := 0x83\<rparr>
      else if pv = 0x84 then cm\<lparr>ProtocolName := ''MQTT'', ProtocolVersion := 0x84\<rparr>
      else cm\<lparr>ProtocolName := ''MQTT'', ProtocolVersion := 4\<rparr>)"

text \<open>The first component is the packet written.\<close>

definition connectMQTT ::
  "dialed \<Rightarrow> ConnectPacket \<Rightarrow> nat \<Rightarrow> ConnectPacket \<times> byte \<times> bool \<times> go_error option" where
  "connectMQTT d cm pv =
     (let cm' = with_protocol pv cm in
      (cm', case write_err d of
              Some err \<Rightarrow> (ErrNetworkError, False, Some err)
            | None \<Rightarrow> verifyCONNACK (input d)))"

definition ConnectMQTT :: "dialed \<Rightarrow> ConnectPacket \<Rightarrow> nat \<Rightarrow> byte \<times> bool" where
  "ConnectMQTT d cm pv = (case connectMQTT d cm pv of (_, rc, sessionPresent, _) \<Rightarrow> (rc, sessionPresent))"

section \<open>An attempt to connect\<close>

text \<open>
  The variables of \<open>attemptConnection\<close> that outlive a pass of its loop, with the number of the next
  attempt and the log of the CONNECT packets written.
\<close>

record attempt =
  a_conn :: "conn option"
  a_rc :: byte
  a_session :: bool
  a_err :: "go_error option"
  a_version :: nat
  a_next :: nat
  a_log :: "(url \<times> ConnectPacket) list"

text \<open>From the label \<open>CONN\<close> to the return code.\<close>

definition try_once :: "net \<Rightarrow> url \<Rightarrow> ConnectPacket \<Rightarrow> attempt \<Rightarrow> attempt" where
  "try_once net broker cm a =
     (case net (a_next a) of
        Inl e \<Rightarrow> a\<lparr>a_conn := None, a_rc := ErrNetworkError, a_err := Some e, a_next := a_next a + 1\<rparr>
      | Inr d \<Rightarrow>
          (case connectMQTT d cm (a_version a) of (cm', rc, sp, err) \<Rightarrow>
             a\<lparr>a_conn := Some (a_next a), a_rc := rc, a_session := sp, a_err := err,
               a_next := a_next a + 1, a_log := a_log a @ [(broker, cm')]\<rparr>))"

text \<open>One broker, with the jump back to \<open>CONN\<close> at version 3, which happens at most once.\<close>

definition try_broker :: "net \<Rightarrow> 'h ClientOptions \<Rightarrow> url \<Rightarrow> attempt \<Rightarrow> attempt" where
  "try_broker net opt broker a =
     (let cm = newConnectMsgFromOptions opt (a_next a) broker;
          a1 = try_once net broker cm a
      in if a_conn a1 \<noteq> None \<and> a_rc a1 \<noteq> Accepted \<and> \<not> o_protocolVersionExplicit opt \<and> a_version a1 = 4
         then try_once net broker cm (a1\<lparr>a_version := 3\<rparr>)
         else a1)"

fun try_brokers :: "net \<Rightarrow> 'h ClientOptions \<Rightarrow> url list \<Rightarrow> attempt \<Rightarrow> attempt" where
  "try_brokers net opt [] a = a"
| "try_brokers net opt (broker # brokers) a =
     (let a1 = try_broker net opt broker a in
      if a_conn a1 \<noteq> None \<and> a_rc a1 = Accepted then a1 else try_brokers net opt brokers a1)"

definition error_text :: "go_error option \<Rightarrow> string" where
  "error_text e =
     (case e of None \<Rightarrow> ''%!s(<nil>)'' | Some EOF \<Rightarrow> ''EOF'' | Some UnexpectedEOF \<Rightarrow> ''unexpected EOF''
      | Some (Errorf s) \<Rightarrow> s)"

text \<open>The result, and the options with the protocol version locked in.\<close>

definition attemptConnection :: "net \<Rightarrow> nat \<Rightarrow> 'h ClientOptions \<Rightarrow> attempt \<times> 'h ClientOptions" where
  "attemptConnection net i opt =
     (let a = try_brokers net opt (o_Servers opt)
                \<lparr>a_conn = None, a_rc = 0, a_session = False, a_err = None,
                 a_version = o_ProtocolVersion opt, a_next = i, a_log = []\<rparr>;
          connErr = Option.bind (gm_get ConnErrors (a_rc a)) id
      in if a_rc a = Accepted
         then (a, opt\<lparr>o_ProtocolVersion := a_version a, o_protocolVersionExplicit := True\<rparr>)
         else if a_rc a \<noteq> ErrNetworkError then (a\<lparr>a_err := connErr\<rparr>, opt)
         else (a\<lparr>a_err := Some (Errorf (error_text connErr @ '' : '' @ error_text (a_err a)))\<rparr>, opt))"

section \<open>The state of a client\<close>

abbreviation cs_disconnected :: uint32 where "cs_disconnected \<equiv> 0"
abbreviation cs_connecting :: uint32 where "cs_connecting \<equiv> 1"
abbreviation cs_reconnecting :: uint32 where "cs_reconnecting \<equiv> 2"
abbreviation cs_connected :: uint32 where "cs_connected \<equiv> 3"

text \<open>
  The interface \<open>Store\<close>. \<open>Store_poke\<close> is no method: it is what an assignment to a field of a packet
  that \<open>Get\<close> returned does to the store, since the in-memory stores hand out the packet they hold
  and the file store a copy.
\<close>

record 's Store =
  Store_Open :: "'s \<Rightarrow> 's"
  Store_Put :: "int \<Rightarrow> 's \<Rightarrow> string \<Rightarrow> ControlPacket option \<Rightarrow> 's option"
  Store_Get :: "'s \<Rightarrow> string \<Rightarrow> ('s \<times> ControlPacket option) option"
  Store_All :: "'s \<Rightarrow> string list"
  Store_Del :: "'s \<Rightarrow> string \<Rightarrow> 's option"
  Store_Close :: "'s \<Rightarrow> 's"
  Store_Reset :: "'s \<Rightarrow> 's"
  Store_poke :: "'s \<Rightarrow> string \<Rightarrow> ControlPacket \<Rightarrow> 's"

text \<open>
  The goroutines of the client: the one \<open>Connect\<close> starts (before its test of the server list, at
  the label \<open>RETRYCONN\<close>, in its sleep, with the comms started, and in the loop of \<open>resume\<close> with the
  keys left), the one \<open>internalConnLost\<close> starts, \<open>reconnect\<close> (about to try, in its sleep, after the
  loop, before \<open>startCommsWorkers\<close>, and in \<open>resume\<close>; with the connection and whether it was
  closed again), and a caller inside \<open>Disconnect\<close> (at the
  select, waiting for the packet to be written, before \<open>stopCommsWorkers\<close> and waiting for it).
\<close>

datatype job =
    ConnectStart token_ptr
  | ConnectTry token_ptr
  | ConnectSleep token_ptr byte go_error
  | ConnectUp token_ptr
  | ConnectResume token_ptr "string list"
  | LostWait go_error
  | ReconnectTry duration
  | ReconnectSleep duration "conn option" bool
  | ReconnectDialed "conn option" bool
  | ReconnectStart "conn option" bool
  | ReconnectUp
  | ReconnectResume "string list"
  | DisconnectSend
  | DisconnectWait token_ptr
  | DisconnectStop
  | DisconnectEnd

text \<open>A caller blocked in the select of \<open>Publish\<close>, \<open>Subscribe\<close>, \<open>SubscribeMultiple\<close> or \<open>Unsubscribe\<close>.\<close>

datatype sender =
    SendPublish ControlPacket token_ptr
  | SendSubscribe ControlPacket token_ptr
  | SendUnsubscribe ControlPacket token_ptr "string list"

type_synonym PacketAndToken = "ControlPacket \<times> token_ptr option"

text \<open>
  \<open>obound\<close>, \<open>oboundP\<close> and \<open>oboundI\<close> are the packets \<open>startOutgoingComms\<close> still has to write, by the
  channel they came from; \<open>wire\<close> is what was written. \<open>redirecting\<close> says that the goroutine which
  empties the client's channels is running, \<open>commsAlive\<close> that \<open>commsStopped\<close> is not closed.
\<close>

record ('s, 'h) client =
  lastSent :: int
  lastReceived :: int
  pingOutstanding :: int
  pingSent :: int
  cl_status :: uint32
  mids :: messageIds
  msgRouter :: "'h router"
  cl_persist :: 's
  cl_options :: "'h ClientOptions"
  cl_conn :: "conn option"
  netClosed :: bool
  attempts :: nat
  jobs :: "job list"
  senders :: "(int \<times> sender) list"
  obound :: "PacketAndToken list"
  oboundP :: "PacketAndToken list"
  oboundI :: "PacketAndToken list"
  inboundFromStore :: "ControlPacket list"
  incomingPub :: "PublishPacket list"
  commErrs :: "go_error list"
  redirecting :: bool
  commsAlive :: bool
  wire :: "ControlPacket list"
  delivered :: "'h delivery_event list"

text \<open>The store of the options is the argument \<open>s\<close>; a nil store is a new \<open>MemoryStore\<close>.\<close>

definition NewClient :: "'h ClientOptions \<Rightarrow> 's \<Rightarrow> ('s, 'h) client" where
  "NewClient opt s =
     (let opt' = (if o_ProtocolVersion opt \<in> {3, 4, 0x83, 0x84}
                  then opt\<lparr>o_protocolVersionExplicit := True\<rparr>
                  else opt\<lparr>o_ProtocolVersion := 4, o_protocolVersionExplicit := False\<rparr>)
      in \<lparr>lastSent = 0, lastReceived = 0, pingOutstanding = 0, pingSent = 0, cl_status = cs_disconnected,
          mids = \<lparr>index = [], lastIssuedID = 0, tokens = []\<rparr>,
          msgRouter = setDefaultHandler newRouter (o_DefaultPublishHandler opt'),
          cl_persist = s, cl_options = opt', cl_conn = None, netClosed = False, attempts = 0, jobs = [],
          senders = [], obound = [], oboundP = [], oboundI = [], inboundFromStore = [], incomingPub = [],
          commErrs = [], redirecting = False, commsAlive = False, wire = [], delivered = []\<rparr>)"

definition AddRoute :: "('s, 'h) client \<Rightarrow> string \<Rightarrow> 'h option \<Rightarrow> ('s, 'h) client" where
  "AddRoute c topic cb =
     (case cb of None \<Rightarrow> c | Some h \<Rightarrow> c\<lparr>msgRouter := addRoute (msgRouter c) topic h\<rparr>)"

definition IsConnected :: "('s, 'h) client \<Rightarrow> bool" where
  "IsConnected c =
     (if cl_status c = cs_connected then True
      else if o_AutoReconnect (cl_options c) \<and> cl_status c > cs_connecting then True
      else if o_ConnectRetry (cl_options c) \<and> cl_status c = cs_connecting then True
      else False)"

definition IsConnectionOpen :: "('s, 'h) client \<Rightarrow> bool" where
  "IsConnectionOpen c = (cl_status c = cs_connected)"

definition setConnected :: "uint32 \<Rightarrow> ('s, 'h) client \<Rightarrow> ('s, 'h) client" where
  "setConnected v c = c\<lparr>cl_status := v\<rparr>"

section \<open>Tokens of the client\<close>

definition new_ptr :: "(nat, 'v) gomap \<Rightarrow> nat" where
  "new_ptr h = Suc (fold max (map fst h) 0)"

definition alloc_token :: "byte \<Rightarrow> ('s, 'h) client \<Rightarrow> ('s, 'h) client \<times> token_ptr" where
  "alloc_token tType c =
     (let a = new_ptr (tokens (mids c)) in
      (c\<lparr>mids := (mids c)\<lparr>tokens := gm_put a (the (newToken tType)) (tokens (mids c))\<rparr>\<rparr>, a))"

definition upd_token :: "(Token \<Rightarrow> Token) \<Rightarrow> token_ptr \<Rightarrow> ('s, 'h) client \<Rightarrow> ('s, 'h) client" where
  "upd_token f a c = c\<lparr>mids := (mids c)\<lparr>tokens := on_token f a (tokens (mids c))\<rparr>\<rparr>"

definition fail_token :: "go_error \<Rightarrow> token_ptr \<Rightarrow> ('s, 'h) client \<Rightarrow> ('s, 'h) client" where
  "fail_token e a c = upd_token (\<lambda>t. setError t (Some e)) a c"

definition set_messageID :: "uint16 \<Rightarrow> Token \<Rightarrow> Token" where
  "set_messageID mid t =
     t\<lparr>tkind := (case tkind t of
        PublishToken _ \<Rightarrow> PublishToken mid
      | SubscribeToken ss rs _ \<Rightarrow> SubscribeToken ss rs mid
      | UnsubscribeToken _ \<Rightarrow> UnsubscribeToken mid
      | k \<Rightarrow> k)\<rparr>"

definition append_subs :: "string list \<Rightarrow> Token \<Rightarrow> Token" where
  "append_subs topics t =
     t\<lparr>tkind := (case tkind t of SubscribeToken ss rs mid \<Rightarrow> SubscribeToken (ss @ topics) rs mid | k \<Rightarrow> k)\<rparr>"

definition set_returnCode :: "byte \<Rightarrow> Token \<Rightarrow> Token" where
  "set_returnCode rc t =
     t\<lparr>tkind := (case tkind t of ConnectToken _ sp \<Rightarrow> ConnectToken rc sp | k \<Rightarrow> k)\<rparr>"

definition set_sessionPresent :: "bool \<Rightarrow> Token \<Rightarrow> Token" where
  "set_sessionPresent sp t =
     t\<lparr>tkind := (case tkind t of ConnectToken rc _ \<Rightarrow> ConnectToken rc sp | k \<Rightarrow> k)\<rparr>"

text \<open>The identifier of a packet that has none yet; \<^const>\<open>None\<close> when there is none left.\<close>

definition assign_id :: "token_ptr \<Rightarrow> ('s, 'h) client \<Rightarrow> (('s, 'h) client \<times> uint16) option" where
  "assign_id t c =
     (case getID (mids c) t of (m, mid) \<Rightarrow>
      if mid = 0 then None else Some (upd_token (set_messageID mid) t (c\<lparr>mids := m\<rparr>), mid))"

definition persist_sent ::
  "'s Store \<Rightarrow> int \<Rightarrow> ControlPacket \<Rightarrow> ('s, 'h) client \<Rightarrow> ('s, 'h) client option" where
  "persist_sent S now p c =
     map_option (\<lambda>s. c\<lparr>cl_persist := s\<rparr>) (persistOutbound (Store_Put S now) (Store_Del S) (cl_persist c) p)"

definition persist_received ::
  "'s Store \<Rightarrow> int \<Rightarrow> ControlPacket \<Rightarrow> ('s, 'h) client \<Rightarrow> ('s, 'h) client option" where
  "persist_received S now p c =
     map_option (\<lambda>s. c\<lparr>cl_persist := s\<rparr>) (persistInbound (Store_Put S now) (Store_Del S) (cl_persist c) p)"

section \<open>Publish, Subscribe, Unsubscribe\<close>

abbreviation ErrNotConnected :: go_error where "ErrNotConnected \<equiv> Errorf ''not Connected''"
abbreviation ErrNoIDs :: go_error where "ErrNoIDs \<equiv> Errorf ''no message IDs available''"

text \<open>The last switch of the four calls: hand the packet over unless it is only stored for later.\<close>

definition send_or_keep :: "int \<Rightarrow> sender \<Rightarrow> ('s, 'h) client \<Rightarrow> ('s, 'h) client" where
  "send_or_keep now x c =
     (if cl_status c = cs_connecting then c
      else if cl_status c = cs_reconnecting then c
      else c\<lparr>senders := senders c @ [(now, x)]\<rparr>)"

datatype payload = PayloadString string | PayloadBytes bytes | PayloadBuffer bytes | PayloadOther

fun payload_bytes :: "payload \<Rightarrow> bytes option" where
  "payload_bytes (PayloadString p) = Some (bytes_of_string p)"
| "payload_bytes (PayloadBytes p) = Some p"
| "payload_bytes (PayloadBuffer p) = Some p"
| "payload_bytes PayloadOther = None"

text \<open>A new packet has identifier 0; it is replaced unless the message has QoS 0.\<close>

definition publish_packet :: "string \<Rightarrow> byte \<Rightarrow> bool \<Rightarrow> bytes \<Rightarrow> uint16 \<Rightarrow> ControlPacket" where
  "publish_packet topic qos retained bs mid =
     CP_Publish ((new_PublishPacket (zeroHeader Publish 0))
       \<lparr>Qos := qos, TopicName := topic, Retain := retained, Payload := bs, MessageID := mid\<rparr>)"

definition Client_Publish ::
  "'s Store \<Rightarrow> int \<Rightarrow> ('s, 'h) client \<Rightarrow> string \<Rightarrow> byte \<Rightarrow> bool \<Rightarrow> payload \<Rightarrow>
   (('s, 'h) client \<times> token_ptr) option" where
  "Client_Publish S now c topic qos retained payload =
     (case alloc_token Publish c of (c0, token) \<Rightarrow>
      if \<not> IsConnected c then Some (fail_token ErrNotConnected token c0, token)
      else if cl_status c = cs_reconnecting \<and> qos = 0 then Some (upd_token flowComplete token c0, token)
      else case payload_bytes payload of
        None \<Rightarrow> Some (fail_token (Errorf ''unknown payload type'') token c0, token)
      | Some bs \<Rightarrow>
          (case (if qos \<noteq> 0 then assign_id token c0 else Some (c0, 0)) of
             None \<Rightarrow> Some (fail_token ErrNoIDs token c0, token)
           | Some (c1, mid) \<Rightarrow>
               (let pub = publish_packet topic qos retained bs mid in
                map_option (\<lambda>c2. (send_or_keep now (SendPublish pub token) c2, token))
                  (persist_sent S now pub c1))))"

text \<open>The guard the three subscription calls share.\<close>

definition sub_refused :: "('s, 'h) client \<Rightarrow> go_error option" where
  "sub_refused c =
     (if \<not> IsConnected c then Some ErrNotConnected
      else if \<not> IsConnectionOpen c then
        (if \<not> o_ResumeSubs (cl_options c)
           then Some (Errorf ''not currently connected and ResumeSubs not set'')
         else if o_CleanSession (cl_options c) \<and> cl_status c = cs_reconnecting
           then Some (Errorf ''reconnecting state and cleansession is true'')
         else None)
      else None)"

text \<open>The identifier, the store if \<open>ResumeSubs\<close> is set, and the hand-over; \<open>mk\<close> gives the packet.\<close>

definition issue ::
  "'s Store \<Rightarrow> int \<Rightarrow> (uint16 \<Rightarrow> ControlPacket) \<Rightarrow> (ControlPacket \<Rightarrow> sender) \<Rightarrow> token_ptr \<Rightarrow>
   ('s, 'h) client \<Rightarrow> (('s, 'h) client \<times> token_ptr) option" where
  "issue S now mk wrap token c =
     (case assign_id token c of
        None \<Rightarrow> Some (fail_token ErrNoIDs token c, token)
      | Some (c1, mid) \<Rightarrow>
          map_option (\<lambda>c2. (send_or_keep now (wrap (mk mid)) c2, token))
            (if o_ResumeSubs (cl_options c) then persist_sent S now (mk mid) c1 else Some c1))"

definition subscribe_packet :: "string list \<Rightarrow> bytes \<Rightarrow> uint16 \<Rightarrow> ControlPacket" where
  "subscribe_packet topics qoss mid =
     CP_Subscribe ((new_SubscribePacket (zeroHeader Subscribe 1))\<lparr>Topics := topics, Qoss := qoss, MessageID := mid\<rparr>)"

text \<open>The topic of a shared subscription without its prefix, for the route and the token.\<close>

definition route_topic_of :: "string \<Rightarrow> string" where
  "route_topic_of topic =
     (let t1 = (if go_hasPrefix topic ''$share/''
                then go_join (CHR ''/'') (drop 2 (go_split (CHR ''/'') topic)) else topic)
      in if go_hasPrefix t1 ''$queue/'' then drop (length ''$queue/'') t1 else t1)"

definition Client_Subscribe ::
  "'s Store \<Rightarrow> int \<Rightarrow> ('s, 'h) client \<Rightarrow> string \<Rightarrow> byte \<Rightarrow> 'h option \<Rightarrow>
   (('s, 'h) client \<times> token_ptr) option" where
  "Client_Subscribe S now c topic qos cb =
     (case alloc_token Subscribe c of (c0, token) \<Rightarrow>
      case sub_refused c of
        Some e \<Rightarrow> Some (fail_token e token c0, token)
      | None \<Rightarrow>
          (case validateTopicAndQos topic qos of
             Some e \<Rightarrow> Some (fail_token e token c0, token)
           | None \<Rightarrow>
               (let c1 = upd_token (append_subs [route_topic_of topic]) token (AddRoute c0 (route_topic_of topic) cb)
                in issue S now (subscribe_packet [topic] [qos]) (\<lambda>p. SendSubscribe p token) token c1)))"

definition Client_SubscribeMultiple ::
  "'s Store \<Rightarrow> int \<Rightarrow> ('s, 'h) client \<Rightarrow> (string, byte) gomap \<Rightarrow> 'h option \<Rightarrow>
   (('s, 'h) client \<times> token_ptr) option" where
  "Client_SubscribeMultiple S now c filters cb =
     (case alloc_token Subscribe c of (c0, token) \<Rightarrow>
      case sub_refused c of
        Some e \<Rightarrow> Some (fail_token e token c0, token)
      | None \<Rightarrow>
          (case validateSubscribeMap filters of
             Inl e \<Rightarrow> Some (fail_token e token c0, token)
           | Inr (topics, qoss) \<Rightarrow>
               (let c1 = upd_token (append_subs topics) token (fold (\<lambda>(t, q) c. AddRoute c t cb) filters c0)
                in issue S now (subscribe_packet topics qoss) (\<lambda>p. SendSubscribe p token) token c1)))"

definition unsubscribe_packet :: "string list \<Rightarrow> uint16 \<Rightarrow> ControlPacket" where
  "unsubscribe_packet topics mid =
     CP_Unsubscribe ((new_UnsubscribePacket (zeroHeader Unsubscribe 1))\<lparr>Topics := topics, MessageID := mid\<rparr>)"

definition Client_Unsubscribe ::
  "'s Store \<Rightarrow> int \<Rightarrow> ('s, 'h) client \<Rightarrow> string list \<Rightarrow> (('s, 'h) client \<times> token_ptr) option" where
  "Client_Unsubscribe S now c topics =
     (case alloc_token Unsubscribe c of (c0, token) \<Rightarrow>
      case sub_refused c of
        Some e \<Rightarrow> Some (fail_token e token c0, token)
      | None \<Rightarrow> issue S now (unsubscribe_packet topics) (\<lambda>p. SendUnsubscribe p token topics) token c0)"

text \<open>
  The select of a blocked caller: the redirector takes the packet, or the write timeout (30 seconds
  when none is set) expires.
\<close>

definition wait_timeout :: "'h ClientOptions \<Rightarrow> duration" where
  "wait_timeout opt = (if o_WriteTimeout opt = 0 then Second * 30 else o_WriteTimeout opt)"

fun hand_over :: "sender \<Rightarrow> ('s, 'h) client \<Rightarrow> ('s, 'h) client" where
  "hand_over (SendPublish p t) c = c\<lparr>obound := obound c @ [(p, Some t)]\<rparr>"
| "hand_over (SendSubscribe p t) c = c\<lparr>oboundP := oboundP c @ [(p, Some t)]\<rparr>"
| "hand_over (SendUnsubscribe p t topics) c =
     c\<lparr>oboundP := oboundP c @ [(p, Some t)],
       msgRouter := fold (\<lambda>topic r. deleteRoute r topic) topics (msgRouter c)\<rparr>"

fun give_up :: "sender \<Rightarrow> ('s, 'h) client \<Rightarrow> ('s, 'h) client" where
  "give_up (SendPublish p t) c = fail_token (Errorf ''publish was broken by timeout'') t c"
| "give_up (SendSubscribe p t) c = fail_token (Errorf ''subscribe was broken by timeout'') t c"
| "give_up (SendUnsubscribe p t topics) c = fail_token (Errorf ''unsubscribe was broken by timeout'') t c"

section \<open>Stored messages at connection time\<close>

definition on_mids :: "(messageIds \<Rightarrow> messageIds) \<Rightarrow> ('s, 'h) client \<Rightarrow> ('s, 'h) client" where
  "on_mids f c = c\<lparr>mids := f (mids c)\<rparr>"

fun reserve_loop :: "'s Store \<Rightarrow> string list \<Rightarrow> ('s, 'h) client \<Rightarrow> ('s, 'h) client option" where
  "reserve_loop S [] c = Some c"
| "reserve_loop S (key # keys) c =
     (case Store_Get S (cl_persist c) key of
        None \<Rightarrow> None
      | Some (s, packet) \<Rightarrow>
          (let c1 = c\<lparr>cl_persist := s\<rparr> in
           case packet of
             Some (CP_Publish p) \<Rightarrow>
               (let a = new_ptr (tokens (mids c1)); mid = MessageID p;
                    token = \<lparr>tkind = PlaceHolderToken mid, complete = False, token_err = None\<rparr>
                in reserve_loop S keys
                     (on_mids (\<lambda>m. claimID (m\<lparr>tokens := gm_put a token (tokens m)\<rparr>) a mid) c1))
           | _ \<Rightarrow> reserve_loop S keys c1))"

definition reserveStoredPublishIDs :: "'s Store \<Rightarrow> ('s, 'h) client \<Rightarrow> ('s, 'h) client option" where
  "reserveStoredPublishIDs S c =
     (if \<not> o_CleanSession (cl_options c) then reserve_loop S (Store_All S (cl_persist c)) c else Some c)"

definition drop_stored :: "'s Store \<Rightarrow> string \<Rightarrow> ('s, 'h) client \<Rightarrow> ('s, 'h) client option" where
  "drop_stored S key c = map_option (\<lambda>s. c\<lparr>cl_persist := s\<rparr>) (Store_Del S (cl_persist c) key)"

text \<open>
  A send of \<open>resume\<close>: the redirector or the reader of stored packets takes the packet, or \<open>c.stop\<close>
  is found closed and \<open>resume\<close> returns, which is the flag of the result. The semaphore that limits
  messages in flight only delays a send.
\<close>

type_synonym ('s, 'h) resumed = "(('s, 'h) client \<times> bool) option"

definition select_stop :: "bool \<Rightarrow> (('s, 'h) client \<Rightarrow> ('s, 'h) client) \<Rightarrow> ('s, 'h) client \<Rightarrow> ('s, 'h) resumed" where
  "select_stop stopped put c = Some (if stopped then (c, True) else (put c, False))"

definition resume_subscribe :: "bool \<Rightarrow> SubscribePacket \<Rightarrow> ('s, 'h) client \<Rightarrow> ('s, 'h) resumed" where
  "resume_subscribe stopped p c =
     (case alloc_token Subscribe c of (c1, token) \<Rightarrow>
      select_stop stopped (\<lambda>c. c\<lparr>oboundP := oboundP c @ [(CP_Subscribe p, Some token)]\<rparr>)
        (on_mids (\<lambda>m. claimID m token (MessageID p))
          (upd_token (\<lambda>t. append_subs (Topics p) (set_messageID (MessageID p) t)) token c1)))"

definition resume_unsubscribe :: "bool \<Rightarrow> UnsubscribePacket \<Rightarrow> ('s, 'h) client \<Rightarrow> ('s, 'h) resumed" where
  "resume_unsubscribe stopped p c =
     (case alloc_token Unsubscribe c of (c1, token) \<Rightarrow>
      select_stop stopped (\<lambda>c. c\<lparr>oboundP := oboundP c @ [(CP_Unsubscribe p, Some token)]\<rparr>) c1)"

definition resume_pubrel :: "bool \<Rightarrow> PubrelPacket \<Rightarrow> ('s, 'h) client \<Rightarrow> ('s, 'h) resumed" where
  "resume_pubrel stopped p c =
     select_stop stopped (\<lambda>c. c\<lparr>oboundP := oboundP c @ [(CP_Pubrel p, None)]\<rparr>) c"

definition with_dup :: "PublishPacket \<Rightarrow> PublishPacket" where
  "with_dup p = (if Qos p \<noteq> 0 then p\<lparr>Dup := True\<rparr> else p)"

definition resume_publish ::
  "'s Store \<Rightarrow> bool \<Rightarrow> string \<Rightarrow> PublishPacket \<Rightarrow> ('s, 'h) client \<Rightarrow> ('s, 'h) resumed" where
  "resume_publish S stopped key p c =
     (let c0 = (if Qos p \<noteq> 0 then c\<lparr>cl_persist := Store_poke S (cl_persist c) key (CP_Publish (with_dup p))\<rparr> else c) in
      case alloc_token Publish c0 of (c1, token) \<Rightarrow>
      select_stop stopped (\<lambda>c. c\<lparr>obound := obound c @ [(CP_Publish (with_dup p), Some token)]\<rparr>)
        (on_mids (\<lambda>m. claimID m token (MessageID p)) (upd_token (set_messageID (MessageID p)) token c1)))"

text \<open>One pass of the loop of \<open>resume\<close>.\<close>

definition resume_key ::
  "'s Store \<Rightarrow> bool \<Rightarrow> bool \<Rightarrow> string \<Rightarrow> ('s, 'h) client \<Rightarrow> ('s, 'h) resumed" where
  "resume_key S subscription stopped key c =
     (case Store_Get S (cl_persist c) key of
        None \<Rightarrow> None
      | Some (s, packet) \<Rightarrow>
          (let c1 = c\<lparr>cl_persist := s\<rparr>;
               discard = map_option (\<lambda>c2. (c2, False)) (drop_stored S key c1)
           in case packet of
                None \<Rightarrow> Some (c1, False)
              | Some p \<Rightarrow>
                  (case isKeyOutbound key of
                     None \<Rightarrow> None
                   | Some True \<Rightarrow>
                       (case p of
                          CP_Subscribe sp \<Rightarrow> if subscription then resume_subscribe stopped sp c1 else discard
                        | CP_Unsubscribe up \<Rightarrow> if subscription then resume_unsubscribe stopped up c1 else discard
                        | CP_Pubrel pr \<Rightarrow> resume_pubrel stopped pr c1
                        | CP_Publish pp \<Rightarrow> resume_publish S stopped key pp c1
                        | _ \<Rightarrow> discard)
                   | Some False \<Rightarrow>
                       (case p of
                          CP_Pubrel pr \<Rightarrow>
                            select_stop stopped (\<lambda>c. c\<lparr>inboundFromStore := inboundFromStore c @ [p]\<rparr>) c1
                        | _ \<Rightarrow> discard))))"

text \<open>\<open>resume\<close> when it is not stopped.\<close>

fun resume_loop :: "'s Store \<Rightarrow> bool \<Rightarrow> string list \<Rightarrow> ('s, 'h) client \<Rightarrow> ('s, 'h) client option" where
  "resume_loop S subscription [] c = Some c"
| "resume_loop S subscription (key # keys) c =
     (case resume_key S subscription False key c of
        None \<Rightarrow> None
      | Some (c1, _) \<Rightarrow> resume_loop S subscription keys c1)"

definition resume :: "'s Store \<Rightarrow> bool \<Rightarrow> ('s, 'h) client \<Rightarrow> ('s, 'h) client option" where
  "resume S subscription c = resume_loop S subscription (Store_All S (cl_persist c)) c"

section \<open>Incoming packets\<close>

definition UpdateLastReceived :: "int \<Rightarrow> ('s, 'h) client \<Rightarrow> ('s, 'h) client" where
  "UpdateLastReceived now c = (if o_KeepAlive (cl_options c) \<noteq> 0 then c\<lparr>lastReceived := now\<rparr> else c)"

definition UpdateLastSent :: "int \<Rightarrow> ('s, 'h) client \<Rightarrow> ('s, 'h) client" where
  "UpdateLastSent now c = (if o_KeepAlive (cl_options c) \<noteq> 0 then c\<lparr>lastSent := now\<rparr> else c)"

text \<open>The results of SUBACK in the token, \<^const>\<open>None\<close> when there are more codes than topics.\<close>

definition suback_results :: "bytes \<Rightarrow> Token \<Rightarrow> Token option" where
  "suback_results codes t =
     (case tkind t of
        SubscribeToken ss rs mid \<Rightarrow>
          if length codes > length ss then None
          else Some (t\<lparr>tkind := SubscribeToken ss (fold (\<lambda>(topic, q). gm_put topic q) (zip ss codes) rs) mid\<rparr>)
      | _ \<Rightarrow> Some t)"

text \<open>\<open>getToken(id).flowComplete()\<close> and \<open>freeID(id)\<close>; a dummy token completes nothing.\<close>

definition finish_id :: "uint16 \<Rightarrow> ('s, 'h) client \<Rightarrow> ('s, 'h) client" where
  "finish_id mid c =
     on_mids (\<lambda>m. freeID m mid)
       (case getToken (mids c) mid of Inl a \<Rightarrow> upd_token flowComplete a c | Inr _ \<Rightarrow> c)"

definition incoming_suback :: "SubackPacket \<Rightarrow> ('s, 'h) client \<Rightarrow> ('s, 'h) client option" where
  "incoming_suback m c =
     (case getToken (mids c) (MessageID m) of
        Inr _ \<Rightarrow> Some (finish_id (MessageID m) c)
      | Inl a \<Rightarrow>
          (case gm_get (tokens (mids c)) a of
             None \<Rightarrow> Some (finish_id (MessageID m) c)
           | Some t \<Rightarrow>
               map_option (\<lambda>t'. finish_id (MessageID m) (upd_token (\<lambda>_. t') a c)) (suback_results (ReturnCodes m) t)))"

text \<open>The switch of \<open>startIncomingComms\<close>.\<close>

definition incoming_switch ::
  "'s Store \<Rightarrow> int \<Rightarrow> ControlPacket \<Rightarrow> ('s, 'h) client \<Rightarrow> ('s, 'h) client option" where
  "incoming_switch S now msg c =
     (case msg of
        CP_Pingresp _ \<Rightarrow> Some (c\<lparr>pingOutstanding := 0\<rparr>)
      | CP_Suback m \<Rightarrow> incoming_suback m c
      | CP_Unsuback m \<Rightarrow> Some (finish_id (MessageID m) c)
      | CP_Publish m \<Rightarrow> Some (c\<lparr>incomingPub := incomingPub c @ [m]\<rparr>)
      | CP_Puback m \<Rightarrow> Some (finish_id (MessageID m) c)
      | CP_Pubrec m \<Rightarrow>
          (let prel = CP_Pubrel ((new_MidPacket (zeroHeader Pubrel 1))\<lparr>MessageID := MessageID m\<rparr>)
           in Some (c\<lparr>oboundI := oboundI c @ [(prel, None)]\<rparr>))
      | CP_Pubrel m \<Rightarrow>
          (let pc = CP_Pubcomp ((new_MidPacket (zeroHeader Pubcomp 0))\<lparr>MessageID := MessageID m\<rparr>)
           in map_option (\<lambda>c1. c1\<lparr>oboundI := oboundI c1 @ [(pc, None)]\<rparr>) (persist_sent S now pc c))
      | CP_Pubcomp m \<Rightarrow> Some (finish_id (MessageID m) c)
      | _ \<Rightarrow> Some c)"

definition incoming ::
  "'s Store \<Rightarrow> int \<Rightarrow> ControlPacket \<Rightarrow> ('s, 'h) client \<Rightarrow> ('s, 'h) client option" where
  "incoming S now msg c =
     Option.bind (persist_received S now msg c) (\<lambda>c1. incoming_switch S now msg (UpdateLastReceived now c1))"

definition incoming_from_store :: "'s Store \<Rightarrow> int \<Rightarrow> ('s, 'h) client \<Rightarrow> ('s, 'h) client option" where
  "incoming_from_store S now c =
     (case inboundFromStore c of
        [] \<Rightarrow> None
      | msg # rest \<Rightarrow> incoming_switch S now msg (c\<lparr>inboundFromStore := rest\<rparr>))"

text \<open>
  A received message goes through the router: the callbacks \<open>hs\<close> are those of its routes, in order
  when \<open>Order\<close> is set and in any order otherwise, and the acknowledgement is put on the priority
  channel. Callbacks of one message are taken to finish before those of the next start.
\<close>

definition dispatch ::
  "('h \<Rightarrow> bool) \<Rightarrow> 's Store \<Rightarrow> int \<Rightarrow> 'h list \<Rightarrow> ('s, 'h) client \<Rightarrow> ('s, 'h) client option" where
  "dispatch acks S now hs c =
     (case incomingPub c of
        [] \<Rightarrow> None
      | p # rest \<Rightarrow>
          (case handlers_of (msgRouter c) (TopicName p) of
             None \<Rightarrow> None
           | Some hs0 \<Rightarrow>
               if (if o_Order (cl_options c) then hs = hs0 else mset hs = mset hs0) then
                 map_option (\<lambda>d. c\<lparr>incomingPub := rest, cl_persist := persist d,
                     oboundP := oboundP c @ map (\<lambda>p. (p, None)) (acks_out (events d)),
                     delivered := delivered c @ events d\<rparr>)
                   (run_handlers acks (\<lambda>s. ackFunc (Store_Put S now) (Store_Del S) s p) (messageFromPublish p) hs
                     \<lparr>once = False, persist = cl_persist c, events = []\<rparr>)
               else None))"

section \<open>Outgoing packets\<close>

abbreviation closedNetConnErrorText :: string where
  "closedNetConnErrorText \<equiv> ''use of closed network connection''"

definition fail_opt :: "go_error \<Rightarrow> token_ptr option \<Rightarrow> ('s, 'h) client \<Rightarrow> ('s, 'h) client" where
  "fail_opt e t c = (case t of None \<Rightarrow> c | Some a \<Rightarrow> fail_token e a c)"

text \<open>The three cases of \<open>startOutgoingComms\<close>, each with the result of the write.\<close>

definition write_publish :: "int \<Rightarrow> go_error option \<Rightarrow> ('s, 'h) client \<Rightarrow> ('s, 'h) client option" where
  "write_publish now err c =
     (case obound c of
        [] \<Rightarrow> None
      | (p, t) # rest \<Rightarrow>
          (let c1 = c\<lparr>obound := rest\<rparr> in
           case err of
             Some e \<Rightarrow>
               (let c2 = fail_opt e t c1 in
                Some (if \<not> go_contains (error_text (Some e)) closedNetConnErrorText
                      then c2\<lparr>commErrs := commErrs c2 @ [e]\<rparr> else c2))
           | None \<Rightarrow>
               (let c2 = c1\<lparr>wire := wire c1 @ [p]\<rparr>;
                    c3 = (if Details_Qos (ControlPacket_Details p) = 0
                          then (case t of None \<Rightarrow> c2 | Some a \<Rightarrow> upd_token flowComplete a c2) else c2)
                in Some (UpdateLastSent now c3))))"

definition is_Disconnect :: "ControlPacket \<Rightarrow> bool" where
  "is_Disconnect p = (case p of CP_Disconnect _ \<Rightarrow> True | _ \<Rightarrow> False)"

definition write_priority :: "int \<Rightarrow> go_error option \<Rightarrow> ('s, 'h) client \<Rightarrow> ('s, 'h) client option" where
  "write_priority now err c =
     (case oboundP c of
        [] \<Rightarrow> None
      | (p, t) # rest \<Rightarrow>
          (let c1 = c\<lparr>oboundP := rest\<rparr> in
           case err of
             Some e \<Rightarrow> (let c2 = fail_opt e t c1 in Some (c2\<lparr>commErrs := commErrs c2 @ [e]\<rparr>))
           | None \<Rightarrow>
               (let c2 = c1\<lparr>wire := wire c1 @ [p]\<rparr>;
                    c3 = (if is_Disconnect p
                          then (case t of None \<Rightarrow> c2 | Some a \<Rightarrow> upd_token flowComplete a c2)\<lparr>netClosed := True\<rparr>
                          else c2)
                in Some (UpdateLastSent now c3))))"

definition write_reply :: "int \<Rightarrow> go_error option \<Rightarrow> ('s, 'h) client \<Rightarrow> ('s, 'h) client option" where
  "write_reply now err c =
     (case oboundI c of
        [] \<Rightarrow> None
      | (p, t) # rest \<Rightarrow>
          (let c1 = c\<lparr>oboundI := rest\<rparr> in
           case err of
             Some e \<Rightarrow> (let c2 = fail_opt e t c1 in Some (c2\<lparr>commErrs := commErrs c2 @ [e]\<rparr>))
           | None \<Rightarrow> Some (UpdateLastSent now (c1\<lparr>wire := wire c1 @ [p]\<rparr>))))"

section \<open>Starting and stopping the comms routines\<close>

text \<open>The interval of the keepalive ticker; \<open>time.NewTicker\<close> panics when it is not positive.\<close>

definition keepalive_interval :: "'h ClientOptions \<Rightarrow> duration" where
  "keepalive_interval opt =
     (let checkInterval = (if o_KeepAlive opt > 10 then 5 else o_KeepAlive opt sdiv 2)
      in int64 (checkInterval * Second))"

text \<open>
  A nil connection makes the comms routines panic, and so does a keepalive interval of 0 in the
  goroutine of the ticker. \<open>shut\<close> says that the connection is closed already.
\<close>

definition startCommsWorkers ::
  "int \<Rightarrow> conn option \<Rightarrow> bool \<Rightarrow> ('s, 'h) client \<Rightarrow> (('s, 'h) client \<times> bool) option" where
  "startCommsWorkers now conn shut c =
     (if cl_conn c \<noteq> None then (if conn = None then None else Some (c, False))
      else if conn = None then None
      else if o_KeepAlive (cl_options c) \<noteq> 0 \<and> keepalive_interval (cl_options c) \<le> 0 then None
      else
        (let c1 = c\<lparr>cl_conn := conn, netClosed := shut\<rparr>;
             c2 = (if o_KeepAlive (cl_options c) \<noteq> 0
                   then c1\<lparr>pingOutstanding := 0, lastReceived := now, lastSent := now\<rparr> else c1)
         in Some (setConnected cs_connected (c2\<lparr>redirecting := True, commsAlive := True\<rparr>), True)))"

text \<open>The result says whether there was something to stop.\<close>

definition stopCommsWorkers :: "('s, 'h) client \<Rightarrow> ('s, 'h) client \<times> bool" where
  "stopCommsWorkers c =
     (if cl_conn c = None then (c, False) else (c\<lparr>cl_conn := None, netClosed := True\<rparr>, True))"

definition spawn :: "job \<Rightarrow> ('s, 'h) client \<Rightarrow> ('s, 'h) client" where
  "spawn j c = c\<lparr>jobs := jobs c @ [j]\<rparr>"

definition internalConnLost :: "go_error \<Rightarrow> ('s, 'h) client \<Rightarrow> ('s, 'h) client" where
  "internalConnLost err c =
     (case stopCommsWorkers c of (c1, stopping) \<Rightarrow> if stopping then spawn (LostWait err) c1 else c1)"

section \<open>Keepalive\<close>

text \<open>A tick of the keepalive routine, with the result of writing PINGREQ.\<close>

definition keepalive_ping :: "int \<Rightarrow> go_error option \<Rightarrow> ('s, 'h) client \<Rightarrow> ('s, 'h) client" where
  "keepalive_ping now werr c =
     (let ka = int64 (o_KeepAlive (cl_options c) * Second) in
      if (now - lastSent c \<ge> ka \<or> now - lastReceived c \<ge> ka) \<and> pingOutstanding c = 0
      then c\<lparr>pingOutstanding := 1,
             wire := wire c @ (if werr = None then [CP_Pingreq (zeroHeader Pingreq 0)] else []),
             lastSent := now, pingSent := now\<rparr>
      else c)"

definition keepalive_tick :: "int \<Rightarrow> go_error option \<Rightarrow> ('s, 'h) client \<Rightarrow> ('s, 'h) client" where
  "keepalive_tick now werr c =
     (let c1 = keepalive_ping now werr c in
      if pingOutstanding c1 > 0 \<and> now - pingSent c1 \<ge> o_PingTimeout (cl_options c1)
      then internalConnLost (Errorf ''pingresp not received, disconnecting'') c1 else c1)"

section \<open>Connecting, reconnecting, disconnecting\<close>

definition Client_Connect :: "'s Store \<Rightarrow> ('s, 'h) client \<Rightarrow> (('s, 'h) client \<times> token_ptr) option" where
  "Client_Connect S c =
     (case alloc_token Connect c of (c0, t) \<Rightarrow>
      if o_ConnectRetry (cl_options c) \<and> cl_status c \<noteq> cs_disconnected
      then Some (upd_token (\<lambda>tk. flowComplete (set_returnCode Accepted tk)) t c0, t)
      else
        (let c1 = c0\<lparr>cl_persist := Store_Open S (cl_persist c0)\<rparr> in
         map_option (\<lambda>c2. (spawn (ConnectStart t) (setConnected cs_connecting c2), t))
           (if o_ConnectRetry (cl_options c) then reserveStoredPublishIDs S c1 else Some c1)))"

definition connect_failed ::
  "'s Store \<Rightarrow> byte \<Rightarrow> go_error \<Rightarrow> token_ptr \<Rightarrow> ('s, 'h) client \<Rightarrow> ('s, 'h) client" where
  "connect_failed S rc err t c =
     fail_token err t (upd_token (set_returnCode rc) t
       ((setConnected cs_disconnected c)\<lparr>cl_persist := Store_Close S (cl_persist c)\<rparr>))"

definition next_sleep :: "duration \<Rightarrow> duration \<Rightarrow> duration" where
  "next_sleep maxInterval sleep =
     (let s1 = (if sleep < maxInterval then int64 (sleep * 2) else sleep)
      in if s1 > maxInterval then maxInterval else s1)"

text \<open>The waits of \<open>reconnect\<close> before its retries, the first one being a second.\<close>

fun reconnect_sleep :: "duration \<Rightarrow> nat \<Rightarrow> duration" where
  "reconnect_sleep maxInterval 0 = 1 * Second"
| "reconnect_sleep maxInterval (Suc n) = next_sleep maxInterval (reconnect_sleep maxInterval n)"

definition try_connect :: "net \<Rightarrow> ('s, 'h) client \<Rightarrow> attempt \<times> ('s, 'h) client" where
  "try_connect net c =
     (case attemptConnection net (attempts c) (cl_options c) of (a, opt) \<Rightarrow>
        (a, c\<lparr>cl_options := opt, attempts := a_next a\<rparr>))"

text \<open>What \<open>internalConnLost\<close> does once the workers have stopped.\<close>

definition conn_lost :: "('s, 'h) client \<Rightarrow> ('s, 'h) client" where
  "conn_lost c =
     (let reconnect = (o_AutoReconnect (cl_options c) \<and> cl_status c > cs_connecting);
          c1 = (if o_CleanSession (cl_options c) \<and> \<not> reconnect then on_mids cleanUp c
                else if \<not> o_ResumeSubs (cl_options c) then on_mids cleanUpSubscribe c
                else c)
      in if reconnect then spawn (ReconnectTry (1 * Second)) (setConnected cs_reconnecting c1)
         else setConnected cs_disconnected c1)"

text \<open>
  A step of a goroutine, which is no longer among the jobs of \<open>c\<close>: what it does up to its next
  point, and the job it is then. \<open>choice\<close> is the choice of a select: that \<open>c.stop\<close> is found closed
  in \<open>resume\<close>, that the packet is taken in \<open>Disconnect\<close>.
\<close>

fun run_job ::
  "'s Store \<Rightarrow> net \<Rightarrow> int \<Rightarrow> bool \<Rightarrow> job \<Rightarrow> ('s, 'h) client \<Rightarrow> ('s, 'h) client option" where
  "run_job S net now choice (ConnectStart t) c =
     Some (if length (o_Servers (cl_options c)) = 0
           then fail_token (Errorf ''no servers defined to connect to'') t c
           else spawn (ConnectTry t) c)"
| "run_job S net now choice (ConnectTry t) c =
     (case try_connect net c of (a, c0) \<Rightarrow>
        (let c1 = upd_token (set_sessionPresent (a_session a)) t c0 in
         case a_err a of
           Some err \<Rightarrow>
             Some (if o_ConnectRetry (cl_options c1) then spawn (ConnectSleep t (a_rc a) err) c1
                   else connect_failed S (a_rc a) err t c1)
         | None \<Rightarrow>
             map_option (\<lambda>(c2, started). if started then spawn (ConnectUp t) c2 else upd_token flowComplete t c2)
               (startCommsWorkers now (a_conn a) (a_rc a \<noteq> Accepted) c1)))"
| "run_job S net now choice (ConnectSleep t rc err) c =
     Some (if cl_status c = cs_connecting then spawn (ConnectTry t) c else connect_failed S rc err t c)"
| "run_job S net now choice (ConnectUp t) c =
     Some (if \<not> o_CleanSession (cl_options c)
           then spawn (ConnectResume t (Store_All S (cl_persist c))) c
           else upd_token flowComplete t (c\<lparr>cl_persist := Store_Reset S (cl_persist c)\<rparr>))"
| "run_job S net now choice (ConnectResume t []) c = Some (upd_token flowComplete t c)"
| "run_job S net now choice (ConnectResume t (key # keys)) c =
     map_option (\<lambda>(c1, exit). if exit then upd_token flowComplete t c1 else spawn (ConnectResume t keys) c1)
       (resume_key S (o_ResumeSubs (cl_options c)) choice key c)"
| "run_job S net now choice (LostWait err) c = Some (conn_lost (c\<lparr>commsAlive := False\<rparr>))"
| "run_job S net now choice (ReconnectTry sleep) c =
     (case try_connect net c of (a, c1) \<Rightarrow>
        Some (spawn (if a_err a = None then ReconnectDialed (a_conn a) (a_rc a \<noteq> Accepted)
                     else ReconnectSleep sleep (a_conn a) True) c1))"
| "run_job S net now choice (ReconnectSleep sleep conn shut) c =
     Some (spawn (if cl_status c = cs_disconnected then ReconnectDialed conn shut
                  else ReconnectTry (next_sleep (o_MaxReconnectInterval (cl_options c)) sleep)) c)"
| "run_job S net now choice (ReconnectDialed conn shut) c =
     Some (if cl_status c = cs_disconnected then c else spawn (ReconnectStart conn shut) c)"
| "run_job S net now choice (ReconnectStart conn shut) c =
     map_option (\<lambda>(c1, started). if started then spawn ReconnectUp c1 else c1)
       (startCommsWorkers now conn shut c)"
| "run_job S net now choice ReconnectUp c = Some (spawn (ReconnectResume (Store_All S (cl_persist c))) c)"
| "run_job S net now choice (ReconnectResume []) c = Some c"
| "run_job S net now choice (ReconnectResume (key # keys)) c =
     map_option (\<lambda>(c1, exit). if exit then c1 else spawn (ReconnectResume keys) c1)
       (resume_key S (o_ResumeSubs (cl_options c)) choice key c)"
| "run_job S net now choice DisconnectSend c =
     (case alloc_token Disconnect c of (c1, dt) \<Rightarrow>
      Some (if choice
            then spawn (DisconnectWait dt) (c1\<lparr>oboundP := oboundP c1 @ [(CP_Disconnect (zeroHeader Disconnect 0), Some dt)]\<rparr>)
            else spawn DisconnectStop c1))"
| "run_job S net now choice (DisconnectWait dt) c = Some (spawn DisconnectStop c)"
| "run_job S net now choice DisconnectStop c =
     (case stopCommsWorkers c of (c1, stopping) \<Rightarrow> Some (if stopping then spawn DisconnectEnd c1 else c1))"
| "run_job S net now choice DisconnectEnd c =
     Some ((on_mids cleanUp c)\<lparr>cl_persist := Store_Close S (cl_persist c), commsAlive := False\<rparr>)"

definition Client_Disconnect :: "('s, 'h) client \<Rightarrow> ('s, 'h) client" where
  "Client_Disconnect c =
     spawn (if cl_status c = cs_connected then DisconnectSend else DisconnectStop) (setConnected cs_disconnected c)"

definition forceDisconnect :: "('s, 'h) client \<Rightarrow> ('s, 'h) client" where
  "forceDisconnect c =
     (if \<not> IsConnected c then c else spawn DisconnectStop (setConnected cs_disconnected c))"

section \<open>Steps\<close>

text \<open>
  The comms routines have stopped when the redirector has, everything handed over is written or
  failed, everything received is processed and \<open>resume\<close> has closed its channel.
\<close>

fun is_resuming :: "job \<Rightarrow> bool" where
  "is_resuming (ConnectUp t) = True"
| "is_resuming (ConnectResume t keys) = True"
| "is_resuming ReconnectUp = True"
| "is_resuming (ReconnectResume keys) = True"
| "is_resuming _ = False"

definition comms_stopped :: "('s, 'h) client \<Rightarrow> bool" where
  "comms_stopped c \<longleftrightarrow> \<not> redirecting c \<and> obound c = [] \<and> oboundP c = [] \<and> oboundI c = [] \<and>
     inboundFromStore c = [] \<and> incomingPub c = [] \<and> commErrs c = [] \<and> \<not> list_ex is_resuming (jobs c)"

text \<open>When a goroutine can go on.\<close>

fun job_ready :: "bool \<Rightarrow> job \<Rightarrow> ('s, 'h) client \<Rightarrow> bool" where
  "job_ready choice (LostWait err) c \<longleftrightarrow> comms_stopped c"
| "job_ready choice DisconnectEnd c \<longleftrightarrow> comms_stopped c"
| "job_ready choice (ConnectResume t keys) c \<longleftrightarrow> (if choice then cl_conn c = None else redirecting c)"
| "job_ready choice (ReconnectResume keys) c \<longleftrightarrow> (if choice then cl_conn c = None else redirecting c)"
| "job_ready choice DisconnectSend c \<longleftrightarrow> (choice \<longrightarrow> redirecting c)"
| "job_ready choice _ c \<longleftrightarrow> True"

datatype 'h client_event =
    CallConnect
  | CallDisconnect
  | CallForceDisconnect
  | CallPublish string byte bool payload
  | CallSubscribe string byte "'h option"
  | CallSubscribeMultiple "(string, byte) gomap" "'h option"
  | CallUnsubscribe "string list"
  | CallAddRoute string "'h option"
  | HandOver nat
  | GiveUp nat
  | Receive ControlPacket
  | FromStore
  | ReadFails go_error
  | DispatchTo "'h list"
  | WritePublish "go_error option"
  | WritePriority "go_error option"
  | WriteReply "go_error option"
  | ReportError
  | Tick "go_error option"
  | StopRedirector
  | JobStep nat bool

definition remove_at :: "nat \<Rightarrow> 'a list \<Rightarrow> 'a list" where
  "remove_at i xs = take i xs @ drop (Suc i) xs"

text \<open>A write can only succeed on an open connection.\<close>

definition can_write :: "go_error option \<Rightarrow> ('s, 'h) client \<Rightarrow> bool" where
  "can_write err c \<longleftrightarrow> commsAlive c \<and> (err = None \<longrightarrow> cl_conn c \<noteq> None \<and> \<not> netClosed c)"

inductive client_step ::
  "'s Store \<Rightarrow> net \<Rightarrow> ('h \<Rightarrow> bool) \<Rightarrow> int \<times> 'h client_event \<Rightarrow> ('s, 'h) client \<Rightarrow> ('s, 'h) client \<Rightarrow> bool"
  for S net acks where
  Connecting: "Client_Connect S c = Some (c', t) \<Longrightarrow> client_step S net acks (now, CallConnect) c c'"
| Disconnecting: "client_step S net acks (now, CallDisconnect) c (Client_Disconnect c)"
| Forced: "client_step S net acks (now, CallForceDisconnect) c (forceDisconnect c)"
| Publishing: "Client_Publish S now c topic qos retained payload = Some (c', t) \<Longrightarrow>
    client_step S net acks (now, CallPublish topic qos retained payload) c c'"
| Subscribing: "Client_Subscribe S now c topic qos cb = Some (c', t) \<Longrightarrow>
    client_step S net acks (now, CallSubscribe topic qos cb) c c'"
| SubscribingMultiple: "Client_SubscribeMultiple S now c filters cb = Some (c', t) \<Longrightarrow>
    client_step S net acks (now, CallSubscribeMultiple filters cb) c c'"
| Unsubscribing: "Client_Unsubscribe S now c topics = Some (c', t) \<Longrightarrow>
    client_step S net acks (now, CallUnsubscribe topics) c c'"
| Routing: "client_step S net acks (now, CallAddRoute topic cb) c (AddRoute c topic cb)"
| HandingOver: "i < length (senders c) \<Longrightarrow> redirecting c \<Longrightarrow>
    client_step S net acks (now, HandOver i) c
      (hand_over (snd (senders c ! i)) (c\<lparr>senders := remove_at i (senders c)\<rparr>))"
| GivingUp: "i < length (senders c) \<Longrightarrow> now \<ge> fst (senders c ! i) + wait_timeout (cl_options c) \<Longrightarrow>
    client_step S net acks (now, GiveUp i) c
      (give_up (snd (senders c ! i)) (c\<lparr>senders := remove_at i (senders c)\<rparr>))"
| Receiving: "commsAlive c \<Longrightarrow> incoming S now p c = Some c' \<Longrightarrow>
    client_step S net acks (now, Receive p) c c'"
| Replaying: "commsAlive c \<Longrightarrow> incoming_from_store S now c = Some c' \<Longrightarrow>
    client_step S net acks (now, FromStore) c c'"
| Failing: "commsAlive c \<Longrightarrow> \<not> go_contains (error_text (Some e)) closedNetConnErrorText \<Longrightarrow>
    client_step S net acks (now, ReadFails e) c (c\<lparr>commErrs := commErrs c @ [e]\<rparr>)"
| Dispatching: "dispatch acks S now hs c = Some c' \<Longrightarrow>
    client_step S net acks (now, DispatchTo hs) c c'"
| WritingPublish: "can_write err c \<Longrightarrow> write_publish now err c = Some c' \<Longrightarrow>
    client_step S net acks (now, WritePublish err) c c'"
| WritingPriority: "can_write err c \<Longrightarrow> write_priority now err c = Some c' \<Longrightarrow>
    client_step S net acks (now, WritePriority err) c c'"
| WritingReply: "can_write err c \<Longrightarrow> write_reply now err c = Some c' \<Longrightarrow>
    client_step S net acks (now, WriteReply err) c c'"
| Reporting: "commErrs c = e # es \<Longrightarrow>
    client_step S net acks (now, ReportError) c (internalConnLost e (c\<lparr>commErrs := es\<rparr>))"
| Ticking: "cl_conn c \<noteq> None \<Longrightarrow> o_KeepAlive (cl_options c) \<noteq> 0 \<Longrightarrow>
    client_step S net acks (now, Tick werr) c (keepalive_tick now werr c)"
| Stopping: "cl_conn c = None \<Longrightarrow> redirecting c \<Longrightarrow> incomingPub c = [] \<Longrightarrow>
    client_step S net acks (now, StopRedirector) c (c\<lparr>redirecting := False\<rparr>)"
| Running: "i < length (jobs c) \<Longrightarrow> job_ready choice (jobs c ! i) (c\<lparr>jobs := remove_at i (jobs c)\<rparr>) \<Longrightarrow>
    run_job S net now choice (jobs c ! i) (c\<lparr>jobs := remove_at i (jobs c)\<rparr>) = Some c' \<Longrightarrow>
    client_step S net acks (now, JobStep i choice) c c'"

inductive_cases client_stepE: "client_step S net acks e c c'"

inductive client_steps ::
  "'s Store \<Rightarrow> net \<Rightarrow> ('h \<Rightarrow> bool) \<Rightarrow> (int \<times> 'h client_event) list \<Rightarrow> ('s, 'h) client \<Rightarrow> ('s, 'h) client \<Rightarrow> bool"
  for S net acks where
  NoStep: "client_steps S net acks [] c c"
| OneStep: "client_step S net acks e c c1 \<Longrightarrow> client_steps S net acks es c1 c2 \<Longrightarrow>
    client_steps S net acks (e # es) c c2"

end
