(* ===== verification/MqttSession.thy ===== *)
theory MqttSession
  imports MqttClient
begin

text \<open>
  Sessions of the MQTT client: the message identifiers in use, the messages in the store and what
  the client promises about them between a completed \<open>Connect\<close> and a call of \<open>Disconnect\<close>, whatever
  the calls of the application, the packets of the broker, the losses of the connection and the
  interleaving of the client's goroutines.

  The locale \<open>client_store\<close> extends the contract of a message store by what the client needs to
  resume from it. It is interpreted for the three stores of the library.
\<close>

section \<open>Message identifiers in use\<close>

definition used_ids :: "messageIds \<Rightarrow> uint16 set" where
  "used_ids m = dom (gm_get (index m))"

definition sub_ids :: "messageIds \<Rightarrow> uint16 set" where
  "sub_ids m = {mid. \<exists>a t. gm_get (index m) mid = Some a \<and> gm_get (tokens m) a = Some t \<and> is_sub_token t}"

text \<open>Every identifier in use has its token.\<close>

definition mids_ok :: "messageIds \<Rightarrow> bool" where
  "mids_ok m \<longleftrightarrow> gm_wf (index m) \<and> (\<forall>mid a. gm_get (index m) mid = Some a \<longrightarrow> gm_get (tokens m) a \<noteq> None)"

text \<open>What the properties see of the identifiers.\<close>

definition same_ids :: "messageIds \<Rightarrow> messageIds \<Rightarrow> bool" where
  "same_ids m m' \<longleftrightarrow> used_ids m' = used_ids m \<and> sub_ids m' = sub_ids m \<and> (mids_ok m \<longrightarrow> mids_ok m')"

named_theorems client_simps \<open>fields a client operation leaves alone\<close>

lemma new_ptr_fresh: "gm_get h (new_ptr h) = None"
proof -
  have "x \<in> set xs \<Longrightarrow> x \<le> fold max xs 0" for x and xs :: "nat list"
    unfolding Max.set_eq_fold [of 0 xs, symmetric] by simp
  from this [of "new_ptr h" "map fst h"] have "new_ptr h \<notin> set (map fst h)"
    by (auto simp: new_ptr_def)
  then show ?thesis by (simp add: gm_get_None)
qed

lemma is_sub_token_upd [simp]:
  "is_sub_token (flowComplete t) = is_sub_token t" "is_sub_token (setError t e) = is_sub_token t"
  "is_sub_token (set_messageID mid t) = is_sub_token t" "is_sub_token (append_subs ts t) = is_sub_token t"
  "is_sub_token (set_returnCode rc t) = is_sub_token t" "is_sub_token (set_sessionPresent sp t) = is_sub_token t"
  by (simp_all add: is_sub_token_def set_messageID_def append_subs_def set_returnCode_def
      set_sessionPresent_def split: token_kind.split)

lemma is_sub_newToken [simp]:
  "is_sub_token (the (newToken Publish)) = False" "is_sub_token (the (newToken Subscribe)) = True"
  "is_sub_token (the (newToken Unsubscribe)) = True"
  by (simp_all add: newToken_def is_sub_token_def)

lemma on_token_same_ids:
  assumes "\<And>t. gm_get (tokens m) a = Some t \<Longrightarrow> is_sub_token (f t) = is_sub_token t"
  shows "same_ids m (m\<lparr>tokens := on_token f a (tokens m)\<rparr>)"
  using assms by (fastforce simp: same_ids_def used_ids_def sub_ids_def mids_ok_def gm_get_on_token)

lemma alloc_same_ids:
  assumes "mids_ok m" "gm_get (tokens m) a = None"
  shows "same_ids m (m\<lparr>tokens := gm_put a t (tokens m)\<rparr>)"
proof -
  have "gm_get (index m) mid \<noteq> Some a" for mid using assms unfolding mids_ok_def by metis
  then have "gm_get (gm_put a t (tokens m)) b = gm_get (tokens m) b" if "gm_get (index m) mid = Some b" for mid b
    using that by auto
  then show ?thesis unfolding same_ids_def used_ids_def sub_ids_def mids_ok_def by fastforce
qed

lemma same_ids_refl [simp]: "same_ids m m"
  by (simp add: same_ids_def)

lemma same_ids_trans: "same_ids m1 m2 \<Longrightarrow> same_ids m2 m3 \<Longrightarrow> same_ids m1 m3"
  by (simp add: same_ids_def)

lemma finish_mids:
  shows "used_ids (freeID m mid) = used_ids m - {mid}" "sub_ids (freeID m mid) = sub_ids m - {mid}"
    "mids_ok m \<Longrightarrow> mids_ok (freeID m mid)"
  by (auto simp: freeID_def used_ids_def sub_ids_def mids_ok_def split: if_splits)

lemma claimID_mids:
  assumes "mids_ok m" "gm_get (tokens m) a = Some t"
  shows "used_ids (claimID m a mid) = insert mid (used_ids m)"
    "sub_ids (claimID m a mid) = (if is_sub_token t then insert mid (sub_ids m) else sub_ids m - {mid})"
    "mids_ok (claimID m a mid)"
proof -
  define m1 where "m1 = (case gm_get (index m) mid of None \<Rightarrow> m
    | Some old \<Rightarrow> m\<lparr>tokens := on_token flowComplete old (tokens m)\<rparr>)"
  have same: "same_ids m m1" unfolding m1_def
    by (cases "gm_get (index m) mid") (simp_all add: on_token_same_ids)
  have i1: "index m1 = index m" by (simp add: m1_def split: option.split)
  have "\<exists>t1. gm_get (tokens m1) a = Some t1 \<and> is_sub_token t1 = is_sub_token t"
    using assms(2) by (cases "gm_get (index m) mid") (auto simp: m1_def gm_get_on_token)
  then obtain t1 where t1: "gm_get (tokens m1) a = Some t1" "is_sub_token t1 = is_sub_token t" by blast
  have *: "index (claimID m a mid) = gm_put mid a (index m1)" "tokens (claimID m a mid) = tokens m1"
    by (auto simp: claimID_def m1_def Let_def split: option.split)
  have ok: "mids_ok m1" using same assms(1) by (simp add: same_ids_def)
  show "mids_ok (claimID m a mid)"
    using ok t1(1) unfolding mids_ok_def * by (auto split: if_splits)
  have "used_ids (claimID m a mid) = insert mid (used_ids m1)"
    unfolding used_ids_def * by (auto split: if_splits)
  then show "used_ids (claimID m a mid) = insert mid (used_ids m)" using same by (simp add: same_ids_def)
  have "sub_ids (claimID m a mid) = (if is_sub_token t then insert mid (sub_ids m1) else sub_ids m1 - {mid})"
    unfolding sub_ids_def * using t1 by (auto split: if_splits)
  then show "sub_ids (claimID m a mid) = (if is_sub_token t then insert mid (sub_ids m) else sub_ids m - {mid})"
    using same by (simp add: same_ids_def)
qed

lemma getID_mids:
  assumes "mids_ok m" "gm_get (tokens m) a = Some t" "getID m a = (m', mid)" "mid \<noteq> 0"
  shows "mid \<notin> used_ids m" "used_ids m' = insert mid (used_ids m)"
    "sub_ids m' = (if is_sub_token t then insert mid (sub_ids m) else sub_ids m)" "mids_ok m'"
    "tokens m' = tokens m"
proof -
  have m': "index m' = gm_put mid a (index m)" "tokens m' = tokens m"
    and free: "gm_get (index m) mid = None"
    using assms(3,4) getID_loop_free [of "index m" "lastIssuedID m" False "lastIssuedID m"]
    by (auto simp: getID_def Let_def split: if_splits)
  show "mid \<notin> used_ids m" using free by (simp add: used_ids_def domIff)
  show "used_ids m' = insert mid (used_ids m)" unfolding used_ids_def m' by (auto split: if_splits)
  show "sub_ids m' = (if is_sub_token t then insert mid (sub_ids m) else sub_ids m)"
    unfolding sub_ids_def m' using free assms(2) by (auto split: if_splits)
  show "mids_ok m'" using assms(1,2) unfolding mids_ok_def m' by (auto split: if_splits)
  show "tokens m' = tokens m" by (rule m')
qed

lemma cleanUpSubscribe_mids:
  assumes "mids_ok m"
  shows "used_ids (cleanUpSubscribe m) = used_ids m - sub_ids m" "sub_ids (cleanUpSubscribe m) = {}"
    "mids_ok (cleanUpSubscribe m)"
proof -
  have wf: "gm_wf (index m)" using assms by (simp add: mids_ok_def)
  have idx: "gm_get (index (cleanUpSubscribe m)) i = (if i \<in> sub_ids m then None else gm_get (index m) i)" for i
    unfolding cleanUpSubscribe_only_subs [THEN conjunct1] gm_get_mem [OF wf]
    by (auto simp: sub_ids_def sub_entry_def split: option.splits)
  have tok: "rel_option (\<lambda>t t'. is_sub_token t' = is_sub_token t) (gm_get (tokens m) a)
      (gm_get (tokens (cleanUpSubscribe m)) a)" for a
    unfolding cleanUpSubscribe_only_subs [THEN conjunct2, of m a]
    by (cases "gm_get (tokens m) a") auto
  have "gm_wf (index (fold drop_sub es m'))" if "gm_wf (index m')" for es m'
    using that by (induction es arbitrary: m') (auto simp: drop_sub_def split: option.split)
  then have "gm_wf (index (cleanUpSubscribe m))" using wf by (simp add: cleanUpSubscribe_drop)
  moreover have "gm_get (tokens (cleanUpSubscribe m)) a \<noteq> None" if "gm_get (tokens m) a \<noteq> None" for a
    using tok [of a] that by (auto simp: option_rel_Some1)
  ultimately show "mids_ok (cleanUpSubscribe m)"
    using assms by (auto simp: mids_ok_def idx split: if_splits)
  show "used_ids (cleanUpSubscribe m) = used_ids m - sub_ids m"
    by (auto simp: used_ids_def idx split: if_splits)
  show "sub_ids (cleanUpSubscribe m) = {}"
  proof (rule equals0I)
    fix mid assume "mid \<in> sub_ids (cleanUpSubscribe m)"
    then obtain a t where "gm_get (index (cleanUpSubscribe m)) mid = Some a"
      "gm_get (tokens (cleanUpSubscribe m)) a = Some t" "is_sub_token t" by (auto simp: sub_ids_def)
    then show False using tok [of a] idx [of mid] by (auto simp: sub_ids_def option_rel_Some2 split: if_splits)
  qed
qed

section \<open>Stored messages\<close>

text \<open>The same message, up to the duplicate flag and what \<open>Write\<close> fills in.\<close>

definition same_message :: "ControlPacket \<Rightarrow> ControlPacket \<Rightarrow> bool" where
  "same_message a b =
     (case a of
        CP_Publish p \<Rightarrow> (case b of CP_Publish q \<Rightarrow> Qos q = Qos p \<and> MessageID q = MessageID p \<and>
          TopicName q = TopicName p \<and> Payload q = Payload p \<and> Retain q = Retain p | _ \<Rightarrow> False)
      | CP_Subscribe p \<Rightarrow> (case b of CP_Subscribe q \<Rightarrow>
          MessageID q = MessageID p \<and> Topics q = Topics p \<and> Qoss q = Qoss p | _ \<Rightarrow> False)
      | CP_Unsubscribe p \<Rightarrow> (case b of CP_Unsubscribe q \<Rightarrow>
          MessageID q = MessageID p \<and> Topics q = Topics p | _ \<Rightarrow> False)
      | CP_Pubrel p \<Rightarrow> (case b of CP_Pubrel q \<Rightarrow> MessageID q = MessageID p \<and> Qos q = Qos p | _ \<Rightarrow> False)
      | _ \<Rightarrow> False)"

lemma same_message_simps [simp]:
  "same_message (CP_Publish p) b \<longleftrightarrow> (\<exists>q. b = CP_Publish q \<and> Qos q = Qos p \<and> MessageID q = MessageID p \<and>
     TopicName q = TopicName p \<and> Payload q = Payload p \<and> Retain q = Retain p)"
  "same_message (CP_Subscribe s) b \<longleftrightarrow> (\<exists>q. b = CP_Subscribe q \<and> MessageID q = MessageID s \<and>
     Topics q = Topics s \<and> Qoss q = Qoss s)"
  "same_message (CP_Unsubscribe u) b \<longleftrightarrow> (\<exists>q. b = CP_Unsubscribe q \<and> MessageID q = MessageID u \<and> Topics q = Topics u)"
  "same_message (CP_Pubrel r) b \<longleftrightarrow> (\<exists>q. b = CP_Pubrel q \<and> MessageID q = MessageID r \<and> Qos q = Qos r)"
  by (cases b; simp add: same_message_def)+

lemma same_message_kinds:
  "same_message a b \<Longrightarrow> (\<exists>p. a = CP_Publish p) \<or> (\<exists>s. a = CP_Subscribe s) \<or> (\<exists>u. a = CP_Unsubscribe u) \<or> (\<exists>r. a = CP_Pubrel r)"
  by (cases a) (simp_all add: same_message_def)

lemma same_message_opens:
  assumes "same_message p q"
  shows "packet_id q = packet_id p" "opens_sent q = opens_sent p" "opens_received q = opens_received p"
  using assms same_message_kinds [OF assms] by auto

lemma same_message_trans: "same_message p q \<Longrightarrow> same_message q r \<Longrightarrow> same_message p r"
  using same_message_kinds [of p q] by auto

lemma same_message_refl: "opens_sent p \<or> opens_received p \<Longrightarrow> same_message p p"
  by (cases p) auto

lemma with_dup_same [simp]: "same_message (CP_Publish p) (CP_Publish (with_dup p))"
  by (simp add: with_dup_def)

text \<open>Each entry is under the key of its identifier and opens an exchange of that direction.\<close>

definition store_wf :: "(string \<Rightarrow> ControlPacket option) \<Rightarrow> bool" where
  "store_wf h \<longleftrightarrow> (\<forall>k p. h k = Some p \<longrightarrow>
     k = outboundKeyFromMID (packet_id p) \<and> opens_sent p \<or>
     k = inboundKeyFromMID (packet_id p) \<and> opens_received p)"

definition stored_ids :: "(string \<Rightarrow> ControlPacket option) \<Rightarrow> uint16 set" where
  "stored_ids h = {mid. h (outboundKeyFromMID mid) \<noteq> None}"

lemma store_wf_upd:
  "store_wf h \<Longrightarrow> store_wf (h(k := None))"
  "store_wf h \<Longrightarrow> opens_sent p \<Longrightarrow> store_wf (h(outboundKeyFromMID (packet_id p) \<mapsto> p))"
  "store_wf h \<Longrightarrow> opens_received p \<Longrightarrow> store_wf (h(inboundKeyFromMID (packet_id p) \<mapsto> p))"
  by (auto simp: store_wf_def)

lemma store_wf_same:
  assumes "store_wf h" "h k = Some p" "same_message p q"
  shows "store_wf (h(k \<mapsto> q))"
proof -
  have "k = outboundKeyFromMID (packet_id q) \<and> opens_sent q \<or> k = inboundKeyFromMID (packet_id q) \<and> opens_received q"
    using assms(1,2) unfolding same_message_opens [OF assms(3)] store_wf_def by blast
  with assms(1) show ?thesis unfolding store_wf_def by simp
qed

lemma persist_self [simp]: "c\<lparr>cl_persist := cl_persist c\<rparr> = c"
  by (cases c) simp

lemma store_wf_key: "store_wf h \<Longrightarrow> h k \<noteq> None \<Longrightarrow> mIDFromKey k \<noteq> None"
  by (metis mIDFromKey_keys not_None_eq option.distinct(1) store_wf_def)

lemma stored_ids_upd [simp]:
  "stored_ids (h(inboundKeyFromMID mid := v)) = stored_ids h"
  "stored_ids (h(outboundKeyFromMID mid := None)) = stored_ids h - {mid}"
  "stored_ids (h(outboundKeyFromMID mid \<mapsto> p)) = insert mid (stored_ids h)"
  by (auto simp: stored_ids_def)

lemma isKeyOutbound_keys [simp]:
  "isKeyOutbound (outboundKeyFromMID mid) = Some True" "isKeyOutbound (inboundKeyFromMID mid) = Some False"
  by (simp_all add: isKeyOutbound_def outboundKeyFromMID_def inboundKeyFromMID_def)

section \<open>Sessions\<close>

text \<open>The goroutines a client has between a completed \<open>Connect\<close> and \<open>Disconnect\<close>.\<close>

fun session_job :: "job \<Rightarrow> bool" where
  "session_job (LostWait e) = True"
| "session_job (ReconnectTry d) = True"
| "session_job (ReconnectSleep d c b) = True"
| "session_job (ReconnectDialed c b) = True"
| "session_job (ReconnectStart c b) = True"
| "session_job ReconnectUp = True"
| "session_job (ReconnectResume keys) = (\<forall>k \<in> set keys. mIDFromKey k \<noteq> None)"
| "session_job _ = False"

text \<open>
  An operation that leaves the store and the identifiers alone: it may complete tokens, move
  packets between queues and start goroutines of the session.
\<close>

definition quiet :: "('s, 'h) client \<Rightarrow> ('s, 'h) client \<Rightarrow> bool" where
  "quiet c c' \<longleftrightarrow> cl_persist c' = cl_persist c \<and> same_ids (mids c) (mids c') \<and>
     o_AutoReconnect (cl_options c') = o_AutoReconnect (cl_options c) \<and>
     o_ResumeSubs (cl_options c') = o_ResumeSubs (cl_options c) \<and>
     (\<forall>j \<in> set (jobs c'). j \<in> set (jobs c) \<or> session_job j) \<and>
     (cl_status c' = cl_status c \<or> cl_status c' > cs_connecting) \<and>
     set (inboundFromStore c') \<subseteq> set (inboundFromStore c)"

lemma quiet_refl [simp, intro]: "quiet c c"
  by (simp add: quiet_def)

lemma quiet_trans [trans]: "quiet c1 c2 \<Longrightarrow> quiet c2 c3 \<Longrightarrow> quiet c1 c3"
  unfolding quiet_def using same_ids_trans [of "mids c1" "mids c2" "mids c3"] by auto

lemma quiet_upd_token:
  assumes "\<And>t. gm_get (tokens (mids c)) a = Some t \<Longrightarrow> is_sub_token (f t) = is_sub_token t"
  shows "quiet c (upd_token f a c)"
  using on_token_same_ids [of "mids c" a f] assms by (simp add: quiet_def upd_token_def)

lemma quiet_tokens [simp]:
  "quiet c (fail_token e a c)" "quiet c (upd_token flowComplete a c)" "quiet c (upd_token (set_messageID mid) a c)"
  "quiet c (upd_token (append_subs ts) a c)" "quiet c (fail_opt e t c)"
  by (simp_all add: fail_token_def fail_opt_def quiet_upd_token split: option.split)

lemma quiet_fields [simp]:
  "quiet c (c\<lparr>senders := x1\<rparr>)" "quiet c (c\<lparr>obound := x2\<rparr>)" "quiet c (c\<lparr>oboundP := x2\<rparr>)"
  "quiet c (c\<lparr>oboundI := x2\<rparr>)" "quiet c (c\<lparr>msgRouter := x3\<rparr>)" "quiet c (c\<lparr>lastSent := x4\<rparr>)"
  "quiet c (c\<lparr>lastReceived := x4\<rparr>)" "quiet c (c\<lparr>pingOutstanding := x4\<rparr>)" "quiet c (c\<lparr>wire := x5\<rparr>)"
  "quiet c (c\<lparr>commErrs := x6\<rparr>)" "quiet c (c\<lparr>netClosed := x7\<rparr>)" "quiet c (c\<lparr>redirecting := x7\<rparr>)"
  "quiet c (c\<lparr>commsAlive := x7\<rparr>)" "quiet c (c\<lparr>incomingPub := x8\<rparr>)"
  "quiet c (c\<lparr>cl_conn := x9\<rparr>)"
  by (simp_all add: quiet_def)

lemma quiet_AddRoute [simp]: "quiet c (AddRoute c topic cb)"
  by (simp add: AddRoute_def split: option.split)

lemma quiet_spawn [simp]: "session_job j \<Longrightarrow> quiet c (spawn j c)"
  by (auto simp: spawn_def quiet_def)

lemma quiet_remove_job: "quiet c (c\<lparr>jobs := remove_at i (jobs c)\<rparr>)"
  by (auto simp: quiet_def remove_at_def dest: in_set_takeD in_set_dropD)

lemma quiet_alloc:
  assumes "mids_ok (mids c)" "alloc_token k c = (c1, a)"
  shows "quiet c c1" "gm_get (tokens (mids c1)) a = Some (the (newToken k))"
    "cl_status c1 = cl_status c" "cl_options c1 = cl_options c"
  using assms alloc_same_ids [OF assms(1) new_ptr_fresh] by (auto simp: alloc_token_def Let_def quiet_def)

lemma quiet_send_or_keep [simp]: "quiet c (send_or_keep now x c)"
  by (simp add: send_or_keep_def)

lemma quiet_hand_over: "quiet c (hand_over x c)"
  by (cases x) (simp_all add: quiet_def)

lemma quiet_give_up: "quiet c (give_up x c)"
  by (cases x) simp_all

lemma quiet_UpdateLast [simp]: "quiet c (UpdateLastSent now c)" "quiet c (UpdateLastReceived now c)"
  by (simp_all add: UpdateLastSent_def UpdateLastReceived_def)

lemmas quiet_intros =
  quiet_fields [THEN quiet_trans [rotated]] quiet_tokens [THEN quiet_trans [rotated]]
  quiet_UpdateLast [THEN quiet_trans [rotated]]

lemma quiet_write:
  "write_publish now err c = Some c' \<Longrightarrow> quiet c c'" "write_priority now err c = Some c' \<Longrightarrow> quiet c c'"
  "write_reply now err c = Some c' \<Longrightarrow> quiet c c'"
  by (auto simp: write_publish_def write_priority_def write_reply_def Let_def
      split: list.splits option.splits if_splits intro!: quiet_intros)

lemma quiet_internalConnLost [simp]: "quiet c (internalConnLost e c)"
  by (auto simp: internalConnLost_def stopCommsWorkers_def spawn_def quiet_def)

lemma quiet_tick: "quiet c (keepalive_tick now werr c)"
proof -
  have "quiet c (keepalive_ping now werr c)" by (simp add: keepalive_ping_def Let_def quiet_def)
  then show ?thesis unfolding keepalive_tick_def Let_def
    by (auto intro: quiet_trans [OF _ quiet_internalConnLost])
qed

lemma quiet_try_connect: "try_connect net c = (a, c1) \<Longrightarrow> quiet c c1"
  by (auto simp: try_connect_def attemptConnection_def Let_def quiet_def split: if_splits)

lemma quiet_startCommsWorkers: "startCommsWorkers now conn b c = Some (c1, st) \<Longrightarrow> quiet c c1"
  by (auto simp: startCommsWorkers_def setConnected_def Let_def quiet_def split: if_splits)

text \<open>
  The state of a client in a session: the identifier of every message it still has to deliver is
  taken, and none of them belongs to a subscription call that a lost connection would give up.
  \<open>ok\<close> says that the store is usable and \<open>holds\<close> what it holds.
\<close>

definition session_inv ::
  "('s \<Rightarrow> bool) \<Rightarrow> ('s \<Rightarrow> string \<Rightarrow> ControlPacket option) \<Rightarrow> ('s, 'h) client \<Rightarrow> bool" where
  "session_inv ok holds c \<longleftrightarrow> ok (cl_persist c) \<and> store_wf (holds (cl_persist c)) \<and> mids_ok (mids c) \<and>
     stored_ids (holds (cl_persist c)) \<subseteq> used_ids (mids c) \<and>
     (\<not> o_ResumeSubs (cl_options c) \<longrightarrow> sub_ids (mids c) \<inter> stored_ids (holds (cl_persist c)) = {}) \<and>
     (\<forall>j \<in> set (jobs c). session_job j) \<and> o_AutoReconnect (cl_options c) \<and> cl_status c > cs_connecting \<and>
     (\<forall>p \<in> set (inboundFromStore c). \<exists>r. p = CP_Pubrel r)"

text \<open>Publications stay in the store, except those with an identifier in \<open>X\<close>.\<close>

definition keeps_publications ::
  "('s \<Rightarrow> string \<Rightarrow> ControlPacket option) \<Rightarrow> uint16 set \<Rightarrow> ('s, 'h) client \<Rightarrow> ('s, 'h) client \<Rightarrow> bool" where
  "keeps_publications holds X c c' \<longleftrightarrow>
     (\<forall>mid p. mid \<notin> X \<longrightarrow> holds (cl_persist c) (outboundKeyFromMID mid) = Some (CP_Publish p) \<longrightarrow>
       (\<exists>p'. holds (cl_persist c') (outboundKeyFromMID mid) = Some (CP_Publish p') \<and>
          same_message (CP_Publish p) (CP_Publish p')))"

text \<open>An acknowledgement as the standard has it: no flags, so that the store sees it.\<close>

fun plain_ack :: "ControlPacket \<Rightarrow> bool" where
  "plain_ack (CP_Puback p) \<longleftrightarrow> Qos p = 0"
| "plain_ack (CP_Pubcomp p) \<longleftrightarrow> Qos p = 0"
| "plain_ack _ \<longleftrightarrow> True"

text \<open>The identifiers whose exchange a packet of the broker closes.\<close>

definition closed_ids :: "ControlPacket \<Rightarrow> uint16 set" where
  "closed_ids p = (if closes_sent p then {packet_id p} else {})"

text \<open>What may happen in a session, and the identifiers an event closes.\<close>

definition session_event :: "(ControlPacket \<Rightarrow> bool) \<Rightarrow> 'h client_event \<Rightarrow> bool" where
  "session_event storable e =
     (case e of
        CallConnect \<Rightarrow> False
      | CallDisconnect \<Rightarrow> False
      | CallForceDisconnect \<Rightarrow> False
      | CallPublish topic qos retained payload \<Rightarrow>
          (\<forall>bs mid. payload_bytes payload = Some bs \<longrightarrow> mid \<noteq> 0 \<longrightarrow> qos = 1 \<or> qos = 2 \<longrightarrow>
             storable (publish_packet topic qos retained bs mid))
      | CallSubscribe topic qos cb \<Rightarrow> (\<forall>mid. storable (subscribe_packet [topic] [qos] mid))
      | CallSubscribeMultiple filters cb \<Rightarrow>
          (\<forall>topics qoss mid. validateSubscribeMap filters = Inr (topics, qoss) \<longrightarrow>
             storable (subscribe_packet topics qoss mid))
      | CallUnsubscribe topics \<Rightarrow> (\<forall>mid. storable (unsubscribe_packet topics mid))
      | Receive p \<Rightarrow> plain_ack p \<and> storable p
      | _ \<Rightarrow> True)"

definition event_closes :: "'h client_event \<Rightarrow> uint16 set" where
  "event_closes e = (case e of Receive p \<Rightarrow> closed_ids p | _ \<Rightarrow> {})"

text \<open>Events that touch neither the store nor the identifiers.\<close>

definition quiet_event :: "'h client_event \<Rightarrow> bool" where
  "quiet_event e =
     (case e of
        CallAddRoute topic cb \<Rightarrow> True | HandOver i \<Rightarrow> True | GiveUp i \<Rightarrow> True | ReadFails err \<Rightarrow> True
      | WritePublish err \<Rightarrow> True | WritePriority err \<Rightarrow> True | WriteReply err \<Rightarrow> True
      | ReportError \<Rightarrow> True | Tick err \<Rightarrow> True | StopRedirector \<Rightarrow> True | _ \<Rightarrow> False)"

lemma quiet_step:
  assumes "client_step S net acks (now, e) c c'" "quiet_event e"
  shows "quiet c c'"
  using assms(1)
proof (cases rule: client_step.cases)
  case (HandingOver i)
  then show ?thesis using quiet_trans [OF quiet_fields(1) quiet_hand_over] by simp
next
  case (GivingUp i)
  then show ?thesis using quiet_trans [OF quiet_fields(1) quiet_give_up] by simp
next
  case (Reporting err es)
  then show ?thesis using quiet_trans [OF quiet_fields(10) quiet_internalConnLost] by simp
qed (use assms(2) quiet_write quiet_tick in \<open>simp_all add: quiet_event_def\<close>)

section \<open>The contract of a store a client can resume from\<close>

locale client_store = message_store ok holds storable read_back
    "Store_Put S" "Store_Get S" "Store_All S" "Store_Del S"
  for ok :: "'s \<Rightarrow> bool" and holds :: "'s \<Rightarrow> string \<Rightarrow> ControlPacket option"
    and storable :: "ControlPacket \<Rightarrow> bool" and read_back :: "ControlPacket \<Rightarrow> ControlPacket"
    and S :: "'s Store" +
  assumes read_back_law: "storable p \<Longrightarrow> opens_sent p \<or> opens_received p \<Longrightarrow> same_message p (read_back p)"
    and poke_law: "ok s \<Longrightarrow> holds s k = Some (CP_Publish m) \<Longrightarrow>
      \<exists>q. ok (Store_poke S s k (CP_Publish (with_dup m))) \<and>
          holds (Store_poke S s k (CP_Publish (with_dup m))) = (holds s)(k \<mapsto> CP_Publish q) \<and>
          (q = m \<or> q = with_dup m)"
begin

lemma outbound_closing:
  assumes "ok s" "\<not> opens_sent p"
  shows "\<exists>s'. persistOutbound (Store_Put S t) (Store_Del S) s p = Some s' \<and> ok s' \<and>
    holds s' = (if closes_received p then (holds s)(inboundKeyFromMID (packet_id p) := None) else holds s)"
  using assms del_law [OF assms(1), of "inboundKeyFromMID (packet_id p)"]
  by (cases p) (auto simp: persistOutbound_def Let_def)

abbreviation sinv :: "('s, 'h) client \<Rightarrow> bool" where
  "sinv c \<equiv> session_inv ok holds c"

abbreviation kept :: "uint16 set \<Rightarrow> ('s, 'h) client \<Rightarrow> ('s, 'h) client \<Rightarrow> bool" where
  "kept X c c' \<equiv> keeps_publications holds X c c'"

abbreviation goes_on :: "uint16 set \<Rightarrow> ('s, 'h) client \<Rightarrow> ('s, 'h) client \<Rightarrow> bool" where
  "goes_on X c c' \<equiv> sinv c' \<and> kept X c c'"

lemma kept_refl: "cl_persist c' = cl_persist c \<Longrightarrow> kept X c c'"
  by (simp add: keeps_publications_def)

lemma kept_trans:
  assumes "kept X a b" "kept Y b d"
  shows "kept (X \<union> Y) a d"
  unfolding keeps_publications_def
proof (intro allI impI)
  fix mid p
  assume *: "mid \<notin> X \<union> Y" "holds (cl_persist a) (outboundKeyFromMID mid) = Some (CP_Publish p)"
  then obtain p1 where p1: "holds (cl_persist b) (outboundKeyFromMID mid) = Some (CP_Publish p1)"
    "same_message (CP_Publish p) (CP_Publish p1)" using assms(1) unfolding keeps_publications_def by blast
  then obtain p2 where "holds (cl_persist d) (outboundKeyFromMID mid) = Some (CP_Publish p2)"
    "same_message (CP_Publish p1) (CP_Publish p2)" using * assms(2) unfolding keeps_publications_def by blast
  then show "\<exists>p'. holds (cl_persist d) (outboundKeyFromMID mid) = Some (CP_Publish p') \<and>
      same_message (CP_Publish p) (CP_Publish p')" using same_message_trans [OF p1(2)] by blast
qed

lemma quiet_goes_on: "sinv c \<Longrightarrow> quiet c c' \<Longrightarrow> goes_on X c c'"
  by (auto simp: session_inv_def quiet_def same_ids_def intro: kept_refl)

lemma goes_on_trans: "goes_on X a b \<Longrightarrow> goes_on Y b d \<Longrightarrow> goes_on (X \<union> Y) a d"
  using kept_trans by blast

lemma goes_on_quiet: "goes_on X a b \<Longrightarrow> quiet b d \<Longrightarrow> goes_on X a d"
  using goes_on_trans [where X = X and Y = "{}" and a = a and b = b and d = d]
    quiet_goes_on [of b d "{}"] by simp

lemma quiet_then_goes_on: "quiet a b \<Longrightarrow> sinv a \<Longrightarrow> (sinv b \<Longrightarrow> goes_on X b d) \<Longrightarrow> goes_on X a d"
  using goes_on_trans [where X = "{}" and Y = X and a = a and b = b and d = d]
    quiet_goes_on [of a b "{}"] by simp

text \<open>An identifier for a call: it is new, so nothing stored has it.\<close>

lemma assign_id_session:
  assumes "sinv c" "gm_get (tokens (mids c)) a = Some t" "assign_id a c = Some (c1, mid)"
  shows "goes_on {} c c1" "mid \<notin> stored_ids (holds (cl_persist c1))" "mid \<in> used_ids (mids c1)"
    "mid \<in> sub_ids (mids c1) \<longleftrightarrow> is_sub_token t" "cl_status c1 = cl_status c" "cl_options c1 = cl_options c"
proof -
  obtain m where m: "getID (mids c) a = (m, mid)" "mid \<noteq> 0"
    and c1: "c1 = upd_token (set_messageID mid) a (c\<lparr>mids := m\<rparr>)"
    using assms(3) by (auto simp: assign_id_def split: prod.splits if_splits)
  have ok: "mids_ok (mids c)" using assms(1) by (simp add: session_inv_def)
  note g = getID_mids [OF ok assms(2) m]
  have q: "quiet (c\<lparr>mids := m\<rparr>) c1" by (simp add: c1)
  have fresh: "mid \<notin> stored_ids (holds (cl_persist c))" "mid \<notin> sub_ids (mids c)"
    using g(1) assms(1) by (auto simp: session_inv_def used_ids_def sub_ids_def)
  have "sinv (c\<lparr>mids := m\<rparr>)"
    using assms(1) g fresh(1) by (auto simp: session_inv_def)
  then have "goes_on {} c (c\<lparr>mids := m\<rparr>)" by (simp add: kept_refl)
  then show "goes_on {} c c1" using goes_on_quiet q by blast
  show "mid \<notin> stored_ids (holds (cl_persist c1))" using fresh q by (simp add: quiet_def)
  have s: "used_ids (mids c1) = used_ids m" "sub_ids (mids c1) = sub_ids m"
    using q by (simp_all add: quiet_def same_ids_def)
  show "mid \<in> used_ids (mids c1)" by (simp add: s g)
  show "mid \<in> sub_ids (mids c1) \<longleftrightarrow> is_sub_token t" using fresh by (simp add: s g)
  show "cl_status c1 = cl_status c" "cl_options c1 = cl_options c" by (simp_all add: c1 upd_token_def)
qed

lemma persist_sent_session:
  assumes "sinv c" "storable p \<or> \<not> opens_sent p"
    "opens_sent p \<Longrightarrow> packet_id p \<in> used_ids (mids c) \<and> packet_id p \<notin> stored_ids (holds (cl_persist c)) \<and>
       (\<not> o_ResumeSubs (cl_options c) \<longrightarrow> packet_id p \<notin> sub_ids (mids c))"
  shows "\<exists>c1. persist_sent S now p c = Some c1 \<and> goes_on {} c c1 \<and> c1 = c\<lparr>cl_persist := cl_persist c1\<rparr> \<and>
    (opens_sent p \<longrightarrow> holds (cl_persist c1) (outboundKeyFromMID (packet_id p)) = Some (read_back p))"
proof (cases "opens_sent p")
  case True
  then have st: "storable p" using assms(2) by blast
  have ok: "ok (cl_persist c)" using assms(1) by (simp add: session_inv_def)
  obtain s where s: "persistOutbound (Store_Put S now) (Store_Del S) (cl_persist c) p = Some s" "ok s"
      "holds s = (holds (cl_persist c))(outboundKeyFromMID (packet_id p) \<mapsto> read_back p)"
    using outbound_effect [OF ok st, of now] True by auto
  have same: "same_message p (read_back p)" using read_back_law st True by blast
  then have "store_wf (holds s)"
    using store_wf_upd(2) [of "holds (cl_persist c)" "read_back p"] assms(1) True same_message_opens [OF same]
    by (simp add: s session_inv_def)
  moreover have "stored_ids (holds s) = insert (packet_id p) (stored_ids (holds (cl_persist c)))" by (simp add: s)
  ultimately have "sinv (c\<lparr>cl_persist := s\<rparr>)" using assms(1) assms(3) [OF True] s(2) by (auto simp: session_inv_def)
  moreover have "kept {} c (c\<lparr>cl_persist := s\<rparr>)"
    using assms(3) [OF True] by (auto simp: keeps_publications_def s stored_ids_def same_message_refl)
  ultimately show ?thesis using s by (simp add: persist_sent_def)
next
  case False
  obtain s where s: "persistOutbound (Store_Put S now) (Store_Del S) (cl_persist c) p = Some s" "ok s"
      "holds s = (if closes_received p then (holds (cl_persist c))(inboundKeyFromMID (packet_id p) := None)
         else holds (cl_persist c))"
    using outbound_closing [of "cl_persist c" p now] False assms(1) by (auto simp: session_inv_def)
  have "sinv (c\<lparr>cl_persist := s\<rparr>)"
    using assms(1) s(2) by (auto simp: session_inv_def s(3) store_wf_upd)
  moreover have "kept {} c (c\<lparr>cl_persist := s\<rparr>)" by (simp add: keeps_publications_def s(3))
  ultimately show ?thesis using s False by (simp add: persist_sent_def)
qed

lemma persist_new:
  assumes "sinv c" "gm_get (tokens (mids c)) a = Some t" "assign_id a c = Some (c1, mid)"
    "packet_id p = mid" "storable p \<or> \<not> opens_sent p"
    "is_sub_token t \<Longrightarrow> opens_sent p \<Longrightarrow> o_ResumeSubs (cl_options c)"
  shows "\<exists>c2. persist_sent S now p c1 = Some c2 \<and> goes_on {} c c2"
proof -
  note as = assign_id_session [OF assms(1-3)]
  have "packet_id p \<in> used_ids (mids c1) \<and> packet_id p \<notin> stored_ids (holds (cl_persist c1)) \<and>
      (\<not> o_ResumeSubs (cl_options c1) \<longrightarrow> packet_id p \<notin> sub_ids (mids c1))" if "opens_sent p"
    using as assms(4,6) that by auto
  then obtain c2 where c2: "persist_sent S now p c1 = Some c2" "goes_on {} c1 c2"
    using persist_sent_session [OF as(1) [THEN conjunct1] assms(5)] by blast
  then show ?thesis
    using as(1) goes_on_trans [where X = "{}" and Y = "{}" and a = c and b = c1 and d = c2] by auto
qed

lemma alloc_session:
  assumes "sinv c" "alloc_token k c = (c0, token)"
  shows "sinv c0" "quiet c c0" "gm_get (tokens (mids c0)) token = Some (the (newToken k))"
    "goes_on {} c (fail_token e token c0)" "goes_on {} c (upd_token flowComplete token c0)"
    "cl_options c0 = cl_options c"
proof -
  note q = quiet_alloc [of c k c0 token]
  have m: "mids_ok (mids c)" using assms(1) by (simp add: session_inv_def)
  show "sinv c0" using quiet_goes_on [OF assms(1) q(1), of "{}"] m assms(2) by simp
  show "quiet c c0" "gm_get (tokens (mids c0)) token = Some (the (newToken k))" "cl_options c0 = cl_options c"
    using q m assms(2) by simp_all
  show "goes_on {} c (fail_token e token c0)" "goes_on {} c (upd_token flowComplete token c0)"
    using quiet_goes_on [OF assms(1) quiet_trans [OF q(1)]] m assms(2) by simp_all
qed

lemma Publish_session:
  assumes "sinv c" "\<And>bs mid. payload_bytes payload = Some bs \<Longrightarrow> mid \<noteq> 0 \<Longrightarrow>
      qos = 1 \<or> qos = 2 \<Longrightarrow> storable (publish_packet topic qos retained bs mid)"
  shows "\<exists>c' t. Client_Publish S now c topic qos retained payload = Some (c', t) \<and> goes_on {} c c'"
proof -
  obtain c0 token where al: "alloc_token Publish c = (c0, token)" by fastforce
  note a = alloc_session [OF assms(1) al]
  have "\<exists>c2. persist_sent S now (publish_packet topic qos retained bs mid) c1 = Some c2 \<and> goes_on {} c0 c2"
    if "payload_bytes payload = Some bs" "(if qos \<noteq> 0 then assign_id token c0 else Some (c0, 0)) = Some (c1, mid)"
    for bs c1 mid
  proof (cases "qos = 0")
    case True
    then have "\<not> opens_sent (publish_packet topic qos retained bs mid)" by (simp add: publish_packet_def)
    with True that persist_sent_session [OF a(1), of _ now] show ?thesis by auto
  next
    case False
    then have "mid \<noteq> 0" "assign_id token c0 = Some (c1, mid)"
      using that(2) by (auto simp: assign_id_def split: prod.splits if_splits)
    with assms(2) [OF that(1)] show ?thesis
      by (intro persist_new [OF a(1,3)]) (auto simp: publish_packet_def)
  qed
  then have stored: "\<exists>c2. persist_sent S now (publish_packet topic qos retained bs mid) c1 = Some c2 \<and>
      goes_on {} c (send_or_keep now x c2)"
    if "payload_bytes payload = Some bs" "(if qos \<noteq> 0 then assign_id token c0 else Some (c0, 0)) = Some (c1, mid)"
    for bs c1 mid x
    using that goes_on_quiet [OF _ quiet_send_or_keep] quiet_then_goes_on [OF a(2) assms(1)] by meson
  show ?thesis
  proof (cases "payload_bytes payload")
    case None
    then show ?thesis using a(4,5) by (simp add: Client_Publish_def al)
  next
    case (Some bs)
    then show ?thesis
      using a(4,5) stored [OF Some]
      by (cases "if qos \<noteq> 0 then assign_id token c0 else Some (c0, 0)")
        (fastforce simp: Client_Publish_def al Let_def)+
  qed
qed

lemma issue_session:
  assumes "sinv c" "gm_get (tokens (mids c)) token = Some t" "is_sub_token t"
    "\<And>mid. packet_id (mk mid) = mid" "\<And>mid. o_ResumeSubs (cl_options c) \<Longrightarrow> storable (mk mid)"
  shows "\<exists>c' t'. issue S now mk wrap token c = Some (c', t') \<and> goes_on {} c c'"
proof (cases "assign_id token c")
  case None
  then show ?thesis using quiet_goes_on [OF assms(1), of _ "{}"] by (simp add: issue_def)
next
  case (Some r)
  obtain c1 mid where r: "r = (c1, mid)" by (cases r)
  have "\<exists>c2. (if o_ResumeSubs (cl_options c) then persist_sent S now (mk mid) c1 else Some c1) = Some c2 \<and> goes_on {} c c2"
  proof (cases "o_ResumeSubs (cl_options c)")
    case True
    then show ?thesis
      using persist_new [OF assms(1,2) Some [unfolded r] assms(4)] assms(5) by simp
  next
    case False
    then show ?thesis using assign_id_session(1) [OF assms(1,2) Some [unfolded r]] by simp
  qed
  then show ?thesis using Some r goes_on_quiet [OF _ quiet_send_or_keep] by (fastforce simp: issue_def)
qed

lemma sub_call_session:
  assumes "sinv c" "alloc_token k c = (c0, token)" "quiet c0 c1" "cl_options c1 = cl_options c0"
    "gm_get (tokens (mids c1)) token = Some t" "is_sub_token t"
    "\<And>mid. packet_id (mk mid) = mid" "\<And>mid. o_ResumeSubs (cl_options c) \<Longrightarrow> storable (mk mid)"
  shows "\<exists>c' t'. issue S now mk wrap token c1 = Some (c', t') \<and> goes_on {} c c'"
proof -
  note a = alloc_session [OF assms(1,2)]
  have q: "quiet c c1" using quiet_trans [OF a(2) assms(3)] .
  then have "sinv c1" using quiet_goes_on [OF assms(1), of c1 "{}"] by blast
  then have "\<exists>c' t'. issue S now mk wrap token c1 = Some (c', t') \<and> goes_on {} c1 c'"
    by (rule issue_session [OF _ assms(5-7)]) (use assms(4,8) a(6) in simp)
  then show ?thesis using quiet_then_goes_on [OF q assms(1)] by blast
qed

lemma AddRoute_mids [simp]:
  "mids (AddRoute c topic cb) = mids c" "cl_options (AddRoute c topic cb) = cl_options c"
  by (simp_all add: AddRoute_def split: option.split)

lemma AddRoutes:
  "quiet c (fold (\<lambda>(t, q) c. AddRoute c t cb) fs c)" "mids (fold (\<lambda>(t, q) c. AddRoute c t cb) fs c) = mids c"
  "cl_options (fold (\<lambda>(t, q) c. AddRoute c t cb) fs c) = cl_options c"
  by (induction fs arbitrary: c) (auto intro: quiet_trans [OF quiet_AddRoute])

lemma Subscribe_session:
  assumes "sinv c" "\<And>mid. o_ResumeSubs (cl_options c) \<Longrightarrow> storable (subscribe_packet [topic] [qos] mid)"
  shows "\<exists>c' t. Client_Subscribe S now c topic qos cb = Some (c', t) \<and> goes_on {} c c'"
proof -
  obtain c0 token where al: "alloc_token Subscribe c = (c0, token)" by fastforce
  note a = alloc_session [OF assms(1) al]
  let ?c1 = "upd_token (append_subs [route_topic_of topic]) token (AddRoute c0 (route_topic_of topic) cb)"
  have "\<exists>c' t. issue S now (subscribe_packet [topic] [qos]) (\<lambda>p. SendSubscribe p token) token ?c1 = Some (c', t) \<and> goes_on {} c c'"
  proof (rule sub_call_session [OF assms(1) al])
    show "quiet c0 ?c1" using quiet_trans [OF quiet_AddRoute quiet_tokens(4)] .
  qed (use a assms(2) in \<open>auto simp: upd_token_def gm_get_on_token subscribe_packet_def\<close>)
  then show ?thesis
    using a(4) by (auto simp: Client_Subscribe_def al Let_def split: option.split)
qed

lemma SubscribeMultiple_session:
  assumes "sinv c" "\<And>topics qoss mid. o_ResumeSubs (cl_options c) \<Longrightarrow>
      validateSubscribeMap filters = Inr (topics, qoss) \<Longrightarrow> storable (subscribe_packet topics qoss mid)"
  shows "\<exists>c' t. Client_SubscribeMultiple S now c filters cb = Some (c', t) \<and> goes_on {} c c'"
proof -
  obtain c0 token where al: "alloc_token Subscribe c = (c0, token)" by fastforce
  note a = alloc_session [OF assms(1) al]
  have "\<exists>c' t. issue S now (subscribe_packet topics qoss) (\<lambda>p. SendSubscribe p token) token
      (upd_token (append_subs topics) token (fold (\<lambda>(t, q) c. AddRoute c t cb) filters c0)) = Some (c', t) \<and> goes_on {} c c'"
    if "validateSubscribeMap filters = Inr (topics, qoss)" for topics qoss
  proof (rule sub_call_session [OF assms(1) al])
    show "quiet c0 (upd_token (append_subs topics) token (fold (\<lambda>(t, q) c. AddRoute c t cb) filters c0))"
      using quiet_trans [OF AddRoutes(1) quiet_tokens(4)] .
  qed (use a assms(2) that in \<open>auto simp: upd_token_def gm_get_on_token subscribe_packet_def AddRoutes\<close>)
  then show ?thesis
    using a(4) by (auto simp: Client_SubscribeMultiple_def al Let_def split: option.split sum.split)
qed

lemma Unsubscribe_session:
  assumes "sinv c" "\<And>mid. o_ResumeSubs (cl_options c) \<Longrightarrow> storable (unsubscribe_packet topics mid)"
  shows "\<exists>c' t. Client_Unsubscribe S now c topics = Some (c', t) \<and> goes_on {} c c'"
proof -
  obtain c0 token where al: "alloc_token Unsubscribe c = (c0, token)" by fastforce
  note a = alloc_session [OF assms(1) al]
  have "\<exists>c' t. issue S now (unsubscribe_packet topics) (\<lambda>p. SendUnsubscribe p token topics) token c0 = Some (c', t) \<and> goes_on {} c c'"
    by (rule sub_call_session [OF assms(1) al quiet_refl])
      (use a assms(2) in \<open>auto simp: unsubscribe_packet_def\<close>)
  then show ?thesis
    using a(4) by (auto simp: Client_Unsubscribe_def al split: option.split)
qed

section \<open>Packets of the broker\<close>

lemma finish_id_session:
  assumes "sinv c" "mid \<notin> stored_ids (holds (cl_persist c))"
  shows "goes_on {} c (finish_id mid c)"
proof -
  define c1 where "c1 = (case getToken (mids c) mid of Inl a \<Rightarrow> upd_token flowComplete a c | Inr _ \<Rightarrow> c)"
  have q: "quiet c c1" by (simp add: c1_def split: sum.split)
  have i1: "sinv c1" using quiet_goes_on [OF assms(1) q, of "{}"] by simp
  have p1: "cl_persist c1 = cl_persist c" using q by (simp add: quiet_def)
  have "sinv (on_mids (\<lambda>m. freeID m mid) c1)"
    using i1 assms(2) p1 by (auto simp: session_inv_def on_mids_def finish_mids)
  moreover have "kept {} c (on_mids (\<lambda>m. freeID m mid) c1)" by (rule kept_refl) (simp add: on_mids_def p1)
  ultimately show ?thesis by (simp add: finish_id_def c1_def)
qed

lemma persist_received_session:
  assumes "sinv c" "storable p"
  shows "\<exists>c1. persist_received S now p c = Some c1 \<and> goes_on (closed_ids p) c c1 \<and>
    closed_ids p \<inter> stored_ids (holds (cl_persist c1)) = {}"
proof -
  have ok: "ok (cl_persist c)" using assms(1) by (simp add: session_inv_def)
  obtain s where s: "persistInbound (Store_Put S now) (Store_Del S) (cl_persist c) p = Some s" "ok s"
    "holds s = (if opens_received p then (holds (cl_persist c))(inboundKeyFromMID (packet_id p) \<mapsto> read_back p)
                else if closes_sent p then (holds (cl_persist c))(outboundKeyFromMID (packet_id p) := None)
                else holds (cl_persist c))"
    using inbound_effect [OF ok assms(2), of now] by blast
  have same: "opens_received p \<Longrightarrow> packet_id (read_back p) = packet_id p \<and> opens_received (read_back p)"
    using read_back_law [OF assms(2)] same_message_opens by blast
  have excl: "opens_received p \<Longrightarrow> \<not> closes_sent p" using opens_not_closes by blast
  have "store_wf (holds s)"
    using assms(1) same store_wf_upd(1) store_wf_upd(3) [of "holds (cl_persist c)" "read_back p"]
    by (auto simp: session_inv_def s(3))
  moreover have "stored_ids (holds s) = stored_ids (holds (cl_persist c)) - closed_ids p"
    using excl by (auto simp: s(3) closed_ids_def)
  ultimately have "sinv (c\<lparr>cl_persist := s\<rparr>)" "closed_ids p \<inter> stored_ids (holds s) = {}"
    using assms(1) s(2) by (auto simp: session_inv_def)
  moreover have "kept (closed_ids p) c (c\<lparr>cl_persist := s\<rparr>)"
    by (auto simp: keeps_publications_def s(3) closed_ids_def)
  ultimately show ?thesis using s by (simp add: persist_received_def)
qed

lemma incoming_suback_session:
  assumes "sinv c" "MessageID m \<notin> stored_ids (holds (cl_persist c))" "incoming_suback m c = Some c'"
  shows "goes_on {} c c'"
proof (cases "getToken (mids c) (MessageID m)")
  case (Inr d)
  then have "c' = finish_id (MessageID m) c" using assms(3) by (simp add: incoming_suback_def)
  then show ?thesis using finish_id_session [OF assms(1,2)] by simp
next
  case (Inl a)
  show ?thesis
  proof (cases "gm_get (tokens (mids c)) a")
    case None
    then have "c' = finish_id (MessageID m) c" using Inl assms(3) by (simp add: incoming_suback_def)
    then show ?thesis using finish_id_session [OF assms(1,2)] by simp
  next
    case (Some t)
    then obtain t' where t': "suback_results (ReturnCodes m) t = Some t'"
      "c' = finish_id (MessageID m) (upd_token (\<lambda>_. t') a c)" using Inl assms(3) by (auto simp: incoming_suback_def)
    then have "is_sub_token t' = is_sub_token t"
      by (auto simp: suback_results_def is_sub_token_def split: token_kind.splits if_splits)
    then have q: "quiet c (upd_token (\<lambda>_. t') a c)" using Some by (intro quiet_upd_token) simp
    have "goes_on {} (upd_token (\<lambda>_. t') a c) c'" if "sinv (upd_token (\<lambda>_. t') a c)"
      unfolding t'(2) by (rule finish_id_session [OF that]) (use assms(2) in \<open>simp add: upd_token_def\<close>)
    then show ?thesis by (rule quiet_then_goes_on [OF q assms(1)])
  qed
qed

lemma incoming_switch_session:
  assumes "sinv c" "plain_ack p" "closed_ids p \<inter> stored_ids (holds (cl_persist c)) = {}"
    "incoming_switch S now p c = Some c'"
  shows "goes_on {} c c'"
proof (cases p)
  case (CP_Suback m)
  then show ?thesis using assms incoming_suback_session by (auto simp: incoming_switch_def closed_ids_def)
next
  case (CP_Pubrel m)
  let ?p = "CP_Pubcomp ((new_MidPacket (zeroHeader Pubcomp 0))\<lparr>MessageID := MessageID m\<rparr>)"
  obtain c1 where "persist_sent S now ?p c = Some c1" "goes_on {} c c1"
    using persist_sent_session [OF assms(1), of ?p now] by auto
  then show ?thesis using assms(4) CP_Pubrel goes_on_quiet [OF _ quiet_fields(4)] by (auto simp: incoming_switch_def Let_def)
qed (use assms finish_id_session [OF assms(1)] quiet_goes_on [OF assms(1), of _ "{}"] in
    \<open>auto simp: incoming_switch_def closed_ids_def Let_def\<close>)

lemma incoming_session:
  assumes "sinv c" "plain_ack p" "storable p" "incoming S now p c = Some c'"
  shows "goes_on (closed_ids p) c c'"
proof -
  obtain c1 where c1: "persist_received S now p c = Some c1" "goes_on (closed_ids p) c c1"
      "closed_ids p \<inter> stored_ids (holds (cl_persist c1)) = {}"
    using persist_received_session [OF assms(1,3)] by blast
  let ?c2 = "UpdateLastReceived now c1"
  have g2: "goes_on (closed_ids p) c ?c2" by (rule goes_on_quiet [OF c1(2) quiet_UpdateLast(2)])
  have "closed_ids p \<inter> stored_ids (holds (cl_persist ?c2)) = {}" using c1(3) by (simp add: UpdateLastReceived_def)
  then have "goes_on {} ?c2 c'"
    using incoming_switch_session [of ?c2 p now c'] g2 assms(2,4) c1(1) by (auto simp: incoming_def)
  then show ?thesis using g2 goes_on_trans [where X = "closed_ids p" and Y = "{}" and a = c and b = ?c2 and d = c'] by simp
qed

lemma from_store_session:
  assumes "sinv c" "incoming_from_store S now c = Some c'"
  shows "goes_on {} c c'"
proof -
  obtain r rest where r: "inboundFromStore c = CP_Pubrel r # rest"
    using assms by (auto simp: incoming_from_store_def session_inv_def split: list.splits)
  have q: "quiet c (c\<lparr>inboundFromStore := rest\<rparr>)" using r by (auto simp: quiet_def)
  have "goes_on {} (c\<lparr>inboundFromStore := rest\<rparr>) c'" if "sinv (c\<lparr>inboundFromStore := rest\<rparr>)"
    by (rule incoming_switch_session [OF that, of "CP_Pubrel r" now])
      (use assms(2) r in \<open>auto simp: incoming_from_store_def closed_ids_def\<close>)
  then show ?thesis by (rule quiet_then_goes_on [OF q assms(1)])
qed

lemma persist_ack_session:
  assumes "sinv c" "ackFunc (Store_Put S now) (Store_Del S) (cl_persist c) p = Some (s, ps)"
  shows "goes_on {} c (c\<lparr>cl_persist := s\<rparr>)"
proof (cases "Qos p = 1")
  case True
  let ?a = "CP_Puback ((new_MidPacket (zeroHeader Puback 0))\<lparr>MessageID := MessageID p\<rparr>)"
  obtain c1 where "persist_sent S now ?a c = Some c1" "goes_on {} c c1" "c1 = c\<lparr>cl_persist := cl_persist c1\<rparr>"
    using persist_sent_session [OF assms(1), of ?a now] by auto
  moreover from this have "cl_persist c1 = s" using assms(2) True by (auto simp: ackFunc_def persist_sent_def)
  ultimately show ?thesis by metis
next
  case False
  then have "s = cl_persist c" using assms(2) by (auto simp: ackFunc_def split: if_splits)
  then show ?thesis using assms(1) by (simp add: kept_refl)
qed

lemma dispatch_session:
  assumes "sinv c" "dispatch acks S now hs c = Some c'"
  shows "goes_on {} c c'"
proof -
  obtain p rest d where d: "incomingPub c = p # rest"
      "run_handlers acks (\<lambda>s. ackFunc (Store_Put S now) (Store_Del S) s p) (messageFromPublish p) hs
         \<lparr>once = False, persist = cl_persist c, events = []\<rparr> = Some d"
    and c': "c' = c\<lparr>incomingPub := rest, cl_persist := persist d,
        oboundP := oboundP c @ map (\<lambda>p. (p, None)) (acks_out (events d)), delivered := delivered c @ events d\<rparr>"
    using assms(2) by (auto simp: dispatch_def split: list.splits option.splits if_splits)
  have "goes_on {} c (c\<lparr>cl_persist := persist d\<rparr>)"
  proof (cases hs)
    case Nil
    then show ?thesis using d(2) assms(1) by (auto simp: kept_refl)
  next
    case (Cons h hs')
    show ?thesis
    proof (cases "ackFunc (Store_Put S now) (Store_Del S) (cl_persist c) p")
      case None
      then show ?thesis using d(2) Cons by (auto simp: call_handler_def message_Ack_def Let_def split: if_splits)
    next
      case (Some r)
      obtain s ps where r: "r = (s, ps)" by (cases r)
      let ?d = "\<lparr>once = False, persist = cl_persist c, events = []\<rparr>"
      let ?ack = "\<lambda>s. ackFunc (Store_Put S now) (Store_Del S) s p"
      have "persist d = s"
        using d(2) run_handlers_first [of ?d ?ack s ps acks "messageFromPublish p" h hs'] Some r
        unfolding Cons by simp
      then show ?thesis using persist_ack_session [OF assms(1) Some [unfolded r]] by simp
    qed
  qed
  then show ?thesis by (rule goes_on_quiet) (simp add: c' quiet_def)
qed

section \<open>Goroutines\<close>

lemma claim_session:
  assumes "sinv c" "gm_get (tokens (mids c)) a = Some t" "is_sub_token t \<Longrightarrow> o_ResumeSubs (cl_options c)"
  shows "goes_on {} c (on_mids (\<lambda>m. claimID m a mid) c)"
proof -
  have ok: "mids_ok (mids c)" using assms(1) by (simp add: session_inv_def)
  note cl = claimID_mids [OF ok assms(2), of mid]
  have "sinv (on_mids (\<lambda>m. claimID m a mid) c)"
    using assms(1,3) cl by (auto simp: session_inv_def on_mids_def split: if_splits)
  then show ?thesis by (simp add: kept_refl on_mids_def)
qed

lemma drop_stored_session:
  assumes "sinv c" "mIDFromKey key \<noteq> None" "\<And>mid p. key = outboundKeyFromMID mid \<Longrightarrow>
      holds (cl_persist c) key \<noteq> Some (CP_Publish p)" "drop_stored S key c = Some c'"
  shows "goes_on {} c c'"
proof -
  have ok: "ok (cl_persist c)" using assms(1) by (simp add: session_inv_def)
  obtain s where s: "c' = c\<lparr>cl_persist := s\<rparr>" "ok s" "holds s = (holds (cl_persist c))(key := None)"
    using del_law [OF ok assms(2)] assms(4) by (auto simp: drop_stored_def)
  have "stored_ids (holds s) \<subseteq> stored_ids (holds (cl_persist c))" by (auto simp: s stored_ids_def)
  then have "sinv c'" using assms(1) s(2) by (auto simp: session_inv_def s(1) s(3) store_wf_upd)
  moreover have "kept {} c c'" using assms(3) by (auto simp: keeps_publications_def s)
  ultimately show ?thesis by blast
qed

lemma poke_session:
  assumes "sinv c" "holds (cl_persist c) key = Some (CP_Publish p)"
  shows "goes_on {} c (c\<lparr>cl_persist := Store_poke S (cl_persist c) key (CP_Publish (with_dup p))\<rparr>)"
proof -
  define s where "s = Store_poke S (cl_persist c) key (CP_Publish (with_dup p))"
  have ok: "ok (cl_persist c)" using assms(1) by (simp add: session_inv_def)
  obtain q where q: "ok s" "holds s = (holds (cl_persist c))(key \<mapsto> CP_Publish q)" "q = p \<or> q = with_dup p"
    using poke_law [OF ok assms(2)] unfolding s_def by blast
  then have same: "same_message (CP_Publish p) (CP_Publish q)" using with_dup_same [of p] by (elim disjE) simp_all
  have "store_wf (holds s)"
    using assms(1) store_wf_same [of "holds (cl_persist c)" key, OF _ assms(2) same] by (simp add: session_inv_def q(2))
  moreover have "stored_ids (holds s) = stored_ids (holds (cl_persist c))"
    using assms(2) by (auto simp: stored_ids_def q(2))
  ultimately have "sinv (c\<lparr>cl_persist := s\<rparr>)" using assms(1) q(1) by (simp add: session_inv_def)
  moreover have "kept {} c (c\<lparr>cl_persist := s\<rparr>)" using assms(2) same by (auto simp: keeps_publications_def q(2))
  ultimately show ?thesis by (simp add: s_def)
qed

lemma select_stop_session:
  assumes "goes_on {} c c1" "\<And>c. quiet c (put c)" "select_stop b put c1 = Some (c', ex)"
  shows "goes_on {} c c'"
proof (cases b)
  case False
  then have "c' = put c1" using assms(3) by (simp add: select_stop_def)
  then show ?thesis using goes_on_quiet [OF assms(1) assms(2)] by simp
qed (use assms in \<open>simp add: select_stop_def\<close>)

text \<open>A message that is resent with a token of its own.\<close>

lemma resend_session:
  assumes "sinv c" "alloc_token k c = (c1, token)" "\<And>t. is_sub_token (f t) = is_sub_token t"
    "is_sub_token (the (newToken k)) \<Longrightarrow> o_ResumeSubs (cl_options c)"
  shows "goes_on {} c (on_mids (\<lambda>m. claimID m token mid) (upd_token f token c1))"
proof -
  note a = alloc_session [OF assms(1,2)]
  have q: "quiet c (upd_token f token c1)" using quiet_trans [OF a(2) quiet_upd_token] assms(3) by blast
  have t: "gm_get (tokens (mids (upd_token f token c1))) token = Some (f (the (newToken k)))"
    using a(3) by (simp add: upd_token_def gm_get_on_token)
  have "goes_on {} (upd_token f token c1) (on_mids (\<lambda>m. claimID m token mid) (upd_token f token c1))"
    if "sinv (upd_token f token c1)"
    by (rule claim_session [OF that t]) (use assms(3,4) a(6) in \<open>simp add: upd_token_def\<close>)
  then show ?thesis by (rule quiet_then_goes_on [OF q assms(1)])
qed

lemma resume_publish_session:
  assumes "sinv c" "holds (cl_persist c) key = Some (CP_Publish p)" "resume_publish S b key p c = Some (c', ex)"
  shows "goes_on {} c c'"
proof -
  define c0 where "c0 = (if Qos p \<noteq> 0
    then c\<lparr>cl_persist := Store_poke S (cl_persist c) key (CP_Publish (with_dup p))\<rparr> else c)"
  have g0: "goes_on {} c c0" using poke_session [OF assms(1,2)] assms(1) by (auto simp: c0_def kept_refl)
  obtain c1 token where al: "alloc_token Publish c0 = (c1, token)" by fastforce
  have g: "goes_on {} c0 (on_mids (\<lambda>m. claimID m token (MessageID p)) (upd_token (set_messageID (MessageID p)) token c1))"
    by (rule resend_session [OF g0 [THEN conjunct1] al]) simp_all
  have "goes_on {} c0 c'"
    using assms(3) unfolding resume_publish_def c0_def [symmetric] Let_def al prod.case
    by (rule select_stop_session [OF g quiet_fields(2)])
  then show ?thesis using g0 goes_on_trans [where X = "{}" and Y = "{}" and a = c and b = c0 and d = c'] by simp
qed

lemma resume_key_session:
  assumes "sinv c" "mIDFromKey key \<noteq> None"
    "resume_key S (o_ResumeSubs (cl_options c)) b key c = Some (c', ex)"
  shows "goes_on {} c c'"
proof (cases "holds (cl_persist c) key")
  case None
  then show ?thesis
    using assms get_law [of "cl_persist c" key] by (auto simp: resume_key_def session_inv_def kept_refl)
next
  case (Some p)
  have get: "Store_Get S (cl_persist c) key = Some (cl_persist c, Some p)"
    using assms(1,2) get_law [of "cl_persist c" key] Some by (simp add: session_inv_def)
  have disc: "goes_on {} c c'" if "\<And>q. p \<noteq> CP_Publish q" "drop_stored S key c = Some c'"
    by (rule drop_stored_session [OF assms(1,2) _ that(2)]) (use that(1) Some in auto)
  from assms(1) Some consider
    "key = outboundKeyFromMID (packet_id p)" "opens_sent p" | "key = inboundKeyFromMID (packet_id p)" "opens_received p"
    by (auto simp: session_inv_def store_wf_def)
  then show ?thesis
  proof cases
    case 1
    have out: "isKeyOutbound key = Some True" unfolding 1(1) by (rule isKeyOutbound_keys)
    have res: "(case p of CP_Subscribe sp \<Rightarrow> if o_ResumeSubs (cl_options c) then resume_subscribe b sp c
            else map_option (\<lambda>c2. (c2, False)) (drop_stored S key c)
        | CP_Unsubscribe up \<Rightarrow> if o_ResumeSubs (cl_options c) then resume_unsubscribe b up c
            else map_option (\<lambda>c2. (c2, False)) (drop_stored S key c)
        | CP_Pubrel pr \<Rightarrow> resume_pubrel b pr c | CP_Publish pp \<Rightarrow> resume_publish S b key pp c
        | _ \<Rightarrow> map_option (\<lambda>c2. (c2, False)) (drop_stored S key c)) = Some (c', ex)"
      using assms(3) unfolding resume_key_def get option.case prod.case Let_def persist_self out bool.case .
    show ?thesis
    proof (cases p)
      case (CP_Publish pp)
      then show ?thesis using res resume_publish_session [OF assms(1)] Some by simp
    next
      case (CP_Pubrel pr)
      have "goes_on {} c c" using assms(1) by (simp add: kept_refl)
      moreover have "resume_pubrel b pr c = Some (c', ex)" using res CP_Pubrel by simp
      ultimately show ?thesis unfolding resume_pubrel_def by (rule select_stop_session [OF _ quiet_fields(3)])
    next
      case (CP_Subscribe sp)
      obtain c1 token where al: "alloc_token Subscribe c = (c1, token)" by fastforce
      have re: "goes_on {} c (on_mids (\<lambda>m. claimID m token (MessageID sp))
          (upd_token (\<lambda>t. append_subs (Topics sp) (set_messageID (MessageID sp) t)) token c1))"
        if "o_ResumeSubs (cl_options c)"
        by (rule resend_session [OF assms(1) al]) (use that in simp_all)
      have "goes_on {} c c'" if "o_ResumeSubs (cl_options c)" "resume_subscribe b sp c = Some (c', ex)"
        using that(2) unfolding resume_subscribe_def al prod.case
        by (rule select_stop_session [OF re [OF that(1)] quiet_fields(3)])
      then show ?thesis using CP_Subscribe res disc by (auto split: if_splits)
    next
      case (CP_Unsubscribe up)
      obtain c1 token where al: "alloc_token Unsubscribe c = (c1, token)" by fastforce
      have "goes_on {} c c1" using quiet_goes_on [OF assms(1)] alloc_session(2) [OF assms(1) al] by blast
      then have "goes_on {} c c'" if "resume_unsubscribe b up c = Some (c', ex)"
        using that unfolding resume_unsubscribe_def al prod.case by (rule select_stop_session [OF _ quiet_fields(3)])
      then show ?thesis using CP_Unsubscribe res disc by (auto split: if_splits)
    qed (use 1 in simp_all)
  next
    case 2
    have out: "isKeyOutbound key = Some False" unfolding 2(1) by (rule isKeyOutbound_keys)
    have res: "(case p of CP_Pubrel pr \<Rightarrow>
          select_stop b (\<lambda>c. c\<lparr>inboundFromStore := inboundFromStore c @ [p]\<rparr>) c
        | _ \<Rightarrow> map_option (\<lambda>c2. (c2, False)) (drop_stored S key c)) = Some (c', ex)"
      using assms(3) unfolding resume_key_def get option.case prod.case Let_def persist_self out bool.case .
    show ?thesis
    proof (cases p)
      case (CP_Pubrel pr)
      then have "c' = c \<or> c' = c\<lparr>inboundFromStore := inboundFromStore c @ [p]\<rparr>"
        using res by (auto simp: select_stop_def split: if_splits)
      then show ?thesis using assms(1) CP_Pubrel by (auto simp: session_inv_def kept_refl)
    next
      case (CP_Publish pp)
      then have "drop_stored S key c = Some c'" using res by auto
      then show ?thesis using drop_stored_session [OF assms(1,2)] 2 by simp
    qed (use 2 in simp_all)
  qed
qed

lemma conn_lost_session:
  assumes "sinv c"
  shows "goes_on {} c (conn_lost c)"
proof -
  define c1 where "c1 = (if \<not> o_ResumeSubs (cl_options c) then on_mids cleanUpSubscribe c else c)"
  have ok: "mids_ok (mids c)" using assms by (simp add: session_inv_def)
  have re: "conn_lost c = spawn (ReconnectTry (1 * Second)) (setConnected cs_reconnecting c1)"
    using assms by (simp add: conn_lost_def session_inv_def c1_def Let_def)
  have "sinv c1" using assms cleanUpSubscribe_mids [OF ok] by (auto simp: session_inv_def on_mids_def c1_def)
  moreover have "cl_persist c1 = cl_persist c" by (simp add: c1_def on_mids_def)
  ultimately have "goes_on {} c c1" by (simp add: kept_refl)
  moreover have "quiet c1 (conn_lost c)" by (auto simp: re quiet_def spawn_def setConnected_def)
  ultimately show ?thesis by (rule goes_on_quiet)
qed

lemma spawn_keys_session:
  assumes "sinv c"
  shows "quiet c (spawn (ReconnectResume (Store_All S (cl_persist c))) c)"
proof -
  have "set (Store_All S (cl_persist c)) = dom (holds (cl_persist c))" "store_wf (holds (cl_persist c))"
    using all_law [of "cl_persist c"] assms by (simp_all add: session_inv_def)
  then show ?thesis using store_wf_key by (intro quiet_spawn) (auto simp: domIff)
qed

lemma run_job_session:
  assumes "sinv c" "session_job j" "run_job S net now choice j c = Some c'"
  shows "goes_on {} c c'"
proof (cases j)
  case (LostWait e)
  then have "c' = conn_lost (c\<lparr>commsAlive := False\<rparr>)" using assms(3) by simp
  then show ?thesis using quiet_then_goes_on [OF quiet_fields(13) assms(1)] conn_lost_session by blast
next
  case (ReconnectTry d)
  obtain a c1 where tc: "try_connect net c = (a, c1)" by fastforce
  then have "quiet c1 c'" using assms(3) ReconnectTry by auto
  then show ?thesis using quiet_goes_on [OF assms(1) quiet_trans [OF quiet_try_connect [OF tc]]] by blast
next
  case (ReconnectStart conn b)
  obtain c1 st where sc: "startCommsWorkers now conn b c = Some (c1, st)"
    using assms(3) ReconnectStart by auto
  then have "quiet c1 c'" using assms(3) ReconnectStart by auto
  then show ?thesis using quiet_goes_on [OF assms(1) quiet_trans [OF quiet_startCommsWorkers [OF sc]]] by blast
next
  case ReconnectUp
  then show ?thesis using assms quiet_goes_on [OF assms(1) spawn_keys_session [OF assms(1)]] by simp
next
  case (ReconnectResume keys)
  show ?thesis
  proof (cases keys)
    case Nil
    then show ?thesis using assms(1,3) ReconnectResume by (simp add: kept_refl)
  next
    case (Cons k ks)
    then obtain c1 ex where c1: "resume_key S (o_ResumeSubs (cl_options c)) choice k c = Some (c1, ex)"
      "c' = (if ex then c1 else spawn (ReconnectResume ks) c1)"
      using assms(3) ReconnectResume by auto
    have ks: "mIDFromKey k \<noteq> None" "session_job (ReconnectResume ks)" using assms(2) ReconnectResume Cons by simp_all
    have "quiet c1 c'" unfolding c1(2) using quiet_spawn [OF ks(2), of c1] by simp
    then show ?thesis using goes_on_quiet [OF resume_key_session [OF assms(1) ks(1) c1(1)]] by blast
  qed
qed (use assms quiet_goes_on [OF assms(1), of _ "{}"] in \<open>auto simp: kept_refl\<close>)

lemma step_session:
  assumes "client_step S net acks (now, e) c c'" "sinv c" "session_event storable e"
  shows "goes_on (event_closes e) c c'"
  using assms(1)
proof (cases rule: client_step.cases)
  case (Publishing topic qos retained payload t)
  then show ?thesis using Publish_session [OF assms(2), of payload qos topic retained now] assms(3)
    by (auto simp: session_event_def event_closes_def)
next
  case (Subscribing topic qos cb t)
  then show ?thesis using Subscribe_session [OF assms(2), of topic qos now cb] assms(3)
    by (auto simp: session_event_def event_closes_def)
next
  case (SubscribingMultiple filters cb t)
  then show ?thesis using SubscribeMultiple_session [OF assms(2), of filters now cb] assms(3)
    by (auto simp: session_event_def event_closes_def)
next
  case (Unsubscribing topics t)
  then show ?thesis using Unsubscribe_session [OF assms(2), of topics now] assms(3)
    by (auto simp: session_event_def event_closes_def)
next
  case (Receiving p)
  then show ?thesis using incoming_session [OF assms(2), of p now c'] assms(3)
    by (auto simp: session_event_def event_closes_def)
next
  case (Running i choice)
  let ?c = "c\<lparr>jobs := remove_at i (jobs c)\<rparr>"
  have "session_job (jobs c ! i)" using assms(2) Running(2) by (simp add: session_inv_def)
  then have "goes_on {} ?c c'" if "sinv ?c" using that run_job_session Running(4) by blast
  then show ?thesis
    using quiet_then_goes_on [OF quiet_remove_job assms(2)] Running(1) by (auto simp: event_closes_def)
next
  case (Replaying)
  then show ?thesis using from_store_session [OF assms(2), of now c'] by (simp add: event_closes_def)
next
  case (Dispatching hs)
  then show ?thesis using dispatch_session [OF assms(2), of acks now hs c'] by (simp add: event_closes_def)
qed (use assms(3) quiet_goes_on [OF assms(2) quiet_step [OF assms(1)], of "event_closes e"]
  in \<open>simp_all add: session_event_def quiet_event_def\<close>)

lemma run_session:
  assumes "client_steps S net acks es c c'" "sinv c" "\<forall>(now, e) \<in> set es. session_event storable e"
  shows "goes_on (\<Union>(now, e) \<in> set es. event_closes e) c c'"
  using assms
proof (induction rule: client_steps.induct)
  case (NoStep c)
  then show ?case by (simp add: kept_refl)
next
  case (OneStep e c c1 es c2)
  obtain now ev where e: "e = (now, ev)" by (cases e)
  have "session_event storable ev" using OneStep.prems(2) e by simp
  then have g: "goes_on (event_closes ev) c c1"
    using step_session OneStep.hyps(1) OneStep.prems(1) unfolding e by blast
  with OneStep have "goes_on (\<Union>(now, e) \<in> set es. event_closes e) c1 c2" by auto
  from goes_on_trans [OF g this] show ?case by (simp add: e)
qed

end

section \<open>The three stores as a client uses them\<close>

definition MemoryStore_ops :: "MemoryStore Store" where
  "MemoryStore_ops =
     \<lparr>Store_Open = MemoryStore_Open, Store_Put = (\<lambda>t s k p. Some (MemoryStore_Put s k p)),
      Store_Get = (\<lambda>s k. map_option (Pair s) (MemoryStore_Get s k)), Store_All = MemoryStore_All,
      Store_Del = MemoryStore_Del, Store_Close = MemoryStore_Close, Store_Reset = MemoryStore_Reset,
      Store_poke = (\<lambda>s k p. s\<lparr>ms_messages := gm_put k (Some p) (ms_messages s)\<rparr>)\<rparr>"

definition OrderedMemoryStore_ops :: "OrderedMemoryStore Store" where
  "OrderedMemoryStore_ops =
     \<lparr>Store_Open = OrderedMemoryStore_Open, Store_Put = (\<lambda>t s k p. Some (OrderedMemoryStore_Put t s k p)),
      Store_Get = (\<lambda>s k. map_option (Pair s) (OrderedMemoryStore_Get s k)), Store_All = OrderedMemoryStore_All,
      Store_Del = OrderedMemoryStore_Del, Store_Close = OrderedMemoryStore_Close,
      Store_Reset = OrderedMemoryStore_Reset,
      Store_poke = (\<lambda>s k p. case gm_get (oms_messages s) k of
        None \<Rightarrow> s | Some v \<Rightarrow> s\<lparr>oms_messages := gm_put k (v\<lparr>sm_msg := Some p\<rparr>) (oms_messages s)\<rparr>)\<rparr>"

text \<open>\<open>cwd\<close> is the working directory.\<close>

definition FileStore_ops :: "string \<Rightarrow> FileStore Store" where
  "FileStore_ops cwd =
     \<lparr>Store_Open = FileStore_Open cwd, Store_Put = FileStore_Put,
      Store_Get = (\<lambda>s k. Some (FileStore_Get s k)), Store_All = FileStore_All,
      Store_Del = (\<lambda>s k. Some (FileStore_Del s k)), Store_Close = FileStore_Close, Store_Reset = FileStore_Reset,
      Store_poke = (\<lambda>s k p. s)\<rparr>"

interpretation mem_client: client_store ms_ok ms_holds "\<lambda>_. True" "\<lambda>p. p" MemoryStore_ops
proof (unfold_locales, goal_cases)
  case (1 s p t k)
  then show ?case using mem_store.put_law by (simp add: MemoryStore_ops_def)
next
  case (2 s k)
  then show ?case using mem_store.del_law by (simp add: MemoryStore_ops_def)
next
  case (3 s k)
  then show ?case using mem_store.get_law by (simp add: MemoryStore_ops_def)
next
  case (4 s)
  then show ?case using mem_store.all_law by (simp add: MemoryStore_ops_def)
next
  case (5 p)
  then show ?case by (intro same_message_refl) simp
next
  case (6 s k m)
  then show ?case by (auto simp: MemoryStore_ops_def ms_ok_def ms_holds_def fun_eq_iff)
qed

interpretation ordered_client: client_store oms_ok oms_holds "\<lambda>_. True" "\<lambda>p. p" OrderedMemoryStore_ops
proof (unfold_locales, goal_cases)
  case (1 s p t k)
  then show ?case using ordered_store.put_law by (simp add: OrderedMemoryStore_ops_def)
next
  case (2 s k)
  then show ?case using ordered_store.del_law by (simp add: OrderedMemoryStore_ops_def)
next
  case (3 s k)
  then show ?case using ordered_store.get_law by (simp add: OrderedMemoryStore_ops_def)
next
  case (4 s)
  then show ?case using ordered_store.all_law by (simp add: OrderedMemoryStore_ops_def)
next
  case (5 p)
  then show ?case by (intro same_message_refl) simp
next
  case (6 s k m)
  then obtain v where "gm_get (oms_messages s) k = Some v" by (auto simp: oms_holds_def bind_eq_Some_conv)
  with 6 show ?case by (auto simp: OrderedMemoryStore_ops_def oms_ok_def oms_holds_def fun_eq_iff)
qed

lemma read_from_file_same:
  assumes "packet_wf p" "opens_sent p \<or> opens_received p"
  shows "same_message p (read_from_file p)"
  using assms by (cases p) (auto simp: read_from_file_def PublishPacket_Write_def PubrelPacket_Write_def
      SubscribePacket_Write_def UnsubscribePacket_Write_def Let_def split: option.split dest: subscribe_body_Some)

interpretation file_client: client_store fs_ok fs_holds packet_wf read_from_file "FileStore_ops cwd" for cwd
proof (unfold_locales, goal_cases)
  case (1 s p t k)
  then show ?case using file_store.put_law by (simp add: FileStore_ops_def)
next
  case (2 s k)
  then show ?case using file_store.del_law by (simp add: FileStore_ops_def)
next
  case (3 s k)
  then show ?case using file_store.get_law by (simp add: FileStore_ops_def)
next
  case (4 s)
  then show ?case using file_store.all_law by (simp add: FileStore_ops_def)
next
  case (5 p)
  then show ?case by (rule read_from_file_same)
next
  case (6 s k m)
  then show ?case by (intro exI [of _ m]) (auto simp: FileStore_ops_def fun_upd_idem)
qed

end
