(* ===== verification/MqttResume.thy ===== *)
theory MqttResume
  imports MqttSession
begin

text \<open>
  What \<open>resume\<close> does with the stored messages when a connection is up: which packets it hands to the
  comms routines and in which order, what it leaves in the store, and what happens to the tokens.
\<close>

section \<open>The packets resume hands out\<close>

text \<open>For a store that holds \<open>h\<close>: the packet a key gives on each of the three channels.\<close>

definition resend_publish :: "(string \<Rightarrow> ControlPacket option) \<Rightarrow> string \<Rightarrow> ControlPacket list" where
  "resend_publish h k =
     (case h k of
        Some (CP_Publish p) \<Rightarrow> if isKeyOutbound k = Some True then [CP_Publish (with_dup p)] else []
      | _ \<Rightarrow> [])"

definition resend_priority :: "bool \<Rightarrow> (string \<Rightarrow> ControlPacket option) \<Rightarrow> string \<Rightarrow> ControlPacket list" where
  "resend_priority sub h k =
     (if isKeyOutbound k = Some True then
        (case h k of
           Some (CP_Subscribe p) \<Rightarrow> if sub then [CP_Subscribe p] else []
         | Some (CP_Unsubscribe p) \<Rightarrow> if sub then [CP_Unsubscribe p] else []
         | Some (CP_Pubrel p) \<Rightarrow> [CP_Pubrel p]
         | _ \<Rightarrow> [])
      else [])"

definition replay :: "(string \<Rightarrow> ControlPacket option) \<Rightarrow> string \<Rightarrow> ControlPacket list" where
  "replay h k =
     (if isKeyOutbound k = Some False then (case h k of Some (CP_Pubrel p) \<Rightarrow> [CP_Pubrel p] | _ \<Rightarrow> []) else [])"

text \<open>What stays in the store.\<close>

definition resumable :: "bool \<Rightarrow> string \<Rightarrow> ControlPacket \<Rightarrow> bool" where
  "resumable sub k p =
     (case p of
        CP_Publish _ \<Rightarrow> isKeyOutbound k = Some True
      | CP_Pubrel _ \<Rightarrow> True
      | CP_Subscribe _ \<Rightarrow> sub
      | CP_Unsubscribe _ \<Rightarrow> sub
      | _ \<Rightarrow> False)"

section \<open>Tokens\<close>

text \<open>An identifier that waits for the acknowledgement of a publication.\<close>

definition pending :: "messageIds \<Rightarrow> uint16 \<Rightarrow> bool" where
  "pending m mid \<longleftrightarrow> (\<exists>a. gm_get (index m) mid = Some a \<and>
     gm_get (tokens m) a = Some \<lparr>tkind = PublishToken mid, complete = False, token_err = None\<rparr> \<and>
     (\<forall>mid'. gm_get (index m) mid' = Some a \<longrightarrow> mid' = mid))"

lemma pendingD:
  assumes "pending m mid" "gm_get (index m) mid = Some a"
  shows "gm_get (tokens m) a = Some \<lparr>tkind = PublishToken mid, complete = False, token_err = None\<rparr>"
proof -
  obtain b where "gm_get (index m) mid = Some b"
    "gm_get (tokens m) b = Some \<lparr>tkind = PublishToken mid, complete = False, token_err = None\<rparr>"
    using assms(1) unfolding pending_def by (elim exE conjE)
  then show ?thesis using assms(2) by simp
qed

text \<open>A call that was waiting for an identifier when another token takes it over is completed.\<close>

definition taken_over :: "messageIds \<Rightarrow> uint16 \<Rightarrow> messageIds \<Rightarrow> bool" where
  "taken_over m mid m' \<longleftrightarrow>
     (\<forall>b. gm_get (tokens m) b \<noteq> None \<longrightarrow> gm_get (tokens m') b =
        (if gm_get (index m) mid = Some b then map_option flowComplete (gm_get (tokens m) b)
         else gm_get (tokens m) b))"

lemma claimID_fields:
  "index (claimID m a mid) = gm_put mid a (index m)"
  "tokens (claimID m a mid) =
     (case gm_get (index m) mid of None \<Rightarrow> tokens m | Some old \<Rightarrow> on_token flowComplete old (tokens m))"
  by (simp_all add: claimID_def Let_def split: option.split)

lemma claim_fresh:
  fixes m :: messageIds
  assumes "mids_ok m" "a = new_ptr (tokens m)"
    "m' = claimID (m\<lparr>tokens := on_token f a (gm_put a t (tokens m))\<rparr>) a mid"
  shows "gm_get (index m') = (gm_get (index m))(mid \<mapsto> a)" "gm_get (tokens m') a = Some (f t)"
    "taken_over m mid m'" "gm_get (index m) x \<noteq> Some a"
proof -
  have fresh: "gm_get (tokens m) a = None" using new_ptr_fresh assms(2) by simp
  have na: "gm_get (index m) x \<noteq> Some a" for x using assms(1) fresh unfolding mids_ok_def by metis
  then show "gm_get (index m) x \<noteq> Some a" .
  show "gm_get (index m') = (gm_get (index m))(mid \<mapsto> a)"
    by (simp add: assms(3) claimID_fields fun_eq_iff)
  have tok: "gm_get (tokens m') b = (if gm_get (index m) mid = Some b \<and> b \<noteq> a
      then map_option flowComplete (gm_get (tokens m) b) else if b = a then Some (f t) else gm_get (tokens m) b)" for b
    using na [of mid] by (cases "gm_get (index m) mid") (auto simp: assms(3) claimID_fields gm_get_on_token)
  then show "gm_get (tokens m') a = Some (f t)" by simp
  show "taken_over m mid m'" unfolding taken_over_def tok using na [of mid] fresh by auto
qed

lemma fresh_claim_mids:
  assumes "mids_ok m" "a = new_ptr (tokens m)"
    "m' = claimID (m\<lparr>tokens := on_token f a (gm_put a t (tokens m))\<rparr>) a mid"
    "is_sub_token (f t) = is_sub_token t"
  shows "mids_ok m'" "used_ids m' = insert mid (used_ids m)"
    "sub_ids m' = (if is_sub_token t then insert mid (sub_ids m) else sub_ids m - {mid})"
proof -
  let ?m1 = "m\<lparr>tokens := gm_put a t (tokens m)\<rparr>"
  let ?m2 = "m\<lparr>tokens := on_token f a (gm_put a t (tokens m))\<rparr>"
  have "same_ids m ?m1" using alloc_same_ids [OF assms(1) new_ptr_fresh] assms(2) by simp
  moreover have "same_ids ?m1 ?m2" using on_token_same_ids [of ?m1 a f] assms(4) by simp
  ultimately have s: "same_ids m ?m2" by (rule same_ids_trans)
  have t: "gm_get (tokens ?m2) a = Some (f t)" by (simp add: gm_get_on_token)
  have ok: "mids_ok ?m2" using s assms(1) by (simp add: same_ids_def)
  show "mids_ok m'" "used_ids m' = insert mid (used_ids m)"
    "sub_ids m' = (if is_sub_token t then insert mid (sub_ids m) else sub_ids m - {mid})"
    unfolding assms(3) claimID_mids [OF ok t] using s assms(4) by (simp_all add: same_ids_def claimID_mids(3) [OF ok t])
qed

lemma pending_claim:
  assumes "mids_ok m" "a = new_ptr (tokens m)"
    "m' = claimID (m\<lparr>tokens := on_token f a (gm_put a t (tokens m))\<rparr>) a mid" "pending m x" "x \<noteq> mid"
  shows "pending m' x"
proof -
  note c = claim_fresh [OF assms(1-3)]
  obtain b where b: "gm_get (index m) x = Some b"
    "gm_get (tokens m) b = Some \<lparr>tkind = PublishToken x, complete = False, token_err = None\<rparr>"
    "\<forall>mid'. gm_get (index m) mid' = Some b \<longrightarrow> mid' = x" using assms(4) unfolding pending_def by blast
  then have "gm_get (index m) mid \<noteq> Some b" using assms(5) by blast
  then have "gm_get (tokens m') b = gm_get (tokens m) b" using c(3) b(2) by (simp add: taken_over_def)
  moreover have ba: "b \<noteq> a" using b(1) c(4) [of x] by blast
  have "y = x" if "((gm_get (index m))(mid \<mapsto> a)) y = Some b" for y
    using that ba b(3) by (cases "y = mid") (simp, metis fun_upd_other)
  ultimately show ?thesis
    unfolding pending_def c(1) using b(1,2) assms(5) by (metis fun_upd_other)
qed

lemma pending_alloc:
  assumes "mids_ok m" "a = new_ptr (tokens m)" "pending m x"
  shows "pending (m\<lparr>tokens := gm_put a t (tokens m)\<rparr>) x"
proof -
  obtain b where b: "gm_get (index m) x = Some b"
    "gm_get (tokens m) b = Some \<lparr>tkind = PublishToken x, complete = False, token_err = None\<rparr>"
    "\<forall>mid'. gm_get (index m) mid' = Some b \<longrightarrow> mid' = x" using assms(3) unfolding pending_def by blast
  have "b \<noteq> a" using b(2) new_ptr_fresh [of "tokens m"] assms(2) by auto
  then have t: "gm_get (tokens (m\<lparr>tokens := gm_put a t (tokens m)\<rparr>)) b = gm_get (tokens m) b" by simp
  have i: "index (m\<lparr>tokens := gm_put a t (tokens m)\<rparr>) = index m" by simp
  show ?thesis unfolding pending_def i using b(1) t [unfolded b(2)] b(3) by blast
qed

lemma resend_fields:
  assumes "alloc_token k c = (c1, token)"
  shows "token = new_ptr (tokens (mids c)) \<and>
    on_mids (\<lambda>m. claimID m token mid) (upd_token f token c1) = c\<lparr>mids :=
      claimID ((mids c)\<lparr>tokens := on_token f token (gm_put token (the (newToken k)) (tokens (mids c)))\<rparr>) token mid\<rparr>"
  using assms by (auto simp: alloc_token_def upd_token_def on_mids_def Let_def)

lemma store_wf_direction:
  assumes "store_wf h" "h k = Some p"
  shows "isKeyOutbound k = Some True \<Longrightarrow> k = outboundKeyFromMID (packet_id p) \<and> opens_sent p"
    "isKeyOutbound k \<noteq> Some True \<Longrightarrow> isKeyOutbound k = Some False \<and> k = inboundKeyFromMID (packet_id p) \<and> opens_received p"
proof -
  have "k = outboundKeyFromMID (packet_id p) \<and> opens_sent p \<or> k = inboundKeyFromMID (packet_id p) \<and> opens_received p"
    using assms unfolding store_wf_def by blast
  then show "isKeyOutbound k = Some True \<Longrightarrow> k = outboundKeyFromMID (packet_id p) \<and> opens_sent p"
    "isKeyOutbound k \<noteq> Some True \<Longrightarrow> isKeyOutbound k = Some False \<and> k = inboundKeyFromMID (packet_id p) \<and> opens_received p"
    by auto
qed

section \<open>One key\<close>

context client_store
begin

text \<open>The stored message of a key after \<open>resume\<close> has dealt with it.\<close>

definition after_resume :: "bool \<Rightarrow> string \<Rightarrow> ControlPacket option \<Rightarrow> ControlPacket option \<Rightarrow> bool" where
  "after_resume sub key x y =
     (case x of
        None \<Rightarrow> y = None
      | Some p \<Rightarrow> if resumable sub key p then (\<exists>q. y = Some q \<and> same_message p q) else y = None)"

definition key_effect :: "bool \<Rightarrow> string \<Rightarrow> ('s, 'h) client \<Rightarrow> ('s, 'h) client \<Rightarrow> bool" where
  "key_effect sub key c c1 \<longleftrightarrow>
     ok (cl_persist c1) \<and> store_wf (holds (cl_persist c1)) \<and> mids_ok (mids c1) \<and>
     map fst (obound c1) = map fst (obound c) @ resend_publish (holds (cl_persist c)) key \<and>
     map fst (oboundP c1) = map fst (oboundP c) @ resend_priority sub (holds (cl_persist c)) key \<and>
     inboundFromStore c1 = inboundFromStore c @ replay (holds (cl_persist c)) key \<and>
     (\<forall>k. k \<noteq> key \<longrightarrow> holds (cl_persist c1) k = holds (cl_persist c) k) \<and>
     after_resume sub key (holds (cl_persist c) key) (holds (cl_persist c1) key) \<and>
     (\<forall>x. pending (mids c) x \<longrightarrow> outboundKeyFromMID x \<noteq> key \<longrightarrow> pending (mids c1) x) \<and>
     (\<forall>p. holds (cl_persist c) key = Some (CP_Publish p) \<longrightarrow> isKeyOutbound key = Some True \<longrightarrow>
        pending (mids c1) (MessageID p)) \<and>
     used_ids (mids c) \<subseteq> used_ids (mids c1) \<and> (\<not> sub \<longrightarrow> sub_ids (mids c1) \<subseteq> sub_ids (mids c)) \<and>
     (\<forall>p. holds (cl_persist c) key = Some (CP_Subscribe p) \<longrightarrow> sub \<longrightarrow> MessageID p \<in> used_ids (mids c1))"

lemma drop_stored_effect:
  assumes "ok (cl_persist c)" "store_wf (holds (cl_persist c))" "mids_ok (mids c)" "mIDFromKey key \<noteq> None"
    "holds (cl_persist c) key = Some p" "\<not> resumable sub key p"
  shows "\<exists>c1. drop_stored S key c = Some c1 \<and> key_effect sub key c c1"
proof -
  obtain s where s: "Store_Del S (cl_persist c) key = Some s" "ok s" "holds s = (holds (cl_persist c))(key := None)"
    using del_law [OF assms(1,4)] by auto
  have "resend_publish (holds (cl_persist c)) key = []" "resend_priority sub (holds (cl_persist c)) key = []"
    "replay (holds (cl_persist c)) key = []"
    using assms(5,6) by (cases p; auto simp: resend_publish_def resend_priority_def replay_def resumable_def)+
  then have "key_effect sub key c (c\<lparr>cl_persist := s\<rparr>)"
    using assms s store_wf_upd(1) by (auto simp: key_effect_def after_resume_def resumable_def)
  then show ?thesis using s by (simp add: drop_stored_def)
qed

lemma resume_publish_effect:
  assumes "ok (cl_persist c)" "store_wf (holds (cl_persist c))" "mids_ok (mids c)"
    "holds (cl_persist c) key = Some (CP_Publish p)" "isKeyOutbound key = Some True"
  shows "\<exists>c1. resume_publish S False key p c = Some (c1, False) \<and> key_effect sub key c c1 \<and>
    taken_over (mids c) (MessageID p) (mids c1)"
proof -
  define s where "s = (if Qos p \<noteq> 0 then Store_poke S (cl_persist c) key (CP_Publish (with_dup p)) else cl_persist c)"
  define c0 where "c0 = (if Qos p \<noteq> 0
    then c\<lparr>cl_persist := Store_poke S (cl_persist c) key (CP_Publish (with_dup p))\<rparr> else c)"
  have c0: "c0 = c\<lparr>cl_persist := s\<rparr>" by (simp add: c0_def s_def)
  obtain q where q: "ok s" "holds s = (holds (cl_persist c))(key \<mapsto> CP_Publish q)" "q = p \<or> q = with_dup p"
  proof (cases "Qos p = 0")
    case True
    then show thesis using that [of p] assms(1,4) by (simp add: s_def fun_upd_idem)
  next
    case False
    then show thesis using that poke_law [OF assms(1,4)] by (auto simp: s_def)
  qed
  have same: "same_message (CP_Publish p) (CP_Publish q)" using q(3) with_dup_same [of p] by (elim disjE) simp_all
  have wf: "store_wf (holds s)" unfolding q(2) by (rule store_wf_same [OF assms(2,4) same])
  obtain c1 token where al: "alloc_token Publish c0 = (c1, token)" by fastforce
  define m where "m = claimID ((mids c)\<lparr>tokens := on_token (set_messageID (MessageID p)) token
      (gm_put token (the (newToken Publish)) (tokens (mids c)))\<rparr>) token (MessageID p)"
  have tk: "token = new_ptr (tokens (mids c))" using resend_fields [OF al] by (simp add: c0)
  have rf: "on_mids (\<lambda>m. claimID m token (MessageID p)) (upd_token (set_messageID (MessageID p)) token c1) =
      c0\<lparr>mids := m\<rparr>" using resend_fields [OF al, THEN conjunct2, of "MessageID p" "set_messageID (MessageID p)"]
    by (simp add: c0 m_def)
  let ?c2 = "c0\<lparr>mids := m, obound := obound c0 @ [(CP_Publish (with_dup p), Some token)]\<rparr>"
  have run: "resume_publish S False key p c = Some (?c2, False)"
    unfolding resume_publish_def c0_def [symmetric] Let_def al prod.case rf by (simp add: select_stop_def)
  note cf = claim_fresh [OF assms(3) tk m_def]
  have key: "key = outboundKeyFromMID (MessageID p)"
    using store_wf_direction(1) [OF assms(2,4,5)] by simp
  note ids = fresh_claim_mids [OF assms(3) tk m_def, unfolded is_sub_newToken if_False if_True, simplified]
  have "pending m (MessageID p)"
    unfolding pending_def cf(1) using cf(2,4) by (auto simp: newToken_def set_messageID_def)
  moreover have "pending m x" if "pending (mids c) x" "outboundKeyFromMID x \<noteq> key" for x
    using pending_claim [OF assms(3) tk m_def that(1)] that(2) key by blast
  moreover have "resend_publish (holds (cl_persist c)) key = [CP_Publish (with_dup p)]"
    "resend_priority sub (holds (cl_persist c)) key = []" "replay (holds (cl_persist c)) key = []"
    using assms(4,5) by (simp_all add: resend_publish_def resend_priority_def replay_def)
  moreover have "after_resume sub key (Some (CP_Publish p)) (Some (CP_Publish q))"
    using same assms(5) by (simp add: after_resume_def resumable_def)
  ultimately have "key_effect sub key c ?c2"
    using ids q(1,2) wf assms(4) by (auto simp: key_effect_def c0)
  then show ?thesis using run cf(3) by (simp add: c0)
qed

lemma resume_subscribe_effect:
  assumes "ok (cl_persist c)" "store_wf (holds (cl_persist c))" "mids_ok (mids c)"
    "holds (cl_persist c) key = Some (CP_Subscribe p)" "isKeyOutbound key = Some True"
  shows "\<exists>c1. resume_subscribe False p c = Some (c1, False) \<and> key_effect True key c c1"
proof -
  obtain c1 token where al: "alloc_token Subscribe c = (c1, token)" by fastforce
  let ?f = "\<lambda>t. append_subs (Topics p) (set_messageID (MessageID p) t)"
  define m where "m = claimID ((mids c)\<lparr>tokens := on_token ?f token
      (gm_put token (the (newToken Subscribe)) (tokens (mids c)))\<rparr>) token (MessageID p)"
  have tk: "token = new_ptr (tokens (mids c))" using resend_fields [OF al] by simp
  have rf: "on_mids (\<lambda>m. claimID m token (MessageID p)) (upd_token ?f token c1) = c\<lparr>mids := m\<rparr>"
    using resend_fields [OF al, THEN conjunct2, of "MessageID p" ?f] by (simp add: m_def)
  let ?c2 = "c\<lparr>mids := m, oboundP := oboundP c @ [(CP_Subscribe p, Some token)]\<rparr>"
  have run: "resume_subscribe False p c = Some (?c2, False)"
    unfolding resume_subscribe_def al prod.case rf by (simp add: select_stop_def)
  have key: "key = outboundKeyFromMID (MessageID p)"
    using store_wf_direction(1) [OF assms(2,4,5)] by simp
  note ids = fresh_claim_mids [OF assms(3) tk m_def, unfolded is_sub_newToken if_False if_True, simplified]
  have "pending m x" if "pending (mids c) x" "outboundKeyFromMID x \<noteq> key" for x
    using pending_claim [OF assms(3) tk m_def that(1)] that(2) key by blast
  moreover have "resend_publish (holds (cl_persist c)) key = []"
    "resend_priority True (holds (cl_persist c)) key = [CP_Subscribe p]" "replay (holds (cl_persist c)) key = []"
    using assms(4,5) by (simp_all add: resend_publish_def resend_priority_def replay_def)
  ultimately have "key_effect True key c ?c2"
    using ids assms by (auto simp: key_effect_def after_resume_def resumable_def)
  then show ?thesis using run by blast
qed

lemma resume_unsubscribe_effect:
  assumes "ok (cl_persist c)" "store_wf (holds (cl_persist c))" "mids_ok (mids c)"
    "holds (cl_persist c) key = Some (CP_Unsubscribe p)" "isKeyOutbound key = Some True"
  shows "\<exists>c1. resume_unsubscribe False p c = Some (c1, False) \<and> key_effect True key c c1"
proof -
  let ?a = "new_ptr (tokens (mids c))"
  let ?m = "(mids c)\<lparr>tokens := gm_put ?a (the (newToken Unsubscribe)) (tokens (mids c))\<rparr>"
  let ?c2 = "c\<lparr>mids := ?m, oboundP := oboundP c @ [(CP_Unsubscribe p, Some ?a)]\<rparr>"
  have run: "resume_unsubscribe False p c = Some (?c2, False)"
    by (simp add: resume_unsubscribe_def alloc_token_def select_stop_def Let_def)
  have "mids_ok ?m" "used_ids ?m = used_ids (mids c)" "sub_ids ?m = sub_ids (mids c)"
    using alloc_same_ids [OF assms(3) new_ptr_fresh] assms(3) by (simp_all add: same_ids_def)
  moreover have "pending ?m x" if "pending (mids c) x" for x using pending_alloc [OF assms(3) refl that] .
  moreover have "resend_publish (holds (cl_persist c)) key = []"
    "resend_priority True (holds (cl_persist c)) key = [CP_Unsubscribe p]" "replay (holds (cl_persist c)) key = []"
    using assms(4,5) by (simp_all add: resend_publish_def resend_priority_def replay_def)
  ultimately have "key_effect True key c ?c2"
    using assms by (simp add: key_effect_def after_resume_def resumable_def)
  then show ?thesis using run by blast
qed

lemma resume_key_effect:
  assumes "ok (cl_persist c)" "store_wf (holds (cl_persist c))" "mids_ok (mids c)" "mIDFromKey key \<noteq> None"
  shows "\<exists>c1. resume_key S sub False key c = Some (c1, False) \<and> key_effect sub key c c1"
proof (cases "holds (cl_persist c) key")
  case None
  then have "key_effect sub key c c"
    using assms by (simp add: key_effect_def after_resume_def resend_publish_def resend_priority_def replay_def)
  then show ?thesis using None get_law [OF assms(1,4)] by (simp add: resume_key_def)
next
  case (Some p)
  have get: "Store_Get S (cl_persist c) key = Some (cl_persist c, Some p)" using get_law [OF assms(1,4)] Some by simp
  have disc: "\<exists>c1. map_option (\<lambda>c2. (c2, False)) (drop_stored S key c) = Some (c1, False) \<and> key_effect sub key c c1"
    if "\<not> resumable sub key p" using drop_stored_effect [OF assms Some that] by auto
  show ?thesis
  proof (cases "isKeyOutbound key = Some True")
    case True
    note out = store_wf_direction(1) [OF assms(2) Some True]
    have run: "resume_key S sub False key c = (case p of
          CP_Subscribe sp \<Rightarrow> if sub then resume_subscribe False sp c else map_option (\<lambda>c2. (c2, False)) (drop_stored S key c)
        | CP_Unsubscribe up \<Rightarrow> if sub then resume_unsubscribe False up c else map_option (\<lambda>c2. (c2, False)) (drop_stored S key c)
        | CP_Pubrel pr \<Rightarrow> resume_pubrel False pr c | CP_Publish pp \<Rightarrow> resume_publish S False key pp c
        | _ \<Rightarrow> map_option (\<lambda>c2. (c2, False)) (drop_stored S key c))"
      unfolding resume_key_def get option.case prod.case Let_def persist_self True bool.case ..
    show ?thesis
    proof (cases p)
      case (CP_Publish pp)
      then show ?thesis using resume_publish_effect [OF assms(1-3) _ True, of pp] Some run by auto
    next
      case (CP_Subscribe sp)
      then show ?thesis
        using resume_subscribe_effect [OF assms(1-3) _ True, of sp] Some run disc by (auto simp: resumable_def)
    next
      case (CP_Unsubscribe up)
      then show ?thesis
        using resume_unsubscribe_effect [OF assms(1-3) _ True, of up] Some run disc by (auto simp: resumable_def)
    next
      case (CP_Pubrel pr)
      then show ?thesis using assms Some True run
        by (simp add: resume_pubrel_def select_stop_def key_effect_def after_resume_def resumable_def
            resend_publish_def resend_priority_def replay_def)
    qed (use out in simp_all)
  next
    case False
    note inb = store_wf_direction(2) [OF assms(2) Some False]
    have run: "resume_key S sub False key c = (case p of CP_Pubrel pr \<Rightarrow>
          select_stop False (\<lambda>c. c\<lparr>inboundFromStore := inboundFromStore c @ [p]\<rparr>) c
        | _ \<Rightarrow> map_option (\<lambda>c2. (c2, False)) (drop_stored S key c))"
      unfolding resume_key_def get option.case prod.case Let_def persist_self inb [THEN conjunct1] bool.case ..
    show ?thesis
    proof (cases p)
      case (CP_Pubrel pr)
      then show ?thesis using assms Some inb run
        by (simp add: select_stop_def key_effect_def after_resume_def resumable_def
            resend_publish_def resend_priority_def replay_def)
    next
      case (CP_Publish pp)
      then show ?thesis using disc run False by (simp add: resumable_def)
    qed (use inb in simp_all)
  qed
qed

section \<open>All keys\<close>

lemma resume_loop_effect:
  assumes "ok (cl_persist c)" "store_wf (holds (cl_persist c))" "mids_ok (mids c)"
    "\<forall>k \<in> set keys. mIDFromKey k \<noteq> None" "distinct keys"
  shows "\<exists>c'. resume_loop S sub keys c = Some c' \<and>
    ok (cl_persist c') \<and> store_wf (holds (cl_persist c')) \<and> mids_ok (mids c') \<and>
    map fst (obound c') = map fst (obound c) @ concat (map (resend_publish (holds (cl_persist c))) keys) \<and>
    map fst (oboundP c') = map fst (oboundP c) @ concat (map (resend_priority sub (holds (cl_persist c))) keys) \<and>
    inboundFromStore c' = inboundFromStore c @ concat (map (replay (holds (cl_persist c))) keys) \<and>
    (\<forall>k. k \<notin> set keys \<longrightarrow> holds (cl_persist c') k = holds (cl_persist c) k) \<and>
    (\<forall>k \<in> set keys. after_resume sub k (holds (cl_persist c) k) (holds (cl_persist c') k)) \<and>
    (\<forall>x. pending (mids c) x \<longrightarrow> outboundKeyFromMID x \<notin> set keys \<longrightarrow> pending (mids c') x) \<and>
    (\<forall>k \<in> set keys. \<forall>p. holds (cl_persist c) k = Some (CP_Publish p) \<longrightarrow> isKeyOutbound k = Some True \<longrightarrow>
        pending (mids c') (MessageID p)) \<and>
    used_ids (mids c) \<subseteq> used_ids (mids c') \<and> (\<not> sub \<longrightarrow> sub_ids (mids c') \<subseteq> sub_ids (mids c)) \<and>
    (\<forall>k \<in> set keys. \<forall>p. holds (cl_persist c) k = Some (CP_Subscribe p) \<longrightarrow> sub \<longrightarrow> MessageID p \<in> used_ids (mids c'))"
  using assms
proof (induction keys arbitrary: c)
  case (Cons key keys)
  obtain c1 where c1: "resume_key S sub False key c = Some (c1, False)" "key_effect sub key c c1"
    using resume_key_effect [of c key sub] Cons.prems by auto
  have eq: "holds (cl_persist c1) k = holds (cl_persist c) k" if "k \<in> set keys" for k
    using c1(2) that Cons.prems(5) by (auto simp: key_effect_def)
  then have maps: "map (resend_publish (holds (cl_persist c1))) keys = map (resend_publish (holds (cl_persist c))) keys"
    "map (resend_priority sub (holds (cl_persist c1))) keys = map (resend_priority sub (holds (cl_persist c))) keys"
    "map (replay (holds (cl_persist c1))) keys = map (replay (holds (cl_persist c))) keys"
    by (simp_all add: resend_publish_def resend_priority_def replay_def)
  have pre: "ok (cl_persist c1)" "store_wf (holds (cl_persist c1))" "mids_ok (mids c1)"
    "\<forall>k \<in> set keys. mIDFromKey k \<noteq> None" "distinct keys"
    using c1(2) Cons.prems by (auto simp: key_effect_def)
  obtain c' where c': "resume_loop S sub keys c1 = Some c'" "ok (cl_persist c')" "store_wf (holds (cl_persist c'))"
      "mids_ok (mids c')"
      "map fst (obound c') = map fst (obound c1) @ concat (map (resend_publish (holds (cl_persist c))) keys)"
      "map fst (oboundP c') = map fst (oboundP c1) @ concat (map (resend_priority sub (holds (cl_persist c))) keys)"
      "inboundFromStore c' = inboundFromStore c1 @ concat (map (replay (holds (cl_persist c))) keys)"
      "\<forall>k. k \<notin> set keys \<longrightarrow> holds (cl_persist c') k = holds (cl_persist c1) k"
      "\<forall>k \<in> set keys. after_resume sub k (holds (cl_persist c1) k) (holds (cl_persist c') k)"
      "\<forall>x. pending (mids c1) x \<longrightarrow> outboundKeyFromMID x \<notin> set keys \<longrightarrow> pending (mids c') x"
      "\<forall>k \<in> set keys. \<forall>p. holds (cl_persist c1) k = Some (CP_Publish p) \<longrightarrow> isKeyOutbound k = Some True \<longrightarrow>
        pending (mids c') (MessageID p)"
      "used_ids (mids c1) \<subseteq> used_ids (mids c')" "\<not> sub \<longrightarrow> sub_ids (mids c') \<subseteq> sub_ids (mids c1)"
      "\<forall>k \<in> set keys. \<forall>p. holds (cl_persist c1) k = Some (CP_Subscribe p) \<longrightarrow> sub \<longrightarrow> MessageID p \<in> used_ids (mids c')"
    using Cons.IH [OF pre] unfolding maps by blast
  have "pending (mids c') (MessageID p)"
    if "holds (cl_persist c) key = Some (CP_Publish p)" "isKeyOutbound key = Some True" for p
  proof -
    have "pending (mids c1) (MessageID p)" using c1(2) that by (simp add: key_effect_def)
    moreover have "key = outboundKeyFromMID (MessageID p)"
      using store_wf_direction(1) [OF Cons.prems(2) that] by simp
    ultimately show ?thesis using c'(10) Cons.prems(5) by auto
  qed
  then show ?case
    using c1 c' eq Cons.prems(5) by (auto simp: key_effect_def)
qed simp

text \<open>The whole of \<open>resume\<close>, with the keys in the order \<open>All\<close> lists them.\<close>

lemma resume_effect:
  assumes "ok (cl_persist c)" "store_wf (holds (cl_persist c))" "mids_ok (mids c)"
  shows "\<exists>c'. resume S sub c = Some c' \<and> ok (cl_persist c') \<and> store_wf (holds (cl_persist c')) \<and> mids_ok (mids c') \<and>
    map fst (obound c') = map fst (obound c) @
      concat (map (resend_publish (holds (cl_persist c))) (Store_All S (cl_persist c))) \<and>
    map fst (oboundP c') = map fst (oboundP c) @
      concat (map (resend_priority sub (holds (cl_persist c))) (Store_All S (cl_persist c))) \<and>
    inboundFromStore c' = inboundFromStore c @
      concat (map (replay (holds (cl_persist c))) (Store_All S (cl_persist c))) \<and>
    (\<forall>k p. holds (cl_persist c) k = Some p \<longrightarrow>
       (if resumable sub k p then \<exists>q. holds (cl_persist c') k = Some q \<and> same_message p q
        else holds (cl_persist c') k = None)) \<and>
    (\<forall>mid p. holds (cl_persist c) (outboundKeyFromMID mid) = Some (CP_Publish p) \<longrightarrow> pending (mids c') mid) \<and>
    (\<forall>mid p. holds (cl_persist c) (outboundKeyFromMID mid) = Some (CP_Subscribe p) \<longrightarrow> sub \<longrightarrow> mid \<in> used_ids (mids c'))"
proof -
  let ?h = "holds (cl_persist c)" and ?keys = "Store_All S (cl_persist c)"
  have keys: "distinct ?keys" "set ?keys = dom ?h" using all_law [OF assms(1)] by simp_all
  then have "\<forall>k \<in> set ?keys. mIDFromKey k \<noteq> None" using store_wf_key [OF assms(2)] by (auto simp: domIff)
  then obtain c' where c': "resume_loop S sub ?keys c = Some c'"
      "ok (cl_persist c')" "store_wf (holds (cl_persist c'))" "mids_ok (mids c')"
      "map fst (obound c') = map fst (obound c) @ concat (map (resend_publish ?h) ?keys)"
      "map fst (oboundP c') = map fst (oboundP c) @ concat (map (resend_priority sub ?h) ?keys)"
      "inboundFromStore c' = inboundFromStore c @ concat (map (replay ?h) ?keys)"
      "\<forall>k \<in> set ?keys. after_resume sub k (?h k) (holds (cl_persist c') k)"
      "\<forall>k \<in> set ?keys. \<forall>p. ?h k = Some (CP_Publish p) \<longrightarrow> isKeyOutbound k = Some True \<longrightarrow> pending (mids c') (MessageID p)"
      "\<forall>k \<in> set ?keys. \<forall>p. ?h k = Some (CP_Subscribe p) \<longrightarrow> sub \<longrightarrow> MessageID p \<in> used_ids (mids c')"
    using resume_loop_effect [OF assms _ keys(1), of sub] by blast
  have id: "packet_id p = mid" if "?h (outboundKeyFromMID mid) = Some p" for mid p
    using store_wf_direction(1) [OF assms(2) that] by simp
  have "if resumable sub k p then \<exists>q. holds (cl_persist c') k = Some q \<and> same_message p q
      else holds (cl_persist c') k = None" if "?h k = Some p" for k p
  proof -
    have "k \<in> dom ?h" using that by blast
    from bspec [OF c'(8) [unfolded keys(2)] this] show ?thesis by (simp add: after_resume_def that)
  qed
  moreover have "pending (mids c') mid" if "?h (outboundKeyFromMID mid) = Some (CP_Publish p)" for mid p
    using c'(9) that id [OF that] unfolding keys(2) by fastforce
  moreover have "mid \<in> used_ids (mids c')" if "?h (outboundKeyFromMID mid) = Some (CP_Subscribe p)" sub for mid p
    using c'(10) that id [OF that(1)] unfolding keys(2) by fastforce
  ultimately show ?thesis using c'(1-7) unfolding resume_def by blast
qed

end

end
