(* ===== verification/MqttConnect.thy ===== *)
theory MqttConnect
  imports MqttSession
begin

text \<open>
  Connections of the MQTT client: what an attempt over the configured brokers gives, the CONNECT message
  as the broker reads it, the pauses of the reconnection loop and that it ends with a connection,
  the keepalive routine, and the routes that subscriptions leave in the router.
\<close>

section \<open>Attempts\<close>

text \<open>The broker accepts on the \<open>j\<close>-th connection.\<close>

definition accepts :: "net \<Rightarrow> nat \<Rightarrow> bool" where
  "accepts net j =
     (case net j of Inl e \<Rightarrow> False | Inr d \<Rightarrow> write_err d = None \<and> fst (verifyCONNACK (input d)) = Accepted)"

lemma verifyCONNACK_cases:
  "verifyCONNACK r = (rc, sp, e) \<Longrightarrow> e = None \<or> rc = ErrNetworkError"
  by (auto simp: verifyCONNACK_def split: prod.splits if_splits option.splits ControlPacket.splits)

lemma try_once_fields:
  "a_next (try_once net b cm a) = Suc (a_next a)" "a_version (try_once net b cm a) = a_version a"
  "a_rc (try_once net b cm a) = Accepted \<longleftrightarrow> accepts net (a_next a)"
  "accepts net (a_next a) \<Longrightarrow>
     a_conn (try_once net b cm a) = Some (a_next a) \<and> a_err (try_once net b cm a) = None"
proof -
  show "a_next (try_once net b cm a) = Suc (a_next a)" "a_version (try_once net b cm a) = a_version a"
    by (simp_all add: try_once_def split: sum.split prod.split)
  show "a_rc (try_once net b cm a) = Accepted \<longleftrightarrow> accepts net (a_next a)"
    by (auto simp: try_once_def accepts_def connectMQTT_def Let_def split: sum.split option.split prod.split)
  show "a_conn (try_once net b cm a) = Some (a_next a) \<and> a_err (try_once net b cm a) = None"
    if acc: "accepts net (a_next a)"
  proof -
    obtain d where d: "net (a_next a) = Inr d" "write_err d = None" "fst (verifyCONNACK (input d)) = Accepted"
      using acc by (auto simp: accepts_def split: sum.splits)
    then obtain sp e where v: "verifyCONNACK (input d) = (Accepted, sp, e)" by (cases "verifyCONNACK (input d)") auto
    from verifyCONNACK_cases [OF v] have "e = None" by simp
    then show ?thesis using d v by (simp add: try_once_def connectMQTT_def Let_def)
  qed
qed

text \<open>
  A run of attempts that took the client from \<open>a\<close> to \<open>a'\<close>: only the last one may have been accepted,
  and the fallback from version 4 to version 3 happened at most once.
\<close>

definition attempts_run :: "net \<Rightarrow> nat \<Rightarrow> attempt \<Rightarrow> attempt \<Rightarrow> bool" where
  "attempts_run net n a a' \<longleftrightarrow>
     a_next a < a_next a' \<and>
     a_next a' + (if a_version a' = 4 then 1 else 0) \<le> a_next a + n + (if a_version a = 4 then 1 else 0) \<and>
     (\<forall>j. a_next a \<le> j \<longrightarrow> Suc j < a_next a' \<longrightarrow> \<not> accepts net j) \<and>
     (a_rc a' = Accepted \<longleftrightarrow> accepts net (a_next a' - 1)) \<and>
     (a_rc a' = Accepted \<longrightarrow> a_conn a' = Some (a_next a' - 1) \<and> a_err a' = None)"

lemma try_broker_run: "attempts_run net 1 a (try_broker net opt b a)"
  by (auto simp: attempts_run_def try_broker_def Let_def try_once_fields less_Suc_eq)

lemma attempts_run_trans:
  assumes "attempts_run net m a a1" "attempts_run net n a1 a2" "\<not> (a_conn a1 \<noteq> None \<and> a_rc a1 = Accepted)"
  shows "attempts_run net (m + n) a a2"
proof -
  have na: "\<not> accepts net (a_next a1 - 1)" using assms(1,3) by (auto simp: attempts_run_def)
  have "\<not> accepts net j" if "a_next a \<le> j" "Suc j < a_next a2" for j
  proof (cases "a_next a1 \<le> j")
    case True
    then show ?thesis using assms(2) that by (simp add: attempts_run_def)
  next
    case False
    then have "Suc j < a_next a1 \<or> j = a_next a1 - 1" by auto
    then show ?thesis using assms(1) na that(1) by (auto simp: attempts_run_def)
  qed
  then show ?thesis using assms(1,2) by (auto simp: attempts_run_def split: if_splits)
qed

lemma try_brokers_run:
  "bs \<noteq> [] \<Longrightarrow> attempts_run net (length bs) a (try_brokers net opt bs a)"
proof (induction bs arbitrary: a)
  case (Cons b bs)
  let ?a1 = "try_broker net opt b a"
  note one = try_broker_run [of net a opt b]
  show ?case
  proof (cases "a_conn ?a1 \<noteq> None \<and> a_rc ?a1 = Accepted \<or> bs = []")
    case True
    then have "try_brokers net opt (b # bs) a = ?a1" by (auto simp: Let_def)
    then show ?thesis using one by (auto simp: attempts_run_def)
  next
    case False
    then have "attempts_run net (1 + length bs) a (try_brokers net opt bs ?a1)"
      using attempts_run_trans [OF one Cons.IH] by blast
    then show ?thesis using False by (auto simp: Let_def)
  qed
qed simp

lemma attempt_result:
  assumes "attemptConnection net i opt = (a, opt')" "o_Servers opt \<noteq> []"
  shows "i < a_next a \<and> a_next a \<le> i + length (o_Servers opt) + 1 \<and>
    (\<forall>j. i \<le> j \<longrightarrow> Suc j < a_next a \<longrightarrow> \<not> accepts net j) \<and>
    (a_rc a = Accepted \<longleftrightarrow> accepts net (a_next a - 1)) \<and>
    (a_rc a = Accepted \<longrightarrow> a_conn a = Some (a_next a - 1) \<and>
       opt' = opt\<lparr>o_ProtocolVersion := a_version a, o_protocolVersionExplicit := True\<rparr>) \<and>
    (a_rc a \<noteq> Accepted \<longrightarrow> opt' = opt) \<and>
    (a_err a = None \<longleftrightarrow> a_rc a \<notin> {1, 2, 3, 4, 5, ErrNetworkError, ErrProtocolViolation})"
proof -
  let ?a0 = "\<lparr>a_conn = None, a_rc = 0, a_session = False, a_err = None,
    a_version = o_ProtocolVersion opt, a_next = i, a_log = []\<rparr>"
  define b where "b = try_brokers net opt (o_Servers opt) ?a0"
  have run: "attempts_run net (length (o_Servers opt)) ?a0 b" unfolding b_def by (rule try_brokers_run [OF assms(2)])
  have tab: "Option.bind (gm_get ConnErrors rc) id = None \<longleftrightarrow> rc \<notin> {1, 2, 3, 4, 5, ErrNetworkError, ErrProtocolViolation}"
    for rc by (auto simp: ConnErrors_def)
  have "a_next a = a_next b \<and> a_rc a = a_rc b \<and> a_conn a = a_conn b \<and> a_version a = a_version b"
    "a_err a = None \<longleftrightarrow> (if a_rc b = Accepted then a_err b = None
       else Option.bind (gm_get ConnErrors (a_rc b)) id = None)"
    "opt' = (if a_rc b = Accepted then opt\<lparr>o_ProtocolVersion := a_version b, o_protocolVersionExplicit := True\<rparr> else opt)"
    using assms(1) tab [of ErrNetworkError] unfolding attemptConnection_def b_def [symmetric] Let_def
    by (auto split: if_splits)
  then show ?thesis using run tab [of "a_rc b"] unfolding attempts_run_def by (auto split: if_splits)
qed


text \<open>A broker that accepts, and one that answers with a reserved return code.\<close>

definition sample_dialed :: "byte \<Rightarrow> dialed" where
  "sample_dialed rc = \<lparr>write_err = None, input = [0x20, 2, 0, rc]\<rparr>"

definition sample_options :: "nat ClientOptions" where
  "sample_options = NewClientOptions\<lparr>o_Servers := [\<lparr>url_Host = ''h'', url_User = None\<rparr>], o_CleanSession := False,
     o_ProtocolVersion := 4\<rparr>"

lemma verifyCONNACK_sample:
  "verifyCONNACK (input (sample_dialed 0)) = (0, False, None)" "verifyCONNACK (input (sample_dialed 6)) = (6, False, None)"
  by code_simp+

lemma write_err_sample [simp]: "write_err (sample_dialed rc) = None"
  by (simp add: sample_dialed_def)

lemma sample_options_fields:
  "o_Servers sample_options = [\<lparr>url_Host = ''h'', url_User = None\<rparr>]" "o_KeepAlive sample_options = 30"
  "\<not> o_ConnectRetry sample_options" "keepalive_interval sample_options = 5 * Second"
  by (simp_all add: sample_options_def NewClientOptions_def keepalive_interval_def int64_def)


section \<open>The CONNECT message\<close>

text \<open>The credentials of a CONNECT message: those of the provider, else those of the address, else the options.\<close>

definition connect_credentials :: "'h ClientOptions \<Rightarrow> nat \<Rightarrow> url \<Rightarrow> string \<times> string" where
  "connect_credentials opt i broker =
     (case o_CredentialsProvider opt of
        Some f \<Rightarrow> f i
      | None \<Rightarrow> (case url_User broker of
          None \<Rightarrow> (o_Username opt, o_Password opt)
        | Some (u, pw) \<Rightarrow> (u, case pw of None \<Rightarrow> o_Password opt | Some pwd \<Rightarrow> pwd)))"

lemma new_connect_fields:
  assumes "m = newConnectMsgFromOptions opt i broker"
  shows "MessageType m = Connect" "Qos m = 0" "ReservedBit m = 0" "CleanSession m = o_CleanSession opt"
    "ClientIdentifier m = o_ClientID opt" "WillFlag m = o_WillEnabled opt" "Keepalive m = word_of_int (o_KeepAlive opt)"
    "WillQos m = (if o_WillEnabled opt then o_WillQos opt else 0)"
    "WillTopic m = (if o_WillEnabled opt then o_WillTopic opt else [])"
    "WillMessage m = (if o_WillEnabled opt then o_WillPayload opt else [])"
    "UsernameFlag m = (fst (connect_credentials opt i broker) \<noteq> [])" "Username m = fst (connect_credentials opt i broker)"
    "PasswordFlag m = (fst (connect_credentials opt i broker) \<noteq> [] \<and> snd (connect_credentials opt i broker) \<noteq> [])"
    "Password m = (if PasswordFlag m then bytes_of_string (snd (connect_credentials opt i broker)) else [])"
    "Other m = (case o_ClientInfo opt of Some info \<Rightarrow> if info = [] then None else Some info | None \<Rightarrow> None)"
proof -
  obtain u pw where up: "connect_credentials opt i broker = (u, pw)" by fastforce
  define m1 where "m1 = (let m0 = (new_ConnectPacket (zeroHeader Connect 0))
            \<lparr>CleanSession := o_CleanSession opt, WillFlag := o_WillEnabled opt,
             WillRetain := o_WillRetained opt, ClientIdentifier := o_ClientID opt\<rparr> in
          if o_WillEnabled opt
          then m0\<lparr>WillQos := o_WillQos opt, WillTopic := o_WillTopic opt, WillMessage := o_WillPayload opt\<rparr> else m0)"
  have m: "m = (let m2 = (if u \<noteq> [] then
                  (let m = m1\<lparr>UsernameFlag := True, Username := u\<rparr> in
                   if pw \<noteq> [] then m\<lparr>PasswordFlag := True, Password := bytes_of_string pw\<rparr> else m)
                else m1);
          m3 = (case o_ClientInfo opt of
                  None \<Rightarrow> m2
                | Some info \<Rightarrow> if length info > 0 then m2\<lparr>Other := Some info\<rparr> else m2)
      in m3\<lparr>Keepalive := word_of_int (o_KeepAlive opt)\<rparr>)"
    using up unfolding assms newConnectMsgFromOptions_def connect_credentials_def m1_def Let_def
    by (auto split: option.splits)
  have m1: "MessageType m1 = Connect" "Qos m1 = 0" "ReservedBit m1 = 0" "CleanSession m1 = o_CleanSession opt"
    "ClientIdentifier m1 = o_ClientID opt" "WillFlag m1 = o_WillEnabled opt"
    "WillQos m1 = (if o_WillEnabled opt then o_WillQos opt else 0)"
    "WillTopic m1 = (if o_WillEnabled opt then o_WillTopic opt else [])"
    "WillMessage m1 = (if o_WillEnabled opt then o_WillPayload opt else [])"
    "UsernameFlag m1 = False" "Username m1 = []" "PasswordFlag m1 = False" "Password m1 = []" "Other m1 = None"
    by (simp_all add: m1_def new_ConnectPacket_def zeroHeader_def Let_def)
  show "MessageType m = Connect" "Qos m = 0" "ReservedBit m = 0" "CleanSession m = o_CleanSession opt"
    "ClientIdentifier m = o_ClientID opt" "WillFlag m = o_WillEnabled opt" "Keepalive m = word_of_int (o_KeepAlive opt)"
    "WillQos m = (if o_WillEnabled opt then o_WillQos opt else 0)"
    "WillTopic m = (if o_WillEnabled opt then o_WillTopic opt else [])"
    "WillMessage m = (if o_WillEnabled opt then o_WillPayload opt else [])"
    "UsernameFlag m = (fst (connect_credentials opt i broker) \<noteq> [])" "Username m = fst (connect_credentials opt i broker)"
    "PasswordFlag m = (fst (connect_credentials opt i broker) \<noteq> [] \<and> snd (connect_credentials opt i broker) \<noteq> [])"
    "Password m = (if PasswordFlag m then bytes_of_string (snd (connect_credentials opt i broker)) else [])"
    "Other m = (case o_ClientInfo opt of Some info \<Rightarrow> if info = [] then None else Some info | None \<Rightarrow> None)"
    by (simp_all add: m up m1 Let_def split: option.split)
qed



section \<open>Reconnecting\<close>

lemma keepalive_interval_upd [simp]:
  "keepalive_interval (opt\<lparr>o_ProtocolVersion := v, o_protocolVersionExplicit := e\<rparr>) = keepalive_interval opt"
  by (simp add: keepalive_interval_def)

lemma startCommsWorkers_up:
  assumes "cl_conn c = None" "conn \<noteq> None" "o_KeepAlive (cl_options c) = 0 \<or> keepalive_interval (cl_options c) > 0"
  shows "\<exists>c'. startCommsWorkers now conn shut c = Some (c', True) \<and> cl_status c' = cs_connected \<and> cl_conn c' = conn \<and>
    netClosed c' = shut \<and> jobs c' = jobs c \<and> cl_persist c' = cl_persist c \<and> mids c' = mids c \<and>
    cl_options c' = cl_options c"
  using assms by (auto simp: startCommsWorkers_def setConnected_def Let_def)

lemma int64_small: "0 \<le> n \<Longrightarrow> n < 2 ^ 63 \<Longrightarrow> int64 n = n"
  by (simp add: int64_def signed_take_bit_int_eq_self)

lemma next_sleep_min:
  assumes "0 \<le> d" "0 \<le> m" "m \<le> 2 ^ 62"
  shows "next_sleep m d = (if d < m then min m (2 * d) else m)"
  using assms int64_small [of "d * 2"] by (simp add: next_sleep_def Let_def min_def)

text \<open>
  C31. The pauses of the reconnection loop: they double from one second on and never exceed
  \<open>MaxReconnectInterval\<close> (but for the first, which is always a second), and the multiplication does
  not overflow, as long as the limit is at most \<open>2 ^ 62\<close> nanoseconds.
\<close>

theorem reconnect_pauses:
  assumes "0 \<le> m" "m \<le> 2 ^ 62"
  shows "reconnect_sleep m n = (if n = 0 then 1 * Second else min m (2 ^ n * Second))"
proof (induction n)
  case (Suc n)
  have pos: "0 \<le> reconnect_sleep m n" using Suc assms(1) by simp
  show ?case
  proof (cases "n = 0")
    case True
    then show ?thesis using next_sleep_min [OF _ assms, of Second] by (simp add: min_def)
  next
    case False
    define x where "x = 2 ^ n * Second"
    have "0 \<le> x" "2 ^ Suc n * Second = 2 * x" "reconnect_sleep m n = min m x"
      using Suc False by (simp_all add: x_def)
    then show ?thesis using next_sleep_min [OF pos assms] by (simp add: min_def)
  qed
qed simp

theorem reconnect_pauses_witness: "reconnect_sleep (10 * Minute) 9 = 512 * Second \<and> reconnect_sleep (10 * Minute) 10 = 10 * Minute"
  using reconnect_pauses [of "10 * Minute" 9] reconnect_pauses [of "10 * Minute" 10] by simp

text \<open>The number of the connection with which the \<open>k\<close>-th attempt after \<open>i\<close> starts, all before it having failed.\<close>

fun attempt_at :: "net \<Rightarrow> 'h ClientOptions \<Rightarrow> nat \<Rightarrow> nat \<Rightarrow> nat" where
  "attempt_at net opt i 0 = i"
| "attempt_at net opt i (Suc k) = attempt_at net opt (a_next (fst (attemptConnection net i opt))) k"

lemma attempt_failed:
  assumes "attemptConnection net i opt = (a, opt')" "o_Servers opt \<noteq> []" "a_err a \<noteq> None"
  shows "opt' = opt"
proof -
  note r = attempt_result [OF assms(1,2)]
  have "a_err a = None \<longleftrightarrow> a_rc a \<notin> {1, 2, 3, 4, 5, ErrNetworkError, ErrProtocolViolation}"
    using r by (elim conjE)
  with assms(3) have "a_rc a \<noteq> Accepted" by auto
  moreover have "a_rc a \<noteq> Accepted \<longrightarrow> opt' = opt" using r by (elim conjE)
  ultimately show ?thesis by blast
qed

lemma reconnect_round:
  fixes c :: "('s, 'h) client"
  assumes "jobs c = [ReconnectTry d]" "cl_status c = cs_reconnecting" "o_Servers (cl_options c) \<noteq> []"
    "attemptConnection net (attempts c) (cl_options c) = (a, opt')" "a_err a \<noteq> None"
  shows "client_step S net acks (now, JobStep 0 False) c (c\<lparr>jobs := [ReconnectSleep d (a_conn a) True], attempts := a_next a\<rparr>)"
    "client_step S net acks (now, JobStep 0 False) (c\<lparr>jobs := [ReconnectSleep d (a_conn a) True], attempts := a_next a\<rparr>)
      (c\<lparr>jobs := [ReconnectTry (next_sleep (o_MaxReconnectInterval (cl_options c)) d)], attempts := a_next a\<rparr>)"
proof -
  have "opt' = cl_options c" by (rule attempt_failed [OF assms(4,3,5)])
  then have try_c: "try_connect net (c\<lparr>jobs := []\<rparr>) = (a, c\<lparr>jobs := [], attempts := a_next a\<rparr>)"
    using assms(4) by (simp add: try_connect_def)
  show "client_step S net acks (now, JobStep 0 False) c (c\<lparr>jobs := [ReconnectSleep d (a_conn a) True], attempts := a_next a\<rparr>)"
    by (rule Running) (use assms(1,5) try_c in \<open>auto simp: remove_at_def spawn_def\<close>)
  show "client_step S net acks (now, JobStep 0 False) (c\<lparr>jobs := [ReconnectSleep d (a_conn a) True], attempts := a_next a\<rparr>)
      (c\<lparr>jobs := [ReconnectTry (next_sleep (o_MaxReconnectInterval (cl_options c)) d)], attempts := a_next a\<rparr>)"
    by (rule Running) (use assms(2) in \<open>simp_all add: remove_at_def spawn_def\<close>)
qed

lemma reconnect_up:
  fixes c :: "('s, 'h) client"
  assumes "jobs c = [ReconnectTry d]" "cl_status c = cs_reconnecting" "cl_conn c = None"
    "o_Servers (cl_options c) \<noteq> []" "o_KeepAlive (cl_options c) = 0 \<or> keepalive_interval (cl_options c) > 0"
    "attemptConnection net (attempts c) (cl_options c) = (a, opt')" "a_rc a = Accepted"
  shows "\<exists>c'. client_steps S net acks (replicate 3 (now, JobStep 0 False)) c c' \<and> cl_status c' = cs_connected \<and>
    cl_conn c' = a_conn a \<and> \<not> netClosed c' \<and> jobs c' = [ReconnectUp] \<and> cl_persist c' = cl_persist c \<and> mids c' = mids c"
proof -
  note r = attempt_result [OF assms(6,4)]
  have conn: "a_conn a = Some (a_next a - 1)" and err: "a_err a = None"
    and opt': "opt' = (cl_options c)\<lparr>o_ProtocolVersion := a_version a, o_protocolVersionExplicit := True\<rparr>"
    using r assms(7) by simp_all
  define c1 where "c1 = c\<lparr>jobs := [], cl_options := opt', attempts := a_next a\<rparr>"
  have c1: "cl_status c1 = cs_reconnecting" "cl_conn c1 = None" "cl_options c1 = opt'" "jobs c1 = []"
    "cl_persist c1 = cl_persist c" "mids c1 = mids c" using assms(2,3) by (simp_all add: c1_def)
  have c1_jobs: "c1\<lparr>jobs := []\<rparr> = c1" by (simp add: c1_def)
  have try_c: "try_connect net (c\<lparr>jobs := []\<rparr>) = (a, c1)" using assms(6) by (simp add: try_connect_def c1_def)
  have "client_step S net acks (now, JobStep 0 False) c (spawn (ReconnectDialed (a_conn a) False) c1)"
    by (rule Running) (use assms(1,7) err try_c in \<open>simp_all add: remove_at_def\<close>)
  moreover have "client_step S net acks (now, JobStep 0 False) (spawn (ReconnectDialed (a_conn a) False) c1)
      (spawn (ReconnectStart (a_conn a) False) c1)"
    by (rule Running) (use c1 in \<open>simp_all add: remove_at_def spawn_def\<close>)
  moreover obtain c2 where c2: "startCommsWorkers now (a_conn a) False c1 = Some (c2, True)" "cl_status c2 = cs_connected"
      "cl_conn c2 = a_conn a" "\<not> netClosed c2" "jobs c2 = []" "cl_persist c2 = cl_persist c" "mids c2 = mids c"
    using startCommsWorkers_up [of c1 "a_conn a" now False] assms(5) c1 conn by (auto simp: opt')
  then have "client_step S net acks (now, JobStep 0 False) (spawn (ReconnectStart (a_conn a) False) c1) (spawn ReconnectUp c2)"
    by (intro Running) (use c1 in \<open>simp_all add: remove_at_def spawn_def c1_jobs\<close>)
  ultimately have "client_steps S net acks (replicate 3 (now, JobStep 0 False)) c (spawn ReconnectUp c2)"
    unfolding numeral_3_eq_3 replicate.simps by (blast intro: client_steps.intros)
  then show ?thesis using c2 by (auto simp: spawn_def)
qed

lemma client_steps_append:
  "client_steps S net acks es c c1 \<Longrightarrow> client_steps S net acks fs c1 c2 \<Longrightarrow> client_steps S net acks (es @ fs) c c2"
  by (induction rule: client_steps.induct) (auto intro: client_steps.intros)

lemma attempt_at_Suc:
  "attempt_at net opt i (Suc k) = a_next (fst (attemptConnection net (attempt_at net opt i k) opt))"
  by (induction k arbitrary: i) simp_all

lemma reconnect_tries:
  fixes c :: "('s, 'h) client"
  assumes "jobs c = [ReconnectTry (1 * Second)]" "cl_status c = cs_reconnecting" "o_Servers (cl_options c) \<noteq> []"
    "\<forall>k<n. a_err (fst (attemptConnection net (attempt_at net (cl_options c) (attempts c) k) (cl_options c))) \<noteq> None"
    "k \<le> n"
  shows "client_steps S net acks (replicate (2 * k) (now, JobStep 0 False)) c
    (c\<lparr>jobs := [ReconnectTry (reconnect_sleep (o_MaxReconnectInterval (cl_options c)) k)],
       attempts := attempt_at net (cl_options c) (attempts c) k\<rparr>)"
  using assms(5)
proof (induction k)
  case 0
  have "c\<lparr>jobs := [ReconnectTry (1 * Second)], attempts := attempts c\<rparr> = c" using assms(1) by simp
  then show ?case using client_steps.NoStep [of S net acks c] by simp
next
  case (Suc k)
  let ?c = "c\<lparr>jobs := [ReconnectTry (reconnect_sleep (o_MaxReconnectInterval (cl_options c)) k)],
    attempts := attempt_at net (cl_options c) (attempts c) k\<rparr>"
  obtain a opt' where a: "attemptConnection net (attempt_at net (cl_options c) (attempts c) k) (cl_options c) = (a, opt')"
    by fastforce
  have "a_err a \<noteq> None" using assms(4) Suc.prems a by (metis Suc_le_eq fst_conv)
  then have "client_steps S net acks [(now, JobStep 0 False), (now, JobStep 0 False)] ?c
      (c\<lparr>jobs := [ReconnectTry (reconnect_sleep (o_MaxReconnectInterval (cl_options c)) (Suc k))],
         attempts := attempt_at net (cl_options c) (attempts c) (Suc k)\<rparr>)"
    using reconnect_round [of ?c _ net a opt' S acks now] assms(2,3) a
    unfolding attempt_at_Suc by (auto intro!: client_steps.intros)
  moreover have "replicate (2 * Suc k) x = replicate (2 * k) x @ [x, x]" for x :: "int \<times> 'h client_event"
    using replicate_add [of "2 * k" 2 x] by (simp add: numeral_2_eq_2)
  ultimately show ?case using client_steps_append [OF Suc.IH] Suc.prems by (metis Suc_leD)
qed

text \<open>
  C18. Reconnection ends as soon as a broker accepts: after a lost connection, when \<open>n\<close> attempts fail and
  the next one is accepted, the reconnecting goroutine makes the client connected over that
  connection and goes on to resume the stored messages, with the store and the identifiers in use
  as they were. Its pause after the \<open>k\<close>-th failure is the one of \<^const>\<open>reconnect_sleep\<close>.
\<close>

theorem reconnect_succeeds:
  fixes c :: "('s, 'h) client"
  assumes "jobs c = [ReconnectTry (1 * Second)]" "cl_status c = cs_reconnecting" "cl_conn c = None"
    "o_Servers (cl_options c) \<noteq> []" "o_KeepAlive (cl_options c) = 0 \<or> keepalive_interval (cl_options c) > 0"
    "\<forall>k<n. a_err (fst (attemptConnection net (attempt_at net (cl_options c) (attempts c) k) (cl_options c))) \<noteq> None"
    "attemptConnection net (attempt_at net (cl_options c) (attempts c) n) (cl_options c) = (a, opt')" "a_rc a = Accepted"
  shows "(\<exists>c'. client_steps S net acks (replicate (2 * n + 3) (now, JobStep 0 False)) c c' \<and>
      cl_status c' = cs_connected \<and> cl_conn c' = a_conn a \<and> \<not> netClosed c' \<and> jobs c' = [ReconnectUp] \<and>
      cl_persist c' = cl_persist c \<and> mids c' = mids c) \<and>
    (\<forall>k<n. \<exists>c1 conn. client_steps S net acks (replicate (2 * k + 1) (now, JobStep 0 False)) c c1 \<and>
      jobs c1 = [ReconnectSleep (reconnect_sleep (o_MaxReconnectInterval (cl_options c)) k) conn True])"
proof -
  let ?at = "\<lambda>k. c\<lparr>jobs := [ReconnectTry (reconnect_sleep (o_MaxReconnectInterval (cl_options c)) k)],
    attempts := attempt_at net (cl_options c) (attempts c) k\<rparr>"
  have steps: "client_steps S net acks (replicate (2 * k) (now, JobStep 0 False)) c (?at k)" if "k \<le> n" for k
    by (rule reconnect_tries [OF assms(1,2,4,6) that])
  obtain c' where c': "client_steps S net acks (replicate 3 (now, JobStep 0 False)) (?at n) c'" "cl_status c' = cs_connected"
      "cl_conn c' = a_conn a" "\<not> netClosed c'" "jobs c' = [ReconnectUp]" "cl_persist c' = cl_persist c" "mids c' = mids c"
    using reconnect_up [of "?at n" _ net a opt' S acks now] assms(2-5,7,8) by auto
  have "client_steps S net acks (replicate (2 * n + 3) (now, JobStep 0 False)) c c'"
    unfolding replicate_add by (rule client_steps_append [OF steps c'(1)]) simp
  moreover have "\<exists>c1 conn. client_steps S net acks (replicate (2 * k + 1) (now, JobStep 0 False)) c c1 \<and>
      jobs c1 = [ReconnectSleep (reconnect_sleep (o_MaxReconnectInterval (cl_options c)) k) conn True]" if k: "k < n" for k
  proof -
    obtain b opt1 where b: "attemptConnection net (attempt_at net (cl_options c) (attempts c) k) (cl_options c) = (b, opt1)"
      by fastforce
    have "a_err b \<noteq> None" using assms(6) k b by (metis fst_conv)
    let ?c1 = "(?at k)\<lparr>jobs := [ReconnectSleep (reconnect_sleep (o_MaxReconnectInterval (cl_options c)) k) (a_conn b) True],
      attempts := a_next b\<rparr>"
    have "client_step S net acks (now, JobStep 0 False) (?at k) ?c1"
      by (rule reconnect_round(1)) (use assms(2,4) b \<open>a_err b \<noteq> None\<close> in simp_all)
    then have one: "client_steps S net acks (replicate 1 (now, JobStep 0 False)) (?at k) ?c1"
      by (auto intro: client_steps.intros)
    have "client_steps S net acks (replicate (2 * k + 1) (now, JobStep 0 False)) c ?c1"
      unfolding replicate_add by (rule client_steps_append [OF steps one]) (use k in simp)
    then show ?thesis by (intro exI [of _ ?c1] exI [of _ "a_conn b"]) simp
  qed
  ultimately show ?thesis using c'(2-7) by blast
qed

text \<open>A client that lost its connection, with a network on which the first attempt fails.\<close>

definition sample_lost :: "(MemoryStore, nat) client" where
  "sample_lost = (NewClient sample_options NewMemoryStore)\<lparr>cl_status := cs_reconnecting, jobs := [ReconnectTry (1 * Second)]\<rparr>"

definition sample_net :: net where
  "sample_net j = (if j = 0 then Inl EOF else Inr (sample_dialed 0))"

lemma sample_lost_fields:
  "jobs sample_lost = [ReconnectTry (1 * Second)]" "cl_status sample_lost = cs_reconnecting" "cl_conn sample_lost = None"
  "o_Servers (cl_options sample_lost) = [\<lparr>url_Host = ''h'', url_User = None\<rparr>]" "attempts sample_lost = 0"
  "keepalive_interval (cl_options sample_lost) = 5 * Second" "o_protocolVersionExplicit (cl_options sample_lost)"
  by (simp_all add: sample_lost_def NewClient_def sample_options_def NewClientOptions_def keepalive_interval_def int64_def)

theorem reconnect_succeeds_witness:
  "\<exists>c'. client_steps MemoryStore_ops sample_net (\<lambda>_. False) (replicate 5 (0, JobStep 0 False)) sample_lost c' \<and>
    cl_status c' = cs_connected \<and> jobs c' = [ReconnectUp]"
proof -
  let ?opt = "cl_options sample_lost"
  have first: "a_err (fst (attemptConnection sample_net 0 ?opt)) \<noteq> None \<and> a_next (fst (attemptConnection sample_net 0 ?opt)) = 1"
    by (simp add: attemptConnection_def sample_lost_fields try_broker_def try_once_def sample_net_def Let_def)
  obtain a opt' where a: "attemptConnection sample_net 1 ?opt = (a, opt')" by fastforce
  have acc: "accepts sample_net j" if "0 < j" for j using that by (simp add: accepts_def sample_net_def verifyCONNACK_sample)
  have "1 < a_next a" and rc: "a_rc a = Accepted \<longleftrightarrow> accepts sample_net (a_next a - 1)"
    using attempt_result [OF a] by (simp_all add: sample_lost_fields)
  then have "a_rc a = Accepted" using acc by simp
  moreover have "\<forall>k<1. a_err (fst (attemptConnection sample_net (attempt_at sample_net ?opt (attempts sample_lost) k) ?opt)) \<noteq> None"
    using first by (simp add: sample_lost_fields)
  moreover have "attemptConnection sample_net (attempt_at sample_net ?opt (attempts sample_lost) 1) ?opt = (a, opt')"
    using first a by (simp add: sample_lost_fields)
  ultimately show ?thesis
    using reconnect_succeeds [of sample_lost 1 sample_net a opt' MemoryStore_ops "\<lambda>_. False" 0]
    by (auto simp: sample_lost_fields)
qed

section \<open>Keepalive\<close>

text \<open>
  C20. The keepalive routine finds a dead peer: when nothing was received for \<open>KeepAlive\<close> seconds, a tick
  sends PINGREQ and keeps the connection, and a tick \<open>PingTimeout\<close> later gives the connection up unless
  PINGRESP came. When it came, and until the next \<open>KeepAlive\<close> seconds have passed, ticks change
  nothing.
\<close>

theorem keepalive_detects_dead_peer:
  fixes c :: "('s, 'h) client"
  assumes "cl_conn c \<noteq> None" "pingOutstanding c = 0" "0 < o_KeepAlive (cl_options c)"
    "o_KeepAlive (cl_options c) * Second < 2 ^ 63" "0 < o_PingTimeout (cl_options c)"
    "o_KeepAlive (cl_options c) * Second \<le> t1 - lastReceived c"
    "c1 = keepalive_tick t1 None c"
  shows "wire c1 = wire c @ [CP_Pingreq (zeroHeader Pingreq 0)] \<and> cl_conn c1 = cl_conn c \<and> jobs c1 = jobs c \<and>
    (\<forall>t2 werr. o_PingTimeout (cl_options c) \<le> t2 - t1 \<longrightarrow>
      cl_conn (keepalive_tick t2 werr c1) = None \<and>
      jobs (keepalive_tick t2 werr c1) = jobs c @ [LostWait (Errorf ''pingresp not received, disconnecting'')]) \<and>
    (\<forall>S t2 t3 werr h. t1 \<le> t2 \<longrightarrow> t3 - t1 < o_KeepAlive (cl_options c) * Second \<longrightarrow>
      (\<exists>c2. incoming S t2 (CP_Pingresp h) c1 = Some c2 \<and> keepalive_tick t3 werr c2 = c2))"
proof -
  let ?ka = "o_KeepAlive (cl_options c) * Second"
  have ka: "int64 ?ka = ?ka" using int64_small assms(3,4) by simp
  have c1: "c1 = c\<lparr>pingOutstanding := 1, wire := wire c @ [CP_Pingreq (zeroHeader Pingreq 0)], lastSent := t1, pingSent := t1\<rparr>"
    using assms(2,5,6) by (simp add: assms(7) keepalive_tick_def keepalive_ping_def ka Let_def)
  have dead: "keepalive_tick t2 werr c1 = internalConnLost (Errorf ''pingresp not received, disconnecting'') c1"
    if "o_PingTimeout (cl_options c) \<le> t2 - t1" for t2 werr
    using that by (simp add: c1 keepalive_tick_def keepalive_ping_def Let_def)
  have "\<exists>c2. incoming S t2 (CP_Pingresp h) c1 = Some c2 \<and> keepalive_tick t3 werr c2 = c2"
    if "t1 \<le> t2" "t3 - t1 < ?ka" for S :: "'s Store" and t2 t3 werr h
  proof -
    have "incoming S t2 (CP_Pingresp h) c1 = Some (c1\<lparr>lastReceived := t2, pingOutstanding := 0\<rparr>)"
      using assms(3) by (simp add: c1 incoming_def persist_received_def persistInbound_def incoming_switch_def
          UpdateLastReceived_def Let_def)
    moreover have "keepalive_tick t3 werr (c1\<lparr>lastReceived := t2, pingOutstanding := 0\<rparr>) =
        c1\<lparr>lastReceived := t2, pingOutstanding := 0\<rparr>"
      using that by (simp add: c1 keepalive_tick_def keepalive_ping_def ka Let_def)
    ultimately show ?thesis by simp
  qed
  moreover have "cl_conn (internalConnLost e c1) = None \<and> jobs (internalConnLost e c1) = jobs c @ [LostWait e]" for e
    using assms(1) by (simp add: c1 internalConnLost_def stopCommsWorkers_def spawn_def)
  ultimately show ?thesis using dead by (auto simp: c1)
qed

theorem keepalive_detects_dead_peer_witness:
  "\<exists>c c1 :: (MemoryStore, nat) client. c1 = keepalive_tick (30 * Second) None c \<and>
    wire c1 = [CP_Pingreq (zeroHeader Pingreq 0)] \<and> cl_conn c1 = Some 0 \<and>
    cl_conn (keepalive_tick (40 * Second) None c1) = None"
proof -
  let ?c = "sample_lost\<lparr>cl_conn := Some 0\<rparr>"
  have *: "cl_conn ?c \<noteq> None" "pingOutstanding ?c = 0" "0 < o_KeepAlive (cl_options ?c)"
    "o_KeepAlive (cl_options ?c) * Second < 2 ^ 63" "0 < o_PingTimeout (cl_options ?c)"
    "o_KeepAlive (cl_options ?c) * Second \<le> 30 * Second - lastReceived ?c"
    "o_PingTimeout (cl_options ?c) = 10 * Second" "wire ?c = []"
    by (simp_all add: sample_lost_def NewClient_def sample_options_def NewClientOptions_def)
  let ?c1 = "keepalive_tick (30 * Second) None ?c"
  have "wire ?c1 = wire ?c @ [CP_Pingreq (zeroHeader Pingreq 0)]" "cl_conn ?c1 = cl_conn ?c"
    "cl_conn (keepalive_tick (40 * Second) None ?c1) = None"
    using keepalive_detects_dead_peer [OF *(1-6) refl] *(7) by simp_all
  then show ?thesis using *(8) by (intro exI [of _ ?c] exI [of _ ?c1]) simp
qed

section \<open>Routes of subscriptions\<close>

lemma assign_id_router: "assign_id t c = Some (c1, mid) \<Longrightarrow> msgRouter c1 = msgRouter c"
  by (auto simp: assign_id_def upd_token_def split: prod.splits if_splits)

lemma persist_sent_router: "persist_sent S now p c = Some c1 \<Longrightarrow> msgRouter c1 = msgRouter c"
  by (auto simp: persist_sent_def)

lemma issue_router:
  assumes "issue S now mk wrap token c = Some (c', t)"
  shows "msgRouter c' = msgRouter c"
proof (cases "assign_id token c")
  case None
  then show ?thesis using assms by (auto simp: issue_def fail_token_def upd_token_def)
next
  case (Some x)
  obtain c1 mid where x: "x = (c1, mid)" by fastforce
  obtain c2 where "(if o_ResumeSubs (cl_options c) then persist_sent S now (mk mid) c1 else Some c1) = Some c2"
    "c' = send_or_keep now (wrap (mk mid)) c2" using assms Some x by (auto simp: issue_def)
  then show ?thesis using assign_id_router [of token c c1 mid] persist_sent_router [of S now "mk mid" c1 c2] Some x
    by (auto simp: send_or_keep_def split: if_splits)
qed

text \<open>
  The route of a subscription is kept under the topic without the prefix of a shared subscription,
  but Unsubscribe removes the route of the topic it is given. So subscribing and unsubscribing a plain
  topic leaves no route, and for a topic with the prefix \<open>$share/\<close> or \<open>$queue/\<close> the callback stays.
\<close>

theorem unsubscribe_routes:
  assumes "cl_status c = cs_connected" "validateTopicAndQos topic qos = None"
    "distinct (map route_topic (routes (msgRouter c)))"
    "Client_Subscribe S now c topic qos (Some h) = Some (c1, t)"
  shows "route_of (msgRouter c1) (route_topic_of topic) = Some h \<and>
    route_of (msgRouter (hand_over (SendUnsubscribe p u [topic]) c1)) (route_topic_of topic) =
      (if route_topic_of topic = topic then None else Some h)"
proof -
  obtain c0 token where al: "alloc_token Subscribe c = (c0, token)" by fastforce
  then have r0: "msgRouter c0 = msgRouter c" by (auto simp: alloc_token_def Let_def)
  have ok: "sub_refused c = None" using assms(1) by (simp add: sub_refused_def IsConnected_def IsConnectionOpen_def)
  have "issue S now (subscribe_packet [topic] [qos]) (\<lambda>p. SendSubscribe p token) token
      (upd_token (append_subs [route_topic_of topic]) token (AddRoute c0 (route_topic_of topic) (Some h))) = Some (c1, t)"
    using assms(4) unfolding Client_Subscribe_def al prod.case ok assms(2) option.case Let_def .
  from issue_router [OF this] have r1: "msgRouter c1 = addRoute (msgRouter c) (route_topic_of topic) h"
    by (simp add: upd_token_def AddRoute_def r0)
  have "distinct (map route_topic (routes (msgRouter c1)))"
    using addRoute_loop_topics [OF assms(3), of "route_topic_of topic" h] by (simp add: r1 addRoute_def)
  note del = route_of_deleteRoute [OF this, of topic "route_topic_of topic"]
  have add: "route_of (msgRouter c1) (route_topic_of topic) = Some h" by (simp add: r1 route_of_addRoute)
  show ?thesis using add del by simp
qed

theorem unsubscribe_routes_witness:
  "\<exists>(c1 :: (MemoryStore, nat) client) t. Client_Subscribe MemoryStore_ops 0 (sample_lost\<lparr>cl_status := cs_connected\<rparr>)
      ''$share/g/a'' 1 (Some 3) = Some (c1, t) \<and>
    route_of (msgRouter (hand_over (SendUnsubscribe (unsubscribe_packet [''$share/g/a''] 2) t [''$share/g/a'']) c1)) ''a'' = Some 3"
proof -
  let ?c = "sample_lost\<lparr>cl_status := cs_connected\<rparr>"
  have "\<not> Option.is_none (Client_Subscribe MemoryStore_ops 0 ?c ''$share/g/a'' 1 (Some 3))" by code_simp
  then obtain c1 t where run: "Client_Subscribe MemoryStore_ops 0 ?c ''$share/g/a'' 1 (Some 3) = Some (c1, t)"
    by (auto simp: Option.is_none_def)
  have *: "cl_status ?c = cs_connected" "validateTopicAndQos ''$share/g/a'' 1 = None"
    "distinct (map route_topic (routes (msgRouter ?c)))" "route_topic_of ''$share/g/a'' = ''a''"
    by (simp, code_simp, simp add: sample_lost_def NewClient_def newRouter_def setDefaultHandler_def, code_simp)
  show ?thesis using unsubscribe_routes [OF *(1-3) run] run *(4) by simp
qed

end
