(* ===== verification/MqttInv.thy ===== *)
theory MqttInv
  imports MqttResume MqttConnect
begin

text \<open>
  Properties of the MQTT client with its message store: stored messages across lost connections and
  restarts, the publishing call on every branch, the acknowledgements of the broker, and what is
  sent again when a connection is up.
\<close>

section \<open>Sessions\<close>

text \<open>
  C7. Messages survive lost connections: from a client in a session with the default store, through
  every sequence of calls, received packets, write errors, timeouts, lost connections and steps of
  its goroutines that contains no call of Connect or Disconnect, a stored publication stays in the
  store, the same message under the same identifier, until an acknowledgement of that identifier is
  received, and the identifier of every stored message stays taken.
\<close>

theorem session_keeps_messages:
  assumes "session_inv ms_ok ms_holds c" "client_steps MemoryStore_ops net acks es c c'"
    "\<forall>(now, e) \<in> set es. session_event (\<lambda>_. True) e"
  shows "session_inv ms_ok ms_holds c' \<and>
    keeps_publications ms_holds (\<Union>(now, e) \<in> set es. event_closes e) c c'"
  by (rule mem_client.run_session [OF assms(2,1,3)])

text \<open>The same with the file store, for packets that fit the wire format.\<close>

theorem session_keeps_messages_file:
  assumes "session_inv fs_ok fs_holds c" "client_steps (FileStore_ops cwd) net acks es c c'"
    "\<forall>(now, e) \<in> set es. session_event packet_wf e"
  shows "session_inv fs_ok fs_holds c' \<and>
    keeps_publications fs_holds (\<Union>(now, e) \<in> set es. event_closes e) c c'"
  by (rule file_client.run_session [OF assms(2,1,3)])

text \<open>A connected client with one message on its way.\<close>

definition sample_message :: PublishPacket where
  "sample_message = (new_PublishPacket (zeroHeader Publish 0))
     \<lparr>Qos := 1, TopicName := ''a'', Payload := [7], MessageID := 1\<rparr>"

definition sample_session :: "(MemoryStore, nat) client" where
  "sample_session = (NewClient NewClientOptions
       \<lparr>ms_messages = [(outboundKeyFromMID 1, Some (CP_Publish sample_message))], ms_opened = True\<rparr>)
     \<lparr>cl_status := cs_connected, cl_conn := Some 0, redirecting := True, commsAlive := True,
      mids := \<lparr>index = [(1, 5)], lastIssuedID = 1,
               tokens = [(5, \<lparr>tkind = PublishToken 1, complete = False, token_err = None\<rparr>)]\<rparr>\<rparr>"

lemma sample_session_fields:
  "cl_persist sample_session = \<lparr>ms_messages = [(outboundKeyFromMID 1, Some (CP_Publish sample_message))], ms_opened = True\<rparr>"
  "mids sample_session = \<lparr>index = [(1, 5)], lastIssuedID = 1,
     tokens = [(5, \<lparr>tkind = PublishToken 1, complete = False, token_err = None\<rparr>)]\<rparr>"
  "cl_status sample_session = cs_connected" "cl_conn sample_session = Some 0" "jobs sample_session = []"
  "inboundFromStore sample_session = []" "o_AutoReconnect (cl_options sample_session)"
  "\<not> o_ResumeSubs (cl_options sample_session)" "senders sample_session = []" "obound sample_session = []"
  "commsAlive sample_session" "redirecting sample_session" "o_KeepAlive (cl_options sample_session) = 30"
  "o_PingTimeout (cl_options sample_session) = 10 * Second" "commErrs sample_session = []"
  by (simp_all add: sample_session_def NewClient_def NewClientOptions_def)

lemma sample_message_id [simp]: "MessageID sample_message = 1" "Qos sample_message = 1"
  by (simp_all add: sample_message_def)

lemma sample_session_holds:
  "ms_holds (cl_persist sample_session) = [outboundKeyFromMID 1 \<mapsto> CP_Publish sample_message]"
  by (auto simp: ms_holds_def sample_session_fields)

lemma sample_session_inv: "session_inv ms_ok ms_holds sample_session"
proof -
  have "ms_ok (cl_persist sample_session)" by (simp add: ms_ok_def sample_session_fields)
  moreover have "store_wf (ms_holds (cl_persist sample_session))"
    unfolding sample_session_holds by (simp add: store_wf_def)
  moreover have "mids_ok (mids sample_session)" "used_ids (mids sample_session) = {1}" "sub_ids (mids sample_session) = {}"
    by (auto simp: mids_ok_def used_ids_def sub_ids_def is_sub_token_def sample_session_fields split: if_splits)
  moreover have "stored_ids (ms_holds (cl_persist sample_session)) = {1}"
    unfolding sample_session_holds by (auto simp: stored_ids_def)
  ultimately show ?thesis by (simp add: session_inv_def sample_session_fields)
qed

theorem session_keeps_messages_witness:
  "\<exists>c'. client_steps MemoryStore_ops (\<lambda>_. Inl EOF) (\<lambda>_. False) [(9, ReadFails EOF), (9, ReportError)] sample_session c' \<and>
    cl_conn c' = None \<and> ms_holds (cl_persist c') (outboundKeyFromMID 1) \<noteq> None"
proof -
  let ?c1 = "sample_session\<lparr>commErrs := commErrs sample_session @ [EOF]\<rparr>"
  let ?c2 = "internalConnLost EOF (?c1\<lparr>commErrs := []\<rparr>)"
  let ?es = "[(9 :: int, ReadFails EOF), (9, ReportError :: nat client_event)]"
  have "\<not> go_contains (error_text (Some EOF)) closedNetConnErrorText"
    by (simp add: error_text_def go_hasPrefix_def)
  then have "client_step MemoryStore_ops (\<lambda>_. Inl EOF) (\<lambda>_. False) (9, ReadFails EOF) sample_session ?c1"
    by (intro Failing) (simp_all add: sample_session_fields)
  moreover have "client_step MemoryStore_ops (\<lambda>_. Inl EOF) (\<lambda>_. False) (9, ReportError) ?c1 ?c2"
    by (rule Reporting) (simp add: sample_session_fields)
  ultimately have run: "client_steps MemoryStore_ops (\<lambda>_. Inl EOF) (\<lambda>_. False) ?es sample_session ?c2"
    by (blast intro: client_steps.intros)
  have "\<forall>(now, e) \<in> set ?es. session_event (\<lambda>_. True) e" by (simp add: session_event_def)
  from session_keeps_messages [OF sample_session_inv run this]
  have kp: "keeps_publications ms_holds {} sample_session ?c2" by (simp add: event_closes_def)
  have "ms_holds (cl_persist sample_session) (outboundKeyFromMID 1) = Some (CP_Publish sample_message)"
    by (simp add: sample_session_holds)
  then have "ms_holds (cl_persist ?c2) (outboundKeyFromMID 1) \<noteq> None"
    using kp unfolding keeps_publications_def by fast
  moreover have "cl_conn ?c2 = None"
    by (simp add: internalConnLost_def stopCommsWorkers_def sample_session_fields spawn_def)
  ultimately show ?thesis using run by blast
qed

section \<open>Publish\<close>

definition same_but_ids :: "('s, 'h) client \<Rightarrow> ('s, 'h) client \<Rightarrow> bool" where
  "same_but_ids c c' \<longleftrightarrow> (\<exists>m. c' = c\<lparr>mids := m\<rparr>)"

lemma assign_new:
  assumes "mids_ok (mids c)" "alloc_token Publish c = (c0, t)"
  shows "if \<exists>mid. mid \<noteq> 0 \<and> mid \<notin> used_ids (mids c)
    then \<exists>c1 mid. assign_id t c0 = Some (c1, mid) \<and> mid \<noteq> 0 \<and> mid \<notin> used_ids (mids c) \<and>
      same_but_ids c c1 \<and> pending (mids c1) mid \<and> gm_get (index (mids c1)) mid = Some t
    else assign_id t c0 = None"
proof -
  have t: "t = new_ptr (tokens (mids c))" and c0: "c0 = c\<lparr>mids := (mids c)\<lparr>tokens :=
      gm_put t (the (newToken Publish)) (tokens (mids c))\<rparr>\<rparr>"
    using assms(2) by (auto simp: alloc_token_def Let_def)
  have na: "gm_get (index (mids c)) x \<noteq> Some t" for x
    using assms(1) new_ptr_fresh [of "tokens (mids c)"] unfolding t mids_ok_def by metis
  obtain m mid where g: "getID (mids c0) t = (m, mid)" by fastforce
  have z: "mid = 0 \<longleftrightarrow> (\<forall>j. j \<noteq> 0 \<longrightarrow> j \<in> used_ids (mids c))"
    using getID_zero [of "mids c0" t] g by (simp add: c0 used_ids_def domIff)
  show ?thesis
  proof (cases "mid = 0")
    case True
    then show ?thesis using z g by (auto simp: assign_id_def)
  next
    case False
    have m: "index m = gm_put mid t (index (mids c))" "tokens m = tokens (mids c0)"
      and free: "mid \<notin> used_ids (mids c)"
      using g False getID_loop_free [of "index (mids c0)" "lastIssuedID (mids c0)" False "lastIssuedID (mids c0)"]
      by (auto simp: getID_def Let_def c0 used_ids_def domIff split: if_splits)
    let ?c1 = "upd_token (set_messageID mid) t (c0\<lparr>mids := m\<rparr>)"
    have "pending (mids ?c1) mid"
      unfolding pending_def using na
      by (auto simp: upd_token_def m c0 gm_get_on_token newToken_def set_messageID_def)
    moreover have "same_but_ids c ?c1" by (auto simp: same_but_ids_def upd_token_def c0)
    moreover have "gm_get (index (mids ?c1)) mid = Some t" by (simp add: upd_token_def m)
    ultimately show ?thesis using free False z g by (auto simp: assign_id_def)
  qed
qed

lemma publish_opens [simp]:
  "packet_id (publish_packet topic qos retained bs mid) = mid"
  "opens_sent (publish_packet topic qos retained bs mid) \<longleftrightarrow> qos = 1 \<or> qos = 2"
  by (simp_all add: publish_packet_def)

lemma fail_token_fields:
  "cl_persist (fail_token e a c) = cl_persist c" "senders (fail_token e a c) = senders c"
  "gm_get (tokens (mids (fail_token e a c))) a = map_option (\<lambda>t. setError t (Some e)) (gm_get (tokens (mids c)) a)"
  by (simp_all add: fail_token_def upd_token_def gm_get_on_token)

lemma publish_refused:
  assumes "IsConnected c" "alloc_token Publish c = (c0, t)"
    "cl_status c = cs_reconnecting \<and> qos = 0 \<or> payload_bytes payload = None"
  shows "\<exists>c' tok. Client_Publish S now c topic qos retained payload = Some (c', t) \<and>
    gm_get (tokens (mids c')) t = Some tok \<and> cl_persist c' = cl_persist c \<and> senders c' = senders c \<and>
    Token_Done tok \<and> Token_Error tok =
      (if cl_status c = cs_reconnecting \<and> qos = 0 then None else Some (Errorf ''unknown payload type''))"
proof -
  have "cl_persist c0 = cl_persist c" "senders c0 = senders c"
    "gm_get (tokens (mids c0)) t = Some (the (newToken Publish))"
    using assms(2) by (auto simp: alloc_token_def Let_def)
  then show ?thesis using assms
    by (auto simp: Client_Publish_def fail_token_fields upd_token_def gm_get_on_token newToken_def
        Token_Error_def Token_Done_def setError_def flowComplete_def base_token_def split: option.splits)
qed

lemma publish_id:
  assumes "mids_ok (mids c)" "alloc_token Publish c = (c0, t)" "qos = 0 \<or> (\<exists>mid. mid \<noteq> 0 \<and> mid \<notin> used_ids (mids c))"
  obtains c1 mid where "(if qos \<noteq> 0 then assign_id t c0 else Some (c0, 0)) = Some (c1, mid)"
    "same_but_ids c c1" "gm_get (tokens (mids c1)) t \<noteq> None"
    "qos \<noteq> 0 \<Longrightarrow> mid \<noteq> 0 \<and> mid \<notin> used_ids (mids c) \<and> pending (mids c1) mid \<and>
      gm_get (index (mids c1)) mid = Some t"
proof (cases "qos = 0")
  case True
  have "same_but_ids c c0" "gm_get (tokens (mids c0)) t \<noteq> None"
    using assms(2) by (auto simp: same_but_ids_def alloc_token_def Let_def)
  moreover have "(if qos \<noteq> 0 then assign_id t c0 else Some (c0, 0)) = Some (c0, 0)" using True by simp
  ultimately show thesis using that [of c0 0] True by blast
next
  case False
  with assms(3) have "\<exists>mid. mid \<noteq> 0 \<and> mid \<notin> used_ids (mids c)" by blast
  from assign_new [OF assms(1,2), unfolded if_P [OF this]]
  obtain c1 mid where *: "assign_id t c0 = Some (c1, mid)" "mid \<noteq> 0" "mid \<notin> used_ids (mids c)"
    "same_but_ids c c1" "pending (mids c1) mid" "gm_get (index (mids c1)) mid = Some t" by blast
  have "gm_get (tokens (mids c1)) t \<noteq> None" using pendingD [OF *(5,6)] by simp
  moreover have "(if qos \<noteq> 0 then assign_id t c0 else Some (c0, 0)) = Some (c1, mid)" using *(1) False by simp
  ultimately show thesis using that [of c1 mid] *(2-6) by blast
qed

lemma publish_stored:
  assumes "ms_ok s0" "p = publish_packet topic qos retained bs mid"
  obtains s where "persistOutbound (Store_Put MemoryStore_ops now) (Store_Del MemoryStore_ops) s0 p = Some s"
    "qos = 1 \<or> qos = 2 \<Longrightarrow> ms_holds s = (ms_holds s0)(outboundKeyFromMID mid \<mapsto> p)"
proof (cases "qos = 1 \<or> qos = 2")
  case True
  then show thesis
    using that mem_client.outbound_effect [where s = s0 and t = now and p = p] assms by auto
next
  case False
  then show thesis
    using that mem_client.outbound_closing [where s = s0 and t = now and p = p] assms by auto
qed



section \<open>Acknowledgements\<close>

text \<open>
  C16. An acknowledgement of the broker ends the exchange: for a PUBACK or PUBCOMP without flags, the
  token that waits for the identifier is completed with the error it had (none for a call that was
  sent), the identifier is free again and the message leaves the store, and nothing else in the
  store or among the other identifiers changes. PUBREC is answered by a PUBREL of the same
  identifier, but the message stays stored as a PUBLISH and the PUBREL is not stored, so that after
  a restart the exchange starts again from the PUBLISH.
\<close>

theorem acknowledgement_ends_exchange:
  assumes "session_inv ms_ok ms_holds c" "gm_get (index (mids c)) (MessageID m) = Some a"
    "gm_get (tokens (mids c)) a = Some t"
  shows "(\<forall>p \<in> {CP_Puback m, CP_Pubcomp m}. Qos m = 0 \<longrightarrow>
      (\<exists>c'. incoming MemoryStore_ops now p c = Some c' \<and>
        gm_get (tokens (mids c')) = (gm_get (tokens (mids c)))(a \<mapsto> flowComplete t) \<and>
        gm_get (index (mids c')) = (gm_get (index (mids c)))(MessageID m := None) \<and>
        ms_holds (cl_persist c') = (ms_holds (cl_persist c))(outboundKeyFromMID (MessageID m) := None))) \<and>
    (\<exists>c'. incoming MemoryStore_ops now (CP_Pubrec m) c = Some c' \<and> mids c' = mids c \<and>
      cl_persist c' = cl_persist c \<and>
      oboundI c' = oboundI c @
        [(CP_Pubrel ((new_MidPacket (zeroHeader Pubrel 1))\<lparr>MessageID := MessageID m\<rparr>), None)])"
proof -
  have ok: "ms_ok (cl_persist c)" using assms(1) by (simp add: session_inv_def)
  let ?key = "outboundKeyFromMID (MessageID m)"
  have fin: "gm_get (tokens (mids (finish_id (MessageID m) c1))) = (gm_get (tokens (mids c)))(a \<mapsto> flowComplete t)"
    "gm_get (index (mids (finish_id (MessageID m) c1))) = (gm_get (index (mids c)))(MessageID m := None)"
    "cl_persist (finish_id (MessageID m) c1) = cl_persist c1"
    if "mids c1 = mids c" for c1 :: "(MemoryStore, 'a) client"
    using that assms(2,3)
    by (simp_all add: finish_id_def getToken_def on_mids_def upd_token_def freeID_def gm_get_on_token fun_eq_iff)
  have "\<exists>c'. incoming MemoryStore_ops now p c = Some c' \<and>
      gm_get (tokens (mids c')) = (gm_get (tokens (mids c)))(a \<mapsto> flowComplete t) \<and>
      gm_get (index (mids c')) = (gm_get (index (mids c)))(MessageID m := None) \<and>
      ms_holds (cl_persist c') = (ms_holds (cl_persist c))(?key := None)"
    if "p \<in> {CP_Puback m, CP_Pubcomp m}" "Qos m = 0" for p
  proof -
    have closes: "closes_sent p" "packet_id p = MessageID m" "\<not> opens_received p" using that by auto
    obtain s where s: "persistInbound (Store_Put MemoryStore_ops now) (Store_Del MemoryStore_ops) (cl_persist c) p = Some s"
        "ms_holds s = (ms_holds (cl_persist c))(?key := None)"
      using mem_client.inbound_effect [where s = "cl_persist c" and t = now and p = p] ok closes by auto
    define c1 where "c1 = UpdateLastReceived now (c\<lparr>cl_persist := s\<rparr>)"
    have c1: "mids c1 = mids c" "cl_persist c1 = s" by (simp_all add: c1_def UpdateLastReceived_def)
    have "incoming MemoryStore_ops now p c = Some (finish_id (MessageID m) c1)"
      using that s(1) by (auto simp: incoming_def persist_received_def incoming_switch_def c1_def)
    then show ?thesis using fin [OF c1(1)] c1(2) s(2) by simp
  qed
  moreover have "\<exists>c'. incoming MemoryStore_ops now (CP_Pubrec m) c = Some c' \<and> mids c' = mids c \<and>
      cl_persist c' = cl_persist c \<and>
      oboundI c' = oboundI c @
        [(CP_Pubrel ((new_MidPacket (zeroHeader Pubrel 1))\<lparr>MessageID := MessageID m\<rparr>), None)]"
    by (simp add: incoming_def persist_received_def persistInbound_def incoming_switch_def UpdateLastReceived_def Let_def)
  ultimately show ?thesis by blast
qed

theorem acknowledgement_ends_exchange_witness:
  "\<exists>c'. incoming MemoryStore_ops 9 (CP_Puback ((new_MidPacket (zeroHeader Puback 0))\<lparr>MessageID := 1\<rparr>)) sample_session
      = Some c' \<and> ms_holds (cl_persist c') = Map.empty \<and> gm_get (index (mids c')) 1 = None"
proof -
  let ?m = "(new_MidPacket (zeroHeader Puback 0))\<lparr>MessageID := 1\<rparr>"
  let ?t = "\<lparr>tkind = PublishToken 1, complete = False, token_err = None\<rparr>"
  have t: "gm_get (index (mids sample_session)) (MessageID ?m) = Some 5"
    "gm_get (tokens (mids sample_session)) 5 = Some ?t"
    by (simp_all add: sample_session_fields)
  have "\<forall>p \<in> {CP_Puback ?m, CP_Pubcomp ?m}. Qos ?m = 0 \<longrightarrow>
      (\<exists>c'. incoming MemoryStore_ops 9 p sample_session = Some c' \<and>
        gm_get (index (mids c')) = (gm_get (index (mids sample_session)))(MessageID ?m := None) \<and>
        ms_holds (cl_persist c') = (ms_holds (cl_persist sample_session))(outboundKeyFromMID (MessageID ?m) := None))"
    using acknowledgement_ends_exchange [OF sample_session_inv t, of 9] by blast
  then show ?thesis by (auto simp: sample_session_holds new_MidPacket_def zeroHeader_def)
qed

section \<open>Resuming\<close>


definition sample_restart :: "(OrderedMemoryStore, nat) client" where
  "sample_restart = NewClient NewClientOptions
     \<lparr>oms_messages = [(outboundKeyFromMID 1, \<lparr>sm_ts = 3, sm_msg = Some (CP_Publish sample_message)\<rparr>)], oms_opened = True\<rparr>"


text \<open>
  C30. A call can return before its message was acknowledged: when \<open>resume\<close> sends a stored publication
  again, the token the caller of Publish waits on is completed without an error, while the message is
  still stored and a token nobody has waits for its acknowledgement.
\<close>

theorem resume_completes_waiting_call:
  assumes "session_inv ms_ok ms_holds c"
    "ms_holds (cl_persist c) (outboundKeyFromMID mid) = Some (CP_Publish p)"
    "gm_get (index (mids c)) mid = Some a" "gm_get (tokens (mids c)) a = Some t"
  shows "\<exists>c' q. resume_key MemoryStore_ops sub False (outboundKeyFromMID mid) c = Some (c', False) \<and>
    gm_get (tokens (mids c')) a = Some (flowComplete t) \<and>
    ms_holds (cl_persist c') (outboundKeyFromMID mid) = Some (CP_Publish q) \<and>
    same_message (CP_Publish p) (CP_Publish q) \<and> pending (mids c') mid \<and> gm_get (index (mids c')) mid \<noteq> Some a"
proof -
  let ?key = "outboundKeyFromMID mid"
  have inv: "ms_ok (cl_persist c)" "store_wf (ms_holds (cl_persist c))" "mids_ok (mids c)"
    using assms(1) by (simp_all add: session_inv_def)
  have out: "isKeyOutbound ?key = Some True" by simp
  have mid: "MessageID p = mid" using store_wf_direction(1) [OF inv(2) assms(2) out] by simp
  from mem_client.resume_publish_effect [OF inv assms(2) out, of sub]
  obtain c' where c': "resume_publish MemoryStore_ops False ?key p c = Some (c', False)"
      "mem_client.key_effect sub ?key c c'" "taken_over (mids c) mid (mids c')"
    unfolding mid by blast
  have get: "Store_Get MemoryStore_ops (cl_persist c) ?key = Some (cl_persist c, Some (CP_Publish p))"
    using mem_client.get_law [OF inv(1), of ?key] assms(2) by simp
  have run: "resume_key MemoryStore_ops sub False ?key c = Some (c', False)"
    using c'(1) get by (simp add: resume_key_def)
  have tok: "gm_get (tokens (mids c')) a = Some (flowComplete t)"
    using c'(3) assms(3,4) by (simp add: taken_over_def)
  have pend: "pending (mids c') mid" using c'(2) assms(2) out unfolding mid [symmetric] mem_client.key_effect_def by blast
  have "flowComplete t \<noteq> \<lparr>tkind = PublishToken mid, complete = False, token_err = None\<rparr>"
    by (cases t) (auto simp: flowComplete_def base_token_def)
  then have "gm_get (index (mids c')) mid \<noteq> Some a" using pendingD [OF pend, of a] tok by auto
  moreover obtain q where "ms_holds (cl_persist c') ?key = Some (CP_Publish q)" "same_message (CP_Publish p) (CP_Publish q)"
    using c'(2) assms(2) unfolding mem_client.key_effect_def mem_client.after_resume_def by (auto simp: resumable_def)
  ultimately show ?thesis using run tok pend by blast
qed

theorem resume_completes_waiting_call_witness:
  "\<exists>c'. resume_key MemoryStore_ops False False (outboundKeyFromMID 1) sample_session = Some (c', False) \<and>
    gm_get (tokens (mids c')) 5 = Some \<lparr>tkind = PublishToken 1, complete = True, token_err = None\<rparr> \<and>
    ms_holds (cl_persist c') (outboundKeyFromMID 1) \<noteq> None"
proof -
  let ?t = "\<lparr>tkind = PublishToken 1, complete = False, token_err = None\<rparr>"
  have "ms_holds (cl_persist sample_session) (outboundKeyFromMID 1) = Some (CP_Publish sample_message)"
    "gm_get (index (mids sample_session)) 1 = Some 5" "gm_get (tokens (mids sample_session)) 5 = Some ?t"
    by (simp add: sample_session_holds, simp_all add: sample_session_fields)
  from resume_completes_waiting_call [OF sample_session_inv this, of False] show ?thesis
    by (auto simp: flowComplete_def base_token_def)
qed

section \<open>Restarts\<close>

lemma reserve_loop_claims:
  assumes "ms_ok (cl_persist c)" "mids_ok (mids c)" "\<forall>k \<in> set keys. mIDFromKey k \<noteq> None"
  shows "\<exists>c'. reserve_loop MemoryStore_ops keys c = Some c' \<and> mids_ok (mids c') \<and> cl_persist c' = cl_persist c \<and>
    cl_options c' = cl_options c \<and> cl_status c' = cl_status c \<and> jobs c' = jobs c \<and>
    used_ids (mids c') = used_ids (mids c) \<union>
      {MessageID p | p k. k \<in> set keys \<and> ms_holds (cl_persist c) k = Some (CP_Publish p)}"
  using assms
proof (induction keys arbitrary: c)
  case Nil
  then show ?case by simp
next
  case (Cons key keys)
  have get: "Store_Get MemoryStore_ops (cl_persist c) key = Some (cl_persist c, ms_holds (cl_persist c) key)"
    using mem_client.get_law [OF Cons.prems(1), of key] Cons.prems(3) by simp
  show ?case
  proof (cases "\<exists>p. ms_holds (cl_persist c) key = Some (CP_Publish p)")
    case True
    then obtain p where p: "ms_holds (cl_persist c) key = Some (CP_Publish p)" by blast
    let ?a = "new_ptr (tokens (mids c))"
    let ?t = "\<lparr>tkind = PlaceHolderToken (MessageID p), complete = False, token_err = None\<rparr>"
    let ?m = "(mids c)\<lparr>tokens := gm_put ?a ?t (tokens (mids c))\<rparr>"
    let ?c = "c\<lparr>mids := claimID ?m ?a (MessageID p)\<rparr>"
    have s: "same_ids (mids c) ?m" using alloc_same_ids [OF Cons.prems(2) new_ptr_fresh] .
    then have ok: "mids_ok ?m" using Cons.prems(2) by (simp add: same_ids_def)
    have t: "gm_get (tokens ?m) ?a = Some ?t" by simp
    have ids: "used_ids (mids ?c) = insert (MessageID p) (used_ids (mids c))" "mids_ok (mids ?c)"
      using claimID_mids [OF ok t, of "MessageID p"] s by (simp_all add: same_ids_def)
    have "reserve_loop MemoryStore_ops (key # keys) c = reserve_loop MemoryStore_ops keys ?c"
      using get p by (simp add: on_mids_def Let_def)
    then show ?thesis using Cons.IH [of ?c] Cons.prems ids p by (auto 0 4)
  next
    case False
    then have "reserve_loop MemoryStore_ops (key # keys) c = reserve_loop MemoryStore_ops keys c"
      using get by (simp split: option.split ControlPacket.split)
    moreover have "{MessageID p | p k. k \<in> set (key # keys) \<and> ms_holds (cl_persist c) k = Some (CP_Publish p)} =
        {MessageID p | p k. k \<in> set keys \<and> ms_holds (cl_persist c) k = Some (CP_Publish p)}" using False by auto
    ultimately show ?thesis using Cons.IH [of c] Cons.prems by simp
  qed
qed


text \<open>
  A program that restarts with \<open>ConnectRetry\<close> set and keeps its session can publish while the
  connection is not yet up: Connect takes the identifiers of all stored publications out of use
  before it returns, so that none of them is given to a new message.
\<close>

theorem connect_reserves_ids:
  assumes "ms_ok (MemoryStore_Open (cl_persist c))" "store_wf (ms_holds (MemoryStore_Open (cl_persist c)))"
    "mids_ok (mids c)" "o_ConnectRetry (cl_options c)" "\<not> o_CleanSession (cl_options c)"
    "cl_status c = cs_disconnected"
  shows "\<exists>c' t. Client_Connect MemoryStore_ops c = Some (c', t) \<and> cl_status c' = cs_connecting \<and>
    cl_persist c' = MemoryStore_Open (cl_persist c) \<and> mids_ok (mids c') \<and> used_ids (mids c) \<subseteq> used_ids (mids c') \<and>
    (\<forall>mid p. ms_holds (cl_persist c') (outboundKeyFromMID mid) = Some (CP_Publish p) \<longrightarrow>
       mid \<in> used_ids (mids c'))"
proof -
  obtain c0 t where al: "alloc_token Connect c = (c0, t)" by fastforce
  let ?s = "MemoryStore_Open (cl_persist c)"
  let ?c1 = "c0\<lparr>cl_persist := ?s\<rparr>"
  have c0: "c0 = c\<lparr>mids := (mids c)\<lparr>tokens := gm_put t (the (newToken Connect)) (tokens (mids c))\<rparr>\<rparr>"
    "t = new_ptr (tokens (mids c))" using al by (auto simp: alloc_token_def Let_def)
  have same: "same_ids (mids c) (mids c0)" using alloc_same_ids [OF assms(3) new_ptr_fresh] by (simp add: c0)
  then have ids: "mids_ok (mids c0)" "used_ids (mids c0) = used_ids (mids c)" using assms(3) by (simp_all add: same_ids_def)
  have all: "set (MemoryStore_All ?s) = dom (ms_holds ?s)"
    using mem_store.all_law [OF assms(1)] by simp
  then have keys: "\<forall>k \<in> set (MemoryStore_All ?s). mIDFromKey k \<noteq> None"
    using store_wf_key [OF assms(2)] by (auto simp: domIff)
  have pre: "ms_ok (cl_persist ?c1)" "mids_ok (mids ?c1)" using assms(1) ids(1) by simp_all
  obtain c2 where c2: "reserve_loop MemoryStore_ops (MemoryStore_All ?s) ?c1 = Some c2" "mids_ok (mids c2)"
      "cl_persist c2 = ?s" "used_ids (mids c2) = used_ids (mids c) \<union>
        {MessageID p | p k. k \<in> dom (ms_holds ?s) \<and> ms_holds ?s k = Some (CP_Publish p)}"
    using reserve_loop_claims [OF pre keys] all ids(2) by auto
  have "Client_Connect MemoryStore_ops c = Some (spawn (ConnectStart t) (setConnected cs_connecting c2), t)"
    using assms(4-6) c2(1)
    by (simp add: Client_Connect_def al reserveStoredPublishIDs_def c0 MemoryStore_ops_def)
  moreover have "mid \<in> used_ids (mids c2)" if "ms_holds ?s (outboundKeyFromMID mid) = Some (CP_Publish p)" for mid p
  proof -
    have "MessageID p = mid" using store_wf_direction(1) [OF assms(2) that] by simp
    then show ?thesis using that unfolding c2(4) by blast
  qed
  ultimately show ?thesis using c2 by (auto simp: spawn_def setConnected_def)
qed

definition sample_stored :: MemoryStore where
  "sample_stored = \<lparr>ms_messages = [(outboundKeyFromMID 1, Some (CP_Publish sample_message))], ms_opened = False\<rparr>"

theorem connect_reserves_ids_witness:
  "\<exists>c' t. Client_Connect MemoryStore_ops (NewClient (sample_options\<lparr>o_ConnectRetry := True\<rparr>) sample_stored) = Some (c', t) \<and>
    1 \<in> used_ids (mids c')"
proof -
  let ?c = "NewClient (sample_options\<lparr>o_ConnectRetry := True\<rparr>) sample_stored"
  have c: "cl_persist ?c = sample_stored" "mids ?c = \<lparr>index = [], lastIssuedID = 0, tokens = []\<rparr>"
    "o_ConnectRetry (cl_options ?c)" "\<not> o_CleanSession (cl_options ?c)" "cl_status ?c = cs_disconnected"
    by (simp_all add: NewClient_def sample_options_def)
  have h: "ms_holds (MemoryStore_Open sample_stored) = [outboundKeyFromMID 1 \<mapsto> CP_Publish sample_message]"
    by (auto simp: ms_holds_def MemoryStore_Open_def sample_stored_def)
  have "ms_ok (MemoryStore_Open (cl_persist ?c))" unfolding c by (simp add: ms_ok_def MemoryStore_Open_def sample_stored_def)
  moreover have "store_wf (ms_holds (MemoryStore_Open (cl_persist ?c)))" unfolding c h by (simp add: store_wf_def)
  moreover have "mids_ok (mids ?c)" unfolding c by (simp add: mids_ok_def)
  ultimately obtain c' t where "Client_Connect MemoryStore_ops ?c = Some (c', t)"
      "cl_persist c' = MemoryStore_Open sample_stored"
      "\<forall>mid p. ms_holds (cl_persist c') (outboundKeyFromMID mid) = Some (CP_Publish p) \<longrightarrow> mid \<in> used_ids (mids c')"
    using connect_reserves_ids [of ?c] c by auto
  then show ?thesis using h by fastforce
qed

lemma attemptConnection_options:
  assumes "attemptConnection net i opt = (a, opt')"
  shows "\<exists>v e. opt' = opt\<lparr>o_ProtocolVersion := v, o_protocolVersionExplicit := e\<rparr>"
proof -
  have "opt' = opt \<or> (\<exists>v. opt' = opt\<lparr>o_ProtocolVersion := v, o_protocolVersionExplicit := True\<rparr>)"
    using assms unfolding attemptConnection_def Let_def by (auto split: if_splits)
  moreover have "opt = opt\<lparr>o_ProtocolVersion := o_ProtocolVersion opt, o_protocolVersionExplicit := o_protocolVersionExplicit opt\<rparr>"
    by simp
  ultimately show ?thesis by blast
qed

lemma assign_first:
  assumes "index (mids c) = []" "lastIssuedID (mids c) = 0"
  shows "\<exists>m. assign_id t c = Some (c\<lparr>mids := m\<rparr>, 1)"
proof -
  have "getID_loop [] 0 False 0 = 1" by (subst getID_loop_step) simp
  then show ?thesis using assms by (auto simp: assign_id_def getID_def upd_token_def Let_def)
qed

context client_store
begin

lemma first_connection:
  assumes "o_Servers opt \<noteq> []" "\<not> o_ConnectRetry opt" "o_KeepAlive opt = 0 \<or> keepalive_interval opt > 0"
    "attemptConnection net 0 (cl_options (NewClient opt s)) = (a, opt')" "a_err a = None" "a_rc a = Accepted" "a_conn a \<noteq> None"
  shows "\<exists>c1 tk. client_steps S net acks [(now, CallConnect), (now, JobStep 0 False), (now, JobStep 0 False)]
      (NewClient opt s :: ('s, 'h) client) c1 \<and>
    IsConnectionOpen c1 \<and> jobs c1 = [ConnectUp tk] \<and> cl_persist c1 = Store_Open S s \<and>
    index (mids c1) = [] \<and> lastIssuedID (mids c1) = 0"
proof -
  let ?c = "NewClient opt s :: ('s, 'h) client"
  let ?opt = "cl_options ?c"
  obtain c0 t where al: "alloc_token Connect ?c = (c0, t)" by fastforce
  have n: "o_Servers ?opt = o_Servers opt" "o_ConnectRetry ?opt = o_ConnectRetry opt" "o_KeepAlive ?opt = o_KeepAlive opt"
    "keepalive_interval ?opt = keepalive_interval opt" "attempts ?c = 0" "jobs ?c = []" "cl_conn ?c = None"
    "cl_persist ?c = s" "index (mids ?c) = []" "lastIssuedID (mids ?c) = 0"
    by (simp_all add: NewClient_def keepalive_interval_def Let_def)
  have c0: "c0 = ?c\<lparr>mids := (mids ?c)\<lparr>tokens := gm_put t (the (newToken Connect)) (tokens (mids ?c))\<rparr>\<rparr>"
    using al by (auto simp: alloc_token_def Let_def)
  obtain v e where opt': "opt' = ?opt\<lparr>o_ProtocolVersion := v, o_protocolVersionExplicit := e\<rparr>"
    using attemptConnection_options [OF assms(4)] by blast
  define d1 where "d1 = spawn (ConnectStart t) (setConnected cs_connecting (c0\<lparr>cl_persist := Store_Open S s\<rparr>))"
  have s1: "client_step S net acks (now, CallConnect) ?c d1"
    by (rule Connecting [where t = t]) (simp add: Client_Connect_def al n assms(2) c0 d1_def)
  have d1: "jobs d1 = [ConnectStart t]" by (simp add: d1_def spawn_def setConnected_def c0 n)
  define d2 where "d2 = d1\<lparr>jobs := [ConnectTry t]\<rparr>"
  have s2: "client_step S net acks (now, JobStep 0 False) d1 d2"
    by (rule Running) (simp_all add: d1 remove_at_def d1_def d2_def spawn_def setConnected_def c0 n assms(1))
  define d3 where "d3 = (upd_token (set_sessionPresent (a_session a)) t (d2\<lparr>jobs := [], cl_options := opt', attempts := a_next a\<rparr>))"
  have d3: "cl_conn d3 = None" "cl_options d3 = opt'" "jobs d3 = []" "cl_persist d3 = Store_Open S s"
    "index (mids d3) = []" "lastIssuedID (mids d3) = 0"
    by (simp_all add: d3_def upd_token_def d2_def d1_def spawn_def setConnected_def c0 n)
  have try_c: "try_connect net (d2\<lparr>jobs := []\<rparr>) = (a, d2\<lparr>jobs := [], cl_options := opt', attempts := a_next a\<rparr>)"
    using assms(4) by (simp add: try_connect_def d2_def d1_def spawn_def setConnected_def c0 n)
  obtain d4 where d4: "startCommsWorkers now (a_conn a) False d3 = Some (d4, True)" "IsConnectionOpen d4" "jobs d4 = []"
      "cl_persist d4 = Store_Open S s" "index (mids d4) = []" "lastIssuedID (mids d4) = 0"
    using startCommsWorkers_up [of d3 "a_conn a" now False] assms(3,7) d3 n by (auto simp: opt' IsConnectionOpen_def)
  have job2: "jobs d2 = [ConnectTry t]" by (simp add: d2_def)
  have s3: "client_step S net acks (now, JobStep 0 False) d2 (spawn (ConnectUp t) d4)"
    by (rule Running) (simp_all add: job2 remove_at_def try_c assms(5,6) d3_def [symmetric] d4(1))
  have "client_steps S net acks [(now, CallConnect), (now, JobStep 0 False), (now, JobStep 0 False)] ?c (spawn (ConnectUp t) d4)"
    using s1 s2 s3 by (blast intro: client_steps.intros)
  then show ?thesis using d4 by (auto simp: spawn_def IsConnectionOpen_def)
qed

lemma publish_first:
  fixes c :: "('s, 'h) client"
  assumes "ok (cl_persist c)" "IsConnectionOpen c" "index (mids c) = []" "lastIssuedID (mids c) = 0"
    "storable (publish_packet topic 1 retained bs 1)"
  shows "\<exists>c' t. Client_Publish S now c topic 1 retained (PayloadBytes bs) = Some (c', t) \<and>
    holds (cl_persist c') = (holds (cl_persist c))
      (outboundKeyFromMID 1 \<mapsto> read_back (publish_packet topic 1 retained bs 1))"
proof -
  let ?p = "publish_packet topic 1 retained bs 1"
  obtain c0 t where al: "alloc_token Publish c = (c0, t)" by fastforce
  have c0: "c0 = c\<lparr>mids := (mids c)\<lparr>tokens := gm_put t (the (newToken Publish)) (tokens (mids c))\<rparr>\<rparr>"
    using al by (auto simp: alloc_token_def Let_def)
  then have p0: "cl_persist c0 = cl_persist c" by simp
  obtain m where m: "assign_id t c0 = Some (c0\<lparr>mids := m\<rparr>, 1)" using assign_first [of c0 t] assms(3,4) c0 by auto
  obtain s where s: "persistOutbound (Store_Put S now) (Store_Del S) (cl_persist c) ?p = Some s"
    "holds s = (holds (cl_persist c))(outboundKeyFromMID 1 \<mapsto> read_back ?p)"
    using outbound_effect [OF assms(1,5), of now] by (auto simp: publish_packet_def)
  have "Client_Publish S now c topic 1 retained (PayloadBytes bs) =
      Some (send_or_keep now (SendPublish ?p t) (c0\<lparr>mids := m, cl_persist := s\<rparr>), t)"
    using assms(2) s(1) p0 by (simp add: Client_Publish_def al m persist_sent_def IsConnected_def IsConnectionOpen_def)
  then show ?thesis using s(2) by (simp add: send_or_keep_def)
qed

end

text \<open>
  C29. Without \<open>ConnectRetry\<close> the identifiers of stored messages are not reserved: in a program that
  restarts on the directory of its file store, a publication made as soon as the client counts as
  connected and before \<open>resume\<close> has read the store gets identifier 1 and replaces the message stored
  under it, which is then never sent.
\<close>

theorem publish_before_resume_overwrites:
  fixes opt :: "'h ClientOptions"
  assumes "fs_ok (FileStore_Open cwd s)" "packet_wf (publish_packet topic 1 retained bs 1)"
    "o_Servers opt \<noteq> []" "\<not> o_ConnectRetry opt" "o_KeepAlive opt = 0 \<or> keepalive_interval opt > 0"
    "attemptConnection net 0 (cl_options (NewClient opt s)) = (a, opt')" "a_err a = None" "a_rc a = Accepted"
    "a_conn a \<noteq> None"
  shows "\<exists>c1 c2 tk t. client_steps (FileStore_ops cwd) net acks
      [(now, CallConnect), (now, JobStep 0 False), (now, JobStep 0 False)] (NewClient opt s) c1 \<and>
    IsConnectionOpen c1 \<and> jobs c1 = [ConnectUp tk] \<and> fs_holds (cl_persist c1) = fs_holds (FileStore_Open cwd s) \<and>
    Client_Publish (FileStore_ops cwd) now c1 topic 1 retained (PayloadBytes bs) = Some (c2, t) \<and>
    fs_holds (cl_persist c2) = (fs_holds (FileStore_Open cwd s))
      (outboundKeyFromMID 1 \<mapsto> read_from_file (publish_packet topic 1 retained bs 1))"
proof -
  have op: "Store_Open (FileStore_ops cwd) = FileStore_Open cwd" by (simp add: FileStore_ops_def)
  from file_client.first_connection [OF assms(3-9), of cwd acks now]
  obtain c1 :: "(FileStore, 'h) client" and tk where
    c1: "client_steps (FileStore_ops cwd) net acks [(now, CallConnect), (now, JobStep 0 False), (now, JobStep 0 False)]
        (NewClient opt s) c1"
      "IsConnectionOpen c1" "jobs c1 = [ConnectUp tk]" "cl_persist c1 = FileStore_Open cwd s"
      "index (mids c1) = []" "lastIssuedID (mids c1) = 0" unfolding op by blast
  have "fs_ok (cl_persist c1)" using assms(1) c1(4) by simp
  from file_client.publish_first [OF this c1(2,5,6) assms(2), of cwd now] c1 show ?thesis by fastforce
qed

theorem publish_before_resume_overwrites_witness:
  "\<exists>s (c1 :: (FileStore, nat) client) c2 t.
    fs_holds (FileStore_Open ''/tmp'' s) = [outboundKeyFromMID 1 \<mapsto> read_from_file (CP_Publish sample_message)] \<and>
    client_steps (FileStore_ops ''/tmp'') (\<lambda>_. Inr (sample_dialed 0)) (\<lambda>_. False)
      [(0, CallConnect), (0, JobStep 0 False), (0, JobStep 0 False)] (NewClient sample_options s) c1 \<and>
    Client_Publish (FileStore_ops ''/tmp'') 0 c1 ''b'' 1 False (PayloadBytes []) = Some (c2, t) \<and>
    fs_holds (cl_persist c2) = [outboundKeyFromMID 1 \<mapsto> read_from_file (publish_packet ''b'' 1 False [] 1)]"
proof -
  let ?s0 = "FileStore_Open ''/tmp'' (NewFileStore ''d'' [])"
  let ?net = "\<lambda>_. Inr (sample_dialed 0)"
  have wf: "packet_wf (CP_Publish sample_message)" "packet_wf (publish_packet ''b'' 1 False [] 1)"
    by (simp_all add: sample_message_def publish_packet_def new_PublishPacket_def zeroHeader_def)
  have "fs_ok ?s0" "fs_holds ?s0 = Map.empty"
    by (simp_all add: fs_ok_def fs_holds_def FileStore_Open_def NewFileStore_def fun_eq_iff)
  then obtain s where "fs_ok s" "fs_holds s = [outboundKeyFromMID 1 \<mapsto> read_from_file (CP_Publish sample_message)]"
    using file_store.put_law [of ?s0 "CP_Publish sample_message" 0 "outboundKeyFromMID 1"] wf(1) by auto
  then have s: "fs_ok (FileStore_Open ''/tmp'' s)"
      "fs_holds (FileStore_Open ''/tmp'' s) = [outboundKeyFromMID 1 \<mapsto> read_from_file (CP_Publish sample_message)]"
    by (simp_all add: fs_ok_def fs_holds_def FileStore_Open_def fun_eq_iff)
  let ?opt = "cl_options (NewClient sample_options s :: (FileStore, nat) client)"
  obtain a opt' where a: "attemptConnection ?net 0 ?opt = (a, opt')" by fastforce
  have srv: "o_Servers ?opt \<noteq> []" by (simp add: NewClient_def sample_options_def)
  have "accepts ?net j" for j by (simp add: accepts_def verifyCONNACK_sample)
  then have "a_rc a = Accepted" using attempt_result [OF a srv] by simp
  moreover from this have "a_err a = None" "a_conn a \<noteq> None" using attempt_result [OF a srv] by simp_all
  moreover have "o_KeepAlive sample_options = 0 \<or> keepalive_interval sample_options > 0" by (simp add: sample_options_fields)
  moreover have "o_Servers sample_options \<noteq> []" "\<not> o_ConnectRetry sample_options" by (simp_all add: sample_options_fields)
  ultimately obtain c1 c2 t where
    "client_steps (FileStore_ops ''/tmp'') ?net (\<lambda>_. False)
      [(0, CallConnect), (0, JobStep 0 False), (0, JobStep 0 False)] (NewClient sample_options s) c1"
    "Client_Publish (FileStore_ops ''/tmp'') 0 c1 ''b'' 1 False (PayloadBytes []) = Some (c2, t)"
    "fs_holds (cl_persist c2) = (fs_holds (FileStore_Open ''/tmp'' s))
      (outboundKeyFromMID 1 \<mapsto> read_from_file (publish_packet ''b'' 1 False [] 1))"
    using publish_before_resume_overwrites [OF s(1) wf(2) _ _ _ a, of "\<lambda>_. False" 0] by blast
  then show ?thesis using s(2) by (intro exI [of _ s] exI [of _ c1] exI [of _ c2] exI [of _ t]) simp
qed

end
